(* ===== verification/Agent_Prelude.thy ===== *)
theory Agent_Prelude
  imports Main "HOL-Library.Word" "HOL-Library.Sublist" "HOL-Library.AList"
begin

text \<open>
  Shared vocabulary of the development: the collections of rewrite rules the component proofs
  draw on, the names of the model's basic types, Go's time values and the generic facts about
  lists and maps that more than one component uses.
\<close>

named_theorems go_string_simps \<open>evaluation of the string library\<close>
named_theorems table_simps \<open>row operations of the local database\<close>
named_theorems inv_intros \<open>introduction of component invariants\<close>

type_synonym byte = "8 word"
type_synonym u32 = "32 word"
type_synonym u64 = "64 word"

text \<open>
  A Go string is a sequence of bytes. It is a \<^typ>\<open>string\<close> here, whose characters are the
  bytes; the functions of the string library below agree with Go's on every string whose bytes
  are ASCII.
\<close>

type_synonym go_string = string

subsection \<open>Time\<close>

text \<open>
  A \<open>time.Time\<close> is a number of nanoseconds since the Unix epoch; the zero value, on which
  \<open>IsZero\<close> holds, is the first instant of year 1. A \<open>time.Duration\<close> is a signed 64-bit number
  of nanoseconds, and \<open>Time.Sub\<close> saturates at its limits.
\<close>

type_synonym time = int
type_synonym duration = int

definition zero_time :: time where
  "zero_time = -62135596800 * 1000000000"

definition is_zero_time :: "time \<Rightarrow> bool" where
  "is_zero_time t \<longleftrightarrow> t = zero_time"

definition max_duration :: duration where
  "max_duration = 2 ^ 63 - 1"

definition min_duration :: duration where
  "min_duration = - (2 ^ 63)"

definition time_sub :: "time \<Rightarrow> time \<Rightarrow> duration" where
  "time_sub t u = max min_duration (min max_duration (t - u))"

definition second :: duration where
  "second = 1000000000"

definition minute :: duration where
  "minute = 60 * second"

definition hour :: duration where
  "hour = 60 * minute"

text \<open>Signed 64-bit arithmetic: the value of a result that may not fit.\<close>

definition wrap64 :: "int \<Rightarrow> int" where
  "wrap64 i = (i + 2 ^ 63) mod 2 ^ 64 - 2 ^ 63"

lemma wrap64_id: "- (2 ^ 63) \<le> i \<Longrightarrow> i < 2 ^ 63 \<Longrightarrow> wrap64 i = i"
  by (simp add: wrap64_def)

lemma wrap64_range: "- (2 ^ 63) \<le> wrap64 i \<and> wrap64 i < 2 ^ 63"
  using pos_mod_bound [of "2 ^ 64" "i + 2 ^ 63"] pos_mod_sign [of "2 ^ 64" "i + 2 ^ 63"]
  by (simp add: wrap64_def)

lemmas time_unit_defs = second_def minute_def hour_def

lemma time_sub_mono: "t \<le> t' \<Longrightarrow> time_sub t u \<le> time_sub t' u"
  by (auto simp: time_sub_def)

lemma time_sub_less_iff:
  "min_duration < d \<Longrightarrow> d \<le> max_duration \<Longrightarrow> time_sub t u < d \<longleftrightarrow> t - u < d"
  by (auto simp: time_sub_def min_duration_def max_duration_def)

lemma time_sub_greater_iff:
  "min_duration \<le> d \<Longrightarrow> d < max_duration \<Longrightarrow> d < time_sub t u \<longleftrightarrow> d < t - u"
  by (auto simp: time_sub_def min_duration_def max_duration_def)

lemma zero_time_is_zero [simp]: "is_zero_time zero_time"
  by (simp add: is_zero_time_def)

subsection \<open>Lists\<close>

lemma filter_eq_self_iff: "filter P xs = xs \<longleftrightarrow> (\<forall>x\<in>set xs. P x)"
  by (simp add: filter_id_conv)

lemma distinct_map_filter: "distinct (map f xs) \<Longrightarrow> distinct (map f (filter P xs))"
  by (induction xs) auto

lemma list_all_update:
  "list_all P xs \<Longrightarrow> P y \<Longrightarrow> list_all P (xs[i := y])"
  by (auto simp: list_all_iff dest: set_update_subset_insert [THEN subsetD])

lemma in_map_filter: "y \<in> set (List.map_filter f xs) \<longleftrightarrow> (\<exists>x\<in>set xs. f x = Some y)"
  by (induction xs) (auto simp: List.map_filter_simps split: option.splits)

text \<open>An update of an absent key appends.\<close>

lemma update_fresh: "k \<notin> fst ` set xs \<Longrightarrow> AList.update k v xs = xs @ [(k, v)]"
  by (induction xs) auto

subsection \<open>Files\<close>

text \<open>
  \<open>os.WriteFile\<close> empties the file it opens and then writes. It may fail to open the file, which leaves
  what was there, or fail after some of the bytes, which leaves those. A process that dies in the
  middle of the call leaves the same as a write that failed there.
\<close>

datatype write_outcome = Wrote | NotOpened go_string | CutShort go_string nat

text \<open>The files by their paths after a write, and the error returned.\<close>

definition WriteFile ::
  "write_outcome \<Rightarrow> 'k \<Rightarrow> 'a list \<Rightarrow> ('k \<times> 'a list) list \<Rightarrow> ('k \<times> 'a list) list \<times> go_string option" where
  "WriteFile w p dat files =
     (case w of
        Wrote \<Rightarrow> (AList.update p dat files, None)
      | NotOpened err \<Rightarrow> (files, Some err)
      | CutShort err n \<Rightarrow> (AList.update p (take n dat) files, Some err))"

lemma WriteFile_other: "q \<noteq> p \<Longrightarrow> map_of (fst (WriteFile w p dat files)) q = map_of files q"
  by (simp add: WriteFile_def update_conv' split: write_outcome.split)

lemma WriteFile_Wrote [simp]: "WriteFile Wrote p dat files = (AList.update p dat files, None)"
  by (simp add: WriteFile_def)

lemma WriteFile_failed:
  "snd (WriteFile w p dat files) = Some err \<Longrightarrow>
     map_of (fst (WriteFile w p dat files)) p = map_of files p \<or>
     (\<exists>n. map_of (fst (WriteFile w p dat files)) p = Some (take n dat))"
  by (auto simp: WriteFile_def update_conv' split: write_outcome.splits)

subsection \<open>Step relations\<close>

text \<open>
  What the components' transition systems share: an invariant every step keeps holds wherever
  steps lead, and if each step is one step of a specification, or none as seen through \<open>abs\<close>, then
  every run is a run of the specification.
\<close>

locale step_invariant =
  fixes step :: "'s \<Rightarrow> 's \<Rightarrow> bool" and inv :: "'s \<Rightarrow> bool"
  assumes inv_step: "inv s \<Longrightarrow> step s s' \<Longrightarrow> inv s'"
begin

lemma inv_reach: "step\<^sup>*\<^sup>* s s' \<Longrightarrow> inv s \<Longrightarrow> inv s'"
  by (induction rule: rtranclp_induct) (auto intro: inv_step)

end

locale step_simulation = step_invariant step inv
  for step :: "'s \<Rightarrow> 's \<Rightarrow> bool" and inv :: "'s \<Rightarrow> bool" +
  fixes spec :: "'a \<Rightarrow> 'a \<Rightarrow> bool" and abs :: "'s \<Rightarrow> 'a"
  assumes sim_step: "inv s \<Longrightarrow> step s s' \<Longrightarrow> spec\<^sup>=\<^sup>= (abs s) (abs s')"
begin

lemma sim_reach: "step\<^sup>*\<^sup>* s s' \<Longrightarrow> inv s \<Longrightarrow> spec\<^sup>*\<^sup>* (abs s) (abs s')"
proof (induction rule: rtranclp_induct)
  case (step y z)
  then have "spec\<^sup>=\<^sup>= (abs y) (abs z)" using sim_step inv_reach by blast
  with step show ?case by (auto intro: rtranclp.rtrancl_into_rtrancl)
qed simp

end

end
