(* ===== verification/Go_Strings.thy ===== *)
theory Go_Strings
  imports Agent_Prelude
begin

text \<open>
  The parts of Go's \<open>strings\<close>, \<open>strconv\<close> and \<open>path/filepath\<close> packages that the agent uses, as
  executable functions on byte strings, and their laws: trimming, case folding, field splitting,
  decimal printing and parsing, and the slash-separated path functions (the Unix build).
\<close>

subsection \<open>Characters\<close>

definition is_space :: "char \<Rightarrow> bool" where
  "is_space c \<longleftrightarrow> c \<in> {CHR 0x09, CHR 0x0A, CHR 0x0B, CHR 0x0C, CHR 0x0D, CHR '' ''}"

definition is_upper :: "char \<Rightarrow> bool" where
  "is_upper c \<longleftrightarrow> 65 \<le> (of_char c :: nat) \<and> (of_char c :: nat) \<le> 90"

definition lower_char :: "char \<Rightarrow> char" where
  "lower_char c = (if is_upper c then char_of ((of_char c :: nat) + 32) else c)"

definition upper_char :: "char \<Rightarrow> char" where
  "upper_char c =
     (if 97 \<le> (of_char c :: nat) \<and> (of_char c :: nat) \<le> 122
      then char_of ((of_char c :: nat) - 32) else c)"

subsection \<open>The strings package\<close>

definition to_lower :: "go_string \<Rightarrow> go_string" where
  "to_lower s = map lower_char s"

definition to_upper :: "go_string \<Rightarrow> go_string" where
  "to_upper s = map upper_char s"

definition trim_left :: "(char \<Rightarrow> bool) \<Rightarrow> go_string \<Rightarrow> go_string" where
  "trim_left p s = dropWhile p s"

definition trim_right :: "(char \<Rightarrow> bool) \<Rightarrow> go_string \<Rightarrow> go_string" where
  "trim_right p s = rev (dropWhile p (rev s))"

definition trim_func :: "(char \<Rightarrow> bool) \<Rightarrow> go_string \<Rightarrow> go_string" where
  "trim_func p s = trim_right p (trim_left p s)"

definition trim_space :: "go_string \<Rightarrow> go_string" where
  "trim_space s = trim_func is_space s"

definition has_prefix :: "go_string \<Rightarrow> go_string \<Rightarrow> bool" where
  "has_prefix s p \<longleftrightarrow> take (length p) s = p"

definition has_suffix :: "go_string \<Rightarrow> go_string \<Rightarrow> bool" where
  "has_suffix s p \<longleftrightarrow> has_prefix (rev s) (rev p)"

definition trim_prefix :: "go_string \<Rightarrow> go_string \<Rightarrow> go_string" where
  "trim_prefix s p = (if has_prefix s p then drop (length p) s else s)"

definition trim_suffix :: "go_string \<Rightarrow> go_string \<Rightarrow> go_string" where
  "trim_suffix s p = (if has_suffix s p then take (length s - length p) s else s)"

fun contains :: "go_string \<Rightarrow> go_string \<Rightarrow> bool" where
  "contains [] p = (p = [])"
| "contains (c # s) p = (has_prefix (c # s) p \<or> contains s p)"

definition contains_any :: "go_string \<Rightarrow> go_string \<Rightarrow> bool" where
  "contains_any s cs \<longleftrightarrow> list_ex (\<lambda>c. c \<in> set cs) s"

definition equal_fold :: "go_string \<Rightarrow> go_string \<Rightarrow> bool" where
  "equal_fold s t \<longleftrightarrow> to_lower s = to_lower t"

text \<open>\<open>strings.FieldsFunc\<close>: maximal runs of characters on which the separator test fails.\<close>

fun fields_aux :: "(char \<Rightarrow> bool) \<Rightarrow> go_string \<Rightarrow> go_string \<Rightarrow> go_string list" where
  "fields_aux p acc [] = (if acc = [] then [] else [rev acc])"
| "fields_aux p acc (c # s) =
     (if p c then (if acc = [] then fields_aux p [] s else rev acc # fields_aux p [] s)
      else fields_aux p (c # acc) s)"

definition fields_func :: "(char \<Rightarrow> bool) \<Rightarrow> go_string \<Rightarrow> go_string list" where
  "fields_func p s = fields_aux p [] s"

text \<open>\<open>strings.Split\<close> on a one-byte separator.\<close>

fun split_aux :: "char \<Rightarrow> go_string \<Rightarrow> go_string \<Rightarrow> go_string list" where
  "split_aux d acc [] = [rev acc]"
| "split_aux d acc (c # s) =
     (if c = d then rev acc # split_aux d [] s else split_aux d (c # acc) s)"

definition split_char :: "char \<Rightarrow> go_string \<Rightarrow> go_string list" where
  "split_char d s = split_aux d [] s"

fun join :: "go_string \<Rightarrow> go_string list \<Rightarrow> go_string" where
  "join sep [] = []"
| "join sep [x] = x"
| "join sep (x # y # ys) = x @ sep @ join sep (y # ys)"

text \<open>\<open>strings.Index\<close> of a one-byte string: the text before and after its first occurrence.\<close>

fun cut_at :: "char \<Rightarrow> go_string \<Rightarrow> (go_string \<times> go_string) option" where
  "cut_at d [] = None"
| "cut_at d (c # s) =
     (if c = d then Some ([], s)
      else (case cut_at d s of None \<Rightarrow> None | Some (a, b) \<Rightarrow> Some (c # a, b)))"

subsection \<open>Decimal numbers\<close>

definition digit_char :: "nat \<Rightarrow> char" where
  "digit_char d = char_of (48 + d)"

definition char_digit :: "char \<Rightarrow> nat option" where
  "char_digit c =
     (let n = of_char c :: nat in if 48 \<le> n \<and> n \<le> 57 then Some (n - 48) else None)"

fun nat_str :: "nat \<Rightarrow> go_string" where
  "nat_str n = (if n < 10 then [digit_char n] else nat_str (n div 10) @ [digit_char (n mod 10)])"

declare nat_str.simps [simp del]

definition int_str :: "int \<Rightarrow> go_string" where
  "int_str i = (if i < 0 then CHR ''-'' # nat_str (nat (- i)) else nat_str (nat i))"

definition pad_left :: "nat \<Rightarrow> char \<Rightarrow> go_string \<Rightarrow> go_string" where
  "pad_left w c s = replicate (w - length s) c @ s"

fun digits_val :: "nat \<Rightarrow> go_string \<Rightarrow> nat option" where
  "digits_val acc [] = Some acc"
| "digits_val acc (c # s) =
     (case char_digit c of None \<Rightarrow> None | Some d \<Rightarrow> digits_val (acc * 10 + d) s)"

text \<open>
  \<open>strconv.Atoi\<close> and \<open>strconv.ParseInt(s, 10, 64)\<close>: an optional sign, at least one digit,
  nothing else, and the value within 64 bits.
\<close>

definition parse_int :: "go_string \<Rightarrow> int option" where
  "parse_int s =
     (let (neg, ds) = (case s of
          [] \<Rightarrow> (False, [])
        | c # cs \<Rightarrow> if c = CHR ''-'' then (True, cs) else if c = CHR ''+'' then (False, cs)
                   else (False, s))
      in if ds = [] then None
         else case digits_val 0 ds of
             None \<Rightarrow> None
           | Some n \<Rightarrow>
               (let v = (if neg then - int n else int n)
                in if - (2 ^ 63) \<le> v \<and> v < 2 ^ 63 then Some v else None))"

subsection \<open>Slash-separated paths\<close>

definition slash :: char where
  "slash = CHR ''/''"

text \<open>
  \<open>filepath.Ext\<close>: the suffix from the last dot of the last element, empty when there is none.
\<close>

fun ext_rev :: "go_string \<Rightarrow> go_string \<Rightarrow> go_string" where
  "ext_rev acc [] = []"
| "ext_rev acc (c # s) =
     (if c = slash then [] else if c = CHR ''.'' then c # acc else ext_rev (c # acc) s)"

definition path_ext :: "go_string \<Rightarrow> go_string" where
  "path_ext s = ext_rev [] (rev s)"

text \<open>\<open>filepath.Base\<close>: the last element, after trailing slashes are dropped.\<close>

definition path_base :: "go_string \<Rightarrow> go_string" where
  "path_base s =
     (if s = [] then ''.''
      else let t = trim_right (\<lambda>c. c = slash) s
           in if t = [] then [slash] else rev (takeWhile (\<lambda>c. c \<noteq> slash) (rev t)))"

text \<open>
  \<open>filepath.Clean\<close>: elements are resolved left to right; a dot element vanishes, a dot-dot
  element removes the element before it, and is dropped at the root of an absolute path.
\<close>

fun clean_elems :: "bool \<Rightarrow> go_string list \<Rightarrow> go_string list \<Rightarrow> go_string list" where
  "clean_elems rooted out [] = rev out"
| "clean_elems rooted out (e # es) =
     (if e = [] \<or> e = ''.'' then clean_elems rooted out es
      else if e = ''..'' then
        (case out of
           [] \<Rightarrow> if rooted then clean_elems rooted [] es else clean_elems rooted [e] es
         | o1 # out' \<Rightarrow> if o1 = ''..'' then clean_elems rooted (e # out) es
                       else clean_elems rooted out' es)
      else clean_elems rooted (e # out) es)"

definition is_abs :: "go_string \<Rightarrow> bool" where
  "is_abs s \<longleftrightarrow> has_prefix s [slash]"

definition path_clean :: "go_string \<Rightarrow> go_string" where
  "path_clean s =
     (let rooted = is_abs s;
          body = join [slash] (clean_elems rooted [] (split_char slash s))
      in if rooted then slash # body else if body = [] then ''.'' else body)"

definition path_dir :: "go_string \<Rightarrow> go_string" where
  "path_dir s = path_clean (rev (dropWhile (\<lambda>c. c \<noteq> slash) (rev s)))"

definition path_join :: "go_string list \<Rightarrow> go_string" where
  "path_join es =
     (let ne = filter (\<lambda>e. e \<noteq> []) es in if ne = [] then [] else path_clean (join [slash] ne))"

subsection \<open>Laws of trimming and case folding\<close>

lemma rev_trim_right: "rev (trim_right p s) = dropWhile p (rev s)"
  by (simp add: trim_right_def)

lemma trim_right_Nil [simp]: "trim_right p [] = []"
  by (simp add: trim_right_def)

lemma trim_left_Nil [simp]: "trim_left p [] = []"
  by (simp add: trim_left_def)

lemma trim_right_snoc:
  "trim_right p (s @ [c]) = (if p c then trim_right p s else s @ [c])"
  by (simp add: trim_right_def)

lemma trim_right_Cons:
  "trim_right p (c # s) =
     (if trim_right p s = [] then (if p c then [] else [c]) else c # trim_right p s)"
  by (auto simp: trim_right_def dropWhile_append)

lemma trim_right_hd: "trim_right p s \<noteq> [] \<Longrightarrow> hd (trim_right p s) = hd s"
  by (cases s) (auto simp: trim_right_Cons)

lemma trim_right_last: "trim_right p s \<noteq> [] \<Longrightarrow> \<not> p (last (trim_right p s))"
  by (simp add: trim_right_def last_rev hd_dropWhile)

lemma trim_left_hd: "trim_left p s \<noteq> [] \<Longrightarrow> \<not> p (hd (trim_left p s))"
  by (simp add: trim_left_def hd_dropWhile)

lemma trim_right_id: "s = [] \<or> \<not> p (last s) \<Longrightarrow> trim_right p s = s"
  by (cases s rule: rev_cases) (auto simp: trim_right_snoc)

lemma trim_left_id: "s = [] \<or> \<not> p (hd s) \<Longrightarrow> trim_left p s = s"
  by (cases s) (auto simp: trim_left_def)

definition trimmed_by :: "(char \<Rightarrow> bool) \<Rightarrow> go_string \<Rightarrow> bool" where
  "trimmed_by p s \<longleftrightarrow> s = [] \<or> \<not> p (hd s) \<and> \<not> p (last s)"

lemma trim_func_trimmed: "trimmed_by p (trim_func p s)"
proof (cases "trim_func p s = []")
  case False
  then have ne: "trim_left p s \<noteq> []"
    by (auto simp: trim_func_def)
  have "hd (trim_func p s) = hd (trim_left p s)"
    using False by (simp add: trim_func_def trim_right_hd)
  with ne False show ?thesis
    by (simp add: trimmed_by_def trim_left_hd trim_func_def trim_right_last)
qed (simp add: trimmed_by_def)

lemma trim_func_id: "trimmed_by p s \<Longrightarrow> trim_func p s = s"
  by (auto simp: trimmed_by_def trim_func_def trim_left_id trim_right_id)

lemma trim_func_idem [simp]: "trim_func p (trim_func p s) = trim_func p s"
  by (simp add: trim_func_id trim_func_trimmed)

lemma trim_space_idem [simp, go_string_simps]: "trim_space (trim_space s) = trim_space s"
  by (simp add: trim_space_def)

lemma trim_space_trimmed: "trimmed_by is_space (trim_space s)"
  by (simp add: trim_space_def trim_func_trimmed)

lemma trim_space_id: "trimmed_by is_space s \<Longrightarrow> trim_space s = s"
  by (simp add: trim_space_def trim_func_id)

lemma trim_space_Nil [simp]: "trim_space [] = []"
  by (simp add: trim_space_def trim_func_def)

lemma set_trim_func: "set (trim_func p s) \<subseteq> set s"
  by (auto simp: trim_func_def trim_right_def trim_left_def dest!: set_dropWhileD)

lemma of_char_lower:
  "(of_char (lower_char c) :: nat) =
     (if is_upper c then (of_char c :: nat) + 32 else (of_char c :: nat))"
  by (auto simp: lower_char_def is_upper_def)

lemma not_upper_lower: "\<not> is_upper (lower_char c)"
  by (auto simp: is_upper_def of_char_lower split: if_splits)

lemma lower_char_idem [simp]: "lower_char (lower_char c) = lower_char c"
  using not_upper_lower by (simp add: lower_char_def)

lemma to_lower_idem [simp, go_string_simps]: "to_lower (to_lower s) = to_lower s"
  by (simp add: to_lower_def)

lemma to_lower_Nil_iff [simp]: "to_lower s = [] \<longleftrightarrow> s = []"
  by (simp add: to_lower_def)

lemma length_to_lower [simp]: "length (to_lower s) = length s"
  by (simp add: to_lower_def)

lemma of_char_nat_inject: "(of_char c :: nat) = of_char d \<longleftrightarrow> c = d"
  by simp

lemma is_space_lower [simp]: "is_space (lower_char c) = is_space c"
proof -
  have "is_space c \<longleftrightarrow> (of_char c :: nat) \<in> {9, 10, 11, 12, 13, 32}" for c
    by (cases c) (auto simp: is_space_def)
  then show ?thesis by (auto simp: of_char_lower is_upper_def)
qed

lemma trim_space_to_lower: "trim_space (to_lower s) = to_lower (trim_space s)"
proof -
  have 1: "dropWhile is_space (map lower_char s) = map lower_char (dropWhile is_space s)" for s
    by (induction s) auto
  show ?thesis
    by (simp add: trim_space_def trim_func_def trim_left_def trim_right_def to_lower_def
        1 rev_map)
qed

lemma to_lower_trimmed: "trimmed_by is_space s \<Longrightarrow> trimmed_by is_space (to_lower s)"
  by (auto simp: trimmed_by_def to_lower_def hd_map last_map)

subsection \<open>Laws of splitting and joining\<close>

lemma fields_aux_clean:
  "\<forall>c\<in>set acc. \<not> p c \<Longrightarrow> \<forall>x\<in>set (fields_aux p acc s). x \<noteq> [] \<and> (\<forall>c\<in>set x. \<not> p c)"
proof (induction s arbitrary: acc)
  case (Cons c s)
  show ?case
  proof (cases "p c")
    case True
    with Cons.IH [of "[]"] Cons.prems show ?thesis by auto
  next
    case False
    with Cons.IH [of "c # acc"] Cons.prems show ?thesis by auto
  qed
qed auto

lemma fields_func_clean:
  "x \<in> set (fields_func p s) \<Longrightarrow> x \<noteq> [] \<and> (\<forall>c\<in>set x. \<not> p c)"
  using fields_aux_clean [of "[]" p s] by (simp add: fields_func_def)

lemma fields_aux_word:
  "\<forall>c\<in>set w. \<not> p c \<Longrightarrow> fields_aux p acc (w @ s) = fields_aux p (rev w @ acc) s"
  by (induction w arbitrary: acc) auto

lemma fields_func_join:
  assumes "p d" and "\<forall>x\<in>set xs. x \<noteq> [] \<and> (\<forall>c\<in>set x. \<not> p c)"
  shows "fields_func p (join [d] xs) = xs"
  using assms(2)
proof (induction xs)
  case (Cons x xs)
  show ?case
  proof (cases xs)
    case Nil
    with Cons.prems show ?thesis
      using fields_aux_word [of x p "[]" "[]"] by (simp add: fields_func_def)
  next
    case (Cons y ys)
    with Cons.prems Cons.IH show ?thesis
      using fields_aux_word [of x p "[]" "d # join [d] xs"] assms(1)
      by (simp add: fields_func_def)
  qed
qed (simp add: fields_func_def)

lemma fields_func_no_sep:
  "s \<noteq> [] \<Longrightarrow> \<forall>c\<in>set s. \<not> p c \<Longrightarrow> fields_func p s = [s]"
  using fields_aux_word [of s p "[]" "[]"] by (simp add: fields_func_def)

lemma cut_at_Some: "cut_at d s = Some (a, b) \<Longrightarrow> s = a @ d # b \<and> d \<notin> set a"
  by (induction d s arbitrary: a b rule: cut_at.induct) (auto split: if_splits option.splits)

lemma cut_at_append: "d \<notin> set a \<Longrightarrow> cut_at d (a @ d # b) = Some (a, b)"
  by (induction a) auto

lemma cut_at_None_iff: "cut_at d s = None \<longleftrightarrow> d \<notin> set s"
  by (induction s) (auto split: option.splits)

lemma has_prefix_iff: "has_prefix s p \<longleftrightarrow> (\<exists>r. s = p @ r)"
  by (metis append_eq_conv_conj has_prefix_def)

lemma has_suffix_iff: "has_suffix s p \<longleftrightarrow> (\<exists>r. s = r @ p)"
  by (metis has_suffix_def has_prefix_iff rev_append rev_rev_ident)

lemma trim_suffix_append [simp]: "trim_suffix (s @ p) p = s"
  by (auto simp: trim_suffix_def has_suffix_iff)

lemma trim_prefix_append [simp]: "trim_prefix (p @ s) p = s"
  by (auto simp: trim_prefix_def has_prefix_iff)

lemma contains_iff: "contains s p \<longleftrightarrow> (\<exists>a b. s = a @ p @ b)"
proof (induction s)
  case (Cons c s)
  show ?case
  proof
    assume "contains (c # s) p"
    then show "\<exists>a b. c # s = a @ p @ b"
      using Cons.IH by (metis append_Cons append_Nil contains.simps(2) has_prefix_iff)
  next
    assume "\<exists>a b. c # s = a @ p @ b"
    then obtain a b where ab: "c # s = a @ p @ b" by blast
    show "contains (c # s) p"
    proof (cases a)
      case Nil
      with ab have "has_prefix (c # s) p" by (auto simp: has_prefix_iff)
      then show ?thesis by simp
    next
      case (Cons x a')
      with ab have "s = a' @ p @ b" by simp
      with Cons.IH show ?thesis by auto
    qed
  qed
qed auto

lemma contains_append: "contains s p \<Longrightarrow> contains (a @ s @ b) p"
  by (metis append.assoc contains_iff)

subsection \<open>Printing and parsing decimal numbers\<close>

lemma char_digit_digit_char: "d < 10 \<Longrightarrow> char_digit (digit_char d) = Some d"
  by (simp add: char_digit_def digit_char_def)

lemma digits_val_append:
  "digits_val acc (s @ t) = (case digits_val acc s of None \<Rightarrow> None | Some n \<Rightarrow> digits_val n t)"
  by (induction acc s rule: digits_val.induct) (auto split: option.splits)

lemma digits_val_nat_str: "digits_val 0 (nat_str n) = Some n"
proof (induction n rule: nat_str.induct)
  case (1 n)
  show ?case
  proof (cases "n < 10")
    case True
    then show ?thesis
      by (simp add: nat_str.simps [of n] char_digit_digit_char)
  next
    case False
    with 1 show ?thesis
      by (simp add: nat_str.simps [of n] digits_val_append char_digit_digit_char)
  qed
qed

lemma nat_str_nonempty [simp]: "nat_str n \<noteq> []"
  by (subst nat_str.simps) simp

lemma nat_str_digits: "c \<in> set (nat_str n) \<Longrightarrow> \<exists>d<10. c = digit_char d"
proof (induction n rule: nat_str.induct)
  case (1 n)
  have "\<exists>d<10. digit_char (n mod 10) = digit_char d"
    by (rule exI [of _ "n mod 10"]) simp
  with 1 show ?case
    by (cases "n < 10") (auto simp: nat_str.simps [of n])
qed

lemma digit_char_neq:
  "d < 10 \<Longrightarrow> digit_char d \<noteq> CHR ''-''" "d < 10 \<Longrightarrow> digit_char d \<noteq> CHR ''+''"
  by (auto dest!: char_digit_digit_char simp: char_digit_def)

lemma nat_str_head:
  obtains c cs where "nat_str n = c # cs" and "c \<noteq> CHR ''-''" and "c \<noteq> CHR ''+''"
proof -
  obtain c cs where s: "nat_str n = c # cs" by (cases "nat_str n") auto
  then obtain d where "d < 10" "c = digit_char d" using nat_str_digits [of c n] by auto
  with s that show ?thesis by (metis digit_char_neq)
qed

lemma nat_str_inject [simp]: "nat_str m = nat_str n \<longleftrightarrow> m = n"
  by (metis digits_val_nat_str option.inject)

lemma parse_int_int_str:
  assumes "- (2 ^ 63) \<le> i" and "i < 2 ^ 63"
  shows "parse_int (int_str i) = Some i"
proof (cases "i < 0")
  case True
  with assms show ?thesis
    by (simp add: parse_int_def int_str_def digits_val_nat_str)
next
  case False
  obtain c cs where "nat_str (nat i) = c # cs" "c \<noteq> CHR ''-''" "c \<noteq> CHR ''+''"
    by (rule nat_str_head)
  with False assms show ?thesis
    using digits_val_nat_str [of "nat i"] by (simp add: parse_int_def int_str_def)
qed

lemma parse_int_range: "parse_int s = Some v \<Longrightarrow> - (2 ^ 63) \<le> v \<and> v < 2 ^ 63"
  by (auto simp: parse_int_def Let_def split: if_splits option.splits list.splits prod.splits)

lemma length_pad_left: "length (pad_left w c s) = max w (length s)"
  by (simp add: pad_left_def)

subsection \<open>Laws of paths\<close>

text \<open>A plain element of a path: a name that cleaning leaves alone.\<close>

definition plain_name :: "go_string \<Rightarrow> bool" where
  "plain_name f \<longleftrightarrow> f \<noteq> [] \<and> slash \<notin> set f \<and> f \<noteq> ''.'' \<and> f \<noteq> ''..''"

lemma split_aux_append:
  "split_aux d acc (s @ d # t) = split_aux d acc s @ split_aux d [] t"
  by (induction s arbitrary: acc) auto

lemma split_aux_plain: "d \<notin> set s \<Longrightarrow> split_aux d acc s = [rev acc @ s]"
  by (induction s arbitrary: acc) auto

lemma clean_elems_snoc:
  "e \<noteq> [] \<Longrightarrow> e \<noteq> ''.'' \<Longrightarrow> e \<noteq> ''..'' \<Longrightarrow> clean_elems r out (es @ [e]) = clean_elems r out es @ [e]"
  by (induction r out es rule: clean_elems.induct) (auto split: list.splits)

lemma clean_elems_snoc_empty: "clean_elems r out (es @ [[]]) = clean_elems r out es"
  by (induction r out es rule: clean_elems.induct) (auto split: list.splits)

lemma join_snoc: "join sep (xs @ [x]) = (if xs = [] then x else join sep xs @ sep @ x)"
  by (induction sep xs rule: join.induct) auto

lemma path_base_last:
  assumes "plain_name f" "X = [] \<or> last X = slash"
  shows "path_base (X @ f) = f"
proof -
  have l: "last (X @ f) \<noteq> slash" using assms(1) by (auto simp: plain_name_def dest: last_in_set)
  then have t: "trim_right (\<lambda>c. c = slash) (X @ f) = X @ f" by (intro trim_right_id) simp
  have "takeWhile (\<lambda>c. c \<noteq> slash) (rev (X @ f)) = rev f"
  proof (cases X rule: rev_cases)
    case (snoc ys y)
    then have "rev (X @ f) = rev f @ slash # rev ys" using assms(2) by simp
    moreover have "takeWhile (\<lambda>c. c \<noteq> slash) (rev f @ slash # rev ys) = rev f @ takeWhile (\<lambda>c. c \<noteq> slash) (slash # rev ys)"
      using assms(1) by (intro takeWhile_append2) (auto simp: plain_name_def)
    ultimately show ?thesis by simp
  qed (use assms(1) in \<open>auto simp: plain_name_def takeWhile_eq_all_conv\<close>)
  with t assms(1) show ?thesis by (simp add: path_base_def plain_name_def)
qed

lemma split_last:
  assumes "plain_name f" "Y = [] \<or> last Y = slash"
  shows "\<exists>es. split_char slash (Y @ f) = es @ [f] \<and> split_char slash (Y @ f @ slash # s) = es @ [f] @ split_char slash s"
proof -
  have f: "split_aux slash [] (f @ slash # s) = [f] @ split_char slash s" "split_aux slash [] f = [f]"
    using assms(1) split_aux_append [of slash "[]" f s]
    by (simp_all add: split_char_def split_aux_plain plain_name_def)
  show ?thesis
  proof (cases Y rule: rev_cases)
    case Nil
    with f show ?thesis by (intro exI [of _ "[]"]) (simp add: split_char_def)
  next
    case (snoc Z c)
    then have Y: "Y = Z @ [slash]" using assms(2) by simp
    show ?thesis
      using f split_aux_append [of slash "[]" Z f] split_aux_append [of slash "[]" Z "f @ slash # s"]
      by (intro exI [of _ "split_aux slash [] Z"]) (simp add: Y split_char_def)
  qed
qed

lemma is_abs_append: "s \<noteq> [] \<Longrightarrow> is_abs (s @ t) = is_abs s"
  by (cases s) (auto simp: is_abs_def has_prefix_def)

lemma clean_elems_plain: "plain_name f \<Longrightarrow> clean_elems r out (es @ [f]) = clean_elems r out es @ [f]"
  by (rule clean_elems_snoc) (simp_all add: plain_name_def)

lemma path_cleanI:
  "is_abs s = r \<Longrightarrow> clean_elems r [] (split_char slash s) = cs \<Longrightarrow> join [slash] cs \<noteq> [] \<Longrightarrow>
     path_clean s = (if r then [slash] else []) @ join [slash] cs"
  by (auto simp: path_clean_def Let_def)

lemma path_clean_last:
  assumes "plain_name f" "Y = [] \<or> last Y = slash"
  shows "\<exists>X. path_clean (Y @ f) = X @ f \<and> path_clean (Y @ f @ [slash]) = X @ f \<and>
    (X = [] \<or> last X = slash) \<and> (\<forall>g. plain_name g \<longrightarrow> path_clean (Y @ f @ slash # g) = X @ f @ slash # g)"
proof -
  define r where "r = is_abs (Y @ f)"
  have ne: "Y @ f \<noteq> []" using assms(1) by (simp add: plain_name_def)
  obtain es where es: "\<And>s. split_char slash (Y @ f @ slash # s) = es @ [f] @ split_char slash s"
      "split_char slash (Y @ f) = es @ [f]"
    using split_last [OF assms] by (metis append_same_eq)
  define cs where "cs = clean_elems r [] es"
  let ?root = "if r then [slash] else ([] :: go_string)"
  let ?X = "?root @ (if cs = [] then [] else join [slash] cs @ [slash])"
  have c: "clean_elems r [] (es @ [f]) = cs @ [f]" unfolding cs_def using assms(1) by (rule clean_elems_plain)
  have c': "clean_elems r [] (es @ [f] @ [[]]) = cs @ [f]"
    using c clean_elems_snoc_empty [of r "[]" "es @ [f]"] by simp
  have j: "join [slash] (cs @ [f]) \<noteq> []" using assms(1) by (simp add: join_snoc plain_name_def)
  have "path_clean (Y @ f) = ?X @ f" "path_clean (Y @ f @ [slash]) = ?X @ f"
    using path_cleanI [of "Y @ f" r "cs @ [f]"] path_cleanI [of "Y @ f @ [slash]" r "cs @ [f]"]
      c c' j es(1) [of "[]"] es(2) is_abs_append [OF ne, of "[slash]"]
    by (simp_all add: r_def [symmetric] join_snoc split_char_def)
  moreover have "path_clean (Y @ f @ slash # g) = ?X @ f @ slash # g" if g: "plain_name g" for g
  proof -
    have "split_char slash g = [g]" using g by (simp add: split_char_def split_aux_plain plain_name_def)
    then have s: "split_char slash (Y @ f @ slash # g) = (es @ [f]) @ [g]" using es(1) by simp
    have "clean_elems r [] ((es @ [f]) @ [g]) = (cs @ [f]) @ [g]"
      using clean_elems_plain [OF g, of r "[]" "es @ [f]"] c by simp
    with s have "path_clean (Y @ f @ slash # g) = ?root @ join [slash] ((cs @ [f]) @ [g])"
      using path_cleanI [of "Y @ f @ slash # g" r "(cs @ [f]) @ [g]"] is_abs_append [OF ne, of "slash # g"]
      unfolding join_snoc by (simp add: r_def [symmetric])
    also have "\<dots> = ?X @ f @ slash # g" unfolding join_snoc by simp
    finally show ?thesis .
  qed
  ultimately show ?thesis by (intro exI [of _ ?X]) auto
qed

lemma path_join_last:
  assumes "plain_name f"
  shows "\<exists>X. path_join [d, f] = X @ f \<and> (X = [] \<or> last X = slash)"
proof -
  have "path_join [d, f] = path_clean ((if d = [] then [] else d @ [slash]) @ f)"
    using assms by (simp add: path_join_def plain_name_def)
  with path_clean_last [OF assms, of "if d = [] then [] else d @ [slash]"] show ?thesis by auto
qed

lemma path_base_join: "plain_name f \<Longrightarrow> path_base (path_join [d, f]) = f"
  using path_join_last [of f d] path_base_last by metis

lemma path_dir_join:
  assumes "plain_name g" "plain_name f" "path_join [path_join [d, g], f] = P"
  shows "path_base (path_dir P) = g"
proof -
  obtain X where X: "path_join [d, g] = X @ g" "X = [] \<or> last X = slash"
    using path_join_last [OF assms(1)] by blast
  have g: "g \<noteq> []" using assms(1) by (simp add: plain_name_def)
  have "P = path_clean ((X @ g @ [slash]) @ f)"
    using assms(2,3) X g by (simp add: path_join_def plain_name_def)
  with path_clean_last [OF assms(1) X(2)] assms(2) obtain W where
    P: "P = W @ g @ slash # f" and W: "W = [] \<or> last W = slash" by auto
  have "dropWhile (\<lambda>c. c \<noteq> slash) (rev P) = slash # rev (W @ g)"
    using assms(2) dropWhile_append2 [of "rev f" "\<lambda>c. c \<noteq> slash" "slash # rev g @ rev W"]
    by (force simp: P plain_name_def)
  then have "path_dir P = path_clean (W @ g @ [slash])" by (simp add: path_dir_def)
  with path_clean_last [OF assms(1) W] show ?thesis using path_base_last [OF assms(1)] by metis
qed


lemma int_str_no_slash: "slash \<notin> set (int_str i)"
proof -
  have "slash \<notin> set (nat_str n)" for n
  proof
    assume "slash \<in> set (nat_str n)"
    then obtain d where "d < 10" "slash = digit_char d" using nat_str_digits by blast
    then have "(of_char slash :: nat) = of_char (char_of (48 + d) :: char)" by (simp add: digit_char_def)
    also have "\<dots> = 48 + d" using \<open>d < 10\<close> by (simp add: of_char_of)
    finally have "(of_char slash :: nat) = 48 + d" .
    with \<open>d < 10\<close> show False by (simp add: slash_def)
  qed
  then show ?thesis by (auto simp: int_str_def slash_def)
qed

subsection \<open>Elements of a path\<close>

text \<open>The elements of a path after cleaning.\<close>

definition path_elems :: "go_string \<Rightarrow> go_string list" where
  "path_elems s = clean_elems (is_abs s) [] (split_char slash s)"

text \<open>What cleaning leaves: no empty element, no dot, dot-dot only in front and only in a relative path.\<close>

definition cleaned :: "bool \<Rightarrow> go_string list \<Rightarrow> bool" where
  "cleaned r cs \<longleftrightarrow> [] \<notin> set cs \<and> ''.'' \<notin> set cs \<and> (\<forall>c\<in>set cs. slash \<notin> set c) \<and> (r \<longrightarrow> ''..'' \<notin> set cs) \<and>
     sorted_wrt (\<lambda>c d. d = ''..'' \<longrightarrow> c = ''..'') cs"

lemma cleaned_snoc:
  assumes "cleaned r (rev out)" "e \<noteq> []" "e \<noteq> ''.''" "slash \<notin> set e"
    and "e = ''..'' \<Longrightarrow> \<not> r \<and> set out \<subseteq> {''..''}"
  shows "cleaned r (rev (e # out))"
  using assms by (auto simp: cleaned_def sorted_wrt_append)

lemma cleaned_dots: "cleaned r (rev (''..'' # out)) \<Longrightarrow> set out \<subseteq> {''..''}"
  by (auto simp: cleaned_def sorted_wrt_append)

lemma clean_elems_cleaned:
  assumes "cleaned r (rev out)" "\<forall>e\<in>set es. slash \<notin> set e"
  shows "cleaned r (clean_elems r out es)"
  using assms
proof (induction r out es rule: clean_elems.induct)
  case (2 r out e es)
  have drop: "cleaned r (rev out')" if "out = o1 # out'" for o1 out'
    using "2.prems"(1) that by (auto simp: cleaned_def sorted_wrt_append)
  consider "e = [] \<or> e = ''.''" | (name) "e \<noteq> []" "e \<noteq> ''.''" "e \<noteq> ''..''" | (dots) "e = ''..''" by blast
  then show ?case
  proof cases
    case name
    then have "cleaned r (rev (e # out))" using "2.prems" by (intro cleaned_snoc) auto
    with 2 name show ?thesis by simp
  next
    case dots
    show ?thesis
    proof (cases out)
      case Nil
      have "cleaned r (rev [''..''])" if "\<not> r" using that by (simp add: cleaned_def slash_def)
      with 2 dots Nil show ?thesis by (auto simp: cleaned_def)
    next
      case (Cons o1 out')
      show ?thesis
      proof (cases "o1 = ''..''")
        case True
        have "\<not> r" using "2.prems"(1) Cons True by (auto simp: cleaned_def)
        moreover have "set out' \<subseteq> {''..''}" using cleaned_dots "2.prems"(1) Cons True by blast
        ultimately have "cleaned r (rev (''..'' # out))" using "2.prems" Cons True dots by (intro cleaned_snoc) auto
        with 2 dots Cons True show ?thesis by simp
      next
        case False
        with 2 dots Cons drop [OF Cons] show ?thesis by simp
      qed
    qed
  qed (use 2 in auto)
qed simp

lemma clean_elems_same: "cleaned r (rev out @ cs) \<Longrightarrow> clean_elems r out cs = rev out @ cs"
proof (induction cs arbitrary: out)
  case (Cons c cs)
  have c: "c \<noteq> []" "c \<noteq> ''.''" using Cons.prems by (auto simp: cleaned_def)
  have "clean_elems r (c # out) cs = rev out @ c # cs" using Cons.IH [of "c # out"] Cons.prems by simp
  moreover have "\<not> r \<and> (case out of [] \<Rightarrow> True | o1 # out' \<Rightarrow> o1 = ''..'')" if "c = ''..''"
    using Cons.prems that by (auto simp: cleaned_def sorted_wrt_append split: list.split)
  ultimately show ?case using c by (auto split: list.split)
qed simp

lemma split_join_elems:
  assumes "cs \<noteq> []" "\<forall>c\<in>set cs. d \<notin> set c"
  shows "split_char d (join [d] cs) = cs"
  using assms
proof (induction cs rule: induct_list012)
  case (3 x y zs)
  have "split_char d (x @ d # join [d] (y # zs)) = split_aux d [] x @ split_char d (join [d] (y # zs))"
    by (simp add: split_char_def split_aux_append)
  with 3 show ?case by (simp add: split_aux_plain)
qed (simp_all add: split_char_def split_aux_plain)

lemma split_char_elems: "\<forall>e\<in>set (split_char d s). d \<notin> set e"
proof -
  have "d \<notin> set acc \<Longrightarrow> \<forall>e\<in>set (split_aux d acc s). d \<notin> set e" for acc
  proof (induction s arbitrary: acc)
    case (Cons c s)
    then show ?case by (metis (no_types, lifting) Cons.IH empty_iff empty_set set_ConsD set_rev split_aux.simps(2))
  qed simp
  from this [of "[]"] show ?thesis by (simp add: split_char_def)
qed

lemma path_elems_cleaned: "cleaned (is_abs s) (path_elems s)"
  unfolding path_elems_def by (intro clean_elems_cleaned split_char_elems) (simp add: cleaned_def)

lemma path_elems_clean: "path_elems (path_clean s) = path_elems s \<and> is_abs (path_clean s) = is_abs s"
proof -
  let ?cs = "path_elems s" and ?b = "join [slash] (path_elems s)"
  note cl = path_elems_cleaned [of s]
  have same: "clean_elems (is_abs s) [] ?cs = ?cs" using clean_elems_same [of _ "[]"] cl by simp
  have split: "split_char slash ?b = ?cs" if "?cs \<noteq> []"
    using that cl by (intro split_join_elems) (auto simp: cleaned_def)
  have p: "path_clean s = (if is_abs s then slash # ?b else if ?b = [] then ''.'' else ?b)"
    by (simp add: path_clean_def path_elems_def Let_def)
  show ?thesis
  proof (cases "is_abs s")
    case True
    then have "is_abs (path_clean s)" by (simp add: p is_abs_def has_prefix_def)
    moreover have "split_char slash (slash # ?b) = [] # split_char slash ?b" by (simp add: split_char_def)
    moreover have "path_clean s = slash # ?b" using True by (simp add: p)
    ultimately show ?thesis
      using True same split
      by (cases "?cs = []") (simp_all add: path_elems_def [of "slash # _"] path_elems_def [of "[slash]"] split_char_def)
  next
    case False
    show ?thesis
    proof (cases "?cs = []")
      case True
      have "path_elems ''.'' = []" "\<not> is_abs ''.''" by code_simp+
      with False True show ?thesis by (simp add: p)
    next
      case ne: False
      then obtain c cs where cs: "?cs = c # cs" by (cases ?cs) auto
      with cl have "c \<noteq> []" "slash \<notin> set c" by (auto simp: cleaned_def)
      then have "?b \<noteq> []" "\<not> is_abs ?b" by (cases cs; cases c; auto simp: cs is_abs_def has_prefix_def)+
      with False ne same split show ?thesis by (simp add: p path_elems_def [of "?b"])
    qed
  qed
qed

lemma path_elems_child:
  assumes "s \<noteq> []" "plain_name f"
  shows "path_elems (s @ slash # f) = path_elems s @ [f] \<and> is_abs (s @ slash # f) = is_abs s"
proof -
  have "split_char slash (s @ slash # f) = split_char slash s @ [f]"
    using assms(2) by (simp add: split_char_def split_aux_append split_aux_plain plain_name_def)
  then show ?thesis using assms by (simp add: path_elems_def is_abs_append clean_elems_plain)
qed

lemma path_elems_join:
  assumes "d \<noteq> []" "plain_name f"
  shows "path_elems (path_join [d, f]) = path_elems d @ [f] \<and> is_abs (path_join [d, f]) = is_abs d"
proof -
  have "path_join [d, f] = path_clean (d @ slash # f)" using assms by (simp add: path_join_def plain_name_def)
  then show ?thesis using path_elems_clean path_elems_child [OF assms] by simp
qed

end
