(* ===== verification/Yenc.thy ===== *)
theory Yenc
  imports Go_Strings
begin

unbundle bit_operations_syntax

text \<open>
  The yEnc article encoder of \<open>src/services/usenet.go\<close> (\<open>yEncodeChunk\<close>), byte for byte, with
  the CRC-32 of \<open>hash/crc32\<close> that its trailer carries. The theorems give the properties a news
  reader relies on: the body decodes back to the chunk, its lines hold no forbidden byte, have a
  bounded length and are never taken for a yEnc keyword line or for a dot-stuffed NNTP line, and a
  decoder that looks for the keyword lines recovers the chunk from the whole article.
\<close>

subsection \<open>The encoder\<close>

definition bytes_of :: "go_string \<Rightarrow> byte list" where
  "bytes_of s = map of_char s"

definition crlf :: "byte list" where
  "crlf = [13, 10]"

text \<open>\<open>crc32.ChecksumIEEE\<close>: the reflected polynomial \<open>0xEDB88320\<close>, all-ones start and end.\<close>

definition crc_shift :: "u32 \<Rightarrow> u32" where
  "crc_shift c = (if bit c 0 then drop_bit 1 c XOR 0xEDB88320 else drop_bit 1 c)"

definition crc_byte :: "u32 \<Rightarrow> byte \<Rightarrow> u32" where
  "crc_byte c b =
     crc_shift (crc_shift (crc_shift (crc_shift
       (crc_shift (crc_shift (crc_shift (crc_shift (c XOR ucast b))))))))"

definition checksumIEEE :: "byte list \<Rightarrow> u32" where
  "checksumIEEE data = NOT (foldl crc_byte 0xFFFFFFFF data)"

definition hex_char :: "nat \<Rightarrow> char" where
  "hex_char d = (if d < 10 then char_of (48 + d) else char_of (87 + d))"

fun hex_digits :: "nat \<Rightarrow> nat \<Rightarrow> go_string" where
  "hex_digits 0 n = []"
| "hex_digits (Suc k) n = hex_digits k (n div 16) @ [hex_char (n mod 16)]"

definition critical :: "nat \<Rightarrow> byte \<Rightarrow> bool" where
  "critical lineLen val \<longleftrightarrow>
     val = 0 \<or> val = 10 \<or> val = 13 \<or> val = 61 \<or> (lineLen = 0 \<and> val = 46)"

definition yenc_byte :: "nat \<Rightarrow> byte \<Rightarrow> byte list" where
  "yenc_byte lineLen b =
     (let val = (b + 42) AND 255
      in if critical lineLen val then [61, (val + 64) AND 255] else [val])"

fun yenc_body :: "nat \<Rightarrow> byte list \<Rightarrow> byte list" where
  "yenc_body lineLen [] = (if 0 < lineLen then crlf else [])"
| "yenc_body lineLen (b # data) =
     (let out = yenc_byte lineLen b; lineLen' = lineLen + length out
      in if 128 \<le> lineLen' then out @ crlf @ yenc_body 0 data
         else out @ yenc_body lineLen' data)"

definition yenc_header :: "go_string \<Rightarrow> int \<Rightarrow> int \<Rightarrow> int \<Rightarrow> go_string" where
  "yenc_header filename partNumber totalParts totalSize =
     ''=ybegin part='' @ int_str partNumber @ '' total='' @ int_str totalParts @
     '' line=128 size='' @ int_str totalSize @ '' name='' @ filename"

definition yenc_part :: "int \<Rightarrow> nat \<Rightarrow> go_string" where
  "yenc_part chunkOffset len =
     ''=ypart begin='' @ int_str (chunkOffset + 1) @ '' end='' @ int_str (chunkOffset + int len)"

definition yenc_trailer :: "byte list \<Rightarrow> int \<Rightarrow> go_string" where
  "yenc_trailer data partNumber =
     ''=yend size='' @ nat_str (length data) @ '' part='' @ int_str partNumber @
     '' pcrc32='' @ hex_digits 8 (unat (checksumIEEE data))"

definition yEncodeChunk ::
  "byte list \<Rightarrow> go_string \<Rightarrow> int \<Rightarrow> int \<Rightarrow> int \<Rightarrow> int \<Rightarrow> byte list" where
  "yEncodeChunk data filename partNumber totalParts chunkOffset totalSize =
     bytes_of (yenc_header filename partNumber totalParts totalSize) @ crlf @
     bytes_of (yenc_part chunkOffset (length data)) @ crlf @
     yenc_body 0 data @
     bytes_of (yenc_trailer data partNumber) @ crlf"

subsection \<open>Reference decoder\<close>

text \<open>
  What a downloader does with an article: split it at CRLF, skip the two keyword lines, decode
  the lines up to the one that starts with \<open>=yend\<close>.
\<close>

fun ydec :: "byte list \<Rightarrow> byte list" where
  "ydec [] = []"
| "ydec (c # cs) =
     (if c = 61 then (case cs of [] \<Rightarrow> [] | d # ds \<Rightarrow> (d - 64 - 42) # ydec ds)
      else if c = 13 \<or> c = 10 then ydec cs
      else (c - 42) # ydec cs)"

fun crlf_lines :: "byte list \<Rightarrow> byte list \<Rightarrow> byte list list" where
  "crlf_lines acc [] = [rev acc]"
| "crlf_lines acc [c] = [rev (c # acc)]"
| "crlf_lines acc (c # d # cs) =
     (if c = 13 \<and> d = 10 then rev acc # crlf_lines [] cs else crlf_lines (c # acc) (d # cs))"

definition keyword_line :: "byte list \<Rightarrow> bool" where
  "keyword_line l \<longleftrightarrow> take 2 l = [61, 121]"

definition ydecode_article :: "byte list \<Rightarrow> byte list option" where
  "ydecode_article a =
     (case crlf_lines [] a of
        h # p # ls \<Rightarrow>
          if keyword_line h \<and> keyword_line p \<and> list_ex keyword_line ls
          then Some (concat (map ydec (takeWhile (\<lambda>l. \<not> keyword_line l) ls)))
          else None
      | _ \<Rightarrow> None)"

text \<open>The lines of the encoded body, with the current line as accumulator.\<close>

fun yenc_lines :: "byte list \<Rightarrow> byte list \<Rightarrow> byte list list" where
  "yenc_lines cur [] = (if cur = [] then [] else [cur])"
| "yenc_lines cur (b # data) =
     (let cur' = cur @ yenc_byte (length cur) b
      in if 128 \<le> length cur' then cur' # yenc_lines [] data else yenc_lines cur' data)"

subsection \<open>One byte\<close>

lemma and_255 [simp]: "(w :: byte) AND 255 = w"
proof -
  have "(255 :: byte) = - 1" by simp
  then show ?thesis by (simp only: and.right_neutral)
qed

lemma yenc_byte_cases:
  "yenc_byte l b = (if critical l (b + 42) then [61, b + 106] else [b + 42])"
  by (simp add: yenc_byte_def add.assoc)

lemma yenc_byte_length: "1 \<le> length (yenc_byte l b) \<and> length (yenc_byte l b) \<le> 2"
  by (simp add: yenc_byte_cases)

lemma yenc_byte_nonempty [simp]: "yenc_byte l b \<noteq> []"
  by (simp add: yenc_byte_cases)

lemma critical_escape:
  "critical l v \<Longrightarrow> v + 64 \<in> {64, 74, 77, 125, 110}"
  by (auto simp: critical_def)

lemma escape_of_critical:
  "critical l (b + 42) \<Longrightarrow> b + 106 \<in> {64, 74, 77, 125, 110}"
  using critical_escape [of l "b + 42"] by (simp add: add.assoc)

lemma ydec_yenc_byte: "ydec (yenc_byte l b @ cs) = b # ydec cs"
  by (auto simp: yenc_byte_cases critical_def)

lemma ydec_crlf [simp]: "ydec (crlf @ cs) = ydec cs"
  by (simp add: crlf_def)

subsection \<open>The body\<close>

lemma ydec_yenc_body: "ydec (yenc_body l data) = data"
proof (induction l data rule: yenc_body.induct)
  case (1 l)
  then show ?case
    using ydec_crlf [of "[]"] by simp
next
  case (2 l b data)
  then show ?case
    by (simp add: Let_def ydec_yenc_byte)
qed

lemma yenc_body_lines:
  "cur @ yenc_body (length cur) data =
     concat (map (\<lambda>l. l @ crlf) (yenc_lines cur data))"
proof (induction cur data rule: yenc_lines.induct)
  case (1 cur)
  then show ?case by auto
next
  case (2 cur b data)
  let ?cur = "cur @ yenc_byte (length cur) b"
  show ?case
  proof (cases "128 \<le> length ?cur")
    case True
    with "2.IH"(1) [OF refl] show ?thesis by (simp add: Let_def)
  next
    case False
    with "2.IH"(2) [OF refl] show ?thesis by (simp add: Let_def)
  qed
qed

text \<open>What holds of the line being built and of every finished line.\<close>

definition line_ok :: "byte list \<Rightarrow> bool" where
  "line_ok l \<longleftrightarrow>
     (\<forall>c\<in>set l. c \<noteq> 0 \<and> c \<noteq> 10 \<and> c \<noteq> 13) \<and> (l \<noteq> [] \<longrightarrow> hd l \<noteq> 46) \<and>
     \<not> keyword_line l \<and> l \<noteq> [61]"

lemma keyword_line_append:
  "keyword_line (cur @ out) \<longleftrightarrow>
     (case cur of [] \<Rightarrow> keyword_line out | [x] \<Rightarrow> x = 61 \<and> take 1 out = [121]
        | _ \<Rightarrow> keyword_line cur)"
  by (auto simp: keyword_line_def split: list.split)

lemma yenc_byte_shape:
  obtains (esc) e where "yenc_byte l b = [61, e]" "e \<in> {64, 74, 77, 125, 110}"
    | (plain) v where "yenc_byte l b = [v]" "\<not> critical l v"
  using escape_of_critical [of l b] by (cases "critical l (b + 42)") (auto simp: yenc_byte_cases)

lemma yenc_byte_bytes: "c \<in> set (yenc_byte l b) \<Longrightarrow> c \<noteq> 0 \<and> c \<noteq> 10 \<and> c \<noteq> 13"
  by (rule yenc_byte_shape [of l b]) (auto simp: critical_def)

lemma yenc_byte_first:
  "hd (yenc_byte 0 b) \<noteq> 46 \<and> \<not> keyword_line (yenc_byte 0 b) \<and> yenc_byte 0 b \<noteq> [61]"
  by (rule yenc_byte_shape [of 0 b]) (auto simp: critical_def keyword_line_def)

lemma line_ok_extend:
  assumes "line_ok cur"
  shows "line_ok (cur @ yenc_byte (length cur) b)"
proof (cases cur)
  case Nil
  then show ?thesis
    using yenc_byte_first [of b] yenc_byte_bytes [of _ 0 b] by (auto simp: line_ok_def)
next
  case (Cons x xs)
  with assms have "\<not> keyword_line (cur @ yenc_byte (length cur) b)"
    by (subst keyword_line_append) (auto simp: line_ok_def split: list.splits)
  with assms Cons yenc_byte_bytes [of _ "length cur" b] show ?thesis
    by (auto simp: line_ok_def)
qed

lemma line_ok_Nil [simp]: "line_ok []"
  by (simp add: line_ok_def keyword_line_def)

lemma yenc_lines_ok:
  "line_ok cur \<Longrightarrow> length cur < 128 \<Longrightarrow>
     \<forall>l\<in>set (yenc_lines cur data). line_ok l \<and> l \<noteq> [] \<and> length l \<le> 129"
proof (induction cur data rule: yenc_lines.induct)
  case (1 cur)
  then show ?case by auto
next
  case (2 cur b data)
  let ?cur = "cur @ yenc_byte (length cur) b"
  have ok: "line_ok ?cur" using "2.prems" by (simp add: line_ok_extend)
  have len: "length ?cur \<le> 129"
    using "2.prems" yenc_byte_length [of "length cur" b] by simp
  show ?case
  proof (cases "128 \<le> length ?cur")
    case True
    with ok len "2.IH"(1) [OF refl] show ?thesis by (simp add: Let_def)
  next
    case False
    with ok "2.IH"(2) [OF refl] show ?thesis by (simp add: Let_def)
  qed
qed

lemma yenc_line_ok:
  "l \<in> set (yenc_lines [] data) \<Longrightarrow> line_ok l \<and> l \<noteq> [] \<and> length l \<le> 129"
  using yenc_lines_ok [of "[]" data] by simp

lemma yenc_lines_full:
  "length cur < 128 \<Longrightarrow> \<forall>l\<in>set (butlast (yenc_lines cur data)). 128 \<le> length l"
proof (induction cur data rule: yenc_lines.induct)
  case (1 cur)
  then show ?case by auto
next
  case (2 cur b data)
  then show ?case by (auto simp: Let_def)
qed

subsection \<open>From lines back to the chunk\<close>

definition splits_here :: "byte list \<Rightarrow> bool" where
  "splits_here cur \<longleftrightarrow> (\<forall>cs. ydec (cur @ cs) = ydec cur @ ydec cs)"

lemma splits_here_Nil [simp]: "splits_here []"
  by (simp add: splits_here_def)

lemma splits_here_extend:
  "splits_here cur \<Longrightarrow> splits_here (cur @ yenc_byte l b)"
  "splits_here cur \<Longrightarrow> ydec (cur @ yenc_byte l b) = ydec cur @ [b]"
  using ydec_yenc_byte [of l b "[]"] by (simp_all add: splits_here_def ydec_yenc_byte)

lemma yenc_lines_decode:
  "splits_here cur \<Longrightarrow> concat (map ydec (yenc_lines cur data)) = ydec cur @ data"
  by (induction cur data rule: yenc_lines.induct) (auto simp: Let_def splits_here_extend)

lemma crlf_lines_line:
  "13 \<notin> set l \<Longrightarrow> crlf_lines acc (l @ crlf @ rest) = (rev acc @ l) # crlf_lines [] rest"
proof (induction l arbitrary: acc)
  case Nil
  then show ?case by (simp add: crlf_def)
next
  case (Cons c l)
  from Cons show ?case
    by (cases l) (auto simp: crlf_def)
qed

lemma crlf_lines_concat:
  "\<forall>l\<in>set ls. 13 \<notin> set l \<Longrightarrow>
     crlf_lines [] (concat (map (\<lambda>l. l @ crlf) ls) @ rest) = ls @ crlf_lines [] rest"
  by (induction ls) (auto simp: crlf_lines_line)

subsection \<open>Text lines\<close>

lemma unat_of_char: "unat (of_char c :: byte) = (of_char c :: nat)"
proof -
  have "unat (of_nat (of_char c) :: byte) = (of_char c :: nat) mod 256"
    by (simp only: unat_of_nat) simp
  then show ?thesis by (simp add: of_nat_of_char)
qed

lemma of_char_byte_inject: "(of_char c :: byte) = of_char d \<longleftrightarrow> c = d"
  by (metis of_char_nat_inject unat_of_char)

lemma bytes_of_append [simp]: "bytes_of (s @ t) = bytes_of s @ bytes_of t"
  by (simp add: bytes_of_def)

lemma cr_bytes_of: "13 \<in> set (bytes_of s) \<longleftrightarrow> CHR 0x0D \<in> set s"
proof -
  have "(13 :: byte) = of_char CHR 0x0D" by simp
  then show ?thesis
    by (simp only: bytes_of_def set_map image_iff of_char_byte_inject) blast
qed

lemma lf_bytes_of: "10 \<in> set (bytes_of s) \<longleftrightarrow> CHR 0x0A \<in> set s"
proof -
  have "(10 :: byte) = of_char CHR 0x0A" by simp
  then show ?thesis
    by (simp only: bytes_of_def set_map image_iff of_char_byte_inject) blast
qed

lemma digit_char_not_cr: "d < 10 \<Longrightarrow> digit_char d \<noteq> CHR 0x0D"
  by (auto dest!: char_digit_digit_char simp: char_digit_def)

lemma digit_char_not_lf: "d < 10 \<Longrightarrow> digit_char d \<noteq> CHR 0x0A"
  by (auto dest!: char_digit_digit_char simp: char_digit_def)

lemma nat_str_no_lf [simp]: "CHR 0x0A \<notin> set (nat_str n)"
  using nat_str_digits [of "CHR 0x0A" n] digit_char_not_lf by metis

lemma int_str_no_lf [simp]: "CHR 0x0A \<notin> set (int_str i)"
  by (simp add: int_str_def)

lemma hex_char_not_lf: "d < 16 \<Longrightarrow> hex_char d \<noteq> CHR 0x0A"
proof
  assume "d < 16" and eq: "hex_char d = CHR 0x0A"
  from eq have "(of_char (hex_char d) :: nat) = 10" by simp
  with \<open>d < 16\<close> show False by (auto simp: hex_char_def split: if_splits)
qed

lemma hex_digits_no_lf [simp]: "CHR 0x0A \<notin> set (hex_digits k n)"
proof (induction k arbitrary: n)
  case (Suc k)
  then show ?case using hex_char_not_lf [of "n mod 16"] by auto
qed simp

lemma nat_str_no_cr [simp]: "CHR 0x0D \<notin> set (nat_str n)"
  using nat_str_digits [of "CHR 0x0D" n] digit_char_not_cr by metis

lemma int_str_no_cr [simp]: "CHR 0x0D \<notin> set (int_str i)"
  by (simp add: int_str_def)

lemma hex_char_not_cr: "d < 16 \<Longrightarrow> hex_char d \<noteq> CHR 0x0D"
proof
  assume "d < 16" and eq: "hex_char d = CHR 0x0D"
  from eq have "(of_char (hex_char d) :: nat) = 13" by simp
  with \<open>d < 16\<close> show False by (auto simp: hex_char_def split: if_splits)
qed

lemma hex_digits_no_cr [simp]: "CHR 0x0D \<notin> set (hex_digits k n)"
proof (induction k arbitrary: n)
  case (Suc k)
  then show ?case using hex_char_not_cr [of "n mod 16"] by auto
qed simp

lemma keyword_bytes_of: "keyword_line (bytes_of (CHR ''='' # CHR ''y'' # s))"
  by (simp add: keyword_line_def bytes_of_def)

lemma yenc_header_no_cr: "CHR 0x0D \<notin> set filename \<Longrightarrow> CHR 0x0D \<notin> set (yenc_header filename p t z)"
  by (simp add: yenc_header_def)

lemma yenc_part_no_cr: "CHR 0x0D \<notin> set (yenc_part off n)"
  by (simp add: yenc_part_def)

lemma yenc_trailer_no_cr: "CHR 0x0D \<notin> set (yenc_trailer data p)"
  by (simp add: yenc_trailer_def)

lemma yenc_keywords:
  "keyword_line (bytes_of (yenc_header filename p t z))"
  "keyword_line (bytes_of (yenc_part off n))"
  "keyword_line (bytes_of (yenc_trailer data p))"
  by (simp_all add: yenc_header_def yenc_part_def yenc_trailer_def keyword_line_def bytes_of_def)

definition yenc_article_lines ::
  "byte list \<Rightarrow> go_string \<Rightarrow> int \<Rightarrow> int \<Rightarrow> int \<Rightarrow> int \<Rightarrow> byte list list" where
  "yenc_article_lines data filename p t off z =
     [bytes_of (yenc_header filename p t z), bytes_of (yenc_part off (length data))] @
     yenc_lines [] data @ [bytes_of (yenc_trailer data p)]"

lemma yEncodeChunk_concat:
  "yEncodeChunk data filename p t off z =
     concat (map (\<lambda>l. l @ crlf) (yenc_article_lines data filename p t off z))"
  using yenc_body_lines [of "[]" data] by (simp add: yEncodeChunk_def yenc_article_lines_def)

lemma yenc_article_lines_no_cr:
  "CHR 0x0D \<notin> set filename \<Longrightarrow>
     \<forall>l\<in>set (yenc_article_lines data filename p t off z). 13 \<notin> set l"
  using yenc_line_ok [of _ data]
  by (auto simp: yenc_article_lines_def cr_bytes_of yenc_header_no_cr yenc_part_no_cr
      yenc_trailer_no_cr line_ok_def)

lemma yenc_article_lines_no_lf:
  "CHR 0x0A \<notin> set filename \<Longrightarrow>
     \<forall>l\<in>set (yenc_article_lines data filename p t off z). 10 \<notin> set l"
  using yenc_line_ok [of _ data]
  by (auto simp: yenc_article_lines_def lf_bytes_of yenc_header_def yenc_part_def
      yenc_trailer_def line_ok_def)

lemma yEncodeChunk_lines:
  assumes "CHR 0x0D \<notin> set filename"
  shows "crlf_lines [] (yEncodeChunk data filename p t off z) =
     [bytes_of (yenc_header filename p t z), bytes_of (yenc_part off (length data))] @
     yenc_lines [] data @ [bytes_of (yenc_trailer data p), []]"
  using crlf_lines_concat [OF yenc_article_lines_no_cr [OF assms], of data p t off z "[]"]
  by (simp add: yEncodeChunk_concat yenc_article_lines_def)

lemma ydecode_yEncodeChunk:
  assumes "CHR 0x0D \<notin> set filename"
  shows "ydecode_article (yEncodeChunk data filename partNumber totalParts chunkOffset totalSize)
           = Some data"
proof -
  have "\<forall>l\<in>set (yenc_lines [] data). \<not> keyword_line l"
    using yenc_line_ok [of _ data] by (simp add: line_ok_def)
  then have "takeWhile (\<lambda>l. \<not> keyword_line l)
      (yenc_lines [] data @ [bytes_of (yenc_trailer data partNumber), []]) = yenc_lines [] data"
    by (simp add: takeWhile_append2 yenc_keywords)
  then show ?thesis
    using yenc_lines_decode [of "[]" data]
    by (simp add: ydecode_article_def yEncodeChunk_lines [OF assms] yenc_keywords)
qed

subsection \<open>The properties of the encoder\<close>

text \<open>
  Round trip. Whatever the chunk, the part numbers, the offset and the size, a downloader
  that splits the article at CRLF and decodes the lines between the keyword lines gets exactly
  the chunk back, provided the file name holds no carriage return (which would split the
  \<open>=ybegin\<close> line).
\<close>

theorem yenc_article_roundtrip:
  assumes "CHR 0x0D \<notin> set filename"
  shows "ydecode_article (yEncodeChunk data filename partNumber totalParts chunkOffset totalSize)
           = Some data"
  using assms by (rule ydecode_yEncodeChunk)

theorem yenc_article_roundtrip_witness:
  "ydecode_article (yEncodeChunk [19, 214, 0, 4, 227] ''a.bin'' 1 1 0 5) = Some [19, 214, 0, 4, 227]"
  by (rule yenc_article_roundtrip) simp

text \<open>
  C31. Line discipline. The encoded body is a sequence of CRLF-terminated lines; every line is
  between 1 and 129 bytes long and all but the last are at least 128, no line holds a NUL, CR or
  LF byte, no line starts with a dot (so NNTP dot-stuffing never alters the article) and no line
  starts with \<open>=y\<close> (so a decoder never mistakes data for a keyword line).
\<close>

theorem yenc_body_line_discipline:
  "yenc_body 0 data = concat (map (\<lambda>l. l @ crlf) (yenc_lines [] data)) \<and>
   list_all (\<lambda>l. 1 \<le> length l \<and> length l \<le> 129 \<and> 0 \<notin> set l \<and> 13 \<notin> set l \<and> 10 \<notin> set l \<and>
       hd l \<noteq> 46 \<and> \<not> keyword_line l) (yenc_lines [] data) \<and>
   list_all (\<lambda>l. 128 \<le> length l) (butlast (yenc_lines [] data))"
proof (intro conjI)
  show "yenc_body 0 data = concat (map (\<lambda>l. l @ crlf) (yenc_lines [] data))"
    using yenc_body_lines [of "[]" data] by simp
  show "list_all (\<lambda>l. 1 \<le> length l \<and> length l \<le> 129 \<and> 0 \<notin> set l \<and> 13 \<notin> set l \<and> 10 \<notin> set l \<and>
       hd l \<noteq> 46 \<and> \<not> keyword_line l) (yenc_lines [] data)"
    using yenc_line_ok [of _ data] by (auto simp: list_all_iff line_ok_def Suc_le_eq)
  show "list_all (\<lambda>l. 128 \<le> length l) (butlast (yenc_lines [] data))"
    using yenc_lines_full [of "[]" data] by (simp add: list_all_iff)
qed

subsection \<open>Size of the encoded body\<close>

lemma yenc_body_size_aux:
  "l < 128 \<Longrightarrow> 128 * length (yenc_body l data) \<le> 260 * length data + 2 * l + 256"
proof (induction l data rule: yenc_body.induct)
  case (1 l)
  then show ?case by (simp add: crlf_def)
next
  case (2 l b data)
  let ?n = "length (yenc_byte l b)"
  have n: "1 \<le> ?n" "?n \<le> 2" using yenc_byte_length [of l b] by auto
  show ?case
  proof (cases "128 \<le> l + ?n")
    case True
    with "2.IH"(1) [OF refl refl] n show ?thesis by (simp add: Let_def crlf_def)
  next
    case False
    with "2.IH"(2) [OF refl refl] n show ?thesis by (simp add: Let_def)
  qed
qed

text \<open>
  Size bounds. Encoding never shrinks the data, and at worst (every byte escaped) the body
  is 65/32 of the chunk plus one line end, which for a full 700 KiB chunk stays below 1.46 MB.
\<close>

theorem yenc_body_size:
  "length data \<le> length (yenc_body 0 data) \<and>
   32 * length (yenc_body 0 data) \<le> 65 * length data + 64"
proof
  have "length data \<le> length (yenc_body l data)" for l
  proof (induction l data rule: yenc_body.induct)
    case (2 l b data)
    have "Suc 0 \<le> length (yenc_byte l b)" using yenc_byte_length [of l b] by simp
    with "2.IH"(1) [OF refl refl] "2.IH"(2) [OF refl refl] show ?case
      by (cases "128 \<le> l + length (yenc_byte l b)") (simp_all add: Let_def)
  qed simp
  then show "length data \<le> length (yenc_body 0 data)" .
  show "32 * length (yenc_body 0 data) \<le> 65 * length data + 64"
    using yenc_body_size_aux [of 0 data] by simp
qed

text \<open>The published check value of the CRC.\<close>

lemma checksumIEEE_check: "checksumIEEE (bytes_of ''123456789'') = 0xCBF43926"
  by code_simp

end
