(* ===== verification/Nntp_Session.thy ===== *)
theory Nntp_Session
  imports Yenc
begin

text \<open>
  The NNTP side of \<open>src/services/usenet.go\<close>: logging in (\<open>connectNNTP\<close>), posting one article
  (\<open>uploadChunk\<close>) and the retry loop of a worker for one job (the body of \<open>nntpWorker\<close>'s loop and
  \<open>backoff\<close>). The network and the server are a parameter: the list of events the operations on
  the connection meet, one per operation, so every theorem holds for every behaviour of the
  server.
\<close>

subsection \<open>The connection\<close>

text \<open>
  One event per network operation: the operation fails, or it succeeds; a successful read yields
  a reply code.
\<close>

datatype net_event = NetFail | NetOk | NetCode int

text \<open>Lines the agent has written, the newest last, and whether the connection is still open.\<close>

datatype sent_line = Line go_string | Article "byte list"

record wire =
  events :: "net_event list"
  sent :: "sent_line list"
  closed :: bool

datatype nntp_error = DialError | WriteError | ReadError | UnexpectedCode int | AuthFailed

text \<open>\<open>PrintfLine\<close>: write one line.\<close>

definition print_line :: "go_string \<Rightarrow> wire \<Rightarrow> nntp_error option \<times> wire" where
  "print_line l w =
     (case events w of
        [] \<Rightarrow> (Some WriteError, w)
      | NetFail # es \<Rightarrow> (Some WriteError, w\<lparr>events := es\<rparr>)
      | _ # es \<Rightarrow> (None, w\<lparr>events := es, sent := sent w @ [Line l]\<rparr>))"

text \<open>\<open>ReadCodeLine\<close>: an expected code of 0 accepts any reply.\<close>

definition read_code :: "int \<Rightarrow> wire \<Rightarrow> nntp_error option \<times> wire" where
  "read_code expect w =
     (case events w of
        NetCode c # es \<Rightarrow>
          (if expect = 0 \<or> c = expect then None else Some (UnexpectedCode c), w\<lparr>events := es\<rparr>)
      | _ # es \<Rightarrow> (Some ReadError, w\<lparr>events := es\<rparr>)
      | [] \<Rightarrow> (Some ReadError, w))"

text \<open>Writing through a \<open>DotWriter\<close> and closing it.\<close>

definition write_article :: "byte list \<Rightarrow> wire \<Rightarrow> nntp_error option \<times> wire" where
  "write_article a w =
     (case events w of
        [] \<Rightarrow> (Some WriteError, w)
      | NetFail # es \<Rightarrow> (Some WriteError, w\<lparr>events := es\<rparr>)
      | _ # es \<Rightarrow> (None, w\<lparr>events := es, sent := sent w @ [Article a]\<rparr>))"

definition close_conn :: "wire \<Rightarrow> wire" where
  "close_conn w = w\<lparr>closed := True\<rparr>"

text \<open>The part of the configuration the NNTP code reads.\<close>

record nntp_cfg =
  NNTPUser :: go_string
  NNTPPass :: go_string
  NNTPFrom :: go_string
  NNTPGroup :: go_string
  NNTPDomain :: go_string
  NNTPConnections :: int

subsection \<open>Logging in\<close>

definition auth_pass :: "nntp_cfg \<Rightarrow> wire \<Rightarrow> (nntp_error option) \<times> wire" where
  "auth_pass cfg w =
     (case print_line (''AUTHINFO PASS '' @ NNTPPass cfg) w of
        (Some e, w1) \<Rightarrow> (Some e, close_conn w1)
      | (None, w1) \<Rightarrow>
          (case read_code 281 w1 of
             (Some e, w2) \<Rightarrow> (Some AuthFailed, close_conn w2)
           | (None, w2) \<Rightarrow> (None, w2)))"

definition auth_user :: "nntp_cfg \<Rightarrow> wire \<Rightarrow> (nntp_error option) \<times> wire" where
  "auth_user cfg w =
     (case print_line (''AUTHINFO USER '' @ NNTPUser cfg) w of
        (Some e, w1) \<Rightarrow> (Some e, close_conn w1)
      | (None, w1) \<Rightarrow>
          (case read_code 381 w1 of
             (None, w2) \<Rightarrow> auth_pass cfg w2
           | (Some e, w2) \<Rightarrow> (None, w2)))"

text \<open>
  \<open>connectNNTP\<close>: the first event is the outcome of the dial. On success the result is the open
  connection, on failure the error.
\<close>

definition connectNNTP :: "nntp_cfg \<Rightarrow> wire \<Rightarrow> (nntp_error option) \<times> wire" where
  "connectNNTP cfg w =
     (case events w of
        NetOk # es \<Rightarrow>
          (case read_code 0 (w\<lparr>events := es, closed := False\<rparr>) of
             (Some e, w1) \<Rightarrow> (Some e, close_conn w1)
           | (None, w1) \<Rightarrow> if NNTPUser cfg \<noteq> [] then auth_user cfg w1 else (None, w1))
      | _ # es \<Rightarrow> (Some DialError, w\<lparr>events := es\<rparr>)
      | [] \<Rightarrow> (Some DialError, w))"

subsection \<open>Posting one article\<close>

record upload_job =
  ChunkData :: "byte list"
  Number :: int
  TotalParts :: int
  Subject :: go_string
  FileName :: go_string
  ChunkOffset :: int
  TotalSize :: int

definition article_headers :: "nntp_cfg \<Rightarrow> upload_job \<Rightarrow> go_string \<Rightarrow> byte list" where
  "article_headers cfg job messageID =
     bytes_of (''From: '' @ NNTPFrom cfg) @ crlf @
     bytes_of (''Newsgroups: '' @ NNTPGroup cfg) @ crlf @
     bytes_of (''Subject: '' @ Subject job) @ crlf @
     bytes_of (''Message-ID: <'' @ messageID @ ''>'') @ crlf @ crlf"

text \<open>
  \<open>textproto.DotWriter\<close>: a dot at the start of a line is doubled, a bare line feed becomes CRLF,
  and closing ends the last line and adds the terminating dot.
\<close>

datatype dot_state = AtLine | InCR | InData

fun dot_write :: "dot_state \<Rightarrow> byte list \<Rightarrow> byte list" where
  "dot_write st [] =
     (case st of AtLine \<Rightarrow> [] | InCR \<Rightarrow> [10] | InData \<Rightarrow> crlf) @ [46, 13, 10]"
| "dot_write st (c # cs) =
     (case st of
        InCR \<Rightarrow> c # dot_write (if c = 10 then AtLine else InData) cs
      | _ \<Rightarrow>
          (if st = AtLine \<and> c = 46 then [46] else []) @
          (if c = 10 then 13 # c # dot_write AtLine cs
           else c # dot_write (if c = 13 then InCR else InData) cs))"

definition uploadChunk ::
  "nntp_cfg \<Rightarrow> upload_job \<Rightarrow> go_string \<Rightarrow> byte list \<Rightarrow> wire \<Rightarrow> nntp_error option \<times> wire" where
  "uploadChunk cfg job messageID encodedData w =
     (case print_line ''POST'' w of
        (Some e, w1) \<Rightarrow> (Some e, w1)
      | (None, w1) \<Rightarrow>
          (case read_code 340 w1 of
             (Some e, w2) \<Rightarrow> (Some e, w2)
           | (None, w2) \<Rightarrow>
               (case write_article
                   (dot_write AtLine (article_headers cfg job messageID @ encodedData)) w2 of
                  (Some e, w3) \<Rightarrow> (Some e, w3)
                | (None, w3) \<Rightarrow> read_code 240 w3)))"

subsection \<open>The retry loop of a worker\<close>

definition maxRetries :: nat where
  "maxRetries = 3"

text \<open>\<open>backoff\<close>: \<open>1 << attempt\<close> seconds, at most ten.\<close>

definition backoff :: "nat \<Rightarrow> duration" where
  "backoff attempt = (let d = 2 ^ attempt * second in if 10 * second < d then 10 * second else d)"

text \<open>
  A worker keeps one connection across jobs (\<open>conn\<close>, \<open>None\<close> before the first and after a
  failure). The state below adds what the loop does to the outside: how long it slept.
\<close>

record worker_io =
  conn_open :: bool
  io :: wire
  slept :: duration

text \<open>
  One attempt, and the loop \<open>for attempt := 1; attempt <= maxRetries; attempt++\<close> counted down
  by the number of attempts left; the result says whether the chunk was posted.
\<close>

fun post_attempts ::
  "nntp_cfg \<Rightarrow> upload_job \<Rightarrow> go_string \<Rightarrow> byte list \<Rightarrow> nat \<Rightarrow> nat \<Rightarrow> worker_io \<Rightarrow> bool \<times> worker_io"
where
  "post_attempts cfg job mid enc attempt 0 s = (False, s)"
| "post_attempts cfg job mid enc attempt (Suc left) s =
     (case (if conn_open s then (None, io s) else connectNNTP cfg (io s)) of
        (Some e, w1) \<Rightarrow>
          post_attempts cfg job mid enc (Suc attempt) left
            (s\<lparr>io := w1, slept := slept s + backoff attempt\<rparr>)
      | (None, w1) \<Rightarrow>
          (case uploadChunk cfg job mid enc w1 of
             (Some e, w2) \<Rightarrow>
               post_attempts cfg job mid enc (Suc attempt) left
                 (s\<lparr>conn_open := False, io := close_conn w2, slept := slept s + backoff attempt\<rparr>)
           | (None, w2) \<Rightarrow> (True, s\<lparr>conn_open := True, io := w2\<rparr>)))"

text \<open>The domain of the generated Message-ID.\<close>

definition message_domain :: "nntp_cfg \<Rightarrow> go_string" where
  "message_domain cfg =
     (if NNTPDomain cfg \<noteq> [] then NNTPDomain cfg
      else case split_char CHR ''@'' (NNTPFrom cfg) of
             [a, b] \<Rightarrow> b
           | _ \<Rightarrow> ''example.com'')"

definition message_id :: "nntp_cfg \<Rightarrow> go_string \<Rightarrow> go_string" where
  "message_id cfg uuid = uuid @ ''@'' @ message_domain cfg"

definition encode_job :: "upload_job \<Rightarrow> byte list" where
  "encode_job job =
     yEncodeChunk (ChunkData job) (FileName job) (Number job) (TotalParts job)
       (ChunkOffset job) (TotalSize job)"

text \<open>One job of a worker: build the Message-ID, encode, try to post.\<close>

definition worker_job :: "nntp_cfg \<Rightarrow> go_string \<Rightarrow> upload_job \<Rightarrow> worker_io \<Rightarrow> bool \<times> worker_io" where
  "worker_job cfg uuid job s =
     post_attempts cfg job (message_id cfg uuid) (encode_job job) 1 maxRetries s"

text \<open>Leaving the loop with a live connection says goodbye.\<close>

definition worker_quit :: "worker_io \<Rightarrow> worker_io" where
  "worker_quit s =
     (if conn_open s then s\<lparr>io := close_conn (snd (print_line ''QUIT'' (io s)))\<rparr> else s)"

subsection \<open>Logging in: facts\<close>

lemma print_line_result:
  assumes "print_line l w = (r, w')"
  shows "(\<exists>pre. events w = pre @ events w') \<and> closed w' = closed w \<and>
    sent w' = sent w @ (if r = None then [Line l] else [])"
  using assms by (auto simp: print_line_def split: list.splits net_event.splits)

lemma read_code_result:
  assumes "read_code c w = (r, w')"
  shows "(\<exists>pre. events w = pre @ events w') \<and> closed w' = closed w \<and> sent w' = sent w"
  using assms by (auto simp: read_code_def split: list.splits net_event.splits)

lemma read_code_None_iff:
  "0 < c \<Longrightarrow> read_code c w = (None, w') \<longleftrightarrow>
     (\<exists>es. events w = NetCode c # es \<and> w' = w\<lparr>events := es\<rparr>)"
  by (auto simp: read_code_def split: list.splits net_event.splits if_splits)

lemma write_article_result:
  assumes "write_article a w = (r, w')"
  shows "(\<exists>pre. events w = pre @ events w') \<and> closed w' = closed w \<and>
    sent w' = sent w @ (if r = None then [Article a] else [])"
  using assms by (auto simp: write_article_def split: list.splits net_event.splits)

lemma close_conn_fields [simp]:
  "events (close_conn w) = events w" "sent (close_conn w) = sent w" "closed (close_conn w)"
  by (simp_all add: close_conn_def)

text \<open>The articles written to a connection.\<close>

fun articles :: "sent_line list \<Rightarrow> byte list list" where
  "articles [] = []"
| "articles (Line l # xs) = articles xs"
| "articles (Article a # xs) = a # articles xs"

lemma articles_append [simp]: "articles (xs @ ys) = articles xs @ articles ys"
  by (induction xs rule: articles.induct) auto

lemma auth_pass_result:
  assumes "auth_pass cfg w = (r, w')"
  shows "(\<exists>pre. events w = pre @ events w') \<and>
    (sent w' = sent w \<or> sent w' = sent w @ [Line (''AUTHINFO PASS '' @ NNTPPass cfg)])"
  using assms
  by (auto simp: auth_pass_def split: prod.splits option.splits
      dest!: print_line_result read_code_result)

lemma auth_user_result:
  assumes "auth_user cfg w = (r, w')"
  shows "(\<exists>pre. events w = pre @ events w') \<and> articles (sent w') = articles (sent w)"
  using assms
  by (auto simp: auth_user_def split: prod.splits option.splits
      dest!: print_line_result read_code_result auth_pass_result)

lemma connectNNTP_result:
  assumes "connectNNTP cfg w = (r, w')"
  shows "(\<exists>pre. events w = pre @ events w') \<and> articles (sent w') = articles (sent w)"
  using assms
  by (auto simp: connectNNTP_def
      split: prod.splits option.splits list.splits net_event.splits if_splits
      dest!: read_code_result auth_user_result)

text \<open>
  Which behaviour of the server makes a login succeed: the dial works and a greeting arrives;
  with a user configured the user name is written, and then either the server asks for the
  password (381), it is written and accepted (281), or the server answers anything else.
\<close>

fun login_accepted :: "bool \<Rightarrow> net_event list \<Rightarrow> bool" where
  "login_accepted False (NetOk # NetCode g # es) = True"
| "login_accepted True (NetOk # NetCode g # u # NetCode c # es) =
     (u \<noteq> NetFail \<and> (c = 381 \<longrightarrow> (case es of p # NetCode d # _ \<Rightarrow> p \<noteq> NetFail \<and> d = 281 | _ \<Rightarrow> False)))"
| "login_accepted True (NetOk # NetCode g # u # es) = (u \<noteq> NetFail)"
| "login_accepted _ _ = False"

lemma auth_pass_None_iff:
  "fst (auth_pass cfg w) = None \<longleftrightarrow>
     (case events w of p # NetCode d # _ \<Rightarrow> p \<noteq> NetFail \<and> d = 281 | _ \<Rightarrow> False)"
  by (auto simp: auth_pass_def print_line_def read_code_def
      split: list.splits net_event.splits prod.splits option.splits if_splits)

lemma auth_user_None_iff:
  "fst (auth_user cfg w) = None \<longleftrightarrow>
     (case events w of
        u # NetCode c # es \<Rightarrow> u \<noteq> NetFail \<and>
          (c = 381 \<longrightarrow> (case es of p # NetCode d # _ \<Rightarrow> p \<noteq> NetFail \<and> d = 281 | _ \<Rightarrow> False))
      | u # es \<Rightarrow> u \<noteq> NetFail
      | [] \<Rightarrow> False)"
  by (auto simp: auth_user_def print_line_def read_code_def auth_pass_None_iff
      split: list.splits net_event.splits prod.splits option.splits if_splits)

text \<open>
  The login, completely: it succeeds exactly for the server behaviours of
  \<^const>\<open>login_accepted\<close>, whatever they are.
\<close>

theorem connectNNTP_outcome:
  "fst (connectNNTP cfg w) = None \<longleftrightarrow> login_accepted (NNTPUser cfg \<noteq> []) (events w)"
  by (auto simp: connectNNTP_def read_code_def auth_user_None_iff
      split: list.splits net_event.splits prod.splits option.splits if_splits)

text \<open>
  The password is written only to a server that asked for it: if the password line is among
  what a login added to the connection, the server's reply to the user name was 381.
\<close>

theorem password_only_after_381:
  assumes "connectNNTP cfg w = (r, w')"
    and "sent w = []"
    and "Line (''AUTHINFO PASS '' @ NNTPPass cfg) \<in> set (sent w')"
  shows "\<exists>g u es. events w = NetOk # NetCode g # u # NetCode 381 # es"
  using assms
  by (auto simp: connectNNTP_def auth_user_def print_line_def read_code_def
      split: list.splits net_event.splits prod.splits option.splits if_splits)

definition demo_cfg :: nntp_cfg where
  "demo_cfg = \<lparr>NNTPUser = ''u'', NNTPPass = ''p'', NNTPFrom = ''a@b.c'', NNTPGroup = ''alt.test'',
     NNTPDomain = [], NNTPConnections = 2\<rparr>"

definition demo_wire :: "net_event list \<Rightarrow> wire" where
  "demo_wire es = \<lparr>events = es, sent = [], closed = True\<rparr>"

theorem password_only_after_381_witness:
  "\<exists>g u es. events (demo_wire [NetOk, NetCode 200, NetOk, NetCode 381, NetOk, NetCode 281]) =
     NetOk # NetCode g # u # NetCode 381 # es"
  by (rule password_only_after_381
      [of demo_cfg _ "fst (connectNNTP demo_cfg
           (demo_wire [NetOk, NetCode 200, NetOk, NetCode 381, NetOk, NetCode 281]))"
         "snd (connectNNTP demo_cfg
           (demo_wire [NetOk, NetCode 200, NetOk, NetCode 381, NetOk, NetCode 281]))"])
     (simp_all add: demo_cfg_def demo_wire_def connectNNTP_def auth_user_def auth_pass_def
        print_line_def read_code_def)

text \<open>
  A refused user name (any reply but 381) is not an error of the login: the connection is
  returned as if it were authenticated, without the password having been sent.
\<close>

lemma refused_user_is_accepted:
  assumes "NNTPUser cfg \<noteq> []" and "c \<noteq> 381"
  shows "connectNNTP cfg (demo_wire [NetOk, NetCode 200, NetOk, NetCode c]) =
    (None, \<lparr>events = [], sent = [Line (''AUTHINFO USER '' @ NNTPUser cfg)], closed = False\<rparr>)"
  using assms by (simp add: demo_wire_def connectNNTP_def auth_user_def print_line_def read_code_def)

subsection \<open>Dot stuffing\<close>

text \<open>What the receiving server does: read lines up to the lone dot and undo the stuffing.\<close>

fun undot_lines :: "byte list list \<Rightarrow> byte list list option" where
  "undot_lines [] = None"
| "undot_lines (l # ls) =
     (if l = [46] then Some []
      else map_option ((#) (if take 1 l = [46] then drop 1 l else l)) (undot_lines ls))"

definition plain_line :: "byte list \<Rightarrow> bool" where
  "plain_line l \<longleftrightarrow> 13 \<notin> set l \<and> 10 \<notin> set l"

definition stuff_line :: "byte list \<Rightarrow> byte list" where
  "stuff_line l = (if take 1 l = [46] then 46 # l else l)"

lemma dot_write_data:
  "plain_line l \<Longrightarrow> dot_write InData (l @ crlf @ rest) = l @ crlf @ dot_write AtLine rest"
  by (induction l) (simp_all add: plain_line_def crlf_def)

lemma dot_write_line:
  assumes "plain_line l"
  shows "dot_write AtLine (l @ crlf @ rest) = stuff_line l @ crlf @ dot_write AtLine rest"
proof (cases l)
  case Nil
  then show ?thesis by (simp add: stuff_line_def crlf_def)
next
  case (Cons c cs)
  with assms have "plain_line cs" "c \<noteq> 13" "c \<noteq> 10" by (simp_all add: plain_line_def)
  with Cons show ?thesis by (simp add: dot_write_data stuff_line_def)
qed

lemma dot_write_lines:
  "\<forall>l\<in>set ls. plain_line l \<Longrightarrow>
     dot_write AtLine (concat (map (\<lambda>l. l @ crlf) ls)) =
     concat (map (\<lambda>l. l @ crlf) (map stuff_line ls @ [[46]]))"
  by (induction ls) (simp_all add: dot_write_line, simp add: crlf_def)

lemma undot_stuff: "undot_lines (map stuff_line ls @ [46] # rest) = Some ls"
  by (induction ls) (auto simp: stuff_line_def)

text \<open>
  The receiver's view of the bytes of one POST: the lines of the article, the headers cut off at
  the first empty line, the rest handed to the yEnc decoder.
\<close>

definition receive_lines :: "byte list \<Rightarrow> byte list list option" where
  "receive_lines raw = undot_lines (crlf_lines [] raw)"

definition receive_chunk :: "byte list \<Rightarrow> byte list option" where
  "receive_chunk raw =
     (case receive_lines raw of
        None \<Rightarrow> None
      | Some ls \<Rightarrow>
          ydecode_article (concat (map (\<lambda>l. l @ crlf) (drop 1 (dropWhile (\<lambda>l. l \<noteq> []) ls)))))"

lemma receive_dot_write:
  assumes "\<forall>l\<in>set ls. plain_line l"
  shows "receive_lines (dot_write AtLine (concat (map (\<lambda>l. l @ crlf) ls))) = Some ls"
proof -
  have "\<forall>l\<in>set (map stuff_line ls @ [[46]]). 13 \<notin> set l"
    using assms by (auto simp: plain_line_def stuff_line_def)
  from crlf_lines_concat [OF this, of "[]"] show ?thesis
    using undot_stuff [of ls "[[]]"]
    by (simp add: receive_lines_def dot_write_lines [OF assms])
qed

text \<open>The header lines of an article.\<close>

definition header_lines :: "nntp_cfg \<Rightarrow> upload_job \<Rightarrow> go_string \<Rightarrow> byte list list" where
  "header_lines cfg job messageID =
     [bytes_of (''From: '' @ NNTPFrom cfg), bytes_of (''Newsgroups: '' @ NNTPGroup cfg),
      bytes_of (''Subject: '' @ Subject job), bytes_of (''Message-ID: <'' @ messageID @ ''>'')]"

definition one_line :: "go_string \<Rightarrow> bool" where
  "one_line s \<longleftrightarrow> CHR 0x0D \<notin> set s \<and> CHR 0x0A \<notin> set s"

lemma plain_bytes_of: "plain_line (bytes_of s) \<longleftrightarrow> one_line s"
  by (simp add: plain_line_def one_line_def cr_bytes_of lf_bytes_of)

lemma header_lines_plain:
  "one_line (NNTPFrom cfg) \<Longrightarrow> one_line (NNTPGroup cfg) \<Longrightarrow> one_line (Subject job) \<Longrightarrow>
   one_line mid \<Longrightarrow> \<forall>l\<in>set (header_lines cfg job mid). plain_line l \<and> l \<noteq> []"
  by (simp only: header_lines_def list.set plain_bytes_of ball_simps)
     (simp add: one_line_def bytes_of_def)

lemma article_headers_concat:
  "article_headers cfg job mid =
     concat (map (\<lambda>l. l @ crlf) (header_lines cfg job mid @ [[]]))"
  by (simp add: article_headers_def header_lines_def)

lemma receive_chunk_posted:
  assumes "one_line (NNTPFrom cfg)" "one_line (NNTPGroup cfg)" "one_line (Subject job)"
    and "one_line mid" "one_line (FileName job)"
  shows "receive_chunk (dot_write AtLine (article_headers cfg job mid @ encode_job job)) =
    Some (ChunkData job)"
proof -
  let ?hs = "header_lines cfg job mid"
  let ?ls = "yenc_article_lines (ChunkData job) (FileName job) (Number job) (TotalParts job)
    (ChunkOffset job) (TotalSize job)"
  have hs: "\<forall>l\<in>set ?hs. plain_line l \<and> l \<noteq> []"
    using assms by (simp add: header_lines_plain)
  have enc: "encode_job job = concat (map (\<lambda>l. l @ crlf) ?ls)"
    by (simp add: encode_job_def yEncodeChunk_concat)
  have "\<forall>l\<in>set ?ls. plain_line l"
    using assms(5) yenc_article_lines_no_cr yenc_article_lines_no_lf
    by (auto simp: plain_line_def one_line_def)
  with hs have "receive_lines (dot_write AtLine (article_headers cfg job mid @ encode_job job)) =
      Some (?hs @ [] # ?ls)"
    using receive_dot_write [of "?hs @ [] # ?ls"]
    by (simp add: article_headers_concat enc plain_line_def ball_Un)
  moreover have "dropWhile (\<lambda>l. l \<noteq> []) (?hs @ [] # ?ls) = [] # ?ls"
    using hs by (simp add: dropWhile_append2)
  ultimately have "receive_chunk (dot_write AtLine (article_headers cfg job mid @ encode_job job))
      = ydecode_article (encode_job job)"
    by (simp add: receive_chunk_def enc)
  then show ?thesis
    using assms(5) by (simp add: encode_job_def one_line_def ydecode_yEncodeChunk)
qed

text \<open>
  From the chunk to the reader. Whatever the chunk's bytes, the bytes that one POST writes
  (headers, yEnc article, dot stuffing and terminator) are read back by a server and a downloader
  as exactly that chunk: provided the configured headers, the subject, the Message-ID and the file
  name are single lines.
\<close>

theorem posted_article_decodes:
  assumes "one_line (NNTPFrom cfg)" "one_line (NNTPGroup cfg)" "one_line (Subject job)"
    and "one_line mid" "one_line (FileName job)"
  shows "receive_chunk (dot_write AtLine (article_headers cfg job mid @ encode_job job)) =
    Some (ChunkData job)"
  using assms by (rule receive_chunk_posted)

definition demo_job :: upload_job where
  "demo_job = \<lparr>ChunkData = [4, 214, 19], Number = 1, TotalParts = 1, Subject = ''x [1/1]'',
     FileName = ''a.bin'', ChunkOffset = 0, TotalSize = 3\<rparr>"

theorem posted_article_decodes_witness:
  "receive_chunk (dot_write AtLine (article_headers demo_cfg demo_job ''1@b.c'' @ encode_job demo_job))
     = Some [4, 214, 19]"
  using posted_article_decodes [of demo_cfg demo_job "''1@b.c''"]
  by (simp add: demo_cfg_def demo_job_def one_line_def)

subsection \<open>The retry loop: facts\<close>

definition raw_article :: "nntp_cfg \<Rightarrow> upload_job \<Rightarrow> go_string \<Rightarrow> byte list \<Rightarrow> byte list" where
  "raw_article cfg job mid enc = dot_write AtLine (article_headers cfg job mid @ enc)"

lemma uploadChunk_result:
  assumes "uploadChunk cfg job mid enc w = (r, w')"
  shows "(\<exists>pre. events w = pre @ events w') \<and>
    (\<exists>n\<le>1. articles (sent w') = articles (sent w) @ replicate n (raw_article cfg job mid enc))"
  using assms
  by (auto simp: uploadChunk_def raw_article_def split: prod.splits option.splits
      dest!: print_line_result read_code_result write_article_result
      intro: exI [of _ "0::nat"] exI [of _ "1::nat"])

lemma uploadChunk_posted:
  assumes "uploadChunk cfg job mid enc w = (None, w')"
  shows "(\<exists>pre. events w = pre @ NetCode 240 # events w') \<and>
    articles (sent w') = articles (sent w) @ [raw_article cfg job mid enc]"
proof -
  from assms obtain w1 w2 w3 where
    w1: "print_line ''POST'' w = (None, w1)" and w2: "read_code 340 w1 = (None, w2)" and
    w3: "write_article (raw_article cfg job mid enc) w2 = (None, w3)" and
    w': "read_code 240 w3 = (None, w')"
    by (auto simp: uploadChunk_def raw_article_def split: prod.splits option.splits)
  from w' have "events w3 = NetCode 240 # events w'" "sent w' = sent w3"
    by (auto simp: read_code_None_iff)
  with print_line_result [OF w1] read_code_result [OF w2] write_article_result [OF w3]
  show ?thesis by auto
qed

lemma attempt_conn:
  assumes "(if conn_open s then (None, io s) else connectNNTP cfg (io s)) = (r, w1)"
  shows "(\<exists>pre. events (io s) = pre @ events w1) \<and> articles (sent w1) = articles (sent (io s)) \<and>
    (r \<noteq> None \<longrightarrow> \<not> conn_open s)"
  using assms connectNNTP_result by (auto split: if_splits)

fun backoffs :: "nat \<Rightarrow> nat \<Rightarrow> duration" where
  "backoffs attempt 0 = 0"
| "backoffs attempt (Suc left) = backoff attempt + backoffs (Suc attempt) left"

lemma backoff_nonneg: "0 \<le> backoff a"
  by (simp add: backoff_def second_def Let_def)

lemma backoffs_nonneg: "0 \<le> backoffs a k"
  by (induction a k rule: backoffs.induct) (use backoff_nonneg in \<open>auto intro: add_nonneg_nonneg\<close>)

text \<open>One turn of the loop either posts the article or goes on without a connection.\<close>

lemma post_attempts_Suc:
  assumes "post_attempts cfg job mid enc a (Suc k) s = (ok, s')"
  obtains (retry) s1 n pre where "post_attempts cfg job mid enc (Suc a) k s1 = (ok, s')"
      "slept s1 = slept s + backoff a" "\<not> conn_open s1" "events (io s) = pre @ events (io s1)"
      "n \<le> 1"
      "articles (sent (io s1)) = articles (sent (io s)) @ replicate n (raw_article cfg job mid enc)"
    | (posted) pre where "ok" "slept s' = slept s" "conn_open s'"
      "events (io s) = pre @ NetCode 240 # events (io s')"
      "articles (sent (io s')) = articles (sent (io s)) @ [raw_article cfg job mid enc]"
proof -
  obtain r w1 where c: "(if conn_open s then (None, io s) else connectNNTP cfg (io s)) = (r, w1)"
    by (cases "if conn_open s then (None, io s) else connectNNTP cfg (io s)")
  from attempt_conn [OF this] obtain pre where pre: "events (io s) = pre @ events w1"
    "articles (sent w1) = articles (sent (io s))" "r \<noteq> None \<longrightarrow> \<not> conn_open s"
    by auto
  obtain r2 w2 where u: "uploadChunk cfg job mid enc w1 = (r2, w2)"
    by (cases "uploadChunk cfg job mid enc w1")
  from uploadChunk_result [OF this] obtain pre2 n where u2: "events w1 = pre2 @ events w2" "n \<le> 1"
    "articles (sent w2) = articles (sent w1) @ replicate n (raw_article cfg job mid enc)"
    by auto
  consider (conn) e where "r = Some e" | (post) e where "r = None" "r2 = Some e"
    | (accepted) "r = None" "r2 = None" by (cases r; cases r2) auto
  then show thesis
  proof cases
    case conn
    with assms c pre show thesis
      by (intro retry [of "s\<lparr>io := w1, slept := slept s + backoff a\<rparr>" pre 0]) auto
  next
    case post
    with assms c pre u u2 show thesis
      by (intro retry [of "s\<lparr>conn_open := False, io := close_conn w2,
            slept := slept s + backoff a\<rparr>" "pre @ pre2" n]) auto
  next
    case accepted
    with assms c u have s': "ok" "s' = s\<lparr>conn_open := True, io := w2\<rparr>" by auto
    from uploadChunk_posted u accepted obtain p where "events w1 = p @ NetCode 240 # events w2"
      "articles (sent w2) = articles (sent w1) @ [raw_article cfg job mid enc]" by blast
    with pre s' show thesis by (intro posted [of "pre @ p"]) auto
  qed
qed

lemma post_attempts_failed:
  "post_attempts cfg job mid enc a k s = (False, s') \<Longrightarrow>
     slept s' = slept s + backoffs a k \<and> (0 < k \<or> \<not> conn_open s \<longrightarrow> \<not> conn_open s')"
proof (induction k arbitrary: a s)
  case (Suc k)
  from Suc.prems show ?case by (rule post_attempts_Suc) (auto dest: Suc.IH)
qed simp

lemma post_attempts_slept:
  "post_attempts cfg job mid enc a k s = (ok, s') \<Longrightarrow> slept s' \<le> slept s + backoffs a k"
proof (induction k arbitrary: a s)
  case (Suc k)
  from Suc.prems show ?case
    by (cases rule: post_attempts_Suc)
      (use backoff_nonneg [of a] backoffs_nonneg [of "Suc a" k] in \<open>auto dest!: Suc.IH\<close>)
qed simp

lemma post_attempts_articles:
  "post_attempts cfg job mid enc a k s = (ok, s') \<Longrightarrow>
     \<exists>n\<le>k. articles (sent (io s')) =
       articles (sent (io s)) @ replicate n (raw_article cfg job mid enc)"
proof (induction k arbitrary: a s)
  case (Suc k)
  from Suc.prems show ?case
  proof (cases rule: post_attempts_Suc)
    case (retry s1 m pre)
    with Suc.IH [OF retry(1)] obtain n where "n \<le> k" "articles (sent (io s')) =
        articles (sent (io s)) @ replicate (m + n) (raw_article cfg job mid enc)"
      by (auto simp: replicate_add)
    with retry(5) show ?thesis by (intro exI [of _ "m + n"]) simp
  next
    case (posted pre)
    then show ?thesis by (intro exI [of _ 1]) simp
  qed
qed simp

lemma post_attempts_posted:
  "post_attempts cfg job mid enc a k s = (True, s') \<Longrightarrow>
     conn_open s' \<and> (\<exists>pre. events (io s) = pre @ NetCode 240 # events (io s'))"
proof (induction k arbitrary: a s)
  case (Suc k)
  from Suc.prems show ?case
    by (cases rule: post_attempts_Suc) (auto dest: Suc.IH)
qed simp

text \<open>
  C17. Bounded retries, for every behaviour of the server. One job writes at most three articles,
  all of them the same bytes (so with the same Message-ID); it is reported as posted only after
  the server answered 240 to the article, with the connection kept; a job given up has slept
  exactly 2 + 4 + 8 seconds and left no connection; no job sleeps longer.
\<close>

theorem worker_job_contract:
  assumes "worker_job cfg uuid job s = (posted, s')"
  shows "(\<exists>n\<le>3. articles (sent (io s')) = articles (sent (io s)) @
            replicate n (raw_article cfg job (message_id cfg uuid) (encode_job job))) \<and>
    (posted \<longrightarrow> conn_open s' \<and> (\<exists>pre. events (io s) = pre @ NetCode 240 # events (io s'))) \<and>
    (\<not> posted \<longrightarrow> \<not> conn_open s' \<and> slept s' = slept s + 14 * second) \<and>
    slept s' \<le> slept s + 14 * second"
proof -
  have b: "backoffs 1 3 = 14 * second"
    by (simp add: numeral_3_eq_3 backoff_def second_def Let_def)
  from assms have p: "post_attempts cfg job (message_id cfg uuid) (encode_job job) 1 3 s =
      (posted, s')"
    by (simp add: worker_job_def maxRetries_def)
  from post_attempts_articles [OF p] post_attempts_slept [OF p] p post_attempts_failed
    post_attempts_posted b
  show ?thesis by (cases posted) fastforce+
qed

text \<open>A server that drops the first connection and accepts the article on the second.\<close>

definition flaky_server :: "net_event list" where
  "flaky_server = [NetOk, NetCode 200, NetOk, NetCode 381, NetOk, NetCode 281, NetOk, NetFail,
     NetOk, NetCode 200, NetOk, NetCode 381, NetOk, NetCode 281,
     NetOk, NetCode 340, NetOk, NetCode 240]"

definition demo_worker :: "worker_io" where
  "demo_worker = \<lparr>conn_open = False, io = demo_wire flaky_server, slept = 0\<rparr>"

lemmas session_defs = worker_job_def maxRetries_def numeral_3_eq_3 connectNNTP_def auth_user_def
  auth_pass_def print_line_def read_code_def uploadChunk_def write_article_def close_conn_def
  demo_wire_def flaky_server_def demo_worker_def

theorem worker_job_contract_witness:
  "fst (worker_job demo_cfg ''1'' demo_job demo_worker) \<and>
   (\<exists>pre. flaky_server = pre @ NetCode 240 #
      events (io (snd (worker_job demo_cfg ''1'' demo_job demo_worker))))"
proof -
  have p: "fst (worker_job demo_cfg ''1'' demo_job demo_worker)"
    by (simp add: session_defs demo_cfg_def)
  then have "worker_job demo_cfg ''1'' demo_job demo_worker =
      (True, snd (worker_job demo_cfg ''1'' demo_job demo_worker))"
    by (simp add: prod_eq_iff)
  from worker_job_contract [OF this] p show ?thesis
    by (simp add: demo_worker_def demo_wire_def)
qed

end
