(* ===== verification/Nntp_Upload.thy ===== *)
theory Nntp_Upload
  imports Nntp_Session "HOL-Library.Multiset"
begin

text \<open>
  The upload of one file (\<open>UploadToUsenet\<close>) and of a directory (\<open>UploadDirectory\<close>) in
  \<open>src/services/usenet.go\<close>. The dispatcher that cuts the file into jobs is a function of what
  the reads of the file return; the goroutines (dispatcher, workers, the one that closes the
  results, the collector) are a transition system over the three channels, with every
  interleaving allowed. The theorems: the jobs tile the file; every execution ends, none gets
  stuck before the function returns, and a reported success accounts for every job exactly once.
\<close>

subsection \<open>Cutting the file into jobs\<close>

definition ChunkSize :: nat where
  "ChunkSize = 700 * 1024"

definition total_chunks :: "nat \<Rightarrow> nat" where
  "total_chunks fsize = (fsize + ChunkSize - 1) div ChunkSize"

text \<open>One \<open>file.Read\<close>: some bytes (none at the end of the file), or an error.\<close>

datatype read_result = ReadBytes "byte list" | ReadFailed

definition mk_job :: "nat \<Rightarrow> nat \<Rightarrow> go_string \<Rightarrow> go_string \<Rightarrow> nat \<Rightarrow> byte list \<Rightarrow> upload_job" where
  "mk_job i totalChunks subject fileName fsize chunkData =
     \<lparr>ChunkData = chunkData, Number = int i, TotalParts = int totalChunks,
      Subject = subject @ '' ['' @ nat_str i @ ''/'' @ nat_str totalChunks @ '']'',
      FileName = fileName, ChunkOffset = (int i - 1) * int ChunkSize, TotalSize = int fsize\<rparr>"

text \<open>
  The dispatcher's loop from chunk \<open>i\<close>: the jobs it sends and whether it ends by reporting a read
  error. No read left means the end of the file.
\<close>

fun dispatch_jobs ::
  "nat \<Rightarrow> nat \<Rightarrow> go_string \<Rightarrow> go_string \<Rightarrow> nat \<Rightarrow> read_result list \<Rightarrow> upload_job list \<times> bool"
where
  "dispatch_jobs i totalChunks subject fileName fsize [] = ([], False)"
| "dispatch_jobs i totalChunks subject fileName fsize (r # rs) =
     (if totalChunks < i then ([], False)
      else case r of
        ReadFailed \<Rightarrow> ([], True)
      | ReadBytes d \<Rightarrow>
          if d = [] then ([], False)
          else (let (js, e) = dispatch_jobs (Suc i) totalChunks subject fileName fsize rs
                in (mk_job i totalChunks subject fileName fsize d # js, e)))"

text \<open>
  The reads of a regular file whose every \<open>Read\<close> fills the buffer: consecutive pieces of
  \<^const>\<open>ChunkSize\<close> bytes. \<open>piece\<close> is the \<open>k\<close>-th of them.
\<close>

definition piece :: "byte list \<Rightarrow> nat \<Rightarrow> byte list" where
  "piece content k = take ChunkSize (drop (k * ChunkSize) content)"

definition full_reads :: "byte list \<Rightarrow> read_result list" where
  "full_reads content = map (\<lambda>k. ReadBytes (piece content k)) [0..<Suc (total_chunks (length content))]"

definition file_jobs :: "go_string \<Rightarrow> go_string \<Rightarrow> byte list \<Rightarrow> upload_job list \<times> bool" where
  "file_jobs subject fileName content =
     dispatch_jobs 1 (total_chunks (length content)) subject fileName (length content)
       (full_reads content)"

lemma ChunkSize_pos [simp]: "0 < ChunkSize"
  by (simp add: ChunkSize_def)

lemma total_chunks_zero [simp]: "total_chunks 0 = 0"
  by (simp add: total_chunks_def)

lemma total_chunks_bounds:
  "n \<le> total_chunks n * ChunkSize" "0 < n \<Longrightarrow> (total_chunks n - 1) * ChunkSize < n"
proof -
  have "n + ChunkSize - 1 < (total_chunks n + 1) * ChunkSize"
    using dividend_less_div_times [of ChunkSize "n + ChunkSize - 1"]
    by (simp add: total_chunks_def)
  then show "n \<le> total_chunks n * ChunkSize" by simp
  have "total_chunks n * ChunkSize \<le> n + ChunkSize - 1"
    by (simp add: total_chunks_def)
  then show "0 < n \<Longrightarrow> (total_chunks n - 1) * ChunkSize < n"
    by (simp add: diff_mult_distrib)
qed

lemma piece_nonempty: "k < total_chunks (length content) \<Longrightarrow> piece content k \<noteq> []"
proof -
  assume k: "k < total_chunks (length content)"
  then have pos: "0 < length content" by (cases "length content") auto
  from k have "k * ChunkSize \<le> (total_chunks (length content) - 1) * ChunkSize"
    by (intro mult_right_mono) auto
  also have "\<dots> < length content" by (rule total_chunks_bounds(2) [OF pos])
  finally show ?thesis by (simp add: piece_def)
qed

lemma concat_pieces: "concat (map (piece content) [0..<k]) = take (k * ChunkSize) content"
  by (induction k) (simp_all add: piece_def take_add [symmetric] add.commute)

lemma dispatch_full_reads:
  assumes "k \<le> total_chunks (length content)"
  shows "dispatch_jobs (Suc k) (total_chunks (length content)) subject fileName fsize
      (map (\<lambda>k. ReadBytes (piece content k)) [k..<Suc (total_chunks (length content))]) =
    (map (\<lambda>k. mk_job (Suc k) (total_chunks (length content)) subject fileName fsize (piece content k))
      [k..<total_chunks (length content)], False)"
  using assms
proof (induction k rule: inc_induct)
  case base
  then show ?case by simp
next
  case (step k)
  then have "[k..<Suc (total_chunks (length content))] = k # [Suc k..<Suc (total_chunks (length content))]"
    "[k..<total_chunks (length content)] = k # [Suc k..<total_chunks (length content)]"
    by (simp_all add: upt_conv_Cons)
  with step show ?case by (simp add: piece_nonempty del: upt_Suc)
qed

lemma file_jobs_eq:
  "file_jobs subject fileName content =
     (map (\<lambda>k. mk_job (Suc k) (total_chunks (length content)) subject fileName (length content)
        (piece content k)) [0..<total_chunks (length content)], False)"
  using dispatch_full_reads [of 0 content] by (simp add: file_jobs_def full_reads_def)

text \<open>
  The jobs tile the file. For every content, the dispatcher sends exactly
  \<open>total_chunks\<close> jobs and no read error; they are numbered from 1, carry that total, hold between 1 and
  \<^const>\<open>ChunkSize\<close> bytes each, each one's bytes are those at its offset, and their
  concatenation is the file.
\<close>

theorem file_jobs_tile:
  "case file_jobs subject fileName content of (js, e) \<Rightarrow>
     \<not> e \<and> map Number js = map int [1..<Suc (total_chunks (length content))] \<and>
     list_all (\<lambda>j. TotalParts j = int (length js) \<and> TotalSize j = int (length content) \<and>
        1 \<le> length (ChunkData j) \<and> length (ChunkData j) \<le> ChunkSize \<and> 0 \<le> ChunkOffset j \<and>
        ChunkData j = take ChunkSize (drop (nat (ChunkOffset j)) content)) js \<and>
     concat (map ChunkData js) = content"
proof -
  let ?n = "total_chunks (length content)"
  have "concat (map (\<lambda>k. piece content k) [0..<?n]) = content"
    using concat_pieces [of content ?n] total_chunks_bounds(1) [of "length content"] by simp
  moreover have "map (\<lambda>k. int (Suc k)) [0..<?n] = map int [1..<Suc ?n]"
    by (simp only: One_nat_def map_Suc_upt [symmetric] list.map_comp o_def)
  moreover have "piece content k \<noteq> [] \<and> length (piece content k) \<le> ChunkSize" if "k < ?n" for k
    using piece_nonempty [OF that] by (simp add: piece_def)
  moreover have "nat (int k * int ChunkSize) = k * ChunkSize" for k
    by (metis nat_int of_nat_mult)
  ultimately show ?thesis
    by (simp add: file_jobs_eq mk_job_def o_def list_all_iff piece_def Suc_le_eq)
qed

text \<open>
  A read that returns fewer bytes than the buffer holds is taken for a whole chunk: the loop
  still stops after \<open>total_chunks\<close> reads, so the end of the file is silently never sent.
\<close>

lemma short_read_truncates:
  assumes "0 < length d" "fsize \<le> ChunkSize" "0 < fsize"
  shows "dispatch_jobs 1 (total_chunks fsize) subject fileName fsize (ReadBytes d # rs) =
    ([mk_job 1 1 subject fileName fsize d], False)"
proof -
  have "total_chunks fsize = 1"
    using assms by (simp add: total_chunks_def ChunkSize_def)
  with assms show ?thesis by (cases rs) auto
qed

subsection \<open>The goroutines of one upload\<close>

record nzb_segment =
  Bytes :: int
  seg_Number :: int
  MessageID :: go_string

datatype upload_error = ReadChunkError | ChunkFailed int | Cancelled

datatype dispatcher = DispNext | DispSending upload_job | DispDone

datatype worker = Idle | Posting upload_job | Delivering nzb_segment | Exited

text \<open>
  \<open>todo\<close> and \<open>read_fails\<close> are what the dispatcher will still read; \<open>jobs\<close> and \<open>results\<close> the
  buffered channels, both of capacity twice the number of workers; \<open>errs\<close> the channel of
  capacity one; \<open>ctx_done\<close> whether the context is cancelled; \<open>returned\<close> what the function
  returned.
\<close>

record pool =
  todo :: "upload_job list"
  read_fails :: bool
  disp :: dispatcher
  jobs :: "upload_job list"
  workers :: "worker list"
  results :: "nzb_segment list"
  results_closed :: bool
  errs :: "upload_error option"
  segments :: "nzb_segment list"
  ctx_done :: bool
  returned :: "(upload_error + nzb_segment list) option"

definition chan_cap :: "pool \<Rightarrow> nat" where
  "chan_cap s = 2 * length (workers s)"

text \<open>\<open>select { case errs <- err: default: }\<close>\<close>

definition offer_err :: "upload_error \<Rightarrow> pool \<Rightarrow> pool" where
  "offer_err e s = (case errs s of None \<Rightarrow> s\<lparr>errs := Some e\<rparr> | Some _ \<Rightarrow> s)"

text \<open>
  Who moves: the context, the dispatcher (look at the next chunk, send it, stop), worker \<open>i\<close>
  (take a job, finish posting it under a Message-ID, give it up, deliver its segment, leave),
  the goroutine that closes the results, the collector (receive a segment, return).
\<close>

datatype move = Cancel | DispRead | DispSend | DispStop | Take nat | Posted nat go_string
  | GaveUp nat | Deliver nat | Leave nat | CloseResults | Collect | Return

definition set_worker :: "nat \<Rightarrow> worker \<Rightarrow> pool \<Rightarrow> pool" where
  "set_worker i w s = s\<lparr>workers := (workers s)[i := w]\<rparr>"

fun worker_at :: "pool \<Rightarrow> nat \<Rightarrow> worker option" where
  "worker_at s i = (if i < length (workers s) then Some (workers s ! i) else None)"

definition job_segment :: "upload_job \<Rightarrow> go_string \<Rightarrow> nzb_segment" where
  "job_segment job messageID =
     \<lparr>Bytes = int (length (ChunkData job)), seg_Number = Number job, MessageID = messageID\<rparr>"

definition disp_step :: "move \<Rightarrow> pool \<Rightarrow> pool option" where
  "disp_step m s =
     (case (m, disp s) of
        (DispRead, DispNext) \<Rightarrow>
          (case todo s of
             j # js \<Rightarrow> if ctx_done s then None else Some (s\<lparr>todo := js, disp := DispSending j\<rparr>)
           | [] \<Rightarrow> None)
      | (DispSend, DispSending j) \<Rightarrow>
          if length (jobs s) < chan_cap s then Some (s\<lparr>jobs := jobs s @ [j], disp := DispNext\<rparr>)
          else None
      | (DispStop, DispNext) \<Rightarrow>
          if ctx_done s then Some (s\<lparr>disp := DispDone\<rparr>)
          else if todo s = [] then
            Some ((if read_fails s then offer_err ReadChunkError s else s)\<lparr>disp := DispDone\<rparr>)
          else None
      | _ \<Rightarrow> None)"

definition worker_step :: "move \<Rightarrow> pool \<Rightarrow> pool option" where
  "worker_step m s =
     (case m of
        Take i \<Rightarrow>
          (case (worker_at s i, jobs s) of
             (Some Idle, j # js) \<Rightarrow>
               Some (set_worker i (if ctx_done s then Exited else Posting j) (s\<lparr>jobs := js\<rparr>))
           | _ \<Rightarrow> None)
      | Posted i mid \<Rightarrow>
          (case worker_at s i of
             Some (Posting j) \<Rightarrow> Some (set_worker i (Delivering (job_segment j mid)) s)
           | _ \<Rightarrow> None)
      | GaveUp i \<Rightarrow>
          (case worker_at s i of
             Some (Posting j) \<Rightarrow> Some (set_worker i Exited (offer_err (ChunkFailed (Number j)) s))
           | _ \<Rightarrow> None)
      | Deliver i \<Rightarrow>
          (case worker_at s i of
             Some (Delivering g) \<Rightarrow>
               if length (results s) < chan_cap s
               then Some (set_worker i Idle (s\<lparr>results := results s @ [g]\<rparr>)) else None
           | _ \<Rightarrow> None)
      | Leave i \<Rightarrow>
          if worker_at s i = Some Idle \<and> jobs s = [] \<and> disp s = DispDone
          then Some (set_worker i Exited s) else None
      | _ \<Rightarrow> None)"

definition collect_step :: "move \<Rightarrow> pool \<Rightarrow> pool option" where
  "collect_step m s =
     (case m of
        CloseResults \<Rightarrow>
          if list_all (\<lambda>w. w = Exited) (workers s) \<and> \<not> results_closed s
          then Some (s\<lparr>results_closed := True\<rparr>) else None
      | Collect \<Rightarrow>
          (case results s of
             g # gs \<Rightarrow>
               if returned s = None
               then Some (s\<lparr>results := gs,
                            segments := (if ctx_done s then segments s else segments s @ [g])\<rparr>)
               else None
           | [] \<Rightarrow> None)
      | Return \<Rightarrow>
          if results s = [] \<and> results_closed s \<and> returned s = None
          then Some (s\<lparr>returned := Some (if ctx_done s then Inl Cancelled
                 else case errs s of Some e \<Rightarrow> Inl e | None \<Rightarrow> Inr (segments s))\<rparr>)
          else None
      | _ \<Rightarrow> None)"

definition pool_step :: "move \<Rightarrow> pool \<Rightarrow> pool option" where
  "pool_step m s =
     (case m of
        Cancel \<Rightarrow> if ctx_done s \<or> returned s \<noteq> None then None else Some (s\<lparr>ctx_done := True\<rparr>)
      | DispRead \<Rightarrow> disp_step m s | DispSend \<Rightarrow> disp_step m s | DispStop \<Rightarrow> disp_step m s
      | CloseResults \<Rightarrow> collect_step m s | Collect \<Rightarrow> collect_step m s
      | Return \<Rightarrow> collect_step m s
      | _ \<Rightarrow> worker_step m s)"

text \<open>
  The start of \<open>UploadToUsenet\<close>: the channels are made and the workers started. A negative
  number of connections makes the channel allocation panic.
\<close>

definition start_upload :: "nntp_cfg \<Rightarrow> upload_job list \<times> bool \<Rightarrow> pool option" where
  "start_upload cfg plan =
     (if NNTPConnections cfg < 0 then None
      else Some \<lparr>todo = fst plan, read_fails = snd plan, disp = DispNext, jobs = [],
         workers = replicate (nat (NNTPConnections cfg)) Idle, results = [], results_closed = False,
         errs = None, segments = [], ctx_done = False, returned = None\<rparr>)"

text \<open>A run: a sequence of moves, each of them possible.\<close>

fun run_pool :: "move list \<Rightarrow> pool \<Rightarrow> pool option" where
  "run_pool [] s = Some s"
| "run_pool (m # ms) s = (case pool_step m s of None \<Rightarrow> None | Some s' \<Rightarrow> run_pool ms s')"

inductive pool_reach :: "pool \<Rightarrow> pool \<Rightarrow> bool" for s0 where
  start: "pool_reach s0 s0"
| step: "pool_reach s0 s \<Longrightarrow> pool_step m s = Some s' \<Longrightarrow> pool_reach s0 s'"

lemma run_pool_reach: "pool_reach s0 s \<Longrightarrow> run_pool ms s = Some s' \<Longrightarrow> pool_reach s0 s'"
  by (induction ms arbitrary: s) (auto split: option.splits intro: pool_reach.step)

lemmas pool_step_defs = pool_step_def disp_step_def worker_step_def collect_step_def

text \<open>One case per branch of the program, for the proofs about single steps.\<close>

lemma pool_step_cases:
  assumes "pool_step m s = Some s'"
  obtains (cancel) "m = Cancel" "\<not> ctx_done s" "returned s = None" "s' = s\<lparr>ctx_done := True\<rparr>"
  | (read) j js where "m = DispRead" "disp s = DispNext" "todo s = j # js" "\<not> ctx_done s"
      "s' = s\<lparr>todo := js, disp := DispSending j\<rparr>"
  | (send) j where "m = DispSend" "disp s = DispSending j" "length (jobs s) < chan_cap s"
      "s' = s\<lparr>jobs := jobs s @ [j], disp := DispNext\<rparr>"
  | (stop_ctx) "m = DispStop" "disp s = DispNext" "ctx_done s" "s' = s\<lparr>disp := DispDone\<rparr>"
  | (stop) "m = DispStop" "disp s = DispNext" "\<not> ctx_done s" "todo s = []"
      "s' = (if read_fails s then offer_err ReadChunkError s else s)\<lparr>disp := DispDone\<rparr>"
  | (take) i j js where "m = Take i" "i < length (workers s)" "workers s ! i = Idle"
      "jobs s = j # js"
      "s' = set_worker i (if ctx_done s then Exited else Posting j) (s\<lparr>jobs := js\<rparr>)"
  | (posted) i mid j where "m = Posted i mid" "i < length (workers s)"
      "workers s ! i = Posting j" "s' = set_worker i (Delivering (job_segment j mid)) s"
  | (gave_up) i j where "m = GaveUp i" "i < length (workers s)" "workers s ! i = Posting j"
      "s' = set_worker i Exited (offer_err (ChunkFailed (Number j)) s)"
  | (deliver) i g where "m = Deliver i" "i < length (workers s)" "workers s ! i = Delivering g"
      "length (results s) < chan_cap s" "s' = set_worker i Idle (s\<lparr>results := results s @ [g]\<rparr>)"
  | (leave) i where "m = Leave i" "i < length (workers s)" "workers s ! i = Idle"
      "jobs s = []" "disp s = DispDone" "s' = set_worker i Exited s"
  | (close) "m = CloseResults" "list_all (\<lambda>w. w = Exited) (workers s)" "\<not> results_closed s"
      "s' = s\<lparr>results_closed := True\<rparr>"
  | (collect) g gs where "m = Collect" "results s = g # gs" "returned s = None"
      "s' = s\<lparr>results := gs, segments := (if ctx_done s then segments s else segments s @ [g])\<rparr>"
  | (return) "m = Return" "results s = []" "results_closed s" "returned s = None"
      "s' = s\<lparr>returned := Some (if ctx_done s then Inl Cancelled
          else case errs s of Some e \<Rightarrow> Inl e | None \<Rightarrow> Inr (segments s))\<rparr>"
proof (cases m)
  case Cancel
  with assms show thesis
    by (auto simp: pool_step_defs split: option.splits worker.splits list.splits
        dispatcher.splits if_splits intro: cancel)
next
  case DispRead
  with assms show thesis
    by (auto simp: pool_step_defs split: option.splits worker.splits list.splits
        dispatcher.splits if_splits intro: read)
next
  case DispSend
  with assms show thesis
    by (auto simp: pool_step_defs split: option.splits worker.splits list.splits
        dispatcher.splits if_splits intro: send)
next
  case DispStop
  with assms show thesis
    by (auto simp: pool_step_defs split: option.splits worker.splits list.splits
        dispatcher.splits if_splits intro: stop_ctx stop)
next
  case (Take i)
  with assms show thesis
    by (auto simp: pool_step_defs split: option.splits worker.splits list.splits
        dispatcher.splits if_splits intro: take)
next
  case (Posted i mid)
  with assms show thesis
    by (auto simp: pool_step_defs split: option.splits worker.splits list.splits
        dispatcher.splits if_splits intro: posted)
next
  case (GaveUp i)
  with assms show thesis
    by (auto simp: pool_step_defs split: option.splits worker.splits list.splits
        dispatcher.splits if_splits intro: gave_up)
next
  case (Deliver i)
  with assms show thesis
    by (auto simp: pool_step_defs split: option.splits worker.splits list.splits
        dispatcher.splits if_splits intro: deliver)
next
  case (Leave i)
  with assms show thesis
    by (auto simp: pool_step_defs split: option.splits worker.splits list.splits
        dispatcher.splits if_splits intro: leave)
next
  case CloseResults
  with assms show thesis
    by (auto simp: pool_step_defs split: option.splits worker.splits list.splits
        dispatcher.splits if_splits intro: close)
next
  case Collect
  with assms show thesis
    by (auto simp: pool_step_defs split: option.splits worker.splits list.splits
        dispatcher.splits if_splits intro: collect)
next
  case Return
  with assms show thesis
    by (auto simp: pool_step_defs split: option.splits worker.splits list.splits
        dispatcher.splits if_splits intro: return)
qed

subsection \<open>Every execution ends\<close>

fun worker_weight :: "worker \<Rightarrow> nat" where
  "worker_weight Idle = 1"
| "worker_weight (Posting j) = 4"
| "worker_weight (Delivering g) = 3"
| "worker_weight Exited = 0"

fun disp_weight :: "dispatcher \<Rightarrow> nat" where
  "disp_weight DispNext = 1"
| "disp_weight (DispSending j) = 7"
| "disp_weight DispDone = 0"

definition pool_weight :: "pool \<Rightarrow> nat" where
  "pool_weight s =
     7 * length (todo s) + disp_weight (disp s) + 5 * length (jobs s) +
     sum_list (map worker_weight (workers s)) + length (results s) +
     (if results_closed s then 0 else 1) + (if ctx_done s then 0 else 1) +
     (if returned s = None then 1 else 0)"

lemma sum_list_set_worker:
  "i < length ws \<Longrightarrow> sum_list (map f (ws[i := w])) + f (ws ! i) = sum_list (map f ws) + (f w :: nat)"
  by (induction ws arbitrary: i) (auto split: nat.splits)

lemma set_worker_fields [simp]:
  "workers (set_worker i w s) = (workers s)[i := w]" "todo (set_worker i w s) = todo s"
  "disp (set_worker i w s) = disp s" "jobs (set_worker i w s) = jobs s"
  "results (set_worker i w s) = results s" "results_closed (set_worker i w s) = results_closed s"
  "ctx_done (set_worker i w s) = ctx_done s" "returned (set_worker i w s) = returned s"
  "errs (set_worker i w s) = errs s" "segments (set_worker i w s) = segments s"
  "read_fails (set_worker i w s) = read_fails s"
  by (simp_all add: set_worker_def)

lemma offer_err_fields [simp]:
  "workers (offer_err e s) = workers s" "todo (offer_err e s) = todo s"
  "disp (offer_err e s) = disp s" "jobs (offer_err e s) = jobs s"
  "results (offer_err e s) = results s" "results_closed (offer_err e s) = results_closed s"
  "ctx_done (offer_err e s) = ctx_done s" "returned (offer_err e s) = returned s"
  "errs (offer_err e s) \<noteq> None" "segments (offer_err e s) = segments s"
  "read_fails (offer_err e s) = read_fails s"
  by (simp_all add: offer_err_def split: option.splits)

lemma pool_weight_worker:
  assumes "i < length (workers s)" "workers s ! i = w"
  shows "sum_list (map worker_weight ((workers s)[i := w'])) + worker_weight w =
    sum_list (map worker_weight (workers s)) + worker_weight w'"
  using assms sum_list_set_worker [of i "workers s" worker_weight] by simp

lemma pool_weight_decreases: "pool_step m s = Some s' \<Longrightarrow> pool_weight s' < pool_weight s"
proof (erule pool_step_cases, goal_cases)
  case (6 i j js)
  with pool_weight_worker [of i s Idle "if ctx_done s then Exited else Posting j"]
  show ?case by (simp add: pool_weight_def split: if_splits)
next
  case (7 i mid j)
  with pool_weight_worker [of i s "Posting j" "Delivering (job_segment j mid)"]
  show ?case by (simp add: pool_weight_def)
next
  case (8 i j)
  with pool_weight_worker [of i s "Posting j" Exited] show ?case by (simp add: pool_weight_def)
next
  case (9 i g)
  with pool_weight_worker [of i s "Delivering g" Idle] show ?case by (simp add: pool_weight_def)
next
  case (10 i)
  with pool_weight_worker [of i s Idle Exited] show ?case by (simp add: pool_weight_def)
qed (simp_all add: pool_weight_def)

lemma run_pool_length: "run_pool ms s = Some s' \<Longrightarrow> length ms + pool_weight s' \<le> pool_weight s"
  by (induction ms arbitrary: s)
    (auto split: option.splits dest!: pool_weight_decreases, fastforce)

text \<open>
  C11. No interleaving runs forever: from any state of the upload, whatever the goroutines, the
  server and the context do, a run has at most as many moves as the state's weight, which starts
  at seven per chunk, one per connection and four.
\<close>

theorem upload_terminates:
  assumes "start_upload cfg plan = Some s0" and "run_pool ms s0 = Some s"
  shows "length ms \<le> 7 * length (fst plan) + nat (NNTPConnections cfg) + 4"
proof -
  have "pool_weight s0 = 7 * length (fst plan) + nat (NNTPConnections cfg) + 4"
    using assms(1)
    by (auto simp: start_upload_def pool_weight_def sum_list_replicate split: if_splits)
  with run_pool_length [OF assms(2)] show ?thesis by simp
qed

subsection \<open>No deadlock\<close>

lemma worker_can_move:
  assumes "i < length (workers s)" "workers s ! i \<noteq> Exited" "results s = []"
  shows "(\<exists>m s'. m \<noteq> Cancel \<and> pool_step m s = Some s')"
proof (cases "workers s ! i")
  case Idle
  show ?thesis
  proof (cases "jobs s")
    case Nil
    show ?thesis
    proof (cases "disp s")
      case DispNext
      then have "pool_step DispRead s \<noteq> None \<or> pool_step DispStop s \<noteq> None"
        by (auto simp: pool_step_defs split: list.splits)
      then show ?thesis by blast
    next
      case (DispSending j)
      with Nil assms(1) have "pool_step DispSend s \<noteq> None"
        by (auto simp: pool_step_defs chan_cap_def)
      then show ?thesis by blast
    next
      case DispDone
      with Idle Nil assms(1) have "pool_step (Leave i) s \<noteq> None" by (simp add: pool_step_defs)
      then show ?thesis by blast
    qed
  next
    case (Cons j js)
    with Idle assms(1) have "pool_step (Take i) s \<noteq> None" by (simp add: pool_step_defs)
    then show ?thesis by blast
  qed
next
  case (Posting j)
  with assms(1) have "pool_step (GaveUp i) s \<noteq> None" by (simp add: pool_step_defs)
  then show ?thesis by blast
next
  case (Delivering g)
  with assms(1,3) have "pool_step (Deliver i) s \<noteq> None"
    by (auto simp: pool_step_defs chan_cap_def)
  then show ?thesis by blast
next
  case Exited
  with assms(2) show ?thesis by simp
qed

text \<open>
  C4. No deadlock: as long as the function has not returned, some goroutine can move, even if
  the context is never cancelled. (With \<open>upload_terminates\<close>: the function returns in every
  execution.)
\<close>

theorem upload_never_stuck:
  assumes "returned s = None"
  shows "\<exists>m s'. m \<noteq> Cancel \<and> pool_step m s = Some s'"
proof (cases "results s")
  case (Cons g gs)
  with assms have "pool_step Collect s \<noteq> None" by (simp add: pool_step_defs)
  then show ?thesis by blast
next
  case Nil
  show ?thesis
  proof (cases "\<exists>i<length (workers s). workers s ! i \<noteq> Exited")
    case True
    with Nil show ?thesis using worker_can_move by blast
  next
    case False
    then have "list_all (\<lambda>w. w = Exited) (workers s)" by (simp add: list_all_length)
    with Nil assms have "pool_step CloseResults s \<noteq> None \<or> pool_step Return s \<noteq> None"
      by (simp add: pool_step_defs)
    then show ?thesis by blast
  qed
qed

subsection \<open>What a success means\<close>

text \<open>Every chunk by its size and number, wherever it is: unread, in a channel, held by a
  worker, collected.\<close>

definition job_key :: "upload_job \<Rightarrow> int \<times> int" where
  "job_key j = (int (length (ChunkData j)), Number j)"

definition seg_key :: "nzb_segment \<Rightarrow> int \<times> int" where
  "seg_key g = (Bytes g, seg_Number g)"

fun held :: "worker \<Rightarrow> (int \<times> int) list" where
  "held Idle = []"
| "held (Posting j) = [job_key j]"
| "held (Delivering g) = [seg_key g]"
| "held Exited = []"

fun disp_held :: "dispatcher \<Rightarrow> (int \<times> int) list" where
  "disp_held (DispSending j) = [job_key j]"
| "disp_held _ = []"

definition in_flight :: "pool \<Rightarrow> (int \<times> int) multiset" where
  "in_flight s =
     mset (map job_key (todo s)) + mset (disp_held (disp s)) + mset (map job_key (jobs s)) +
     mset (concat (map held (workers s))) + mset (map seg_key (results s)) +
     mset (map seg_key (segments s))"

lemma seg_key_job_segment [simp]: "seg_key (job_segment j mid) = job_key j"
  by (simp add: seg_key_def job_segment_def job_key_def)

lemma mset_held_update:
  "i < length ws \<Longrightarrow>
     mset (concat (map held (ws[i := w]))) + mset (held (ws ! i)) =
     mset (concat (map held ws)) + mset (held w)"
  by (induction ws arbitrary: i) (auto split: nat.splits simp: ac_simps)

lemma mset_held_worker:
  assumes "i < length (workers s)" "workers s ! i = w"
  shows "mset (concat (map held ((workers s)[i := w']))) + mset (held w) =
    mset (concat (map held (workers s))) + mset (held w')"
  using assms mset_held_update [of i "workers s"] by simp

text \<open>A step keeps all chunks, or it loses one and leaves an error or a cancelled context.\<close>

lemma in_flight_step:
  assumes "pool_step m s = Some s'"
  shows "in_flight s' \<subseteq># in_flight s \<and>
    (errs s' = None \<and> \<not> ctx_done s' \<longrightarrow> in_flight s' = in_flight s)"
  using assms
proof (cases rule: pool_step_cases)
  case (take i j js)
  with mset_held_worker [of i s Idle "if ctx_done s then Exited else Posting j"]
  show ?thesis by (auto simp: in_flight_def split: if_splits)
next
  case (posted i mid j)
  with mset_held_worker [of i s "Posting j" "Delivering (job_segment j mid)"]
  show ?thesis by (simp add: in_flight_def)
next
  case (gave_up i j)
  with mset_held_worker [of i s "Posting j" Exited]
  have "add_mset (job_key j) (in_flight s') = in_flight s" by (simp add: in_flight_def)
  then have "in_flight s' \<subseteq># in_flight s" 
    by (metis add_mset_add_single mset_subset_eq_add_left)
  with gave_up show ?thesis by simp
next
  case (deliver i g)
  with mset_held_worker [of i s "Delivering g" Idle] show ?thesis by (simp add: in_flight_def)
next
  case (leave i)
  with mset_held_worker [of i s Idle Exited] show ?thesis by (simp add: in_flight_def)
qed (auto simp: in_flight_def)

definition pool_inv :: "pool \<Rightarrow> bool" where
  "pool_inv s \<longleftrightarrow> workers s \<noteq> [] \<and>
     (errs s = None \<and> \<not> ctx_done s \<longrightarrow>
        (disp s = DispDone \<longrightarrow> todo s = [] \<and> \<not> read_fails s) \<and>
        (Exited \<in> set (workers s) \<longrightarrow> disp s = DispDone \<and> jobs s = [])) \<and>
     (results_closed s \<longrightarrow> list_all (\<lambda>w. w = Exited) (workers s)) \<and>
     (case returned s of
        Some (Inr gs) \<Rightarrow>
          errs s = None \<and> \<not> ctx_done s \<and> results s = [] \<and> results_closed s \<and> gs = segments s
      | _ \<Rightarrow> True)"

lemma set_worker_exited:
  "i < length ws \<Longrightarrow> ws ! i \<noteq> Exited \<Longrightarrow> \<not> list_all (\<lambda>w. w = Exited) ws"
  by (auto simp: list_all_length)

lemma exited_update: "Exited \<in> set (ws[i := w]) \<Longrightarrow> w \<noteq> Exited \<Longrightarrow> Exited \<in> set ws"
  using set_update_subset_insert [of ws i w] by auto

lemma some_exited: "list_all (\<lambda>w. w = Exited) ws \<Longrightarrow> ws \<noteq> [] \<Longrightarrow> Exited \<in> set ws"
  by (cases ws) auto

lemma pool_inv_step:
  assumes "pool_inv s" "pool_step m s = Some s'"
  shows "pool_inv s'"
  using assms(2)
proof (cases rule: pool_step_cases)
  case (stop)
  with assms(1) some_exited [of "workers s"] show ?thesis
    by (auto simp: pool_inv_def offer_err_def split: option.splits sum.splits if_splits)
next
  case (take i j js)
  with assms(1) set_worker_exited [of i "workers s"] some_exited [of "workers s"] show ?thesis
    by (auto simp: pool_inv_def split: option.splits sum.splits dest: exited_update)
next
  case (posted i mid j)
  with assms(1) set_worker_exited [of i "workers s"] show ?thesis
    by (auto simp: pool_inv_def split: option.splits sum.splits dest: exited_update)
next
  case (gave_up i j)
  with assms(1) set_worker_exited [of i "workers s"] show ?thesis
    by (auto simp: pool_inv_def split: option.splits sum.splits)
next
  case (deliver i g)
  with assms(1) set_worker_exited [of i "workers s"] show ?thesis
    by (auto simp: pool_inv_def split: option.splits sum.splits dest: exited_update)
next
  case (leave i)
  with assms(1) set_worker_exited [of i "workers s"] show ?thesis
    by (auto simp: pool_inv_def split: option.splits sum.splits)
qed (use assms(1) in \<open>auto simp: pool_inv_def split: option.splits sum.splits\<close>)

lemma pool_step_keeps_failure:
  "pool_step m s = Some s' \<Longrightarrow>
     (errs s' = None \<longrightarrow> errs s = None) \<and> (\<not> ctx_done s' \<longrightarrow> \<not> ctx_done s) \<and>
     read_fails s' = read_fails s"
  by (erule pool_step_cases) (simp_all split: if_splits)

lemma pool_reach_inv:
  assumes "pool_reach s0 s" "pool_inv s0"
  shows "pool_inv s \<and> in_flight s \<subseteq># in_flight s0 \<and>
    (errs s = None \<and> \<not> ctx_done s \<longrightarrow> in_flight s = in_flight s0)"
  using assms
proof (induction rule: pool_reach.induct)
  case (step s m s')
  then have IH: "pool_inv s" "in_flight s \<subseteq># in_flight s0"
    "errs s = None \<and> \<not> ctx_done s \<longrightarrow> in_flight s = in_flight s0" by auto
  from in_flight_step [OF step.hyps(2)] pool_step_keeps_failure [OF step.hyps(2)] IH
    pool_inv_step [OF IH(1) step.hyps(2)]
  show ?case by (auto intro: subset_mset.trans)
qed simp

lemma concat_map_held_idle [simp]: "concat (map held (replicate n Idle)) = []"
  by (induction n) auto

lemma start_upload_inv:
  assumes "start_upload cfg plan = Some s0" "0 < NNTPConnections cfg"
  shows "pool_inv s0 \<and> in_flight s0 = mset (map job_key (fst plan))"
  using assms by (auto simp: start_upload_def pool_inv_def in_flight_def split: if_splits)

text \<open>
  C3. A success is complete. With at least one connection, whenever an upload returns its
  segments, under any interleaving, no read failed and the segments are those of all the jobs of
  the plan: every chunk exactly once, with its size and its number, and none besides.
\<close>

theorem upload_success_complete:
  assumes "start_upload cfg plan = Some s0" "0 < NNTPConnections cfg"
    and "run_pool ms s0 = Some s" "returned s = Some (Inr gs)"
  shows "mset (map seg_key gs) = mset (map job_key (fst plan)) \<and> \<not> snd plan"
proof -
  note s0 = start_upload_inv [OF assms(1,2)]
  have r: "pool_reach s0 s" using assms(3) pool_reach.start run_pool_reach by blast
  from pool_reach_inv [OF r] s0 have inv: "pool_inv s"
    and fl: "errs s = None \<and> \<not> ctx_done s \<longrightarrow> in_flight s = mset (map job_key (fst plan))"
    by auto
  from inv assms(4) have fin: "errs s = None" "\<not> ctx_done s" "results s = []" "gs = segments s"
    and ex: "list_all (\<lambda>w. w = Exited) (workers s)" and ne: "workers s \<noteq> []"
    by (auto simp: pool_inv_def)
  from ex ne have "Exited \<in> set (workers s)" by (auto simp: list_all_iff neq_Nil_conv)
  with inv fin have "disp s = DispDone" "jobs s = []" "todo s = []" "\<not> read_fails s"
    by (auto simp: pool_inv_def)
  moreover have "concat (map held (workers s)) = []" using ex by (auto simp: list_all_iff)
  ultimately have "in_flight s = mset (map seg_key gs)" using fin by (simp add: in_flight_def)
  moreover have "read_fails s = snd plan"
    using r assms(1)
    by (induction rule: pool_reach.induct)
      (auto simp: start_upload_def split: if_splits dest: pool_step_keeps_failure)
  ultimately show ?thesis using fl fin \<open>\<not> read_fails s\<close> by simp
qed

subsection \<open>Concrete executions\<close>

definition one_chunk_plan :: "upload_job list \<times> bool" where
  "one_chunk_plan = file_jobs ''s'' ''f'' [1, 2, 3]"

lemma one_chunk_plan_eq: "one_chunk_plan = ([mk_job 1 1 ''s'' ''f'' 3 [1, 2, 3]], False)"
  by (simp add: one_chunk_plan_def file_jobs_eq total_chunks_def ChunkSize_def piece_def
      numeral_3_eq_3)

definition good_run :: "move list" where
  "good_run = [DispRead, DispSend, Take 1, DispStop, Leave 0, Posted 1 ''1@b.c'', Deliver 1,
     Leave 1, CloseResults, Collect, Return]"

definition good_end :: "pool option" where
  "good_end = Option.bind (start_upload demo_cfg one_chunk_plan) (run_pool good_run)"

lemma good_run_returns:
  "\<exists>s0 s. start_upload demo_cfg one_chunk_plan = Some s0 \<and> run_pool good_run s0 = Some s \<and>
     returned s = Some (Inr [\<lparr>Bytes = 3, seg_Number = 1, MessageID = ''1@b.c''\<rparr>])"
  by (simp add: good_run_def one_chunk_plan_eq start_upload_def demo_cfg_def pool_step_defs
      set_worker_def chan_cap_def job_segment_def mk_job_def numeral_2_eq_2 offer_err_def)

theorem upload_success_complete_witness:
  "mset [(3, 1)] = mset (map job_key (fst one_chunk_plan)) \<and> \<not> snd one_chunk_plan"
proof -
  obtain s0 s where r: "start_upload demo_cfg one_chunk_plan = Some s0"
    "run_pool good_run s0 = Some s"
    "returned s = Some (Inr [\<lparr>Bytes = 3, seg_Number = 1, MessageID = ''1@b.c''\<rparr>])"
    using good_run_returns by blast
  have "0 < NNTPConnections demo_cfg" by (simp add: demo_cfg_def)
  from upload_success_complete [OF r(1) this r(2,3)] show ?thesis
    by (simp add: seg_key_def)
qed

theorem upload_terminates_witness: "length good_run \<le> 7 * 1 + 2 + 4"
proof -
  obtain s0 s where r: "start_upload demo_cfg one_chunk_plan = Some s0"
    "run_pool good_run s0 = Some s"
    using good_run_returns by blast
  from upload_terminates [OF r] show ?thesis by (simp add: one_chunk_plan_eq demo_cfg_def)
qed

theorem upload_never_stuck_witness:
  "\<exists>m s'. m \<noteq> Cancel \<and> pool_step m \<lparr>todo = [demo_job], read_fails = False,
     disp = DispSending demo_job, jobs = [demo_job, demo_job], workers = [Delivering
       (job_segment demo_job ''m'')], results = [job_segment demo_job ''m'',
       job_segment demo_job ''n''], results_closed = False, errs = None, segments = [],
     ctx_done = False, returned = None\<rparr> = Some s'"
  by (rule upload_never_stuck) simp

text \<open>
  With zero connections no worker exists, so the results are closed at once and the upload
  returns success with no segment at all, whatever the file.
\<close>

lemma zero_connections_success:
  assumes "NNTPConnections cfg = 0"
  shows "\<exists>s0 s. start_upload cfg plan = Some s0 \<and>
    run_pool [CloseResults, Return] s0 = Some s \<and> returned s = Some (Inr [])"
  using assms by (simp add: start_upload_def pool_step_defs)

text \<open>
  When every worker has given up, nobody receives from the jobs channel: the function returns
  its error, but a dispatcher with more chunks than the channel holds stays blocked on its send
  for good, whatever happens after.
\<close>

definition leaked :: "pool \<Rightarrow> bool" where
  "leaked s \<longleftrightarrow> list_all (\<lambda>w. w = Exited) (workers s) \<and> (\<exists>j. disp s = DispSending j) \<and>
     chan_cap s \<le> length (jobs s)"

lemma leaked_dispatcher_blocked:
  assumes "leaked s" and "run_pool ms s = Some s'"
  shows "leaked s'"
proof -
  have step: "leaked s2" if "leaked s1" "pool_step m s1 = Some s2" for m s1 s2
    using that(2,1)
    by (cases rule: pool_step_cases) (auto simp: leaked_def list_all_length chan_cap_def)
  from assms(2,1) show ?thesis
    by (induction ms arbitrary: s) (auto split: option.splits intro: step)
qed

definition leak_run :: "move list" where
  "leak_run = [DispRead, DispSend, Take 0, DispRead, DispSend, DispRead, DispSend, DispRead,
     GaveUp 0, CloseResults, Return]"

lemma leak_reachable:
  "\<exists>s0 s. start_upload (demo_cfg\<lparr>NNTPConnections := 1\<rparr>) ([demo_job, demo_job, demo_job, demo_job], False) = Some s0 \<and>
     run_pool leak_run s0 = Some s \<and> returned s = Some (Inl (ChunkFailed 1)) \<and> leaked s"
  by (simp add: leak_run_def leaked_def start_upload_def demo_cfg_def pool_step_defs set_worker_def
      chan_cap_def offer_err_def demo_job_def)

subsection \<open>Reassembling the file\<close>

text \<open>
  What an encoding of articles promises to the one who uploads with it: from the bytes posted
  for a job under a Message-ID, the chunk comes back.
\<close>

locale article_codec =
  fixes enc :: "upload_job \<Rightarrow> go_string \<Rightarrow> byte list"
    and dec :: "byte list \<Rightarrow> byte list option"
    and fits :: "upload_job \<Rightarrow> go_string \<Rightarrow> bool"
  assumes dec_enc: "fits j mid \<Longrightarrow> dec (enc j mid) = Some (ChunkData j)"
begin

definition fetch :: "(upload_job \<times> go_string) list \<Rightarrow> byte list" where
  "fetch ps = concat (map (\<lambda>(j, mid). case dec (enc j mid) of Some d \<Rightarrow> d | None \<Rightarrow> [])
     (sort_key (\<lambda>p. Number (fst p)) ps))"

lemma fetch_sorted:
  assumes "mset (map fst ps) = mset js" and "sorted (map Number js)" "distinct (map Number js)"
    and "\<forall>(j, mid)\<in>set ps. fits j mid"
  shows "fetch ps = concat (map ChunkData js)"
proof -
  let ?qs = "sort_key (\<lambda>p. Number (fst p)) ps"
  have "sorted (map Number (map fst ?qs))" by (simp add: o_def)
  moreover have m: "mset (map fst ?qs) = mset js" using assms(1) by simp
  then have "mset (map Number (map fst ?qs)) = mset (map Number js)" by (simp only: mset_map)
  then have "distinct (map Number (map fst ?qs))"
    using assms(3) mset_eq_imp_distinct_iff by blast
  moreover have "set (map fst ?qs) = set js" using m by (rule mset_eq_setD)
  moreover have "inj_on Number (set (map fst ?qs) \<union> set js)"
    using assms(3) calculation(3) by (simp add: distinct_map)
  ultimately have "map fst ?qs = js"
    using assms(2,3) by (intro map_sorted_distinct_set_unique [of Number])
  moreover have "fetch ps = concat (map ChunkData (map fst ?qs))"
    using assms(4) by (fastforce simp: fetch_def dec_enc intro!: arg_cong [of _ _ concat])
  ultimately show ?thesis by simp
qed

end

text \<open>Jobs whose article headers are single lines.\<close>

definition single_lines :: "nntp_cfg \<Rightarrow> upload_job \<Rightarrow> go_string \<Rightarrow> bool" where
  "single_lines cfg j mid \<longleftrightarrow>
     one_line (NNTPFrom cfg) \<and> one_line (NNTPGroup cfg) \<and> one_line (Subject j) \<and>
     one_line mid \<and> one_line (FileName j)"

definition posted_bytes :: "nntp_cfg \<Rightarrow> upload_job \<Rightarrow> go_string \<Rightarrow> byte list" where
  "posted_bytes cfg j mid = raw_article cfg j mid (encode_job j)"

interpretation nntp_codec: article_codec "posted_bytes cfg" receive_chunk "single_lines cfg" for cfg
  by unfold_locales
    (simp add: posted_bytes_def raw_article_def single_lines_def receive_chunk_posted)

interpretation yenc_codec: article_codec "\<lambda>j mid. encode_job j" ydecode_article
    "\<lambda>j mid. CHR 0x0D \<notin> set (FileName j)"
  by unfold_locales (simp add: encode_job_def ydecode_yEncodeChunk)

text \<open>What a downloader reassembles from the posted articles, sorted by part number.\<close>

definition download :: "nntp_cfg \<Rightarrow> (upload_job \<times> go_string) list \<Rightarrow> byte list" where
  "download cfg ps =
     concat (map (\<lambda>(j, mid). case receive_chunk (posted_bytes cfg j mid) of Some d \<Rightarrow> d | None \<Rightarrow> [])
       (sort_key (\<lambda>p. Number (fst p)) ps))"

lemma file_jobs_facts:
  "map Number (fst (file_jobs subject fileName content)) =
     map int [1..<Suc (total_chunks (length content))]"
  "concat (map ChunkData (fst (file_jobs subject fileName content))) = content"
  "j \<in> set (fst (file_jobs subject fileName content)) \<Longrightarrow>
     FileName j = fileName \<and> (one_line subject \<longrightarrow> one_line (Subject j))"
proof -
  let ?n = "total_chunks (length content)"
  have "map (\<lambda>k. int (Suc k)) [0..<?n] = map int [1..<Suc ?n]"
    by (simp only: One_nat_def map_Suc_upt [symmetric] list.map_comp o_def)
  then show "map Number (fst (file_jobs subject fileName content)) = map int [1..<Suc ?n]"
    by (simp add: file_jobs_eq mk_job_def o_def)
  show "concat (map ChunkData (fst (file_jobs subject fileName content))) = content"
    using concat_pieces [of content ?n] total_chunks_bounds(1) [of "length content"]
    by (simp add: file_jobs_eq mk_job_def o_def)
  show "j \<in> set (fst (file_jobs subject fileName content)) \<Longrightarrow>
     FileName j = fileName \<and> (one_line subject \<longrightarrow> one_line (Subject j))"
    by (auto simp: file_jobs_eq mk_job_def one_line_def)
qed

text \<open>
  C1. End to end. Take any file, and the jobs it is cut into, posted in any order and each
  under a Message-ID of its own: a downloader that fetches the articles, orders them by part
  number and decodes them gets the file back, byte for byte (headers, subject, Message-IDs and
  file name being single lines).
\<close>

theorem upload_download_roundtrip:
  assumes "mset (map fst ps) = mset (fst (file_jobs subject fileName content))"
    and "one_line (NNTPFrom cfg)" "one_line (NNTPGroup cfg)" "one_line subject"
    and "one_line fileName" "\<forall>p\<in>set ps. one_line (snd p)"
  shows "download cfg ps = content"
proof -
  let ?js = "fst (file_jobs subject fileName content)"
  have "fst p \<in> set ?js" if "p \<in> set ps" for p
    using that mset_eq_setD [OF assms(1)] by auto
  then have "\<forall>(j, mid)\<in>set ps. single_lines cfg j mid"
    using file_jobs_facts(3) [of _ subject fileName content] assms
    by (fastforce simp: single_lines_def one_line_def)
  moreover have "sorted (map Number ?js)" "distinct (map Number ?js)"
    by (auto simp del: upt_Suc simp: file_jobs_facts(1) sorted_map distinct_map
        intro: sorted_wrt_mono_rel [OF _ sorted_upt])
  ultimately have "nntp_codec.fetch cfg ps = concat (map ChunkData ?js)"
    using assms(1) by (intro nntp_codec.fetch_sorted)
  then show ?thesis
    by (simp add: nntp_codec.fetch_def download_def file_jobs_facts(2))
qed

theorem upload_download_roundtrip_witness:
  "download demo_cfg [(mk_job 1 1 ''s'' ''f'' 3 [1, 2, 3], ''1@b.c'')] = [1, 2, 3]"
  by (rule upload_download_roundtrip [of _ "''s''" "''f''"])
    (simp_all add: one_chunk_plan_eq [unfolded one_chunk_plan_def] demo_cfg_def one_line_def)

subsection \<open>Uploading a directory\<close>

text \<open>One callback of \<open>filepath.Walk\<close>: the path and what \<open>Lstat\<close> said of it.\<close>

record walk_entry =
  we_rel :: go_string
  we_failed :: bool
  we_dir :: bool
  we_size :: nat

text \<open>The walk stops at the first error, which the caller does not look at.\<close>

fun walk_files :: "walk_entry list \<Rightarrow> walk_entry list" where
  "walk_files [] = []"
| "walk_files (e # es) =
     (if we_failed e then []
      else if we_dir e \<or> we_size e = 0 then walk_files es
      else e # walk_files es)"

record file_segments =
  fs_FileName :: go_string
  fs_Segments :: "nzb_segment list"

datatype dir_error = NoFiles | DirCancelled | UploadOf go_string upload_error

definition nzb_subject :: "nat \<Rightarrow> nat \<Rightarrow> walk_entry \<Rightarrow> nzb_segment list \<Rightarrow> go_string" where
  "nzb_subject i n e gs =
     ''['' @ nat_str i @ ''/'' @ nat_str n @ ''] - \"'' @ we_rel e @ ''\" yEnc (1/'' @
     nat_str (length gs) @ '') '' @ nat_str (we_size e)"

text \<open>
  The loop over the files: \<open>up\<close> gives, for each file in turn, whether the context was found
  cancelled before it and what \<open>UploadToUsenet\<close> returned for it.
\<close>

fun upload_files ::
  "(nat \<Rightarrow> bool) \<Rightarrow> (nat \<Rightarrow> upload_error + nzb_segment list) \<Rightarrow> nat \<Rightarrow> nat \<Rightarrow> walk_entry list \<Rightarrow>
     dir_error + file_segments list"
where
  "upload_files ctx up i n [] = Inr []"
| "upload_files ctx up i n (e # es) =
     (if ctx i then Inl DirCancelled
      else case up i of
        Inl err \<Rightarrow> Inl (UploadOf (we_rel e) err)
      | Inr gs \<Rightarrow>
          (case upload_files ctx up (Suc i) n es of
             Inl err \<Rightarrow> Inl err
           | Inr fs \<Rightarrow> Inr (\<lparr>fs_FileName = nzb_subject (Suc i) n e gs, fs_Segments = gs\<rparr> # fs)))"

definition UploadDirectory ::
  "(nat \<Rightarrow> bool) \<Rightarrow> (nat \<Rightarrow> upload_error + nzb_segment list) \<Rightarrow> walk_entry list \<Rightarrow>
     dir_error + file_segments list" where
  "UploadDirectory ctx up walk =
     (let files = walk_files walk
      in if files = [] then Inl NoFiles else upload_files ctx up 0 (length files) files)"

lemma all_less_Suc_split: "(\<forall>k<Suc n. P k) \<longleftrightarrow> P 0 \<and> (\<forall>k<n. P (Suc k))"
  using less_Suc_eq_0_disj by auto

lemma upload_files_ok_iff:
  "upload_files ctx up i n es = Inr fs \<longleftrightarrow>
     length fs = length es \<and>
     (\<forall>k<length es. \<not> ctx (i + k) \<and> up (i + k) = Inr (fs_Segments (fs ! k)) \<and>
        fs ! k = \<lparr>fs_FileName = nzb_subject (Suc (i + k)) n (es ! k) (fs_Segments (fs ! k)),
                  fs_Segments = fs_Segments (fs ! k)\<rparr>)"
proof (induction es arbitrary: i fs)
  case Nil
  then show ?case by auto
next
  case (Cons e es)
  show ?case
  proof (cases fs)
    case Nil
    then show ?thesis by (auto split: sum.splits)
  next
    case fs: (Cons f fs')
    have "upload_files ctx up i n (e # es) = Inr fs \<longleftrightarrow>
        \<not> ctx i \<and> up i = Inr (fs_Segments f) \<and>
        f = \<lparr>fs_FileName = nzb_subject (Suc i) n e (fs_Segments f), fs_Segments = fs_Segments f\<rparr> \<and>
        upload_files ctx up (Suc i) n es = Inr fs'"
      using fs by (auto split: sum.splits)
    with fs show ?thesis
      by (auto simp: Cons.IH all_less_Suc_split)
  qed
qed

text \<open>
  A directory upload succeeds exactly when there is a file to upload, the context is never
  found cancelled and every file's upload succeeds; the result then has one entry per file, in
  walk order, holding that file's segments under the subject with its position and part count.
\<close>

theorem UploadDirectory_ok_iff:
  "UploadDirectory ctx up walk = Inr fs \<longleftrightarrow>
     walk_files walk \<noteq> [] \<and> length fs = length (walk_files walk) \<and>
     (\<forall>k<length (walk_files walk). \<not> ctx k \<and> up k = Inr (fs_Segments (fs ! k)) \<and>
        fs ! k = \<lparr>fs_FileName = nzb_subject (Suc k) (length (walk_files walk)) (walk_files walk ! k)
                     (fs_Segments (fs ! k)),
                  fs_Segments = fs_Segments (fs ! k)\<rparr>)"
  using upload_files_ok_iff [of ctx up 0 "length (walk_files walk)" "walk_files walk" fs]
  by (auto simp: UploadDirectory_def Let_def)

definition demo_entry :: walk_entry where
  "demo_entry = \<lparr>we_rel = ''a'', we_failed = False, we_dir = False, we_size = 3\<rparr>"

theorem UploadDirectory_ok_iff_witness:
  "UploadDirectory (\<lambda>_. False) (\<lambda>_. Inr []) [demo_entry] =
     Inr [\<lparr>fs_FileName = ''[1/1] - \"a\" yEnc (1/0) 3'', fs_Segments = []\<rparr>]"
  by (subst UploadDirectory_ok_iff)
    (simp add: demo_entry_def nzb_subject_def digit_char_def nat_str.simps [of "Suc 0"]
      nat_str.simps [of 0] nat_str.simps [of 3], code_simp)

text \<open>An error during the walk hides every later file, and the upload still succeeds.\<close>

lemma walk_error_hides_files: "we_failed e \<Longrightarrow> walk_files (es @ e # es') = walk_files es"
  by (induction es) auto

end
