(* ===== verification/Go_Float.thy ===== *)
theory Go_Float
  imports Complex_Main Agent_Prelude
begin

text \<open>
  Go's \<open>float64\<close> as the code uses it: a finite value is a rational, and every operation rounds
  the exact result to the nearest value with a 53-bit significand, ties to even. Exponents are
  unbounded, which agrees with IEEE binary64 on results that neither overflow nor underflow
  (magnitudes between \<open>2\<^sup>-\<^sup>1\<^sup>0\<^sup>2\<^sup>2\<close> and \<open>2\<^sup>1\<^sup>0\<^sup>2\<^sup>4\<close>), as all byte counts, speeds and percentages are;
  the divisions of the modelled code have non-zero divisors.
\<close>

type_synonym float64 = rat

definition pow2 :: "int \<Rightarrow> rat" where
  "pow2 e = (if 0 \<le> e then 2 ^ nat e else 1 / 2 ^ nat (- e))"

text \<open>The number of binary digits, and the binary exponent of a positive rational.\<close>

fun bit_count :: "nat \<Rightarrow> nat" where
  "bit_count n = (if n = 0 then 0 else Suc (bit_count (n div 2)))"

declare bit_count.simps [simp del]

definition exponent_of :: "rat \<Rightarrow> int" where
  "exponent_of x =
     (let (p, q) = quotient_of x; e = int (bit_count (nat p)) - int (bit_count (nat q))
      in if pow2 e \<le> x then e else e - 1)"

definition round_even :: "rat \<Rightarrow> int" where
  "round_even x =
     (let k = \<lfloor>x\<rfloor>; r = x - of_int k
      in if r < 1 / 2 then k else if 1 / 2 < r then k + 1 else if even k then k else k + 1)"

definition fround :: "rat \<Rightarrow> float64" where
  "fround x =
     (if x = 0 then 0
      else let e = exponent_of \<bar>x\<bar> - 52 in of_int (round_even (x / pow2 e)) * pow2 e)"

definition float_of_int :: "int \<Rightarrow> float64" where
  "float_of_int i = fround (of_int i)"

definition fmul :: "float64 \<Rightarrow> float64 \<Rightarrow> float64" where
  "fmul a b = fround (a * b)"

definition fdiv :: "float64 \<Rightarrow> float64 \<Rightarrow> float64" where
  "fdiv a b = fround (a / b)"

definition fadd :: "float64 \<Rightarrow> float64 \<Rightarrow> float64" where
  "fadd a b = fround (a + b)"

definition fsub :: "float64 \<Rightarrow> float64 \<Rightarrow> float64" where
  "fsub a b = fround (a - b)"

text \<open>\<open>int64(f)\<close>: truncation towards zero.\<close>

definition int_of_float :: "float64 \<Rightarrow> int" where
  "int_of_float f = (if 0 \<le> f then \<lfloor>f\<rfloor> else \<lceil>f\<rceil>)"

subsection \<open>Exponents\<close>

lemma pow2_pos [simp]: "0 < pow2 e"
  by (simp add: pow2_def)

lemma pow2_abs [simp]: "\<bar>pow2 e\<bar> = pow2 e"
  by (simp add: pow2_def)

lemma pow2_neq0 [simp]: "pow2 e \<noteq> 0"
  using pow2_pos [of e] by linarith

lemma pow2_suc: "pow2 (e + 1) = 2 * pow2 e"
proof (cases "0 \<le> e")
  case True
  then show ?thesis by (simp add: pow2_def nat_add_distrib)
next
  case False
  then have "nat (- e) = Suc (nat (- e - 1))" by simp
  moreover have "nat (- (e + 1)) = nat (- e - 1)" by simp
  ultimately show ?thesis using False by (simp add: pow2_def)
qed

lemma pow2_add_nat: "pow2 (e + int n) = 2 ^ n * pow2 e"
proof (induction n)
  case (Suc n)
  have "e + int (Suc n) = (e + int n) + 1" by simp
  with Suc show ?case using pow2_suc [of "e + int n"] by (simp only: power_Suc mult.assoc)
qed simp

lemma pow2_diff: "pow2 (int a - int b) = 2 ^ a / 2 ^ b"
proof -
  have "pow2 (int a - int b) * 2 ^ b = pow2 (int a - int b + int b)"
    using pow2_add_nat [of "int a - int b" b] by simp
  also have "\<dots> = 2 ^ a" by (simp add: pow2_def)
  finally show ?thesis by (simp add: field_simps)
qed

lemma bit_count_bounds: "0 < n \<Longrightarrow> 2 ^ bit_count n \<le> 2 * n \<and> n < 2 ^ bit_count n"
proof (induction n rule: bit_count.induct)
  case (1 n)
  show ?case
  proof (cases "n div 2 = 0")
    case True
    with 1 have "n = 1" by auto
    then show ?thesis by (simp add: bit_count.simps)
  next
    case False
    with 1 have "2 ^ bit_count (n div 2) \<le> 2 * (n div 2)" "n div 2 < 2 ^ bit_count (n div 2)" by auto
    moreover have "bit_count n = Suc (bit_count (n div 2))" using 1 by (subst bit_count.simps) simp
    ultimately show ?thesis by auto
  qed
qed

lemma exponent_of_lower:
  assumes "0 < x"
  shows "pow2 (exponent_of x) \<le> x"
proof -
  obtain p q where pq: "quotient_of x = (p, q)" by (cases "quotient_of x")
  then have q: "0 < q" and x: "x = of_int p / of_int q"
    by (auto dest: quotient_of_denom_pos quotient_of_div)
  with assms have p: "0 < p" by (auto simp: zero_less_divide_iff)
  let ?a = "bit_count (nat p)" and ?b = "bit_count (nat q)"
  have "2 ^ ?a \<le> 2 * nat p" "nat q < 2 ^ ?b"
    using bit_count_bounds [of "nat p"] bit_count_bounds [of "nat q"] p q by auto
  then have "of_nat (2 ^ ?a) \<le> (of_nat (2 * nat p) :: rat)" "of_nat (nat q) \<le> (of_nat (2 ^ ?b) :: rat)"
    by (simp_all only: of_nat_le_iff less_imp_le)
  with p q have a: "(2 :: rat) ^ ?a \<le> 2 * of_int p" and b: "(of_int q :: rat) \<le> 2 ^ ?b"
    by (simp_all add: of_nat_nat)
  have "pow2 (int ?a - int ?b - 1) * 2 = pow2 (int ?a - int ?b)"
    using pow2_suc [of "int ?a - int ?b - 1"] by simp
  also have "\<dots> = 2 ^ ?a / 2 ^ ?b" by (rule pow2_diff)
  also have "\<dots> \<le> 2 * of_int p / of_int q"
    using a b p q by (intro frac_le) auto
  also have "\<dots> = 2 * x" by (simp add: x)
  finally have "pow2 (int ?a - int ?b - 1) \<le> x" by simp
  then show ?thesis by (auto simp: exponent_of_def pq Let_def)
qed

subsection \<open>Rounding\<close>

lemma round_even_error: "\<bar>of_int (round_even x) - x\<bar> \<le> 1 / 2"
proof -
  have "of_int \<lfloor>x\<rfloor> \<le> x" "x < of_int \<lfloor>x\<rfloor> + 1" by linarith+
  then show ?thesis by (auto simp: round_even_def Let_def)
qed

lemma round_even_int [simp]: "round_even (of_int k) = k"
  by (simp add: round_even_def)

lemma fround_zero [simp]: "fround 0 = 0"
  by (simp add: fround_def)

text \<open>The relative error of one rounding is at most \<open>2\<^sup>-\<^sup>5\<^sup>3\<close>.\<close>

lemma fround_error: "\<bar>fround x - x\<bar> \<le> \<bar>x\<bar> / 2 ^ 53"
proof (cases "x = 0")
  case False
  let ?e = "exponent_of \<bar>x\<bar> - 52"
  have "2 ^ 52 * pow2 ?e = pow2 (exponent_of \<bar>x\<bar>)"
    using pow2_add_nat [of ?e 52] by simp
  also have "\<dots> \<le> \<bar>x\<bar>" using False by (intro exponent_of_lower) simp
  finally have e: "2 ^ 52 * pow2 ?e \<le> \<bar>x\<bar>" .
  have "fround x - x = (of_int (round_even (x / pow2 ?e)) - x / pow2 ?e) * pow2 ?e"
    using False by (simp add: fround_def Let_def left_diff_distrib)
  then have "\<bar>fround x - x\<bar> = \<bar>of_int (round_even (x / pow2 ?e)) - x / pow2 ?e\<bar> * pow2 ?e"
    by (simp add: abs_mult)
  also have "\<dots> \<le> 1 / 2 * pow2 ?e"
    using round_even_error less_imp_le [OF pow2_pos] by (intro mult_right_mono) blast+
  also have "\<dots> \<le> \<bar>x\<bar> / 2 ^ 53" using e by simp
  finally show ?thesis .
qed simp

lemma fround_lower: "0 \<le> x \<Longrightarrow> x * (1 - 1 / 2 ^ 53) \<le> fround x"
  using fround_error [of x] abs_le_D2 [of "fround x - x" "x / 2 ^ 53"]
  by (simp add: right_diff_distrib)

lemma fround_upper: "0 \<le> x \<Longrightarrow> fround x \<le> x * (1 + 1 / 2 ^ 53)"
  using fround_error [of x] abs_le_D1 [of "fround x - x" "x / 2 ^ 53"]
  by (simp add: distrib_left)

lemma fround_nonneg: "0 \<le> x \<Longrightarrow> 0 \<le> fround x"
  using fround_lower [of x] by (auto intro: order_trans [rotated])

lemma fround_pos: "0 < x \<Longrightarrow> 0 < fround x"
  using fround_lower [of x] by (auto intro: less_le_trans [rotated])

lemma fround_zero_iff [simp]: "fround x = 0 \<longleftrightarrow> x = 0"
proof
  assume "fround x = 0"
  with fround_error [of x] show "x = 0" by (cases "x = 0") (auto simp: field_simps)
qed simp

text \<open>Small integers are represented exactly: their error is below one unit.\<close>

lemma float_of_int_zero [simp]: "float_of_int 0 = 0"
  by (simp add: float_of_int_def)

lemma float_of_int_zero_iff [simp]: "float_of_int i = 0 \<longleftrightarrow> i = 0"
  by (simp add: float_of_int_def)

subsection \<open>Rounding near whole numbers\<close>

lemma round_even_le_int: "x \<le> of_int k \<Longrightarrow> round_even x \<le> k"
proof -
  assume x: "x \<le> of_int k"
  then have "\<lfloor>x\<rfloor> \<le> k" by linarith
  show ?thesis
  proof (cases "\<lfloor>x\<rfloor> = k")
    case True
    with x have "x - of_int \<lfloor>x\<rfloor> < 1 / 2" by simp
    with True show ?thesis by (simp add: round_even_def Let_def)
  next
    case False
    with \<open>\<lfloor>x\<rfloor> \<le> k\<close> show ?thesis by (auto simp: round_even_def Let_def)
  qed
qed

lemma round_even_ge_int: "of_int k \<le> x \<Longrightarrow> k \<le> round_even x"
proof -
  assume "of_int k \<le> x"
  then have "k \<le> \<lfloor>x\<rfloor>" by (simp add: le_floor_iff)
  then show ?thesis by (auto simp: round_even_def Let_def)
qed

text \<open>Below \<open>2\<^sup>5\<^sup>3\<close> a whole number is on the grid a smaller value is rounded to.\<close>

lemma whole_on_grid:
  assumes "0 < x" "x < 2 ^ 53"
  shows "\<exists>n. of_int k / pow2 (exponent_of x - 52) = of_int n"
proof -
  let ?e = "exponent_of x"
  have "pow2 ?e \<le> x" using assms(1) by (rule exponent_of_lower)
  then have lt: "pow2 ?e < 2 ^ 53" using assms(2) by simp
  have "?e < 53"
  proof (rule ccontr)
    assume "\<not> ?e < 53"
    then obtain n where "?e = 53 + int n" using zle_iff_zadd by (metis not_less)
    then have "pow2 ?e = 2 ^ n * pow2 53" using pow2_add_nat [of 53 n] by simp
    moreover have "pow2 53 = 2 ^ 53" by (simp add: pow2_def)
    moreover have "(1 :: rat) \<le> 2 ^ n" by simp
    ultimately have "2 ^ 53 \<le> pow2 ?e" by simp
    with lt show False by simp
  qed
  then obtain m where m: "52 - ?e = int m" using zero_le_imp_eq_int [of "52 - ?e"] by auto
  then have "?e - 52 = int 0 - int m" by simp
  then have "pow2 (?e - 52) = 1 / 2 ^ m" using pow2_diff [of 0 m] by simp
  then have "of_int k / pow2 (?e - 52) = of_int (k * 2 ^ m)" by simp
  then show ?thesis by blast
qed

lemma fround_le_int:
  assumes "0 \<le> x" "x \<le> of_int k" "k < 2 ^ 53"
  shows "fround x \<le> of_int k"
proof (cases "x = 0")
  case False
  then have x: "0 < x" using assms(1) by simp
  have "(of_int k :: rat) < of_int (2 ^ 53)" using assms(3) by (simp only: of_int_less_iff)
  then have "x < 2 ^ 53" using assms(2) by simp
  from whole_on_grid [OF x this, of k] obtain n where n: "of_int k / pow2 (exponent_of x - 52) = of_int n" by blast
  have "x / pow2 (exponent_of x - 52) \<le> of_int n"
    unfolding n [symmetric] using assms(2) less_imp_le [OF pow2_pos] by (rule divide_right_mono)
  then have "round_even (x / pow2 (exponent_of x - 52)) \<le> n" by (rule round_even_le_int)
  then have "fround x \<le> of_int n * pow2 (exponent_of x - 52)"
    using x less_imp_le [OF pow2_pos] by (simp add: fround_def Let_def mult_right_mono)
  also have "\<dots> = of_int k" unfolding n [symmetric] by simp
  finally show ?thesis .
qed (use assms in simp)

lemma float_of_int_exact:
  assumes "0 \<le> i" "i < 2 ^ 53"
  shows "float_of_int i = of_int i"
proof (cases "i = 0")
  case False
  then have i: "(0 :: rat) < of_int i" using assms(1) by simp
  have "(of_int i :: rat) < of_int (2 ^ 53)" using assms(2) by (simp only: of_int_less_iff)
  then have "(of_int i :: rat) < 2 ^ 53" by simp
  from whole_on_grid [OF i this, of i] obtain n where n: "of_int i / pow2 (exponent_of (of_int i) - 52) = (of_int n :: rat)" by blast
  have "fround (of_int i) = of_int (round_even (of_int i / pow2 (exponent_of (of_int i) - 52))) * pow2 (exponent_of (of_int i) - 52)"
    using i by (simp add: fround_def Let_def)
  also have "\<dots> = of_int n * pow2 (exponent_of (of_int i) - 52)" by (simp only: n round_even_int)
  also have "\<dots> = of_int i" by (simp only: n [symmetric]) simp
  finally show ?thesis by (simp add: float_of_int_def)
qed simp

end
