(* ===== verification/Disk_Reserve.thy ===== *)
theory Disk_Reserve
  imports Go_Float Go_Strings "HOL-Library.AList"
begin

text \<open>
  Disk accounting: \<open>src/services/disk_reserve.go\<close> (the ledger of reservations, the effective
  free space, the sweep of orphan downloads) with the job states of \<open>src/storage/storage.go\<close> that
  the sweep consults, and the admission check of \<open>downloadMagnet\<close> in \<open>torrent.go\<close>. The ledger's
  total is a 64-bit word, as the atomic counter is.
\<close>

subsection \<open>Job states\<close>

record job_state =
  js_Name :: go_string
  js_Phase :: go_string
  js_Details :: go_string
  js_Progress :: float64
  js_UpdatedAt :: go_string
  js_DownloadedPath :: go_string
  js_Password :: go_string
  js_ZipName :: go_string

type_synonym jobs_map = "(go_string \<times> job_state) list"

definition fresh_state :: "go_string \<Rightarrow> job_state" where
  "fresh_state name = \<lparr>js_Name = name, js_Phase = [], js_Details = [], js_Progress = 0,
     js_UpdatedAt = [], js_DownloadedPath = [], js_Password = [], js_ZipName = []\<rparr>"

text \<open>\<open>UpdateState\<close>; \<open>clock\<close> is the time of day it writes.\<close>

definition UpdateState ::
  "go_string \<Rightarrow> go_string \<Rightarrow> go_string \<Rightarrow> go_string \<Rightarrow> float64 \<Rightarrow> jobs_map \<Rightarrow> jobs_map" where
  "UpdateState clock name phase details progress js =
     (let j = (case map_of js name of Some j \<Rightarrow> j | None \<Rightarrow> fresh_state name)
      in AList.update name
           (j\<lparr>js_Phase := phase, js_Details := details, js_Progress := progress, js_UpdatedAt := clock\<rparr>) js)"

definition UpdateJobMeta :: "go_string \<Rightarrow> go_string \<Rightarrow> go_string \<Rightarrow> go_string \<Rightarrow> jobs_map \<Rightarrow> jobs_map" where
  "UpdateJobMeta name path password zipName js =
     (case map_of js name of
        None \<Rightarrow> js
      | Some j \<Rightarrow>
          AList.update name
            (j\<lparr>js_DownloadedPath := (if path \<noteq> [] then path else js_DownloadedPath j),
               js_Password := (if password \<noteq> [] then password else js_Password j),
               js_ZipName := (if zipName \<noteq> [] then zipName else js_ZipName j)\<rparr>) js)"

subsection \<open>The ledger\<close>

record ledger =
  diskReserved :: u64
  reservations :: "(go_string \<times> int) list"

definition DiskMultiplier :: float64 where
  "DiskMultiplier = fround (21 / 10)"

definition reserve_for :: "int \<Rightarrow> int" where
  "reserve_for torrentBytes = int_of_float (fmul (float_of_int torrentBytes) DiskMultiplier)"

definition ReserveDisk :: "go_string \<Rightarrow> int \<Rightarrow> ledger \<Rightarrow> ledger" where
  "ReserveDisk jobName torrentBytes l =
     (let reserve = reserve_for torrentBytes
      in l\<lparr>diskReserved := diskReserved l + word_of_int reserve,
           reservations := AList.update jobName reserve (reservations l)\<rparr>)"

definition ReleaseDisk :: "go_string \<Rightarrow> ledger \<Rightarrow> ledger" where
  "ReleaseDisk jobName l =
     (case map_of (reservations l) jobName of
        None \<Rightarrow> l
      | Some reserve \<Rightarrow>
          l\<lparr>diskReserved := diskReserved l + word_of_int (- reserve),
            reservations := AList.delete jobName (reservations l)\<rparr>)"

definition no_reservations :: ledger where
  "no_reservations = \<lparr>diskReserved = 0, reservations = []\<rparr>"

definition TotalReservedBytes :: "ledger \<Rightarrow> int" where
  "TotalReservedBytes l = sint (diskReserved l)"

text \<open>\<open>InitDiskLimit\<close>: the cap in bytes, 0 for none.\<close>

definition InitDiskLimit :: "float64 \<Rightarrow> u64" where
  "InitDiskLimit maxGB =
     (if 0 < maxGB then word_of_int (int_of_float (fmul (fmul (fmul maxGB 1024) 1024) 1024)) else 0)"

text \<open>
  \<open>FreeDiskAfterReservations\<close>, from what the file system reports (\<open>None\<close>: the query failed) and
  what a walk of the directory sums up.
\<close>

definition FreeDiskAfterReservations ::
  "u64 \<Rightarrow> u64 option \<Rightarrow> u64 \<Rightarrow> ledger \<Rightarrow> u64 option" where
  "FreeDiskAfterReservations diskMaxBytes fs_free used l =
     (case fs_free of
        None \<Rightarrow> None
      | Some free0 \<Rightarrow>
          (let free = (if 0 < diskMaxBytes
                       then (if diskMaxBytes \<le> used then 0
                             else if diskMaxBytes - used < free0 then diskMaxBytes - used else free0)
                       else free0);
               reserved = diskReserved l
           in Some (if sint reserved \<le> 0 then free
                    else if sint free \<le> sint reserved then 0
                    else free - reserved)))"

text \<open>\<open>diskUsage\<close>: the sizes of the files a walk reports without error.\<close>

definition diskUsage :: "(bool \<times> bool \<times> u64) list \<Rightarrow> u64" where
  "diskUsage infos = foldl (+) 0 (map (\<lambda>(err, dir, sz). sz) (filter (\<lambda>(err, dir, sz). \<not> err \<and> \<not> dir) infos))"

subsection \<open>Admission of a torrent\<close>

datatype admission = Shortfall int int | Reserved ledger

text \<open>
  The check of \<open>downloadMagnet\<close> once the size is known: a failed query of the free space does
  not stop the download. The check and the reservation are two steps that nothing holds together:
  \<open>l\<close> is the ledger when the free space is asked for, \<open>l'\<close> what it has become when the torrent
  reserves.
\<close>

definition admit ::
  "u64 \<Rightarrow> u64 option \<Rightarrow> u64 \<Rightarrow> go_string \<Rightarrow> int \<Rightarrow> ledger \<Rightarrow> ledger \<Rightarrow> admission" where
  "admit cap fs_free used jobName torrentSize l l' =
     (case FreeDiskAfterReservations cap fs_free used l of
        Some eff \<Rightarrow>
          if eff < word_of_int (reserve_for torrentSize) then Shortfall torrentSize (sint eff)
          else Reserved (ReserveDisk jobName torrentSize l')
      | None \<Rightarrow> Reserved (ReserveDisk jobName torrentSize l'))"

subsection \<open>Sweep of orphan downloads\<close>

text \<open>Directory entries are the names; the result is the names removed (the removals succeed).\<close>

definition kept_dirs :: "jobs_map \<Rightarrow> go_string set" where
  "kept_dirs js =
     set (map (\<lambda>(n, j). path_base (path_dir (js_DownloadedPath j)))
       (filter (\<lambda>(n, j). js_DownloadedPath j \<noteq> []) js))"

definition SweepOrphanDownloads :: "jobs_map \<Rightarrow> go_string list \<Rightarrow> go_string list" where
  "SweepOrphanDownloads js entries =
     filter (\<lambda>name. has_prefix name ''dl-'' \<and> name \<notin> kept_dirs js) entries"

subsection \<open>The size of a reservation\<close>

lemma reserve_product_bounds:
  assumes "0 \<le> n"
  shows "209 / 100 * of_int n \<le> fmul (float_of_int n) DiskMultiplier"
    and "fmul (float_of_int n) DiskMultiplier \<le> 211 / 100 * of_int n"
proof -
  let ?d = "1 / 2 ^ 53 :: rat"
  let ?a = "float_of_int n" and ?b = DiskMultiplier
  have a: "of_int n * (1 - ?d) \<le> ?a" "?a \<le> of_int n * (1 + ?d)"
    using assms fround_lower [of "of_int n"] fround_upper [of "of_int n"]
    by (simp_all add: float_of_int_def)
  have b: "21 / 10 * (1 - ?d) \<le> ?b" "?b \<le> 21 / 10 * (1 + ?d)"
    using fround_lower [of "21 / 10"] fround_upper [of "21 / 10"] by (simp_all add: DiskMultiplier_def)
  have nn: "(0 :: rat) \<le> of_int n" using assms by simp
  have a0: "0 \<le> ?a" using nn fround_nonneg by (simp add: float_of_int_def)
  have b0: "0 \<le> ?b" using fround_nonneg [of "21 / 10"] by (simp add: DiskMultiplier_def)
  have ab0: "0 \<le> ?a * ?b" using a0 b0 by simp
  have "of_int n * (1 - ?d) * (21 / 10 * (1 - ?d)) \<le> ?a * ?b"
    using a b nn a0 by (intro mult_mono) auto
  then have "of_int n * (1 - ?d) * (21 / 10 * (1 - ?d)) * (1 - ?d) \<le> ?a * ?b * (1 - ?d)"
    by (rule mult_right_mono) simp
  also have "\<dots> \<le> fmul ?a ?b" using fround_lower [OF ab0] by (simp add: fmul_def)
  finally have l: "of_int n * ((1 - ?d) * (21 / 10 * (1 - ?d)) * (1 - ?d)) \<le> fmul ?a ?b"
    by (simp only: mult.assoc)
  have "209 / 100 \<le> (1 - ?d) * (21 / 10 * (1 - ?d)) * (1 - ?d)" by simp
  from mult_left_mono [OF this nn] l show "209 / 100 * of_int n \<le> fmul ?a ?b" by linarith
  have "?a * ?b \<le> of_int n * (1 + ?d) * (21 / 10 * (1 + ?d))"
    using a b nn a0 b0 by (intro mult_mono) auto
  then have "?a * ?b * (1 + ?d) \<le> of_int n * (1 + ?d) * (21 / 10 * (1 + ?d)) * (1 + ?d)"
    by (rule mult_right_mono) simp
  with fround_upper [OF ab0]
  have u: "fmul ?a ?b \<le> of_int n * ((1 + ?d) * (21 / 10 * (1 + ?d)) * (1 + ?d))"
    by (simp only: fmul_def mult.assoc)
  have "(1 + ?d) * (21 / 10 * (1 + ?d)) * (1 + ?d) \<le> 211 / 100" by simp
  from mult_left_mono [OF this nn] u show "fmul ?a ?b \<le> 211 / 100 * of_int n" by linarith
qed

lemma reserve_for_range:
  assumes "0 \<le> n"
  shows "2 * n \<le> reserve_for n \<and> 209 * n - 100 \<le> 100 * reserve_for n \<and> 100 * reserve_for n \<le> 211 * n"
proof -
  let ?f = "fmul (float_of_int n) DiskMultiplier"
  note b = reserve_product_bounds [OF assms]
  have "0 \<le> ?f" using b(1) assms by (meson mult_nonneg_nonneg of_int_0_le_iff order_trans zero_le_divide_iff zero_le_numeral)
  then have r: "reserve_for n = \<lfloor>?f\<rfloor>" by (simp add: reserve_for_def int_of_float_def)
  have "of_int (2 * n) \<le> ?f" using b(1) assms by simp
  then have "2 * n \<le> reserve_for n" unfolding r by (rule le_floor_iff [THEN iffD2])
  moreover have "(of_int (100 * reserve_for n) :: rat) \<le> of_int (211 * n)"
    unfolding r of_int_mult of_int_numeral using b(2) of_int_floor_le [of ?f] by linarith
  moreover have "(of_int (209 * n - 100) :: rat) \<le> of_int (100 * reserve_for n)"
    unfolding r of_int_mult of_int_diff of_int_numeral using b(1) floor_correct [of ?f] by linarith
  ultimately show ?thesis by (simp only: of_int_le_iff)
qed

text \<open>
  The reservation covers the worst case its comment names. For every torrent size the
  reserved bytes are at least 2.09 times the size rounded down (so at least twice the size) and
  at most 2.11 times it, floating-point rounding included.
\<close>

theorem reserve_for_bounds:
  assumes "0 \<le> n"
  shows "2 * n \<le> reserve_for n \<and> 209 * n - 100 \<le> 100 * reserve_for n \<and> 100 * reserve_for n \<le> 211 * n"
  using assms by (rule reserve_for_range)

theorem reserve_for_bounds_witness:
  "2 * 1000000007 \<le> reserve_for 1000000007 \<and> 209 * 1000000007 - 100 \<le> 100 * reserve_for 1000000007 \<and>
   100 * reserve_for 1000000007 \<le> 211 * 1000000007"
  by (rule reserve_for_bounds) simp

subsection \<open>The ledger is exact\<close>

definition held_bytes :: "ledger \<Rightarrow> int" where
  "held_bytes l = sum_list (map snd (reservations l))"

definition ledger_inv :: "ledger \<Rightarrow> bool" where
  "ledger_inv l \<longleftrightarrow>
     distinct (map fst (reservations l)) \<and> diskReserved l = word_of_int (held_bytes l)"

lemma sum_delete:
  "distinct (map fst xs) \<Longrightarrow> map_of xs k = Some v \<Longrightarrow>
     sum_list (map snd (AList.delete k xs)) = sum_list (map snd xs) - (v :: int)"
proof (induction xs)
  case (Cons x xs)
  then show ?case by (cases "fst x = k") (auto simp: AList.delete_id)
qed simp

lemma ReserveDisk_inv [inv_intros]:
  assumes "ledger_inv l" "jobName \<notin> fst ` set (reservations l)"
  shows "ledger_inv (ReserveDisk jobName n l)"
    and "held_bytes (ReserveDisk jobName n l) = held_bytes l + reserve_for n"
  using assms
  by (simp_all add: ledger_inv_def ReserveDisk_def Let_def held_bytes_def update_fresh)

lemma ReleaseDisk_inv [inv_intros]:
  assumes "ledger_inv l"
  shows "ledger_inv (ReleaseDisk jobName l)"
  using assms sum_delete [of "reservations l" jobName]
  by (auto simp: ledger_inv_def ReleaseDisk_def held_bytes_def AList.distinct_delete
      split: option.splits)

text \<open>The ledger over the life of the agent: tasks reserve once each while they run, and release.\<close>

inductive ledger_step :: "ledger \<Rightarrow> ledger \<Rightarrow> bool" where
  reserve: "jobName \<notin> fst ` set (reservations l) \<Longrightarrow> ledger_step l (ReserveDisk jobName n l)"
| release: "ledger_step l (ReleaseDisk jobName l)"

interpretation ledger_runs: step_invariant ledger_step ledger_inv
  by unfold_locales (auto elim!: ledger_step.cases intro: inv_intros)

text \<open>
  No reservation leaks. Whatever tasks come and go, the counter is at every moment the
  64-bit sum of the reservations of the running tasks; in particular it is zero when none runs.
  Releasing is exact and releasing twice is harmless.
\<close>

theorem ledger_exact:
  "ledger_step\<^sup>*\<^sup>* no_reservations l \<Longrightarrow>
     diskReserved l = word_of_int (held_bytes l) \<and> (reservations l = [] \<longrightarrow> diskReserved l = 0) \<and>
     ReleaseDisk j (ReleaseDisk j l) = ReleaseDisk j l"
proof -
  assume "ledger_step\<^sup>*\<^sup>* no_reservations l"
  then have "ledger_inv l"
    by (rule ledger_runs.inv_reach) (simp add: no_reservations_def ledger_inv_def held_bytes_def)
  then show ?thesis
    by (auto simp: ledger_inv_def held_bytes_def ReleaseDisk_def AList.delete_conv split: option.splits)
qed

theorem ledger_exact_witness:
  "diskReserved (ReleaseDisk ''a'' (ReserveDisk ''a'' 1000 no_reservations)) = 0"
proof -
  have "ledger_step\<^sup>*\<^sup>* no_reservations (ReleaseDisk ''a'' (ReserveDisk ''a'' 1000 no_reservations))"
    by (rule rtranclp.rtrancl_into_rtrancl [OF r_into_rtranclp])
      (rule ledger_step.reserve, simp add: no_reservations_def, rule ledger_step.release)
  moreover have "reservations (ReleaseDisk ''a'' (ReserveDisk ''a'' 1000 no_reservations)) = []"
    by (simp add: ReleaseDisk_def ReserveDisk_def no_reservations_def Let_def)
  ultimately show ?thesis using ledger_exact by blast
qed

text \<open>A second reservation under the same name is never released.\<close>

lemma double_reserve_leaks:
  "diskReserved (ReleaseDisk j (ReserveDisk j n (ReserveDisk j m no_reservations))) =
     word_of_int (reserve_for m)"
  by (simp add: ReleaseDisk_def ReserveDisk_def no_reservations_def Let_def)

subsection \<open>Admission\<close>

text \<open>The bytes that may still be used: free space within the cap.\<close>

definition budget :: "u64 \<Rightarrow> u64 \<Rightarrow> u64 \<Rightarrow> u64" where
  "budget cap free0 used =
     (if 0 < cap then (if cap \<le> used then 0 else if cap - used < free0 then cap - used else free0)
      else free0)"

lemma budget_le: "budget cap free0 used \<le> free0"
  by (auto simp: budget_def)

lemma sint_small: "uint (w :: u64) < 2 ^ 63 \<Longrightarrow> sint w = uint w"
proof -
  assume "uint w < 2 ^ 63"
  moreover have "- (2 ^ 63) \<le> uint w" by (rule order_trans [of _ 0]) simp_all
  ultimately show ?thesis by (simp add: sint_uint signed_take_bit_int_eq_self)
qed

lemma effective_free:
  assumes "ledger_inv l" "0 \<le> held_bytes l" "held_bytes l < 2 ^ 63" "uint free0 < 2 ^ 63"
  shows "\<exists>eff. FreeDiskAfterReservations cap (Some free0) used l = Some eff \<and>
    uint eff = max 0 (uint (budget cap free0 used) - held_bytes l)"
proof -
  let ?f = "budget cap free0 used"
  have f: "uint ?f < 2 ^ 63" using budget_le [of cap free0 used] assms(4) by (simp add: word_le_def)
  have r: "uint (diskReserved l) = held_bytes l"
    using assms(1-3) by (simp add: ledger_inv_def uint_word_of_int)
  have sr: "sint (diskReserved l) = held_bytes l" using r assms(3) by (simp add: sint_small)
  have sf: "sint ?f = uint ?f" using f by (rule sint_small)
  have eq: "FreeDiskAfterReservations cap (Some free0) used l =
      Some (if held_bytes l \<le> 0 then ?f else if uint ?f \<le> held_bytes l then 0 else ?f - diskReserved l)"
    by (simp add: FreeDiskAfterReservations_def budget_def [symmetric] Let_def sr sf)
  show ?thesis
  proof (cases "uint ?f \<le> held_bytes l")
    case True
    with assms(2) eq show ?thesis by (auto simp: max_def)
  next
    case False
    then have "diskReserved l \<le> ?f" by (simp add: word_le_def r)
    then have "uint (?f - diskReserved l) = uint ?f - held_bytes l"
      by (simp add: uint_minus_simple_alt r)
    with False eq assms(2) show ?thesis by (auto simp: max_def)
  qed
qed

text \<open>
  C24. What is admitted. Let the numbers be in range (reservations and free space below \<open>2\<^sup>6\<^sup>3\<close> bytes).
  A torrent is refused exactly if the file system answered and the torrent does not fit, within the
  configured cap, beside the reservations at the time of the check (\<open>l\<close>); one that needs no byte is
  never refused. An admitted one is added to the ledger as it is when it reserves (\<open>l'\<close>), which stays
  exact; if the file system answered, all reservations then exceed the free space by no more than
  what other tasks reserved between the check and the reservation, so not at all if none did.
\<close>

theorem admit_never_overcommits:
  assumes "ledger_inv l" "0 \<le> held_bytes l" "held_bytes l < 2 ^ 63"
    and "\<forall>free0. fs_free = Some free0 \<longrightarrow> uint free0 < 2 ^ 63"
    and "0 \<le> n" "reserve_for n < 2 ^ 63" "ledger_inv l'" "jobName \<notin> fst ` set (reservations l')"
  shows "case admit cap fs_free used jobName n l l' of
      Shortfall sz av \<Rightarrow> sz = n \<and>
        (\<exists>free0. fs_free = Some free0 \<and> uint (budget cap free0 used) < held_bytes l + reserve_for n \<and>
           av = max 0 (uint (budget cap free0 used) - held_bytes l))
    | Reserved m \<Rightarrow> ledger_inv m \<and> held_bytes m = held_bytes l' + reserve_for n \<and>
        (\<forall>free0. fs_free = Some free0 \<longrightarrow> reserve_for n = 0 \<or>
           held_bytes l + reserve_for n \<le> uint (budget cap free0 used) \<and>
           held_bytes m \<le> uint (budget cap free0 used) + (held_bytes l' - held_bytes l))"
proof (cases fs_free)
  case None
  then have "admit cap fs_free used jobName n l l' = Reserved (ReserveDisk jobName n l')"
    by (simp add: admit_def FreeDiskAfterReservations_def)
  with None ReserveDisk_inv [OF assms(7,8), of n] show ?thesis by simp
next
  case (Some free0)
  let ?b = "uint (budget cap free0 used)"
  have f: "uint free0 < 2 ^ 63" using assms(4) Some by simp
  from effective_free [OF assms(1-3) this] obtain eff where
    e: "FreeDiskAfterReservations cap (Some free0) used l = Some eff" and eu: "uint eff = max 0 (?b - held_bytes l)" by blast
  have "?b < 2 ^ 63" using budget_le [of cap free0 used] f by (simp add: word_le_def)
  then have "uint eff < 2 ^ 63" using eu assms(2) by simp
  then have se: "sint eff = max 0 (?b - held_bytes l)" using eu by (simp add: sint_small)
  have rn: "0 \<le> reserve_for n" using reserve_for_range [OF assms(5)] assms(5) by linarith
  have r: "uint (word_of_int (reserve_for n) :: u64) = reserve_for n"
    using rn assms(6) by (simp add: uint_word_of_int)
  show ?thesis
  proof (cases "uint eff < reserve_for n")
    case True
    with e r Some se have "admit cap fs_free used jobName n l l' = Shortfall n (max 0 (?b - held_bytes l))"
      by (simp add: admit_def word_less_def)
    moreover have "?b < held_bytes l + reserve_for n" using True eu by (auto simp: max_def split: if_splits)
    ultimately show ?thesis using Some by simp
  next
    case False
    with e r Some have a: "admit cap fs_free used jobName n l l' = Reserved (ReserveDisk jobName n l')"
      by (simp add: admit_def word_less_def)
    have "reserve_for n = 0 \<or> held_bytes l + reserve_for n \<le> ?b" using False eu rn by (auto simp: max_def split: if_splits)
    with a Some ReserveDisk_inv [OF assms(7,8), of n] show ?thesis by auto
  qed
qed

text \<open>A torrent that was checked before another reserved, and is over the budget by just what that one took.\<close>

definition one_reserved :: ledger where
  "one_reserved = ReserveDisk ''a'' 1000 no_reservations"

theorem admit_never_overcommits_witness:
  "case admit 0 (Some 3000) 0 ''b'' 1000 no_reservations one_reserved of
     Shortfall sz av \<Rightarrow> False
   | Reserved m \<Rightarrow> ledger_inv m \<and> held_bytes m = held_bytes one_reserved + reserve_for 1000 \<and>
       held_bytes m \<le> 3000 + held_bytes one_reserved"
proof -
  have n: "ledger_inv no_reservations" "held_bytes no_reservations = 0" "''a'' \<notin> fst ` set (reservations no_reservations)"
    by (simp_all add: no_reservations_def ledger_inv_def held_bytes_def)
  have r: "reserve_for 1000 < 2 ^ 63" "reserve_for 1000 \<le> 2110" "0 < reserve_for 1000"
    using reserve_for_range [of 1000] by auto
  have o: "ledger_inv one_reserved" "''b'' \<notin> fst ` set (reservations one_reserved)"
    using ReserveDisk_inv(1) [OF n(1,3), of 1000]
    by (simp_all add: one_reserved_def) (simp add: ReserveDisk_def no_reservations_def Let_def)
  have "case admit 0 (Some 3000) 0 ''b'' 1000 no_reservations one_reserved of
      Shortfall sz av \<Rightarrow> sz = 1000 \<and>
        (\<exists>free0. Some (3000 :: u64) = Some free0 \<and> uint (budget 0 free0 0) < held_bytes no_reservations + reserve_for 1000 \<and>
           av = max 0 (uint (budget 0 free0 0) - held_bytes no_reservations))
    | Reserved m \<Rightarrow> ledger_inv m \<and> held_bytes m = held_bytes one_reserved + reserve_for 1000 \<and>
        (\<forall>free0. Some (3000 :: u64) = Some free0 \<longrightarrow> reserve_for 1000 = 0 \<or>
           held_bytes no_reservations + reserve_for 1000 \<le> uint (budget 0 free0 0) \<and>
           held_bytes m \<le> uint (budget 0 free0 0) + (held_bytes one_reserved - held_bytes no_reservations))"
    by (rule admit_never_overcommits) (use n r o in simp_all)
  then show ?thesis using n(2) r by (auto simp: budget_def split: admission.splits)
qed

text \<open>Two downloads that both check before either reserves are both admitted although only one fits.\<close>

lemma concurrent_checks_overcommit:
  "admit 0 (Some 3000) 0 ''a'' 1000 no_reservations no_reservations = Reserved one_reserved \<and>
   admit 0 (Some 3000) 0 ''b'' 1000 no_reservations one_reserved = Reserved (ReserveDisk ''b'' 1000 one_reserved) \<and>
   uint (budget 0 3000 0) < held_bytes (ReserveDisk ''b'' 1000 one_reserved)"
proof -
  have r: "2000 \<le> reserve_for 1000" "reserve_for 1000 \<le> 2110"
    using reserve_for_range [of 1000] by auto
  then have "uint (word_of_int (reserve_for 1000) :: u64) = reserve_for 1000"
    by (simp add: uint_word_of_int)
  with r show ?thesis
    by (simp add: admit_def FreeDiskAfterReservations_def one_reserved_def no_reservations_def word_less_def budget_def
        held_bytes_def ReserveDisk_def Let_def)
qed

text \<open>
  The sweep keeps what can be resumed: of the temporary directory's entries it removes
  exactly those named \<open>dl-...\<close> that are not the directory of a download some job still refers to.
\<close>

theorem SweepOrphanDownloads_exact:
  "name \<in> set (SweepOrphanDownloads js entries) \<longleftrightarrow>
     name \<in> set entries \<and> has_prefix name ''dl-'' \<and>
     \<not> (\<exists>n j. (n, j) \<in> set js \<and> js_DownloadedPath j \<noteq> [] \<and>
          name = path_base (path_dir (js_DownloadedPath j)))"
  by (auto simp: SweepOrphanDownloads_def kept_dirs_def)

end
