(* ===== verification/Flat_Store.thy ===== *)
theory Flat_Store
  imports Go_Strings "HOL-Library.AList" "HOL-Library.List_Lexorder" "HOL-Library.Char_ord"
begin

text \<open>
  The agent keeps two small files of \<open>key: value\<close> lines, \<open>config.yml\<close> and \<open>secrets.yml\<close>, with the
  same shape: comment lines at the top, then one line per entry in key order; reading trims each
  line, skips blank and comment lines and takes the last entry of a key. What they share is
  modelled and proved here; the locale \<open>flat_format\<close> states what a line format promises, and each
  of the two stores interprets it. A Go map is an association list with distinct keys.
\<close>

definition newline :: char where
  "newline = CHR 0x0A"

text \<open>\<open>bufio.Scanner\<close> over lines: the pieces between newlines, without a last empty one.\<close>

definition scan_lines :: "go_string \<Rightarrow> go_string list" where
  "scan_lines text =
     (let ls = split_char newline text in if last ls = [] then butlast ls else ls)"

text \<open>One entry: the text before and after the first colon of a trimmed line.\<close>

definition cut_line :: "go_string \<Rightarrow> (go_string \<times> go_string) option" where
  "cut_line raw =
     (let line = trim_space raw
      in if line = [] \<or> has_prefix line ''#'' then None
         else case cut_at CHR '':'' line of
           None \<Rightarrow> None
         | Some (a, b) \<Rightarrow> Some (to_lower (trim_space a), trim_space b))"

definition is_quote :: "char \<Rightarrow> bool" where
  "is_quote c \<longleftrightarrow> c = CHR 0x22 \<or> c = CHR 0x27"

definition trim_quotes :: "go_string \<Rightarrow> go_string" where
  "trim_quotes v = trim_func is_quote v"

definition read_entries ::
  "(go_string \<Rightarrow> (go_string \<times> go_string) option) \<Rightarrow> go_string \<Rightarrow> (go_string \<times> go_string) list" where
  "read_entries parse text =
     fold (\<lambda>l m. case parse l of None \<Rightarrow> m | Some (k, v) \<Rightarrow> AList.update k v m) (scan_lines text) []"

text \<open>The entries in key order, one rendered line each.\<close>

definition render_entries ::
  "(go_string \<Rightarrow> go_string \<Rightarrow> go_string) \<Rightarrow> (go_string \<times> go_string) list \<Rightarrow> go_string" where
  "render_entries render m =
     concat (map (\<lambda>k. render k (case map_of m k of Some v \<Rightarrow> v | None \<Rightarrow> []) @ [newline])
       (sort (map fst m)))"

subsection \<open>Lines\<close>

lemma split_char_line: "newline \<notin> set l \<Longrightarrow> split_char newline (l @ newline # t) = l # split_char newline t"
  by (simp add: split_char_def split_aux_append split_aux_plain)

lemma split_char_nonempty: "split_char d s \<noteq> []"
proof -
  have "split_aux d acc s \<noteq> []" for acc by (induction s arbitrary: acc) auto
  then show ?thesis by (simp add: split_char_def)
qed

lemma split_char_lines:
  "\<forall>l\<in>set ls. newline \<notin> set l \<Longrightarrow>
     split_char newline (concat (map (\<lambda>l. l @ [newline]) ls)) = ls @ [[]]"
proof (induction ls)
  case Nil
  show ?case by (simp add: split_char_def)
next
  case (Cons l ls)
  then show ?case using split_char_line [of l] by simp
qed

lemma scan_lines_concat:
  "\<forall>l\<in>set ls. newline \<notin> set l \<Longrightarrow> scan_lines (concat (map (\<lambda>l. l @ [newline]) ls)) = ls"
  by (simp add: scan_lines_def split_char_lines)

lemma trim_right_idem [simp]: "trim_right p (trim_right p s) = trim_right p s"
  using trim_right_last [of p s] by (intro trim_right_id) auto

lemma trim_func_skip: "p c \<Longrightarrow> trim_func p (c # s) = trim_func p s"
  by (simp add: trim_func_def trim_left_def)

lemma trim_func_stop: "\<not> p c \<Longrightarrow> trim_func p (c # s) = trim_right p (c # s)"
  by (simp add: trim_func_def trim_left_def)

lemma trim_func_right: "trim_func p (trim_right p s) = trim_func p s"
proof (induction s)
  case (Cons c s)
  show ?case
  proof (cases "p c")
    case True
    with Cons show ?thesis by (auto simp: trim_func_skip trim_right_Cons [of p c s])
  next
    case False
    then have "trim_right p (c # s) = c # trim_right p s" by (simp add: trim_right_Cons)
    with False show ?thesis by (simp add: trim_func_stop trim_right_Cons)
  qed
qed simp

lemma cut_line_entry:
  assumes "trim_space k = k" "k \<noteq> []" "to_lower k = k" "CHR '':'' \<notin> set k" "\<not> has_prefix k ''#''"
  shows "cut_line (k @ '': '' @ v) = Some (k, trim_space v)"
proof -
  let ?l = "k @ CHR '':'' # CHR '' '' # v"
  have k: "trimmed_by is_space k" using trim_space_trimmed [of k] assms(1) by simp
  then have hd: "trim_left is_space ?l = ?l"
    using assms(2) by (intro trim_left_id) (auto simp: trimmed_by_def)
  have tr: "trim_space ?l = k @ CHR '':'' # trim_right is_space (CHR '' '' # v)"
  proof -
    have "trim_right is_space (k @ CHR '':'' # w) = k @ CHR '':'' # trim_right is_space w" for w
      by (induction k) (auto simp: trim_right_Cons is_space_def)
    then show ?thesis by (simp add: trim_space_def trim_func_def hd)
  qed
  have v: "trim_space (trim_right is_space (CHR '' '' # v)) = trim_space v"
    by (simp add: trim_space_def trim_func_right trim_func_skip is_space_def)
  from assms(2,5) have "\<not> has_prefix (k @ CHR '':'' # trim_right is_space (CHR '' '' # v)) ''#''"
    by (cases k) (auto simp: has_prefix_def)
  with tr v assms show ?thesis by (simp add: cut_line_def Let_def cut_at_append)
qed

text \<open>Names that can stand before the colon.\<close>

definition good_host :: "go_string \<Rightarrow> bool" where
  "good_host k \<longleftrightarrow> k \<noteq> [] \<and> trim_space k = k \<and> to_lower k = k \<and>
     CHR '':'' \<notin> set k \<and> newline \<notin> set k \<and> \<not> has_prefix k ''#''"

subsection \<open>What a line format promises\<close>

lemma set_update_subset: "set (AList.update k v xs) \<subseteq> insert (k, v) (set xs)"
  by (induction xs) auto

lemma set_delete_subset: "set (AList.delete k xs) \<subseteq> set xs"
  by (induction xs) auto

definition sorted_entries :: "(go_string \<times> go_string) list \<Rightarrow> (go_string \<times> go_string) list" where
  "sorted_entries m = map (\<lambda>k. (k, case map_of m k of Some v \<Rightarrow> v | None \<Rightarrow> [])) (sort (map fst m))"

lemma set_sorted_entries: "distinct (map fst m) \<Longrightarrow> set (sorted_entries m) = set m"
  by (force simp: sorted_entries_def)

lemma map_of_sorted_entries:
  assumes "distinct (map fst m)"
  shows "map_of (sorted_entries m) = map_of m"
proof (rule map_of_inject_set [THEN iffD2])
  show "distinct (map fst (sorted_entries m))"
    using assms by (simp add: sorted_entries_def o_def distinct_sort)
qed (simp_all add: assms set_sorted_entries)

lemma fold_update_fresh:
  "distinct (map fst es) \<Longrightarrow> fst ` set es \<inter> fst ` set acc = {} \<Longrightarrow>
     fold (\<lambda>(k, v) m. AList.update k v m) es acc = acc @ es"
proof (induction es arbitrary: acc)
  case (Cons e es)
  have "AList.update (fst e) (snd e) acc = acc @ [e]"
    using Cons.prems by (induction acc) auto
  with Cons show ?case by (auto simp: case_prod_beta)
qed simp

locale flat_format =
  fixes parse :: "go_string \<Rightarrow> (go_string \<times> go_string) option"
    and render :: "go_string \<Rightarrow> go_string \<Rightarrow> go_string"
    and good :: "go_string \<Rightarrow> go_string \<Rightarrow> bool"
  assumes parse_render: "good k v \<Longrightarrow> parse (render k v) = Some (k, v)"
    and render_line: "good k v \<Longrightarrow> newline \<notin> set (render k v)"
begin

lemma read_rendered:
  assumes "distinct (map fst m)" "\<forall>(k, v)\<in>set m. good k v"
    and "\<forall>h\<in>set hs. newline \<notin> set h \<and> parse h = None"
  shows "read_entries parse (concat (map (\<lambda>l. l @ [newline]) hs) @ render_entries render m) =
    sorted_entries m"
proof -
  let ?es = "sorted_entries m"
  have good: "\<forall>(k, v)\<in>set ?es. good k v" using assms(2) set_sorted_entries [OF assms(1)] by simp
  have r: "render_entries render m = concat (map (\<lambda>l. l @ [newline]) (map (\<lambda>(k, v). render k v) ?es))"
    by (simp add: render_entries_def sorted_entries_def o_def)
  have "\<forall>l\<in>set (hs @ map (\<lambda>(k, v). render k v) ?es). newline \<notin> set l"
    using assms(3) good render_line by auto
  from scan_lines_concat [OF this]
  have lines: "scan_lines (concat (map (\<lambda>l. l @ [newline]) hs) @ render_entries render m) =
      hs @ map (\<lambda>(k, v). render k v) ?es" by (simp add: r)
  let ?step = "\<lambda>l m. case parse l of None \<Rightarrow> m | Some (k, v) \<Rightarrow> AList.update k v m"
  have h: "fold ?step hs acc = acc" for acc
    using assms(3) by (induction hs arbitrary: acc) auto
  have e: "fold ?step (map (\<lambda>(k, v). render k v) es) acc = fold (\<lambda>(k, v) m. AList.update k v m) es acc"
    if "\<forall>(k, v)\<in>set es. good k v" for es acc
    using that by (induction es arbitrary: acc) (auto simp: parse_render)
  have "distinct (map fst ?es)" using assms(1) by (simp add: sorted_entries_def o_def distinct_sort)
  with good show ?thesis
    by (simp add: read_entries_def lines h e fold_update_fresh)
qed

lemma read_rendered_map:
  assumes "distinct (map fst m)" "\<forall>(k, v)\<in>set m. good k v"
    and "\<forall>h\<in>set hs. newline \<notin> set h \<and> parse h = None"
  shows "map_of (read_entries parse (concat (map (\<lambda>l. l @ [newline]) hs) @ render_entries render m)) =
    map_of m"
  using read_rendered [OF assms] map_of_sorted_entries [OF assms(1)] by simp

end

end
