(* ===== verification/Go_Format.thy ===== *)
theory Go_Format
  imports Go_Float Go_Strings
begin

text \<open>
  Numbers as text: \<open>fmt\<close>'s fixed-point verbs and two-digit padding, \<open>strconv.ParseFloat\<close> on decimal
  notation, and \<open>FormatETA\<close> of \<open>src/utils/utils.go\<close>.
\<close>

text \<open>\<open>%.<n>f\<close>: the exact value rounded to \<open>n\<close> decimals, ties to even.\<close>

definition fmt_fixed :: "nat \<Rightarrow> float64 \<Rightarrow> go_string" where
  "fmt_fixed n x =
     (let v = round_even (\<bar>x\<bar> * 10 ^ n);
          ds = pad_left (Suc n) CHR ''0'' (nat_str (nat v));
          k = length ds - n
      in (if x < 0 then ''-'' else []) @ take k ds @ (if n = 0 then [] else ''.'' @ drop k ds))"

text \<open>\<open>%02d\<close>\<close>

definition fmt_02d :: "int \<Rightarrow> go_string" where
  "fmt_02d i = (if i < 0 then int_str i else pad_left 2 CHR ''0'' (nat_str (nat i)))"

text \<open>
  \<open>ParseFloat\<close> for decimal notation without exponent: an optional sign, digits with at most one
  point, at least one digit. (Exponents, hexadecimal notation and the names of infinities are
  accepted by Go and refused here; no setting of the agent is written that way.)
\<close>

definition parse_float :: "go_string \<Rightarrow> float64 option" where
  "parse_float s =
     (let (neg, body) = (case s of
            [] \<Rightarrow> (False, [])
          | c # cs \<Rightarrow> if c = CHR ''-'' then (True, cs) else if c = CHR ''+'' then (False, cs)
                     else (False, s));
          (ip, fp) = (case cut_at CHR ''.'' body of None \<Rightarrow> (body, []) | Some (a, b) \<Rightarrow> (a, b))
      in if ip = [] \<and> fp = [] then None
         else case digits_val 0 (ip @ fp) of
             None \<Rightarrow> None
           | Some n \<Rightarrow>
               (let v = fround (of_nat n / 10 ^ length fp) in Some (if neg then - v else v)))"

text \<open>
  \<open>FormatETA\<close>. Rounding the duration to a second changes nothing: it is a whole number of
  seconds already.
\<close>

definition FormatETA :: "float64 \<Rightarrow> go_string" where
  "FormatETA seconds =
     (if seconds \<le> 0 \<or> 31536000 < seconds then ''Calculating...''
      else let total = int_of_float seconds;
               h = total div 3600;
               m = (total - h * 3600) div 60;
               s = total - h * 3600 - m * 60
           in if 0 < h then fmt_02d h @ ''h '' @ fmt_02d m @ ''m '' @ fmt_02d s @ ''s''
              else fmt_02d m @ ''m '' @ fmt_02d s @ ''s'')"

subsection \<open>Facts\<close>

text \<open>The three numbers \<open>FormatETA\<close> prints.\<close>

definition eta_fields :: "float64 \<Rightarrow> int \<times> int \<times> int" where
  "eta_fields seconds =
     (let total = int_of_float seconds; h = total div 3600; m = (total - h * 3600) div 60
      in (h, m, total - h * 3600 - m * 60))"

lemma eta_fields_bounds:
  assumes "0 < x" "x \<le> 31536000"
  shows "case eta_fields x of (h, m, s) \<Rightarrow>
    0 \<le> h \<and> h \<le> 8760 \<and> 0 \<le> m \<and> m < 60 \<and> 0 \<le> s \<and> s < 60 \<and>
    h * 3600 + m * 60 + s = \<lfloor>x\<rfloor>"
proof -
  let ?t = "int_of_float x"
  have t: "?t = \<lfloor>x\<rfloor>" using assms by (simp add: int_of_float_def)
  have t0: "0 \<le> ?t" using assms t by simp
  have "\<lfloor>x\<rfloor> \<le> \<lfloor>31536000 :: rat\<rfloor>" using assms(2) by (rule floor_mono)
  then have t1: "?t \<le> 31536000" using t by simp
  define h where "h = ?t div 3600"
  define m where "m = (?t - h * 3600) div 60"
  have r: "?t - h * 3600 = ?t mod 3600" by (simp add: h_def minus_div_mult_eq_mod)
  then have s: "?t - h * 3600 - m * 60 = ?t mod 3600 mod 60"
    by (simp add: m_def minus_div_mult_eq_mod)
  have "0 \<le> ?t mod 3600" "?t mod 3600 < 3600" by simp_all
  then have "0 \<le> m" "m < 60" by (auto simp: m_def r)
  moreover have "0 \<le> h" "h \<le> 8760" using t0 t1 by (auto simp: h_def)
  moreover have "0 \<le> ?t mod 3600 mod 60" "?t mod 3600 mod 60 < 60" by simp_all
  moreover have "h * 3600 + m * 60 + (?t - h * 3600 - m * 60) = \<lfloor>x\<rfloor>" using t by simp
  ultimately show ?thesis
    using s by (simp add: eta_fields_def Let_def h_def [symmetric] m_def [symmetric])
qed

lemma FormatETA_fields:
  assumes "0 < x" "x \<le> 31536000"
  shows "FormatETA x = (case eta_fields x of (h, m, s) \<Rightarrow>
    if 0 < h then fmt_02d h @ ''h '' @ fmt_02d m @ ''m '' @ fmt_02d s @ ''s''
    else fmt_02d m @ ''m '' @ fmt_02d s @ ''s'')"
  using assms by (simp add: FormatETA_def eta_fields_def Let_def)

text \<open>
  The remaining time as shown. For an estimate of up to a year the text shows whole hours,
  minutes and seconds with minutes and seconds below sixty, and together they are the estimate
  with its fraction of a second dropped.
\<close>

theorem FormatETA_correct:
  assumes "0 < x" "x \<le> 31536000"
  shows "\<exists>h m s. 0 \<le> h \<and> 0 \<le> m \<and> m < 60 \<and> 0 \<le> s \<and> s < 60 \<and>
    h * 3600 + m * 60 + s = \<lfloor>x\<rfloor> \<and>
    FormatETA x = (if 0 < h then fmt_02d h @ ''h '' @ fmt_02d m @ ''m '' @ fmt_02d s @ ''s''
                   else fmt_02d m @ ''m '' @ fmt_02d s @ ''s'')"
proof -
  obtain h m s where f: "eta_fields x = (h, m, s)" by (cases "eta_fields x")
  from f eta_fields_bounds [OF assms] FormatETA_fields [OF assms] show ?thesis
    by (intro exI [of _ h] exI [of _ m] exI [of _ s]) simp
qed

theorem FormatETA_correct_witness: "FormatETA (3725 + 1 / 2) = ''01h 02m 05s''"
proof -
  have x: "(0 :: rat) < 3725 + 1 / 2" "3725 + 1 / 2 \<le> (31536000 :: rat)" by simp_all
  have fl: "\<lfloor>3725 + 1 / 2 :: rat\<rfloor> = 3725" by (simp add: floor_eq_iff)
  from FormatETA_correct [OF x] obtain h m s where
    b: "0 \<le> h" "0 \<le> m" "m < 60" "0 \<le> s" "s < 60" "h * 3600 + m * 60 + s = 3725"
    and f: "FormatETA (3725 + 1 / 2) =
      (if 0 < h then fmt_02d h @ ''h '' @ fmt_02d m @ ''m '' @ fmt_02d s @ ''s''
       else fmt_02d m @ ''m '' @ fmt_02d s @ ''s'')"
    unfolding fl by blast
  from b have "h = 1" by linarith
  with b have "m = 2" by linarith
  with b \<open>h = 1\<close> have "s = 5" by linarith
  have "fmt_02d 1 @ ''h '' @ fmt_02d 2 @ ''m '' @ fmt_02d 5 @ ''s'' = ''01h 02m 05s''"
    by code_simp
  with f \<open>h = 1\<close> \<open>m = 2\<close> \<open>s = 5\<close> show ?thesis by simp
qed

end
