(* ===== verification/Layered_Config.thy ===== *)
theory Layered_Config
  imports Flat_Store Go_Format
begin

text \<open>
  The layered configuration: \<open>src/config/layered.go\<close> (the yml, env and web tiers, their merge, the
  snapshots, writing \<open>config.yml\<close>) and \<open>src/config/config.go\<close> (the settings structure built from the
  environment and the merged tier). The environment is a function, the file on disk a field of
  the state.
\<close>

type_synonym str_map = "(go_string \<times> go_string) list"
type_synonym environ = "go_string \<Rightarrow> go_string option"

record layered =
  yml :: str_map
  env :: str_map
  web :: str_map
  yml_file :: "go_string option"
  writable :: bool

definition ConfigYmlKeys :: "go_string list" where
  "ConfigYmlKeys =
     [''torrent_max_upload_kbps'', ''torrent_seed_ratio'', ''torrent_seed_hours'',
      ''torrent_require_full_seed'', ''torrent_no_full_seed_timeout_mins'', ''torrent_port'',
      ''max_concurrent_downloads'', ''cpu_max_percent'', ''max_disk_usage_gb'',
      ''slow_speed_threshold_mbs'', ''slow_speed_timeout_mins'', ''low_peers_threshold'',
      ''low_peers_timeout_mins'', ''local_ui_port'', ''local_ui_bind'']"

definition EnvOnlyKeys :: "go_string list" where
  "EnvOnlyKeys =
     [''site_url'', ''agent_token'', ''vpn_provider'', ''vpn_download_only'', ''vpn_proxy_addr'',
      ''nntp_server'', ''nntp_ssl'', ''nntp_connections'', ''nntp_user'', ''nntp_pass'',
      ''nntp_group'', ''nntp_poster'', ''nntp_from'', ''nntp_domain'']"

subsection \<open>Loading\<close>

definition yml_line :: "go_string \<Rightarrow> (go_string \<times> go_string) option" where
  "yml_line l = map_option (\<lambda>(k, v). (k, trim_quotes v)) (cut_line l)"

definition loadYml :: "go_string option \<Rightarrow> str_map" where
  "loadYml f = (case f of None \<Rightarrow> [] | Some text \<Rightarrow> read_entries yml_line text)"

definition loadEnv :: "environ \<Rightarrow> str_map" where
  "loadEnv e = List.map_filter (\<lambda>k. map_option (\<lambda>v. (k, v)) (e (to_upper k))) ConfigYmlKeys"

text \<open>
  \<open>probeWritable\<close>: opening the file for append works, or it does not exist and a probe file can be
  created beside it.
\<close>

datatype open_result = Opened | NotExist | OpenFailed

definition probeWritable :: "open_result \<Rightarrow> bool \<Rightarrow> bool" where
  "probeWritable r create_ok =
     (case r of Opened \<Rightarrow> True | NotExist \<Rightarrow> create_ok | OpenFailed \<Rightarrow> False)"

definition NewLayered :: "go_string option \<Rightarrow> environ \<Rightarrow> open_result \<Rightarrow> bool \<Rightarrow> layered" where
  "NewLayered f e r create_ok =
     \<lparr>yml = loadYml f, env = loadEnv e, web = [], yml_file = f, writable = probeWritable r create_ok\<rparr>"

subsection \<open>Reading\<close>

text \<open>A missing key reads as the empty string, as in a Go map.\<close>

definition tier_value :: "str_map \<Rightarrow> go_string \<Rightarrow> go_string" where
  "tier_value m key = (case map_of m key of Some v \<Rightarrow> v | None \<Rightarrow> [])"

definition Effective :: "layered \<Rightarrow> go_string \<Rightarrow> go_string" where
  "Effective l key =
     (if tier_value (web l) key \<noteq> [] then tier_value (web l) key
      else if tier_value (env l) key \<noteq> [] then tier_value (env l) key
      else tier_value (yml l) key)"

record local_value =
  lv_Value :: go_string
  lv_Source :: go_string

definition LocalSnapshot :: "layered \<Rightarrow> (go_string \<times> local_value) list" where
  "LocalSnapshot l =
     fold (\<lambda>(k, v) m. AList.update k \<lparr>lv_Value = v, lv_Source = ''env''\<rparr> m) (env l)
       (fold (\<lambda>(k, v) m. AList.update k \<lparr>lv_Value = v, lv_Source = ''yml''\<rparr> m) (yml l) [])"

definition WebSnapshot :: "layered \<Rightarrow> str_map" where
  "WebSnapshot l = web l"

definition ApplyWeb :: "str_map \<Rightarrow> layered \<Rightarrow> layered" where
  "ApplyWeb m l = l\<lparr>web := fold (\<lambda>(k, v) w. AList.update (to_lower k) v w) m []\<rparr>"

subsection \<open>Writing\<close>

text \<open>\<open>%q\<close>: \<open>strconv.Quote\<close>, for text whose bytes above 127 form printable characters.\<close>

definition quote_char :: "char \<Rightarrow> go_string" where
  "quote_char c =
     (let n = of_char c :: nat; bs = CHR 0x5C
      in if c = CHR 0x22 \<or> c = bs then [bs, c]
         else if n = 7 then [bs, CHR ''a''] else if n = 8 then [bs, CHR ''b'']
         else if n = 9 then [bs, CHR ''t''] else if n = 10 then [bs, CHR ''n'']
         else if n = 11 then [bs, CHR ''v''] else if n = 12 then [bs, CHR ''f'']
         else if n = 13 then [bs, CHR ''r'']
         else if n < 32 \<or> n = 127 then
           [bs, CHR ''x'', digit_char (n div 16),
            (if n mod 16 < 10 then digit_char (n mod 16) else char_of (87 + n mod 16))]
         else [c])"

definition go_quote :: "go_string \<Rightarrow> go_string" where
  "go_quote v = [CHR 0x22] @ concat (map quote_char v) @ [CHR 0x22]"

definition yml_special :: "go_string" where
  "yml_special = '':#'' @ [CHR 0x22, CHR 0x27, newline]"

definition yml_entry :: "go_string \<Rightarrow> go_string \<Rightarrow> go_string" where
  "yml_entry k v = k @ '': '' @ (if contains_any v yml_special then go_quote v else v)"

definition yml_header :: "go_string list" where
  "yml_header =
     [''# indexer-agent config.yml '' @ [CHR 0xE2, CHR 0x80, CHR 0x94] @ '' edit with care.'',
      ''# Writes from the site UI or the local UI overwrite this file in place.'',
      ''# Keys in .env (VPN_*, NNTP_*, SITE_URL, AGENT_TOKEN) are NOT managed here.'', []]"

definition yml_text :: "str_map \<Rightarrow> go_string" where
  "yml_text m = concat (map (\<lambda>l. l @ [newline]) yml_header) @ render_entries yml_entry m"

text \<open>
  \<open>WriteYml\<close>: the keys written (\<open>None\<close>: the error). The tier in memory is updated before the file
  is written, so it keeps the values also when the write fails.
\<close>

definition allowed_updates :: "str_map \<Rightarrow> str_map" where
  "allowed_updates updates =
     filter (\<lambda>(k, v). k \<notin> set EnvOnlyKeys) (map (\<lambda>(k, v). (to_lower k, v)) updates)"

definition WriteYml :: "bool \<Rightarrow> str_map \<Rightarrow> layered \<Rightarrow> go_string list option \<times> layered" where
  "WriteYml write_ok updates l =
     (if \<not> writable l then (None, l)
      else let ups = allowed_updates updates;
               m = fold (\<lambda>(k, v) y. AList.update k v y) ups (yml l);
               l' = l\<lparr>yml := m\<rparr>
           in if write_ok then (Some (sort (map fst ups)), l'\<lparr>yml_file := Some (yml_text m)\<rparr>)
              else (None, l'))"

record settings_report =
  OnDiskWritable :: bool
  HasPrivateTrackers :: bool
  LocalUIURL :: go_string
  YmlPath :: go_string
  Local :: "(go_string \<times> local_value) list"

definition Report :: "go_string \<Rightarrow> bool \<Rightarrow> go_string \<Rightarrow> layered \<Rightarrow> settings_report" where
  "Report ymlPath private url l =
     \<lparr>OnDiskWritable = writable l, HasPrivateTrackers = private, LocalUIURL = url, YmlPath = ymlPath,
      Local = LocalSnapshot l\<rparr>"

subsection \<open>The merged settings\<close>

definition layeredInt :: "layered \<Rightarrow> go_string \<Rightarrow> int \<Rightarrow> int" where
  "layeredInt l key fallback =
     (let v = Effective l key
      in if v = [] then fallback else case parse_int v of Some i \<Rightarrow> i | None \<Rightarrow> fallback)"

definition layeredFloat :: "layered \<Rightarrow> go_string \<Rightarrow> float64 \<Rightarrow> float64" where
  "layeredFloat l key fallback =
     (let v = Effective l key
      in if v = [] then fallback else case parse_float v of Some f \<Rightarrow> f | None \<Rightarrow> fallback)"

definition getEnv :: "environ \<Rightarrow> go_string \<Rightarrow> go_string \<Rightarrow> go_string" where
  "getEnv e key fallback = (case e key of Some v \<Rightarrow> v | None \<Rightarrow> fallback)"

definition getEnvAsInt :: "environ \<Rightarrow> go_string \<Rightarrow> int \<Rightarrow> int" where
  "getEnvAsInt e key fallback =
     (case e key of Some v \<Rightarrow> (case parse_int v of Some i \<Rightarrow> i | None \<Rightarrow> fallback) | None \<Rightarrow> fallback)"

definition ConfigYmlPath :: "environ \<Rightarrow> go_string" where
  "ConfigYmlPath e =
     (let p = getEnv e ''CONFIG_YML'' []
      in if p \<noteq> [] then p else path_join [getEnv e ''CONFIG_DIR'' ''.'', ''config.yml''])"

record agent_config =
  SiteURL :: go_string
  AgentToken :: go_string
  PollInterval :: int
  TempDir :: go_string
  WatchDir :: go_string
  VPNProvider :: go_string
  VPNDownloadOnly :: bool
  VPNProxyAddr :: go_string
  c_NNTPServer :: go_string
  c_NNTPSSL :: bool
  c_NNTPConnections :: int
  c_NNTPUser :: go_string
  c_NNTPPass :: go_string
  c_NNTPGroup :: go_string
  c_NNTPPoster :: go_string
  c_NNTPFrom :: go_string
  c_NNTPDomain :: go_string
  PAR2Redundancy :: int
  PAR2Threads :: int
  PAR2Memory :: int
  MaxDiskUsageGB :: float64
  MaxConcurrentDownloads :: int
  CPUMaxPercent :: float64
  SlowSpeedThresholdMBs :: float64
  SlowSpeedTimeoutMins :: int
  GeneratorName :: go_string
  Obfuscate :: bool
  Encrypt :: bool

definition newConfigFromLayered :: "environ \<Rightarrow> layered \<Rightarrow> agent_config" where
  "newConfigFromLayered e l =
     \<lparr>SiteURL = getEnv e ''SITE_URL'' [], AgentToken = getEnv e ''AGENT_TOKEN'' [],
      PollInterval = getEnvAsInt e ''POLL_INTERVAL'' 30, TempDir = getEnv e ''TEMP_DIR'' ''./temp'',
      WatchDir = getEnv e ''WATCH_DIR'' ''./watch'', VPNProvider = getEnv e ''VPN_PROVIDER'' ''Unknown'',
      VPNDownloadOnly = (getEnv e ''VPN_DOWNLOAD_ONLY'' ''false'' = ''true''),
      VPNProxyAddr = getEnv e ''VPN_PROXY_ADDR'' ''vpn:1080'',
      c_NNTPServer = getEnv e ''NNTP_SERVER'' ''news.example.com:119'',
      c_NNTPSSL = (getEnv e ''NNTP_SSL'' ''false'' = ''true''),
      c_NNTPConnections = getEnvAsInt e ''NNTP_CONNECTIONS'' 10,
      c_NNTPUser = getEnv e ''NNTP_USER'' ''username'', c_NNTPPass = getEnv e ''NNTP_PASS'' ''password'',
      c_NNTPGroup = getEnv e ''NNTP_GROUP'' ''alt.binaries.test'',
      c_NNTPPoster = getEnv e ''NNTP_POSTER'' ''Pipeline_Uploader'',
      c_NNTPFrom = getEnv e ''NNTP_FROM'' ''uploader@yourdomain.com'',
      c_NNTPDomain = getEnv e ''NNTP_DOMAIN'' [],
      PAR2Redundancy = getEnvAsInt e ''PAR2_REDUNDANCY'' 5, PAR2Threads = getEnvAsInt e ''PAR2_THREADS'' 0,
      PAR2Memory = getEnvAsInt e ''PAR2_MEMORY_MB'' 0,
      MaxDiskUsageGB = layeredFloat l ''max_disk_usage_gb'' 0,
      MaxConcurrentDownloads = layeredInt l ''max_concurrent_downloads'' 3,
      CPUMaxPercent = layeredFloat l ''cpu_max_percent'' 85,
      SlowSpeedThresholdMBs = layeredFloat l ''slow_speed_threshold_mbs'' (fround (1 / 20)),
      SlowSpeedTimeoutMins = layeredInt l ''slow_speed_timeout_mins'' 10,
      GeneratorName = getEnv e ''GENERATOR_NAME'' ''usenet-pipeline'',
      Obfuscate = (getEnv e ''OBFUSCATE'' ''false'' = ''true''),
      Encrypt = (getEnv e ''ENCRYPT'' ''false'' = ''true'')\<rparr>"

definition Refresh :: "environ \<Rightarrow> layered \<Rightarrow> agent_config \<Rightarrow> agent_config" where
  "Refresh e l c =
     (let fresh = newConfigFromLayered e l
      in c\<lparr>MaxDiskUsageGB := MaxDiskUsageGB fresh, MaxConcurrentDownloads := MaxConcurrentDownloads fresh,
           CPUMaxPercent := CPUMaxPercent fresh, SlowSpeedThresholdMBs := SlowSpeedThresholdMBs fresh,
           SlowSpeedTimeoutMins := SlowSpeedTimeoutMins fresh\<rparr>)"

subsection \<open>Facts about the tiers\<close>

lemma map_of_fold_update:
  "map_of (fold (\<lambda>(k, v) m. AList.update k (f v) m) es m) = map_of m ++ map_of (map (\<lambda>(k, v). (k, f v)) (rev es))"
proof (induction es arbitrary: m)
  case (Cons e es)
  then show ?case
    by (cases e) (auto simp: AList.update_conv' map_add_def fun_eq_iff split: option.splits)
qed simp

lemma map_of_rev_distinct: "distinct (map fst es) \<Longrightarrow> map_of (rev es) = map_of es"
  by (rule map_of_inject_set [THEN iffD2]) (simp_all add: rev_map [symmetric])

lemma distinct_fold_update:
  "distinct (map fst m) \<Longrightarrow> distinct (map fst (fold (\<lambda>(k, v) m. AList.update k (f v) m) es m))"
  by (induction es arbitrary: m) (auto simp: AList.distinct_update)

lemma read_entries_distinct: "distinct (map fst (read_entries p t))"
proof -
  have "distinct (map fst m) \<Longrightarrow> distinct (map fst (fold (\<lambda>l m. case p l of None \<Rightarrow> m
      | Some (k, v) \<Rightarrow> AList.update k v m) ls m))" for ls m
    by (induction ls arbitrary: m) (auto simp: AList.distinct_update split: option.splits)
  then show ?thesis by (simp add: read_entries_def)
qed

text \<open>
  What the agent tells the site of its settings. A key of the local snapshot has the
  environment's value if the environment sets it and the file's otherwise, marked accordingly; in
  particular nothing the site pushed down is reported back as local.
\<close>

theorem LocalSnapshot_tiers:
  assumes "distinct (map fst (env l))" "distinct (map fst (yml l))"
  shows "map_of (LocalSnapshot l) k =
    (case map_of (env l) k of
       Some v \<Rightarrow> Some \<lparr>lv_Value = v, lv_Source = ''env''\<rparr>
     | None \<Rightarrow> map_option (\<lambda>v. \<lparr>lv_Value = v, lv_Source = ''yml''\<rparr>) (map_of (yml l) k))"
proof -
  have m: "map_of (map (\<lambda>(k, v). (k, f v)) (rev es)) k = map_option f (map_of es k)"
    if "distinct (map fst es)" for f :: "go_string \<Rightarrow> local_value" and es
    using that by (simp add: map_of_map map_of_rev_distinct)
  show ?thesis
    using assms by (auto simp: LocalSnapshot_def map_of_fold_update m map_add_def split: option.splits)
qed

definition demo_layered :: layered where
  "demo_layered = \<lparr>yml = [(''torrent_port'', ''6881''), (''cpu_max_percent'', ''50'')],
     env = [(''cpu_max_percent'', ''70'')], web = [(''cpu_max_percent'', ''90'')], yml_file = None,
     writable = True\<rparr>"

theorem LocalSnapshot_tiers_witness:
  "map_of (LocalSnapshot demo_layered) ''cpu_max_percent'' = Some \<lparr>lv_Value = ''70'', lv_Source = ''env''\<rparr>"
  by (subst LocalSnapshot_tiers) (simp_all add: demo_layered_def)

text \<open>
  Refreshing is restarting. After the site replaced the web tier, a running agent's refreshed
  configuration is exactly the one a newly started agent with the same environment and tiers
  would build, whatever tiers it was started with.
\<close>

theorem Refresh_equals_restart:
  "Refresh e l (newConfigFromLayered e l0) = newConfigFromLayered e l"
  by (simp add: Refresh_def newConfigFromLayered_def Let_def)

subsection \<open>Writing and reading back\<close>














text \<open>
  What belongs to \<open>.env\<close> never reaches \<open>config.yml\<close>: whatever updates are submitted, in any
  spelling of the keys, the tier is unchanged at every env-only key, and none is reported as
  written.
\<close>

theorem WriteYml_protects_env_keys:
  "case WriteYml write_ok updates l of (r, l') \<Rightarrow>
     list_all (\<lambda>k. map_of (yml l') k = map_of (yml l) k \<and>
        (case r of Some ks \<Rightarrow> k \<notin> set ks | None \<Rightarrow> True)) EnvOnlyKeys \<and>
     env l' = env l \<and> web l' = web l"
proof -
  have "fst ` set (allowed_updates updates) \<inter> set EnvOnlyKeys = {}"
    by (auto simp: allowed_updates_def)
  then have n: "k \<notin> fst ` set (allowed_updates updates)" if "k \<in> set EnvOnlyKeys" for k
    using that by blast
  then have "map_of (rev (allowed_updates updates)) k = None" if "k \<in> set EnvOnlyKeys" for k
    using that by (simp add: map_of_eq_None_iff)
  with n show ?thesis
    using map_of_fold_update [of "\<lambda>v. v" "allowed_updates updates" "yml l"]
    by (auto simp: WriteYml_def Let_def list_all_iff map_add_def)
qed

text \<open>
  Quoting is not undone on reading: a value with a quotation mark comes back with a backslash in
  front of it.
\<close>

lemma quoted_value_changes:
  "map_of (loadYml (Some (yml_text [(''k'', ''a'' @ [CHR 0x22] @ ''b'')]))) ''k'' =
     Some (''a'' @ [CHR 0x5C, CHR 0x22] @ ''b'')"
  by code_simp

end
