(* ===== verification/Torrent_Rules.thy ===== *)
theory Torrent_Rules
  imports Disk_Reserve Layered_Config
begin

text \<open>
  Downloading a torrent: \<open>src/services/torrent.go\<close>. The settings, the client configuration (DHT,
  proxy, trackers, ports), the preparation of a magnet download up to the disk reservation, the
  download loop with its three skip rules, and the seeding phase. The torrent library and the
  clock are parameters: the loops run over the sequence of events they select on, each tick
  carrying what the library reports at that moment.
\<close>

subsection \<open>Settings\<close>

record seed_opts =
  UploadKBps :: int
  RatioTarget :: float64
  MaxHours :: float64
  RequireFull :: bool
  StallMins :: int
  so_ListenPort :: int

definition no_seed :: seed_opts where
  "no_seed = \<lparr>UploadKBps = 0, RatioTarget = 0, MaxHours = 0, RequireFull = False, StallMins = 0,
     so_ListenPort = 0\<rparr>"

text \<open>The settings read in \<open>torrent.go\<close>; without a layered configuration every key has its fallback.\<close>

definition torrentInt :: "layered option \<Rightarrow> go_string \<Rightarrow> int \<Rightarrow> int" where
  "torrentInt lo key fallback =
     (case lo of
        None \<Rightarrow> fallback
      | Some l \<Rightarrow>
          (let v = Effective l key
           in if v = [] then fallback else case parse_int v of Some i \<Rightarrow> i | None \<Rightarrow> fallback))"

definition torrentFloat :: "layered option \<Rightarrow> go_string \<Rightarrow> float64 \<Rightarrow> float64" where
  "torrentFloat lo key fallback =
     (case lo of
        None \<Rightarrow> fallback
      | Some l \<Rightarrow>
          (let v = Effective l key
           in if v = [] then fallback else case parse_float v of Some f \<Rightarrow> f | None \<Rightarrow> fallback))"

text \<open>Both readers of the configuration agree.\<close>

lemma torrent_readers: "torrentInt (Some l) = layeredInt l" "torrentFloat (Some l) = layeredFloat l"
  by (simp_all add: fun_eq_iff torrentInt_def torrentFloat_def layeredInt_def layeredFloat_def)

definition seedOptsFromConfig :: "layered \<Rightarrow> seed_opts" where
  "seedOptsFromConfig l =
     \<lparr>UploadKBps = torrentInt (Some l) ''torrent_max_upload_kbps'' 0,
      RatioTarget = torrentFloat (Some l) ''torrent_seed_ratio'' 0,
      MaxHours = torrentFloat (Some l) ''torrent_seed_hours'' 0,
      RequireFull = (torrentInt (Some l) ''torrent_require_full_seed'' 0 = 1),
      StallMins = torrentInt (Some l) ''torrent_no_full_seed_timeout_mins'' 0,
      so_ListenPort = torrentInt (Some l) ''torrent_port'' 0\<rparr>"

record download_opts =
  SlowThresholdMBs :: float64
  SlowTimeoutMins :: int
  LowPeersThreshold :: int
  LowPeersTimeoutMins :: int
  IsBoosted :: bool

subsection \<open>The torrent client\<close>

record client_cfg =
  DataDir :: go_string
  ListenPort :: int
  NoDHT :: bool
  UploadLimit :: "int option"
  Proxy :: "go_string option"

text \<open>\<open>applyVPNProxy\<close>: \<open>dialer_ok\<close> says whether the SOCKS5 dialer could be made.\<close>

definition applyVPNProxy :: "bool \<Rightarrow> agent_config \<Rightarrow> client_cfg \<Rightarrow> client_cfg" where
  "applyVPNProxy dialer_ok cfg c =
     (if \<not> VPNDownloadOnly cfg \<or> VPNProxyAddr cfg = [] then c
      else if \<not> dialer_ok then c
      else c\<lparr>Proxy := Some (VPNProxyAddr cfg)\<rparr>)"

definition upload_limit :: "seed_opts \<Rightarrow> int option" where
  "upload_limit so = (if 0 < UploadKBps so then Some (wrap64 (UploadKBps so * 1024)) else None)"

definition download_dir :: "agent_config \<Rightarrow> go_string \<Rightarrow> go_string" where
  "download_dir cfg jobName = path_join [TempDir cfg, ''dl-'' @ jobName]"

text \<open>The configuration of \<open>downloadTorrentFile\<close> and of \<open>downloadMagnet\<close>.\<close>

definition file_client_cfg :: "bool \<Rightarrow> agent_config \<Rightarrow> seed_opts \<Rightarrow> go_string \<Rightarrow> bool \<Rightarrow> client_cfg" where
  "file_client_cfg dialer_ok cfg so jobName privateMode =
     applyVPNProxy dialer_ok cfg
       \<lparr>DataDir = download_dir cfg jobName, ListenPort = so_ListenPort so, NoDHT = privateMode,
        UploadLimit = upload_limit so, Proxy = None\<rparr>"

definition magnet_client_cfg :: "bool \<Rightarrow> agent_config \<Rightarrow> seed_opts \<Rightarrow> go_string \<Rightarrow> client_cfg" where
  "magnet_client_cfg dialer_ok cfg so jobName =
     applyVPNProxy dialer_ok cfg
       \<lparr>DataDir = download_dir cfg jobName, ListenPort = so_ListenPort so, NoDHT = False,
        UploadLimit = upload_limit so, Proxy = None\<rparr>"

definition isBindInUseError :: "go_string \<Rightarrow> bool" where
  "isBindInUseError s \<longleftrightarrow>
     contains s ''address already in use'' \<or> contains s ''Only one usage of each socket address''"

text \<open>
  \<open>newTorrentClient\<close>: \<open>mk_client\<close> is the library's constructor, an error message or a client. The
  result also gives the ports tried.
\<close>

definition newTorrentClient ::
  "(int \<Rightarrow> go_string option) \<Rightarrow> client_cfg \<Rightarrow> (go_string + client_cfg) \<times> int list" where
  "newTorrentClient mk_client c =
     (case mk_client (ListenPort c) of
        None \<Rightarrow> (Inr c, [ListenPort c])
      | Some err \<Rightarrow>
          if \<not> isBindInUseError err then (Inl err, [ListenPort c])
          else (case mk_client 0 of
                  None \<Rightarrow> (Inr (c\<lparr>ListenPort := 0\<rparr>), [ListenPort c, 0])
                | Some err2 \<Rightarrow> (Inl err2, [ListenPort c, 0])))"

subsection \<open>Magnet links\<close>

definition publicTrackers :: "go_string list" where
  "publicTrackers =
     [''udp://tracker.opentrackr.org:1337/announce'', ''udp://open.stealth.si:80/announce'',
      ''udp://tracker.torrent.eu.org:451/announce'', ''udp://exodus.desync.com:6969/announce'',
      ''http://nyaa.tracker.wf:7777/announce'']"

text \<open>\<open>url.QueryEscape\<close>\<close>

definition unreserved :: "char \<Rightarrow> bool" where
  "unreserved c \<longleftrightarrow>
     (let n = of_char c :: nat
      in (48 \<le> n \<and> n \<le> 57) \<or> (65 \<le> n \<and> n \<le> 90) \<or> (97 \<le> n \<and> n \<le> 122) \<or>
         c \<in> {CHR ''-'', CHR ''_'', CHR ''.'', CHR ''~''})"

definition hex_upper :: "nat \<Rightarrow> char" where
  "hex_upper d = (if d < 10 then char_of (48 + d) else char_of (55 + d))"

definition query_escape :: "go_string \<Rightarrow> go_string" where
  "query_escape s =
     concat (map (\<lambda>c. if unreserved c then [c] else if c = CHR '' '' then ''+''
       else [CHR ''%'', hex_upper ((of_char c :: nat) div 16), hex_upper ((of_char c :: nat) mod 16)]) s)"

text \<open>The tracker injection of \<open>downloadMagnet\<close>.\<close>

definition add_tracker :: "go_string \<Rightarrow> go_string \<Rightarrow> go_string" where
  "add_tracker tr uri = (if contains uri tr then uri else uri @ ''&tr='' @ query_escape tr)"

definition magnet_uri :: "bool \<Rightarrow> go_string \<Rightarrow> go_string" where
  "magnet_uri privateMode uri = (if privateMode then uri else fold add_tracker publicTrackers uri)"

subsection \<open>The skip rules\<close>

text \<open>One countdown: since when the rule is violated (the zero time: it is not), and how many good
  ticks in a row there have been.\<close>

record countdown =
  since :: time
  recovery :: nat

definition idle :: countdown where
  "idle = \<lparr>since = zero_time, recovery = 0\<rparr>"

definition recoveryTicksRequired :: nat where
  "recoveryTicksRequired = 3"

datatype rule_result = Reject | Goes countdown bool

text \<open>
  One tick of a rule that is in force: whether the download is rejected, or the countdown after
  it and whether it is running.
\<close>

definition rule_tick :: "time \<Rightarrow> duration \<Rightarrow> bool \<Rightarrow> countdown \<Rightarrow> rule_result" where
  "rule_tick now timeout bad c =
     (if bad then
        (if is_zero_time (since c) then Goes \<lparr>since = now, recovery = 0\<rparr> True
         else if timeout < time_sub now (since c) then Reject
         else Goes (c\<lparr>recovery := 0\<rparr>) True)
      else if \<not> is_zero_time (since c) then
        (if recoveryTicksRequired \<le> Suc (recovery c) then Goes idle False
         else Goes (c\<lparr>recovery := Suc (recovery c)\<rparr>) True)
      else Goes c False)"

text \<open>The rule with its guard: out of force it does nothing.\<close>

definition guarded_tick :: "bool \<Rightarrow> time \<Rightarrow> duration \<Rightarrow> bool \<Rightarrow> countdown \<Rightarrow> rule_result" where
  "guarded_tick in_force now timeout bad c =
     (if in_force then rule_tick now timeout bad c else Goes c False)"

subsection \<open>One tick of the download loop\<close>

record rules =
  slowTimeout :: duration
  slowThreshold :: float64
  isBoosted :: bool
  lowPeersTimeout :: duration
  lowPeersThreshold :: int

text \<open>The local variables the options set; without options the rules are off.\<close>

definition rules_from :: "download_opts option \<Rightarrow> rules" where
  "rules_from opts =
     (case opts of
        None \<Rightarrow> \<lparr>slowTimeout = 0, slowThreshold = 0, isBoosted = False, lowPeersTimeout = 0,
                 lowPeersThreshold = -1\<rparr>
      | Some op \<Rightarrow>
          \<lparr>slowTimeout = (if 0 < SlowTimeoutMins op then wrap64 (SlowTimeoutMins op * minute) else 0),
           slowThreshold = SlowThresholdMBs op, isBoosted = IsBoosted op,
           lowPeersTimeout = (if 0 < LowPeersTimeoutMins op
                              then wrap64 (LowPeersTimeoutMins op * minute) else 0),
           lowPeersThreshold = LowPeersThreshold op\<rparr>)"

text \<open>What the library reports at a tick, and the time of the tick.\<close>

record observation =
  now :: time
  completed :: int
  uploaded :: int
  downloaded :: int
  peers :: int

record dl_state =
  lastCompleted :: int
  lastUploaded :: int
  startedAt :: time
  slow :: countdown
  stall :: countdown
  lowPeers :: countdown

datatype warning_kind = SlowSpeed | Stalled | LowPeers

record progress_report =
  r_down :: float64
  r_up :: float64
  r_percent :: float64
  r_peers :: int
  r_total :: int
  r_transferred :: int
  r_eta :: float64
  r_warnings :: "(warning_kind \<times> time) list"
  r_details :: go_string

definition start_state :: "time \<Rightarrow> dl_state" where
  "start_state t = \<lparr>lastCompleted = 0, lastUploaded = 0, startedAt = t, slow = idle, stall = idle,
     lowPeers = idle\<rparr>"

definition mb :: "float64 \<Rightarrow> float64" where
  "mb x = fdiv (fdiv x 1024) 1024"

definition dl_percent :: "int \<Rightarrow> observation \<Rightarrow> float64" where
  "dl_percent tot ob = fmul (fdiv (float_of_int (completed ob)) (float_of_int tot)) 100"

definition dl_speed :: "dl_state \<Rightarrow> observation \<Rightarrow> float64" where
  "dl_speed st ob = mb (float_of_int (completed ob - lastCompleted st))"

definition slow_in_force :: "rules \<Rightarrow> float64 \<Rightarrow> bool" where
  "slow_in_force r percent \<longleftrightarrow> 0 < slowTimeout r \<and> 0 < slowThreshold r \<and> percent < 95"

definition is_slow :: "rules \<Rightarrow> float64 \<Rightarrow> bool" where
  "is_slow r speed \<longleftrightarrow> (if isBoosted r then speed = 0 else speed < slowThreshold r)"

definition low_peers_in_force :: "rules \<Rightarrow> float64 \<Rightarrow> bool" where
  "low_peers_in_force r percent \<longleftrightarrow> 0 < lowPeersTimeout r \<and> 0 \<le> lowPeersThreshold r \<and> percent < 95"

definition stall_timeout :: "seed_opts \<Rightarrow> duration" where
  "stall_timeout so = wrap64 (StallMins so * minute)"

definition warning :: "warning_kind \<Rightarrow> countdown \<Rightarrow> bool \<Rightarrow> duration \<Rightarrow> (warning_kind \<times> time) list" where
  "warning k c active timeout =
     (if active \<and> \<not> is_zero_time (since c) then [(k, since c + timeout)] else [])"

text \<open>The status line a tick writes.\<close>

definition dl_details :: "int \<Rightarrow> dl_state \<Rightarrow> observation \<Rightarrow> go_string" where
  "dl_details tot st ob =
     (let speed = dl_speed st ob;
          upSpeed = mb (float_of_int (uploaded ob - lastUploaded st));
          eta = (if 0 < speed then FormatETA (fdiv (mb (float_of_int (tot - completed ob))) speed)
                 else ''Calculating...'')
      in fmt_fixed 1 (dl_percent tot ob) @ ''% ('' @ fmt_fixed 2 (mb (float_of_int (completed ob))) @
         '' / '' @ fmt_fixed 2 (mb (float_of_int tot)) @ '' MB) - '' @ fmt_fixed 2 speed @
         '' MB/s dn / '' @ fmt_fixed 2 upSpeed @ '' MB/s up - ETA: '' @ eta @ '' - '' @
         int_str (peers ob) @ '' peers'')"

definition no_full_seed :: "seed_opts \<Rightarrow> dl_state \<Rightarrow> observation \<Rightarrow> bool" where
  "no_full_seed so st ob \<longleftrightarrow>
     RequireFull so \<and> completed ob = 0 \<and> 60 * second < time_sub (now ob) (startedAt st)"

text \<open>
  The body of the ticker case for a torrent of positive length: \<open>None\<close> is the return with
  \<open>ErrSlowDownload\<close>, otherwise the state after the tick and the report: what the callback is given, and the details
  \<open>UpdateState\<close> stores. The clock readings within one tick are one value.
\<close>

definition dl_tick ::
  "seed_opts \<Rightarrow> rules \<Rightarrow> int \<Rightarrow> observation \<Rightarrow> dl_state \<Rightarrow> (dl_state \<times> progress_report) option" where
  "dl_tick so r tot ob st0 =
     (let percent = dl_percent tot ob;
          speed = dl_speed st0 ob;
          upSpeed = mb (float_of_int (uploaded ob - lastUploaded st0));
          eta = (if 0 < speed then fdiv (mb (float_of_int (tot - completed ob))) speed else 0);
          st = st0\<lparr>lastCompleted := completed ob, lastUploaded := uploaded ob\<rparr>
      in case guarded_tick (slow_in_force r percent) (now ob) (slowTimeout r) (is_slow r speed) (slow st) of
           Reject \<Rightarrow> None
         | Goes c1 a1 \<Rightarrow>
             if no_full_seed so st ob then None
             else (case guarded_tick (0 < StallMins so) (now ob) (stall_timeout so) (speed = 0) (stall st) of
                Reject \<Rightarrow> None
              | Goes c2 a2 \<Rightarrow>
                  (case guarded_tick (low_peers_in_force r percent) (now ob) (lowPeersTimeout r)
                      (peers ob \<le> lowPeersThreshold r) (lowPeers st) of
                     Reject \<Rightarrow> None
                   | Goes c3 a3 \<Rightarrow>
                       Some (st\<lparr>slow := c1, stall := c2, lowPeers := c3\<rparr>,
                         \<lparr>r_down = speed, r_up = upSpeed, r_percent = percent, r_peers = peers ob,
                          r_total = tot, r_transferred = completed ob, r_eta = eta,
                          r_warnings = warning SlowSpeed c1 a1 (slowTimeout r) @
                            warning Stalled c2 a2 (stall_timeout so) @
                            warning LowPeers c3 a3 (lowPeersTimeout r),
                          r_details = dl_details tot st0 ob\<rparr>))))"

subsection \<open>The loops\<close>

text \<open>What the download loop selects on.\<close>

datatype dl_event = CtxDone | AllDone | Tick observation

datatype dl_outcome = DlCancelled | DlSlow | DlFinished "dl_event list"

text \<open>
  The loop over the events; \<open>None\<close> means it is still running when the events end, and
  \<open>DlFinished\<close> carries the events left for the seeding phase.
\<close>

fun dl_loop :: "seed_opts \<Rightarrow> rules \<Rightarrow> int \<Rightarrow> dl_state \<Rightarrow> dl_event list \<Rightarrow> dl_outcome option" where
  "dl_loop so r tot st [] = None"
| "dl_loop so r tot st (CtxDone # es) = Some DlCancelled"
| "dl_loop so r tot st (AllDone # es) = Some (DlFinished es)"
| "dl_loop so r tot st (Tick ob # es) =
     (if 0 < tot then
        (case dl_tick so r tot ob st of
           None \<Rightarrow> Some DlSlow
         | Some (st', rep) \<Rightarrow> dl_loop so r tot st' es)
      else dl_loop so r tot st es)"

definition seeds :: "seed_opts \<Rightarrow> bool" where
  "seeds so \<longleftrightarrow> 0 < UploadKBps so \<and> (0 < RatioTarget so \<or> 0 < MaxHours so)"

text \<open>\<open>time.Duration(so.MaxHours * float64(time.Hour))\<close>\<close>

definition max_seed_time :: "seed_opts \<Rightarrow> duration" where
  "max_seed_time so = int_of_float (fmul (MaxHours so) (float_of_int hour))"

text \<open>A tick of \<open>runSeedPhase\<close> ends it when the ratio is reached or the deadline has passed.\<close>

definition seed_done :: "seed_opts \<Rightarrow> int \<Rightarrow> time \<Rightarrow> observation \<Rightarrow> bool" where
  "seed_done so tot t0 ob \<longleftrightarrow>
     (0 < RatioTarget so \<and>
        RatioTarget so \<le> fdiv (float_of_int (uploaded ob)) (float_of_int tot)) \<or>
     (0 < MaxHours so \<and> t0 + max_seed_time so < now ob)"

text \<open>
  What a tick reports: the speeds over the two seconds since the last one and the progress
  towards the ratio, or else towards the deadline, at most 100.
\<close>

record seed_report =
  s_down :: float64
  s_up :: float64
  s_percent :: float64
  s_peers :: int
  s_total :: int
  s_transferred :: int

definition seed_percent :: "seed_opts \<Rightarrow> int \<Rightarrow> time \<Rightarrow> observation \<Rightarrow> float64" where
  "seed_percent so tot t0 ob =
     min 100
       (if 0 < RatioTarget so
        then fmul (fdiv (fdiv (float_of_int (uploaded ob)) (float_of_int tot)) (RatioTarget so)) 100
        else if 0 < MaxHours so
        then fmul (fdiv (float_of_int (time_sub (now ob) t0)) (float_of_int (max_seed_time so))) 100
        else 0)"

definition seed_report_at :: "seed_opts \<Rightarrow> int \<Rightarrow> time \<Rightarrow> int \<Rightarrow> int \<Rightarrow> observation \<Rightarrow> seed_report" where
  "seed_report_at so tot t0 lastUp lastDown ob =
     \<lparr>s_down = mb (fdiv (float_of_int (downloaded ob - lastDown)) 2),
      s_up = mb (fdiv (float_of_int (uploaded ob - lastUp)) 2),
      s_percent = seed_percent so tot t0 ob, s_peers = peers ob, s_total = tot,
      s_transferred = uploaded ob\<rparr>"

text \<open>The seeding phase from time \<open>t0\<close>: whether it has ended, and its reports.\<close>

fun seed_loop :: "seed_opts \<Rightarrow> int \<Rightarrow> time \<Rightarrow> int \<Rightarrow> int \<Rightarrow> dl_event list \<Rightarrow> bool \<times> seed_report list" where
  "seed_loop so tot t0 lastUp lastDown [] = (False, [])"
| "seed_loop so tot t0 lastUp lastDown (CtxDone # es) = (True, [])"
| "seed_loop so tot t0 lastUp lastDown (AllDone # es) = seed_loop so tot t0 lastUp lastDown es"
| "seed_loop so tot t0 lastUp lastDown (Tick ob # es) =
     (let rep = seed_report_at so tot t0 lastUp lastDown ob
      in if seed_done so tot t0 ob then (True, [rep])
         else let (ended, reps) = seed_loop so tot t0 (uploaded ob) (downloaded ob) es
              in (ended, rep # reps))"

definition runSeedPhase :: "seed_opts \<Rightarrow> int \<Rightarrow> time \<Rightarrow> dl_event list \<Rightarrow> bool \<times> seed_report list" where
  "runSeedPhase so tot t0 es = (if tot \<le> 0 then (True, []) else seed_loop so tot t0 0 0 es)"

datatype download_result = Downloaded | CtxError | SlowError | StillRunning

definition downloadAndWaitSeed ::
  "seed_opts \<Rightarrow> download_opts option \<Rightarrow> int \<Rightarrow> time \<Rightarrow> time \<Rightarrow> dl_event list \<Rightarrow> download_result" where
  "downloadAndWaitSeed so opts tot t_start t_done es =
     (case dl_loop so (rules_from opts) tot (start_state t_start) es of
        None \<Rightarrow> StillRunning
      | Some DlCancelled \<Rightarrow> CtxError
      | Some DlSlow \<Rightarrow> SlowError
      | Some (DlFinished rest) \<Rightarrow>
          if seeds so \<and> \<not> fst (runSeedPhase so tot t_done rest) then StillRunning else Downloaded)"


text \<open>\<open>downloadAndWait\<close>: the loop without the \<open>torrent_*\<close> settings.\<close>

definition downloadAndWait ::
  "download_opts option \<Rightarrow> int \<Rightarrow> time \<Rightarrow> time \<Rightarrow> dl_event list \<Rightarrow> download_result" where
  "downloadAndWait opts = downloadAndWaitSeed no_seed opts"

subsection \<open>The entry points\<close>

text \<open>
  What the torrent library, the file system and the clock answer in the course of one download:
  whether directories and files could be written, the outcome of the constructor for a port, of
  adding a magnet or a file, of the wait for the metadata, and the events of the loops.
\<close>

datatype meta_event = GotInfo | MetaTimeout | MetaCtx

record world =
  temp_dir_err :: "go_string option"
  stage_err :: "go_string option"
  mkdir_err :: "go_string option"
  dialer_made :: bool
  client_err :: "int \<Rightarrow> go_string option"
  add_err :: "go_string \<Rightarrow> go_string option"
  meta :: meta_event
  t_name :: go_string
  t_length :: int
  disk_cap :: u64
  disk_free :: "u64 option"
  disk_used :: u64
  t_start :: time
  t_done :: time
  events :: "dl_event list"

datatype torrent_error =
  MkdirFailed go_string | StageFailed go_string | ClientFailed go_string | AddFailed go_string | MetadataTimeout |
  Cancelled | DiskShortfall int int | SlowDownload

datatype fetched = Fetched go_string | FetchFailed torrent_error | Fetching

definition loop_result :: "world \<Rightarrow> agent_config \<Rightarrow> go_string \<Rightarrow> download_result \<Rightarrow> fetched" where
  "loop_result w cfg jobName res =
     (case res of
        Downloaded \<Rightarrow> Fetched (path_join [download_dir cfg jobName, t_name w])
      | CtxError \<Rightarrow> FetchFailed Cancelled
      | SlowError \<Rightarrow> FetchFailed SlowDownload
      | StillRunning \<Rightarrow> Fetching)"

definition downloadTorrentFile ::
  "world \<Rightarrow> agent_config \<Rightarrow> layered \<Rightarrow> go_string \<Rightarrow> go_string \<Rightarrow> bool \<Rightarrow> fetched" where
  "downloadTorrentFile w cfg l torrentPath jobName privateMode =
     (case mkdir_err w of
        Some e \<Rightarrow> FetchFailed (MkdirFailed (''create download dir: '' @ e))
      | None \<Rightarrow> let so = seedOptsFromConfig l
           in case fst (newTorrentClient (client_err w)
                  (file_client_cfg (dialer_made w) cfg so jobName privateMode)) of
                Inl err \<Rightarrow> FetchFailed (ClientFailed err)
              | Inr c \<Rightarrow>
                  (case add_err w torrentPath of
                     Some err \<Rightarrow> FetchFailed (AddFailed err)
                   | None \<Rightarrow> loop_result w cfg jobName
                       (downloadAndWaitSeed so None (t_length w) (t_start w) (t_done w) (events w))))"

definition staged_path :: "agent_config \<Rightarrow> go_string \<Rightarrow> go_string" where
  "staged_path cfg jobName = path_join [TempDir cfg, ''dl-'' @ jobName @ ''.torrent'']"

text \<open>Staging the blob: the temporary directory, then the file.\<close>

definition stage_torrent :: "world \<Rightarrow> torrent_error option" where
  "stage_torrent w =
     (case temp_dir_err w of
        Some e \<Rightarrow> Some (MkdirFailed (''create temp dir: '' @ e))
      | None \<Rightarrow> map_option (\<lambda>e. StageFailed (''stage .torrent file: '' @ e)) (stage_err w))"

text \<open>The two entry points for a \<open>.torrent\<close> blob take options and do not pass them on.\<close>

definition DownloadPrivateTorrentBytes ::
  "world \<Rightarrow> agent_config \<Rightarrow> layered \<Rightarrow> go_string \<Rightarrow> download_opts option \<Rightarrow> fetched" where
  "DownloadPrivateTorrentBytes w cfg l jobName opts =
     (case stage_torrent w of
        Some e \<Rightarrow> FetchFailed e
      | None \<Rightarrow> downloadTorrentFile w cfg l (staged_path cfg jobName) jobName True)"

definition DownloadCachedTorrentBytes ::
  "world \<Rightarrow> agent_config \<Rightarrow> layered \<Rightarrow> go_string \<Rightarrow> download_opts option \<Rightarrow> fetched" where
  "DownloadCachedTorrentBytes w cfg l jobName opts =
     (case stage_torrent w of
        Some e \<Rightarrow> FetchFailed e
      | None \<Rightarrow> downloadTorrentFile w cfg l (staged_path cfg jobName) jobName False)"

definition DownloadTorrent ::
  "world \<Rightarrow> agent_config \<Rightarrow> layered \<Rightarrow> go_string \<Rightarrow> go_string \<Rightarrow> fetched" where
  "DownloadTorrent w cfg l torrentPath jobName = downloadTorrentFile w cfg l torrentPath jobName False"

text \<open>
  A magnet download, with the ledger of reservations it leaves, for a run to which no other task's
  reservation happens between the check and its own; \<open>admit\<close> itself allows for them.
\<close>

definition downloadMagnet ::
  "world \<Rightarrow> agent_config \<Rightarrow> layered \<Rightarrow> go_string \<Rightarrow> go_string \<Rightarrow> download_opts option \<Rightarrow> bool \<Rightarrow>
     ledger \<Rightarrow> fetched \<times> ledger" where
  "downloadMagnet w cfg l uri jobName opts privateMode led =
     (case mkdir_err w of
        Some e \<Rightarrow> (FetchFailed (MkdirFailed (''create download dir: '' @ e)), led)
      | None \<Rightarrow> let so = seedOptsFromConfig l
           in case fst (newTorrentClient (client_err w)
                  (magnet_client_cfg (dialer_made w) cfg so jobName)) of
                Inl err \<Rightarrow> (FetchFailed (ClientFailed err), led)
              | Inr c \<Rightarrow>
                  (case add_err w (magnet_uri privateMode uri) of
                     Some err \<Rightarrow> (FetchFailed (AddFailed err), led)
                   | None \<Rightarrow>
                       (case meta w of
                          MetaTimeout \<Rightarrow> (FetchFailed MetadataTimeout, led)
                        | MetaCtx \<Rightarrow> (FetchFailed Cancelled, led)
                        | GotInfo \<Rightarrow>
                            (case admit (disk_cap w) (disk_free w) (disk_used w) jobName (t_length w) led led of
                               Shortfall sz av \<Rightarrow> (FetchFailed (DiskShortfall sz av), led)
                             | Reserved led' \<Rightarrow>
                                 (loop_result w cfg jobName
                                    (downloadAndWaitSeed so opts (t_length w) (t_start w) (t_done w)
                                       (events w)), led')))))"

definition DownloadMagnet ::
  "world \<Rightarrow> agent_config \<Rightarrow> layered \<Rightarrow> go_string \<Rightarrow> go_string \<Rightarrow> download_opts option \<Rightarrow>
     ledger \<Rightarrow> fetched \<times> ledger" where
  "DownloadMagnet w cfg l uri jobName opts = downloadMagnet w cfg l uri jobName opts False"

definition DownloadPrivateMagnet ::
  "world \<Rightarrow> agent_config \<Rightarrow> layered \<Rightarrow> go_string \<Rightarrow> go_string \<Rightarrow> download_opts option \<Rightarrow>
     ledger \<Rightarrow> fetched \<times> ledger" where
  "DownloadPrivateMagnet w cfg l uri jobName opts = downloadMagnet w cfg l uri jobName opts True"

subsection \<open>A countdown driven by a loop\<close>

fun run :: "('s \<Rightarrow> 'o \<Rightarrow> 's option) \<Rightarrow> 's \<Rightarrow> 'o list \<Rightarrow> 's option" where
  "run step s [] = Some s"
| "run step s (x # xs) = (case step s x of None \<Rightarrow> None | Some s' \<Rightarrow> run step s' xs)"

fun trace :: "('s \<Rightarrow> 'o \<Rightarrow> 's option) \<Rightarrow> 's \<Rightarrow> 'o list \<Rightarrow> ('s \<times> 'o) list" where
  "trace step s [] = []"
| "trace step s (x # xs) = (s, x) # (case step s x of None \<Rightarrow> [] | Some s' \<Rightarrow> trace step s' xs)"

lemma run_snoc: "run step s (xs @ [x]) = (case run step s xs of None \<Rightarrow> None | Some s' \<Rightarrow> step s' x)"
  by (induction xs arbitrary: s) (auto split: option.splits)

lemma run_append2:
  "run step s (pre @ x # ys) = (case run step s (pre @ [x]) of None \<Rightarrow> None | Some s' \<Rightarrow> run step s' ys)"
  by (induction pre arbitrary: s) (auto split: option.splits)

lemma trace_snoc: "run step s xs = Some s' \<Longrightarrow> trace step s (xs @ [x]) = trace step s xs @ [(s', x)]"
  by (induction xs arbitrary: s) (auto split: option.splits)

lemma trace_events: "snd ` set (trace step s xs) \<subseteq> set xs"
proof (induction xs arbitrary: s)
  case (Cons x xs)
  then show ?case by (cases "step s x") (simp_all, blast)
qed simp

text \<open>
  A run of three good ticks, and the claim a rejection rests on: an earlier violation, since
  when the rule was never good for three ticks in a row, more than the timeout ago.
\<close>

definition recovered :: "('x \<Rightarrow> bool) \<Rightarrow> 'x list \<Rightarrow> bool" where
  "recovered bad xs \<longleftrightarrow> sublist (replicate recoveryTicksRequired False) (map bad xs)"

definition since_then :: "('x \<Rightarrow> bool) \<Rightarrow> ('x \<Rightarrow> bool) \<Rightarrow> ('x \<Rightarrow> time) \<Rightarrow> time \<Rightarrow> 'x list \<Rightarrow> bool" where
  "since_then force bad clk t0 xs \<longleftrightarrow>
     (\<exists>pre x mid. filter force xs = pre @ x # mid \<and> bad x \<and> clk x = t0 \<and> \<not> recovered bad mid)"

definition trailing_good :: "('x \<Rightarrow> bool) \<Rightarrow> 'x list \<Rightarrow> nat" where
  "trailing_good bad xs = length (takeWhile (Not \<circ> bad) (rev xs))"

lemma trailing_good_snoc [simp]:
  "trailing_good bad (xs @ [x]) = (if bad x then 0 else Suc (trailing_good bad xs))"
  by (simp add: trailing_good_def)

lemma recovered_snoc:
  "recovered bad (xs @ [x]) \<longleftrightarrow> recovered bad xs \<or> \<not> bad x \<and> 2 \<le> trailing_good bad xs"
proof -
  have "suffix [False, False] (map bad xs) \<longleftrightarrow> 2 \<le> trailing_good bad xs"
  proof (cases xs rule: rev_cases)
    case (snoc ys y)
    then show ?thesis
      by (cases ys rule: rev_cases) (auto simp: trailing_good_def suffix_def numeral_eq_Suc)
  qed (simp add: trailing_good_def)
  then show ?thesis
    by (auto simp: recovered_def recoveryTicksRequired_def numeral_eq_Suc sublist_snoc)
qed

lemma tick_keeps:
  assumes "guarded_tick True t d b c = Goes c' a" "\<not> is_zero_time (since c)" "\<not> is_zero_time (since c')"
  shows "since c' = since c \<and> (if b then recovery c' = 0 else recovery c' = Suc (recovery c) \<and> recovery c' < 3)"
  using assms
  by (auto simp: guarded_tick_def rule_tick_def recoveryTicksRequired_def idle_def split: if_splits)

text \<open>
  The contract between a loop and one of its rules: every tick of the loop that goes on has
  advanced the rule's countdown with the rule's condition and guard. A rejection is then
  justified, and a rule violated throughout stops the loop.
\<close>

locale countdown_rule =
  fixes step :: "'s \<Rightarrow> 'o \<Rightarrow> 's option"
    and cd :: "'s \<Rightarrow> countdown"
    and force :: "'s \<Rightarrow> 'o \<Rightarrow> bool"
    and bad :: "'s \<Rightarrow> 'o \<Rightarrow> bool"
    and clock :: "'o \<Rightarrow> time"
    and timeout :: duration
  assumes step_advances:
    "step s x = Some s' \<Longrightarrow>
       \<exists>active. guarded_tick (force s x) (clock x) timeout (bad s x) (cd s) = Goes (cd s') active"
begin

lemma countdown_inv:
  assumes "cd s0 = idle" "run step s0 xs = Some s" "\<not> is_zero_time (since (cd s))"
  shows "\<exists>pre x mid. filter (case_prod force) (trace step s0 xs) = pre @ x # mid \<and> case_prod bad x \<and>
    clock (snd x) = since (cd s) \<and> \<not> recovered (case_prod bad) mid \<and>
    trailing_good (case_prod bad) mid = recovery (cd s) \<and> recovery (cd s) < 3"
  using assms(2,3)
proof (induction xs arbitrary: s rule: rev_induct)
  case Nil
  with assms(1) show ?case by (simp add: idle_def)
next
  case (snoc x xs)
  from snoc.prems(1) obtain s1 where r: "run step s0 xs = Some s1" and st: "step s1 x = Some s"
    by (auto simp: run_snoc split: option.splits)
  from step_advances [OF st] obtain a where
    g: "guarded_tick (force s1 x) (clock x) timeout (bad s1 x) (cd s1) = Goes (cd s) a" by blast
  note tr = trace_snoc [OF r, of x]
  show ?case
  proof (cases "\<not> force s1 x \<or> \<not> is_zero_time (since (cd s1))")
    case True
    then have nz: "\<not> is_zero_time (since (cd s1))"
      using g snoc.prems(2) by (auto simp: guarded_tick_def)
    from snoc.IH [OF r this] obtain pre y mid where
      ih: "filter (case_prod force) (trace step s0 xs) = pre @ y # mid" "case_prod bad y"
        "clock (snd y) = since (cd s1)" "\<not> recovered (case_prod bad) mid"
        "trailing_good (case_prod bad) mid = recovery (cd s1)" "recovery (cd s1) < 3" by blast
    show ?thesis
    proof (cases "force s1 x")
      case False
      with g have "cd s = cd s1" by (simp add: guarded_tick_def)
      moreover have "filter (case_prod force) (trace step s0 (xs @ [x])) = pre @ y # mid"
        using tr ih(1) False by simp
      ultimately show ?thesis using ih(2-) by metis
    next
      case True
      from tick_keeps [OF g [unfolded True [THEN eqTrueI]] nz snoc.prems(2)]
      have "clock (snd y) = since (cd s)" "\<not> recovered (case_prod bad) (mid @ [(s1, x)])"
        "trailing_good (case_prod bad) (mid @ [(s1, x)]) = recovery (cd s)" "recovery (cd s) < 3"
        using ih(3-) by (auto simp: recovered_snoc split: if_splits)
      moreover have "filter (case_prod force) (trace step s0 (xs @ [x])) = pre @ y # (mid @ [(s1, x)])"
        using tr ih(1) True by simp
      ultimately show ?thesis using ih(2) by blast
    qed
  next
    case False
    with g snoc.prems(2) have "bad s1 x" "cd s = \<lparr>since = clock x, recovery = 0\<rparr>"
      by (auto simp: guarded_tick_def rule_tick_def split: if_splits)
    moreover have "filter (case_prod force) (trace step s0 (xs @ [x])) =
        filter (case_prod force) (trace step s0 xs) @ (s1, x) # []"
      using tr False by simp
    moreover have "\<not> recovered (case_prod bad) []"
      by (simp add: recovered_def recoveryTicksRequired_def numeral_eq_Suc)
    ultimately show ?thesis by (fastforce simp: trailing_good_def)
  qed
qed

lemma reject_justified:
  assumes "cd s0 = idle" "run step s0 xs = Some s"
    and "guarded_tick (force s x) (clock x) timeout (bad s x) (cd s) = Reject"
  shows "force s x \<and> bad s x \<and>
    (\<exists>t0. timeout < time_sub (clock x) t0 \<and>
       since_then (case_prod force) (case_prod bad) (clock \<circ> snd) t0 (trace step s0 xs))"
proof -
  from assms(3) have "force s x" "bad s x" "\<not> is_zero_time (since (cd s))"
      "timeout < time_sub (clock x) (since (cd s))"
    by (auto simp: guarded_tick_def rule_tick_def split: if_splits)
  with countdown_inv [OF assms(1,2)] show ?thesis unfolding since_then_def comp_def by blast
qed

lemma since_seen:
  assumes "cd s0 = idle" "run step s0 xs = Some s"
  shows "since (cd s) \<in> clock ` set xs \<or> is_zero_time (since (cd s))"
proof (rule disjCI)
  assume "\<not> is_zero_time (since (cd s))"
  from countdown_inv [OF assms this] obtain pre x mid where
    f: "filter (case_prod force) (trace step s0 xs) = pre @ x # mid" and c: "clock (snd x) = since (cd s)"
    by blast
  have "x \<in> set (filter (case_prod force) (trace step s0 xs))" by (simp add: f)
  then have "snd x \<in> set xs" using trace_events [of step s0 xs] by auto
  with c show "since (cd s) \<in> clock ` set xs" by (metis image_eqI)
qed

lemma violated_run:
  assumes "\<forall>(s, x) \<in> set (trace step s0 xs). force s x \<and> bad s x"
    and "run step s0 xs = Some s" "since (cd s0) = t0" "\<not> is_zero_time t0" "x \<in> set xs"
  shows "\<not> timeout < time_sub (clock x) t0"
  using assms
proof (induction xs arbitrary: s0)
  case (Cons y xs)
  from Cons.prems(2) obtain s1 where st: "step s0 y = Some s1" and r: "run step s1 xs = Some s"
    by (auto split: option.splits)
  from step_advances [OF st] obtain a
    where "guarded_tick True (clock y) timeout True (cd s0) = Goes (cd s1) a" using Cons.prems(1) by auto
  with Cons.prems(3,4) have "since (cd s1) = t0" "\<not> timeout < time_sub (clock y) t0"
    by (auto simp: guarded_tick_def rule_tick_def split: if_splits dest: sym)
  with Cons.IH [of s1] Cons.prems st r show ?case by auto
qed simp

lemma violated_stops:
  assumes "\<forall>(s, x) \<in> set (trace step s0 (x0 # xs)). force s x \<and> bad s x"
    and "is_zero_time (since (cd s0)) \<or> since (cd s0) \<le> clock x0" "\<not> is_zero_time (clock x0)"
    and "x \<in> set xs" "timeout < time_sub (clock x) (clock x0)"
  shows "run step s0 (x0 # xs) = None"
proof (rule ccontr)
  assume ne: "run step s0 (x0 # xs) \<noteq> None"
  then obtain s1 s where st: "step s0 x0 = Some s1" and r: "run step s1 xs = Some s"
    by (auto split: option.splits)
  show False
  proof (cases "is_zero_time (since (cd s0))")
    case True
    from step_advances [OF st] assms(1) obtain a
      where "guarded_tick True (clock x0) timeout True (cd s0) = Goes (cd s1) a" by auto
    with True have "since (cd s1) = clock x0"
      by (auto simp: guarded_tick_def rule_tick_def dest: sym)
    from violated_run [OF _ r this assms(3,4)] assms(1,5) st show False by simp
  next
    case False
    with assms(2) have "time_sub (clock x) (clock x0) \<le> time_sub (clock x) (since (cd s0))"
      by (auto simp: time_sub_def)
    with violated_run [OF assms(1) _ refl False, of s x] st r assms(4,5) show False by auto
  qed
qed

end

subsection \<open>The three rules of the download loop\<close>

definition tick_step :: "seed_opts \<Rightarrow> rules \<Rightarrow> int \<Rightarrow> dl_state \<Rightarrow> observation \<Rightarrow> dl_state option" where
  "tick_step so r tot st ob = map_option fst (dl_tick so r tot ob st)"

abbreviation slow_force where
  "slow_force r tot \<equiv> \<lambda>(st :: dl_state) ob. slow_in_force r (dl_percent tot ob)"

abbreviation peers_force where
  "peers_force r tot \<equiv> \<lambda>(st :: dl_state) ob. low_peers_in_force r (dl_percent tot ob)"

lemma guarded_tick_upd [simp]:
  "slow (st\<lparr>lastCompleted := a, lastUploaded := b\<rparr>) = slow st"
  "stall (st\<lparr>lastCompleted := a, lastUploaded := b\<rparr>) = stall st"
  "lowPeers (st\<lparr>lastCompleted := a, lastUploaded := b\<rparr>) = lowPeers st"
  by simp_all

lemma dl_tick_Some:
  assumes "tick_step so r tot st ob = Some st'"
  shows "\<exists>a. guarded_tick (slow_in_force r (dl_percent tot ob)) (now ob) (slowTimeout r)
      (is_slow r (dl_speed st ob)) (slow st) = Goes (slow st') a"
    and "\<exists>a. guarded_tick (0 < StallMins so) (now ob) (stall_timeout so) (dl_speed st ob = 0) (stall st) =
      Goes (stall st') a"
    and "\<exists>a. guarded_tick (low_peers_in_force r (dl_percent tot ob)) (now ob) (lowPeersTimeout r)
      (peers ob \<le> lowPeersThreshold r) (lowPeers st) = Goes (lowPeers st') a"
    and "lastCompleted st' = completed ob" "startedAt st' = startedAt st"
  using assms
  by (auto simp: tick_step_def dl_tick_def Let_def split: rule_result.splits if_splits)

interpretation slow_rule: countdown_rule "tick_step so r tot" slow "slow_force r tot"
  "\<lambda>st ob. is_slow r (dl_speed st ob)" now "slowTimeout r" for so r tot
  by unfold_locales (rule dl_tick_Some)

interpretation stall_rule: countdown_rule "tick_step so r tot" stall "\<lambda>st ob. 0 < StallMins so"
  "\<lambda>st ob. dl_speed st ob = 0" now "stall_timeout so" for so r tot
  by unfold_locales (rule dl_tick_Some)

interpretation peers_rule: countdown_rule "tick_step so r tot" lowPeers "peers_force r tot"
  "\<lambda>st ob. peers ob \<le> lowPeersThreshold r" now "lowPeersTimeout r" for so r tot
  by unfold_locales (rule dl_tick_Some)

text \<open>The reasons a tick has to reject.\<close>

lemma dl_tick_None:
  assumes "dl_tick so r tot ob st = None"
  shows "guarded_tick (slow_in_force r (dl_percent tot ob)) (now ob) (slowTimeout r)
      (is_slow r (dl_speed st ob)) (slow st) = Reject \<or>
    no_full_seed so st ob \<or>
    guarded_tick (0 < StallMins so) (now ob) (stall_timeout so) (dl_speed st ob = 0) (stall st) = Reject \<or>
    guarded_tick (low_peers_in_force r (dl_percent tot ob)) (now ob) (lowPeersTimeout r)
      (peers ob \<le> lowPeersThreshold r) (lowPeers st) = Reject"
  using assms
  by (auto simp: dl_tick_def Let_def no_full_seed_def split: rule_result.splits if_splits)

text \<open>The observations of a run, each with the bytes completed at the tick before it.\<close>

fun history :: "int \<Rightarrow> observation list \<Rightarrow> (int \<times> observation) list" where
  "history p [] = []"
| "history p (ob # obs) = (p, ob) # history (completed ob) obs"

definition speed_at :: "int \<times> observation \<Rightarrow> float64" where
  "speed_at x = mb (float_of_int (completed (snd x) - fst x))"

lemma trace_history:
  "run (tick_step so r tot) st obs = Some st' \<Longrightarrow>
     map (\<lambda>(s, ob). (lastCompleted s, ob)) (trace (tick_step so r tot) st obs) =
       history (lastCompleted st) obs"
proof (induction obs arbitrary: st)
  case (Cons ob obs)
  then obtain s1 where "tick_step so r tot st ob = Some s1" "run (tick_step so r tot) s1 obs = Some st'"
    by (auto split: option.splits)
  with Cons.IH dl_tick_Some(4) [of so r tot st ob s1] show ?case by simp
qed simp

lemma run_last:
  "run (tick_step so r tot) st obs = Some st' \<Longrightarrow>
     lastCompleted st' = (if obs = [] then lastCompleted st else completed (last obs)) \<and>
     startedAt st' = startedAt st"
proof (induction obs arbitrary: st)
  case (Cons ob obs)
  then obtain s1 where "tick_step so r tot st ob = Some s1" "run (tick_step so r tot) s1 obs = Some st'"
    by (auto split: option.splits)
  with Cons.IH dl_tick_Some(4,5) [of so r tot st ob s1] show ?case by simp
qed simp

text \<open>A claim about a trace carries over to the history when the conditions see only that.\<close>

lemma since_then_map:
  assumes "since_then (force \<circ> f) (bad \<circ> f) (clk \<circ> f) t0 xs"
  shows "since_then force bad clk t0 (map f xs)"
proof -
  from assms obtain pre x mid where "filter (force \<circ> f) xs = pre @ x # mid" "bad (f x)" "clk (f x) = t0"
      "\<not> recovered (bad \<circ> f) mid" by (auto simp: since_then_def)
  moreover from this have "filter force (map f xs) = map f pre @ f x # map f mid"
    by (simp add: filter_map)
  ultimately show ?thesis unfolding since_then_def recovered_def map_map
    by (intro exI [of _ "map f pre"] exI [of _ "f x"] exI [of _ "map f mid"]) simp
qed


lemma dl_loop_empty: "tot \<le> 0 \<Longrightarrow> dl_loop so r tot st es \<noteq> Some DlSlow"
  by (induction so r tot st es rule: dl_loop.induct) auto

lemma dl_loop_slow:
  assumes "0 < tot" "dl_loop so r tot st es = Some DlSlow"
  shows "\<exists>obs ob rest st'. es = map Tick obs @ Tick ob # rest \<and>
    run (tick_step so r tot) st obs = Some st' \<and> dl_tick so r tot ob st' = None"
  using assms(2)
proof (induction es arbitrary: st)
  case (Cons e es)
  then obtain ob where e: "e = Tick ob" by (cases e) auto
  show ?case
  proof (cases "tick_step so r tot st ob")
    case None
    then have "e # es = map Tick [] @ Tick ob # es \<and> run (tick_step so r tot) st [] = Some st \<and>
        dl_tick so r tot ob st = None"
      by (simp add: e tick_step_def)
    then show ?thesis by blast
  next
    case (Some s1)
    then have "dl_loop so r tot s1 es = Some DlSlow"
      using Cons.prems assms(1) by (auto simp: e tick_step_def)
    from Cons.IH [OF this] obtain obs ob' rest st' where
      "es = map Tick obs @ Tick ob' # rest \<and> run (tick_step so r tot) s1 obs = Some st' \<and>
        dl_tick so r tot ob' st' = None" by blast
    with Some have "e # es = map Tick (ob # obs) @ Tick ob' # rest \<and>
        run (tick_step so r tot) st (ob # obs) = Some st' \<and> dl_tick so r tot ob' st' = None"
      by (simp add: e)
    then show ?thesis by blast
  qed
qed simp

lemma dl_loop_ticks:
  "0 < tot \<Longrightarrow> dl_loop so r tot st (map Tick obs) =
     (case run (tick_step so r tot) st obs of None \<Rightarrow> Some DlSlow | Some st' \<Rightarrow> None)"
  by (induction obs arbitrary: st) (auto simp: tick_step_def split: option.splits)


text \<open>A rejection by one rule, read off the history of the download.\<close>

definition sustained ::
  "(int \<times> observation \<Rightarrow> bool) \<Rightarrow> (int \<times> observation \<Rightarrow> bool) \<Rightarrow> duration \<Rightarrow>
     (int \<times> observation) list \<Rightarrow> int \<times> observation \<Rightarrow> bool" where
  "sustained force bad timeout hs x \<longleftrightarrow>
     force x \<and> bad x \<and>
     (\<exists>t0. timeout < time_sub (now (snd x)) t0 \<and> since_then force bad (now \<circ> snd) t0 hs)"

lemma sustainedI:
  assumes "f s x \<and> b s x \<and> (\<exists>t0. d < time_sub (now x) t0 \<and>
      since_then (case_prod f) (case_prod b) (now \<circ> snd) t0 tr)"
    and "\<And>s x. f s x = force (lastCompleted s, x)" "\<And>s x. b s x = bad (lastCompleted s, x)"
  shows "sustained force bad d (map (\<lambda>(s, ob). (lastCompleted s, ob)) tr) (lastCompleted s, x)"
proof -
  let ?f = "\<lambda>(s, ob). (lastCompleted s, ob)"
  have "case_prod f = force \<circ> ?f" "case_prod b = bad \<circ> ?f" "now \<circ> snd = (now \<circ> snd) \<circ> ?f"
    by (auto simp: fun_eq_iff assms(2,3))
  with assms(1) obtain t0 where "d < time_sub (now x) t0"
      "since_then (force \<circ> ?f) (bad \<circ> ?f) ((now \<circ> snd) \<circ> ?f) t0 tr" by metis
  with since_then_map [of force ?f bad "now \<circ> snd" t0 tr] assms show ?thesis
    unfolding sustained_def by (metis snd_conv)
qed

text \<open>
  C5. A download is only rejected with cause. If the loop returns the slow-download error,
  then it was at a tick where either a rule in force was violated and had been since a tick more
  than the rule's timeout before, never good for three ticks in a row in between (too slow, or
  standing still for a boosted request; no progress at all; too few peers), or a full seed was
  required and nothing had arrived more than a minute after the start.
\<close>

theorem rejection_justified:
  assumes "dl_loop so r tot (start_state t) es = Some DlSlow"
  shows "\<exists>obs ob rest. es = map Tick obs @ Tick ob # rest \<and>
    (let hs = history 0 obs; x = (if obs = [] then 0 else completed (last obs), ob)
     in sustained (\<lambda>y. slow_in_force r (dl_percent tot (snd y))) (\<lambda>y. is_slow r (speed_at y)) (slowTimeout r) hs x
      \<or> RequireFull so \<and> completed ob = 0 \<and> 60 * second < time_sub (now ob) t
      \<or> sustained (\<lambda>y. 0 < StallMins so) (\<lambda>y. speed_at y = 0) (stall_timeout so) hs x
      \<or> sustained (\<lambda>y. low_peers_in_force r (dl_percent tot (snd y)))
          (\<lambda>y. peers (snd y) \<le> lowPeersThreshold r) (lowPeersTimeout r) hs x)"
proof -
  have tot: "0 < tot" using assms dl_loop_empty [of tot so r "start_state t" es] by (cases "0 < tot") auto
  let ?s0 = "start_state t"
  have i: "slow ?s0 = idle" "stall ?s0 = idle" "lowPeers ?s0 = idle" "lastCompleted ?s0 = 0" "startedAt ?s0 = t"
    by (simp_all add: start_state_def)
  from dl_loop_slow [OF tot assms] obtain obs ob rest st where
    es: "es = map Tick obs @ Tick ob # rest" and run: "run (tick_step so r tot) ?s0 obs = Some st"
    and no: "dl_tick so r tot ob st = None" by blast
  note hs = trace_history [OF run, unfolded i(4)]
  have last: "lastCompleted st = (if obs = [] then 0 else completed (last obs))" "startedAt st = t"
    using run_last [OF run] i by auto
  note sus = sustainedI [where tr = "trace (tick_step so r tot) ?s0 obs" and s = st and x = ob,
      unfolded hs last(1)]
  note slow = slow_rule.reject_justified [OF i(1) run, of ob]
    and stall = stall_rule.reject_justified [OF i(2) run, of ob]
    and peers = peers_rule.reject_justified [OF i(3) run, of ob]
  from dl_tick_None [OF no] consider
      "guarded_tick (slow_in_force r (dl_percent tot ob)) (now ob) (slowTimeout r)
        (is_slow r (dl_speed st ob)) (slow st) = Reject"
    | "no_full_seed so st ob"
    | "guarded_tick (0 < StallMins so) (now ob) (stall_timeout so) (dl_speed st ob = 0) (stall st) = Reject"
    | "guarded_tick (low_peers_in_force r (dl_percent tot ob)) (now ob) (lowPeersTimeout r)
        (peers ob \<le> lowPeersThreshold r) (lowPeers st) = Reject" by blast
  then show ?thesis
  proof cases
    case 1
    show ?thesis
      by (rule exI [of _ obs], rule exI [of _ ob], rule exI [of _ rest], unfold Let_def, rule conjI [OF es],
          rule disjI1, rule sus [OF slow [OF 1]]) (simp_all add: speed_at_def dl_speed_def)
  next
    case 2
    with es last show ?thesis unfolding no_full_seed_def Let_def by blast
  next
    case 3
    show ?thesis
      by (rule exI [of _ obs], rule exI [of _ ob], rule exI [of _ rest], unfold Let_def, rule conjI [OF es],
          rule disjI2, rule disjI2, rule disjI1, rule sus [OF stall [OF 3]])
        (simp_all add: speed_at_def dl_speed_def)
  next
    case 4
    show ?thesis
      by (rule exI [of _ obs], rule exI [of _ ob], rule exI [of _ rest], unfold Let_def, rule conjI [OF es],
          rule disjI2, rule disjI2, rule disjI2, rule sus [OF peers [OF 4]]) simp_all
  qed
qed


text \<open>Ten minutes without a byte under a five-minute stall limit.\<close>

definition dead_ticks :: "observation list" where
  "dead_ticks = map (\<lambda>s. \<lparr>now = s * second, completed = 0, uploaded = 0, downloaded = 0, peers = 4\<rparr>) [1, 2, 302, 303]"

definition stall_opts :: seed_opts where
  "stall_opts = no_seed\<lparr>StallMins := 5\<rparr>"

lemma speed_zero [simp]: "mb 0 = 0"
  by (simp add: mb_def fdiv_def)

lemma dl_speed_zero: "completed ob = lastCompleted st \<Longrightarrow> dl_speed st ob = 0"
  by (simp add: dl_speed_def float_of_int_def)

lemma dead_ticks_rejected:
  "dl_loop stall_opts (rules_from None) 1000 (start_state 0) (map Tick dead_ticks) = Some DlSlow"
proof -
  have "stall_timeout stall_opts = 300 * 1000000000"
    by (simp add: stall_timeout_def stall_opts_def no_seed_def wrap64_def time_unit_defs)
  then show ?thesis
    by (simp add: dead_ticks_def dl_tick_def Let_def start_state_def guarded_tick_def rule_tick_def
        slow_in_force_def low_peers_in_force_def rules_from_def no_full_seed_def stall_opts_def no_seed_def
        dl_speed_zero idle_def is_zero_time_def zero_time_def time_unit_defs time_sub_def min_duration_def
        max_duration_def)
qed

theorem rejection_justified_witness:
  "\<exists>obs ob rest. map Tick dead_ticks = map Tick obs @ Tick ob # rest \<and>
    (let hs = history 0 obs; x = (if obs = [] then 0 else completed (last obs), ob); r = rules_from None
     in sustained (\<lambda>y. slow_in_force r (dl_percent 1000 (snd y))) (\<lambda>y. is_slow r (speed_at y)) (slowTimeout r) hs x
      \<or> RequireFull stall_opts \<and> completed ob = 0 \<and> 60 * second < time_sub (now ob) 0
      \<or> sustained (\<lambda>y. 0 < StallMins stall_opts) (\<lambda>y. speed_at y = 0) (stall_timeout stall_opts) hs x
      \<or> sustained (\<lambda>y. low_peers_in_force r (dl_percent 1000 (snd y)))
          (\<lambda>y. peers (snd y) \<le> lowPeersThreshold r) (lowPeersTimeout r) hs x)"
  using rejection_justified [OF dead_ticks_rejected] unfolding Let_def .

text \<open>
  C6. A dead download does not hold its slot for ever. With a stall limit set, if the number of
  bytes completed stops growing and ticks keep coming for longer than the limit, the loop ends
  with the slow-download error, however far the download had got and whatever came before.
\<close>

theorem stalled_download_stops:
  assumes "0 < tot" "0 < StallMins so"
    and "obs = pre @ ob0 # ob1 # post" "sorted (map now obs)" "zero_time < now ob1"
    and "\<forall>ob \<in> set (ob1 # post). completed ob = completed ob0"
    and "obn \<in> set post" "stall_timeout so < time_sub (now obn) (now ob1)"
  shows "dl_loop so r tot (start_state t) (map Tick obs) = Some DlSlow"
proof -
  let ?step = "tick_step so r tot"
  have "run ?step (start_state t) obs = None"
  proof (rule ccontr)
    assume "run ?step (start_state t) obs \<noteq> None"
    then obtain s1 s2 where r1: "run ?step (start_state t) (pre @ [ob0]) = Some s1"
      and r2: "run ?step s1 (ob1 # post) = Some s2"
      unfolding assms(3) run_append2 [of ?step "start_state t" pre ob0 "ob1 # post"]
      by (auto split: option.splits)
    have c: "lastCompleted s1 = completed ob0" using run_last [OF r1] by simp
    have "set (trace ?step s1 (ob1 # post)) \<subseteq> {(s, ob). dl_speed s ob = 0}"
    proof -
      have "\<forall>x \<in> set (history (completed ob0) xs). speed_at x = 0"
        if "\<forall>ob \<in> set xs. completed ob = completed ob0" for xs
        using that by (induction xs) (simp_all add: speed_at_def float_of_int_def)
      from this [OF assms(6)] trace_history [OF r2, unfolded c, symmetric] show ?thesis
        by (auto simp: speed_at_def dl_speed_def)
    qed
    then have b: "\<forall>(s, x) \<in> set (trace ?step s1 (ob1 # post)). 0 < StallMins so \<and> dl_speed s x = 0"
      using assms(2) by auto
    have "since (stall s1) \<in> now ` set (pre @ [ob0]) \<or> is_zero_time (since (stall s1))"
      using stall_rule.since_seen [OF _ r1] by (simp add: start_state_def)
    then have "is_zero_time (since (stall s1)) \<or> since (stall s1) \<le> now ob1"
      using assms(3,4) by (auto simp: sorted_append)
    moreover have "\<not> is_zero_time (now ob1)" using assms(5) by (simp add: is_zero_time_def)
    ultimately have "run ?step s1 (ob1 # post) = None"
      using stall_rule.violated_stops [OF b _ _ assms(7,8)] by blast
    with r2 show False by simp
  qed
  then show ?thesis by (simp add: dl_loop_ticks [OF assms(1)])
qed

theorem stalled_download_stops_witness:
  "dl_loop stall_opts (rules_from None) 1000 (start_state 0) (map Tick dead_ticks) = Some DlSlow"
proof (rule stalled_download_stops)
  let ?ob = "\<lambda>s. \<lparr>now = s * second, completed = 0, uploaded = 0, downloaded = 0, peers = 4\<rparr>"
  show "dead_ticks = [] @ ?ob 1 # ?ob 2 # [?ob 302, ?ob 303]" by (simp add: dead_ticks_def)
  show "?ob 303 \<in> set [?ob 302, ?ob 303]" by simp
  show "stall_timeout stall_opts < time_sub (now (?ob 303)) (now (?ob 2))"
    by (simp add: stall_timeout_def stall_opts_def no_seed_def wrap64_def time_unit_defs time_sub_def
        min_duration_def max_duration_def)
qed (simp_all add: stall_opts_def no_seed_def dead_ticks_def zero_time_def time_unit_defs)

subsection \<open>Privacy of a torrent\<close>

lemma add_tracker_has:
  "contains (add_tracker tr uri) tr \<or> contains (add_tracker tr uri) (''&tr='' @ query_escape tr)"
proof (cases "contains uri tr")
  case False
  have "contains (uri @ (''&tr='' @ query_escape tr) @ []) (''&tr='' @ query_escape tr)"
    by (rule contains_append) (metis append.right_neutral append_Nil contains_iff)
  with False show ?thesis by (simp add: add_tracker_def)
qed (simp add: add_tracker_def)

lemma add_tracker_extends: "\<exists>s. add_tracker tr uri = uri @ s"
  by (simp add: add_tracker_def)

lemma fold_tracker_extends: "\<exists>s. fold add_tracker trs uri = uri @ s"
proof (induction trs arbitrary: uri)
  case (Cons tr trs)
  then show ?case using add_tracker_extends [of tr uri] by (metis append.assoc fold_simps(2))
qed simp

lemma contains_extend: "contains s p \<Longrightarrow> contains (s @ r) p"
  using contains_append [of s p "[]" r] by simp

lemma fold_tracker_has:
  "tr \<in> set trs \<Longrightarrow> contains (fold add_tracker trs uri) tr \<or>
     contains (fold add_tracker trs uri) (''&tr='' @ query_escape tr)"
proof (induction trs arbitrary: uri)
  case (Cons t trs)
  show ?case
  proof (cases "tr = t")
    case True
    with add_tracker_has [of t uri] fold_tracker_extends [of trs "add_tracker t uri"]
    show ?thesis using contains_extend by (metis fold_simps(2))
  qed (use Cons in auto)
qed simp

text \<open>
  The privacy settings of a download. Every client started for a private \<open>.torrent\<close> has the
  distributed hash table switched off, on the first port tried and on the second; the URI of a
  private magnet is used exactly as received, while a public one keeps what was received and
  names every public tracker; and a second port is tried only after a bind failure, and then it
  is port 0.
\<close>

theorem torrent_privacy:
  "NoDHT (file_client_cfg d cfg so jobName pm) = pm \<and>
   (case newTorrentClient mk c of
      (Inr c', ports) \<Rightarrow> c' = c\<lparr>ListenPort := last ports\<rparr> \<and> mk (last ports) = None
    | (Inl err, ports) \<Rightarrow> mk (last ports) = Some err) \<and>
   snd (newTorrentClient mk c) =
     ListenPort c # (case mk (ListenPort c) of Some err \<Rightarrow> if isBindInUseError err then [0] else [] | None \<Rightarrow> []) \<and>
   magnet_uri True uri = uri \<and> has_prefix (magnet_uri False uri) uri \<and>
   list_all (\<lambda>tr. contains (magnet_uri False uri) tr \<or>
     contains (magnet_uri False uri) (''&tr='' @ query_escape tr)) publicTrackers"
proof -
  have "has_prefix (magnet_uri False uri) uri"
    using fold_tracker_extends by (simp add: magnet_uri_def has_prefix_iff)
  moreover have "list_all (\<lambda>tr. contains (magnet_uri False uri) tr \<or>
     contains (magnet_uri False uri) (''&tr='' @ query_escape tr)) publicTrackers"
    using fold_tracker_has by (simp add: magnet_uri_def list_all_iff)
  moreover have "NoDHT (file_client_cfg d cfg so jobName pm) = pm"
    by (simp add: file_client_cfg_def applyVPNProxy_def)
  moreover have "magnet_uri True uri = uri" by (simp add: magnet_uri_def)
  ultimately show ?thesis by (simp add: newTorrentClient_def split: option.splits)
qed


text \<open>The errors that come before any disk space is reserved.\<close>

definition before_admission :: "torrent_error \<Rightarrow> bool" where
  "before_admission e \<longleftrightarrow>
     (case e of MkdirFailed s \<Rightarrow> True | ClientFailed s \<Rightarrow> True | AddFailed s \<Rightarrow> True | MetadataTimeout \<Rightarrow> True
      | DiskShortfall sz av \<Rightarrow> True | _ \<Rightarrow> False)"

text \<open>
  A magnet download reserves disk space exactly once, and exactly when its transfer starts:
  on every early failure (no directory, no client, a refused magnet, no metadata in time, not
  enough space) the ledger is as it was, and when the transfer was started the torrent's own
  size is reserved and the outcome is the path of the download, a cancellation or a rejection.
\<close>

theorem downloadMagnet_reserves:
  "case downloadMagnet w cfg l uri jobName opts pm led of (res, led') \<Rightarrow>
     (led' = led \<and> (\<exists>e. res = FetchFailed e \<and> (before_admission e \<or> e = Cancelled \<and> meta w = MetaCtx))) \<or>
     (led' = ReserveDisk jobName (t_length w) led \<and> mkdir_err w = None \<and> meta w = GotInfo \<and>
      add_err w (magnet_uri pm uri) = None \<and>
      (res \<in> {Fetched (path_join [download_dir cfg jobName, t_name w]), FetchFailed Cancelled,
               FetchFailed SlowDownload, Fetching}))"
  by (auto simp: downloadMagnet_def Let_def before_admission_def loop_result_def admit_def
      split: sum.splits option.splits meta_event.splits if_splits download_result.splits)

text \<open>What the code does not do: the options of a \<open>.torrent\<close> blob are dropped, so that its slow and
  low-peer rules never apply, and the hash table stays on for a private magnet.\<close>

lemma torrent_bytes_ignore_opts:
  "DownloadPrivateTorrentBytes w cfg l jobName opts = DownloadPrivateTorrentBytes w cfg l jobName None \<and>
   DownloadCachedTorrentBytes w cfg l jobName opts = DownloadCachedTorrentBytes w cfg l jobName None"
  by (simp add: DownloadPrivateTorrentBytes_def DownloadCachedTorrentBytes_def)

lemma private_magnet_keeps_dht: "\<not> NoDHT (magnet_client_cfg d cfg so jobName)"
  by (simp add: magnet_client_cfg_def applyVPNProxy_def)

end
