(* ===== verification/Upload_Progress.thy ===== *)
theory Upload_Progress
  imports Nntp_Upload Torrent_Rules
begin

text \<open>
  The progress reports of the collector in \<open>UploadToUsenet\<close> (\<open>src/services/usenet.go\<close>): the percentage,
  speed and remaining time written after every collected segment, the job state and the callback
  they go to.
\<close>

subsection \<open>Percentages\<close>

text \<open>A share of a whole, as a percentage, is between 0 and 100 after the three roundings.\<close>

definition percent_of :: "int \<Rightarrow> int \<Rightarrow> float64" where
  "percent_of part whole = fmul (fdiv (float_of_int part) (float_of_int whole)) 100"

lemma percent_of_bounds:
  assumes "0 \<le> part" "part \<le> whole" "0 < whole" "whole < 2 ^ 53"
  shows "0 \<le> percent_of part whole \<and> percent_of part whole \<le> 100"
proof -
  have f: "float_of_int part = of_int part" "float_of_int whole = of_int whole"
    using assms by (simp_all add: float_of_int_exact)
  have q: "(0 :: rat) \<le> of_int part / of_int whole" "(of_int part :: rat) / of_int whole \<le> of_int 1"
    using assms by (simp_all add: divide_le_eq)
  have "fdiv (float_of_int part) (float_of_int whole) \<le> of_int 1" unfolding fdiv_def f using q by (rule fround_le_int) simp
  moreover have nn: "0 \<le> fdiv (float_of_int part) (float_of_int whole)" unfolding fdiv_def f using q(1) by (rule fround_nonneg)
  ultimately have "fdiv (float_of_int part) (float_of_int whole) * 100 \<le> of_int 100" by simp
  then have "percent_of part whole \<le> of_int 100"
    unfolding percent_of_def fmul_def using nn by (intro fround_le_int) simp_all
  then show ?thesis using nn by (simp add: percent_of_def fmul_def fround_nonneg)
qed

subsection \<open>The reports\<close>

text \<open>What is fixed for the file: the number of chunks, the bytes of the files before it and the size of the directory.\<close>

record upload_view =
  uv_chunks :: int
  uv_before :: int
  uv_dir :: int

record upload_report =
  ur_state :: go_string
  ur_percent :: float64
  ur_speed :: float64
  ur_total :: int
  ur_done :: int
  ur_eta :: float64

definition upload_percent :: "upload_view \<Rightarrow> int \<Rightarrow> int \<Rightarrow> float64" where
  "upload_percent v cnt bytes =
     (if 0 < uv_dir v then percent_of (uv_before v + bytes) (uv_dir v) else percent_of cnt (uv_chunks v))"

definition upload_speed :: "int \<Rightarrow> float64 \<Rightarrow> float64" where
  "upload_speed bytes elapsed = (if 0 < elapsed then mb (fdiv (float_of_int bytes) elapsed) else 0)"

definition upload_eta :: "upload_view \<Rightarrow> int \<Rightarrow> float64 \<Rightarrow> float64" where
  "upload_eta v bytes speed =
     (if 0 < speed then
        fdiv (if 0 < uv_dir v then mb (float_of_int (uv_dir v - uv_before v - bytes))
              else mb (fsub (float_of_int (uv_chunks v * int ChunkSize)) (float_of_int bytes))) speed
      else 0)"

definition upload_report_at :: "upload_view \<Rightarrow> int \<Rightarrow> int \<Rightarrow> float64 \<Rightarrow> upload_report" where
  "upload_report_at v cnt bytes elapsed =
     (let pct = upload_percent v cnt bytes;
          speed = upload_speed bytes elapsed;
          eta = upload_eta v bytes speed
      in \<lparr>ur_state = fmt_fixed 1 pct @ ''% - '' @ fmt_fixed 2 speed @ '' MB/s - ETA: '' @
            (if 0 < speed then FormatETA eta else ''Calculating...''),
          ur_percent = pct, ur_speed = speed, ur_total = (if 0 < uv_dir v then uv_dir v else uv_chunks v * int ChunkSize),
          ur_done = uv_before v + bytes, ur_eta = eta\<rparr>)"

text \<open>The loop over the segments, each with the seconds since the start when it arrives.\<close>

fun upload_reports :: "upload_view \<Rightarrow> int \<Rightarrow> int \<Rightarrow> (nzb_segment \<times> float64) list \<Rightarrow> upload_report list" where
  "upload_reports v cnt bytes [] = []"
| "upload_reports v cnt bytes ((seg, elapsed) # segs) =
     (let cnt' = cnt + 1; bytes' = bytes + Bytes seg
      in upload_report_at v cnt' bytes' elapsed # upload_reports v cnt' bytes' segs)"

text \<open>What a report does to the job states.\<close>

definition report_upload :: "go_string \<Rightarrow> go_string \<Rightarrow> upload_report \<Rightarrow> jobs_map \<Rightarrow> jobs_map" where
  "report_upload clock jobName rep js = UpdateState clock jobName ''Uploading'' (ur_state rep) (ur_percent rep) js"

subsection \<open>No report passes 100 percent\<close>

definition seg_bytes :: "nzb_segment list \<Rightarrow> int" where
  "seg_bytes segs = sum_list (map Bytes segs)"

definition plan_bytes :: "upload_job list \<Rightarrow> int" where
  "plan_bytes js = sum_list (map (\<lambda>j. int (length (ChunkData j))) js)"

lemma sum_sub_mset:
  fixes B :: "(int \<times> int) multiset"
  assumes "A \<subseteq># B" "\<forall>x\<in>#B. 0 \<le> fst x"
  shows "(\<Sum>x\<in>#A. fst x) \<le> (\<Sum>x\<in>#B. fst x)"
proof -
  from assms(1) obtain C where B: "B = A + C" by (metis subset_mset.le_iff_add)
  have "\<forall>x\<in>#C. 0 \<le> fst x" using assms(2) B by auto
  then have "0 \<le> (\<Sum>x\<in>#C. fst x)" by (induction C) auto
  then show ?thesis by (simp add: B)
qed

lemma seg_bytes_mset: "seg_bytes gs = (\<Sum>x\<in>#mset (map seg_key gs). fst x)"
  by (induction gs) (auto simp: seg_bytes_def seg_key_def)

lemma plan_bytes_mset: "plan_bytes js = (\<Sum>x\<in>#mset (map job_key js). fst x)"
  by (induction js) (auto simp: plan_bytes_def job_key_def)

lemma collected_within_plan:
  assumes "start_upload cfg plan = Some s0" "0 < NNTPConnections cfg" "run_pool ms s0 = Some s"
  shows "seg_bytes (segments s) \<le> plan_bytes (fst plan) \<and> (\<forall>g\<in>set (segments s). 0 \<le> Bytes g)"
proof -
  note s0 = start_upload_inv [OF assms(1,2)]
  have r: "pool_reach s0 s" using assms(3) pool_reach.start run_pool_reach by blast
  from pool_reach_inv [OF r] s0 have "in_flight s \<subseteq># mset (map job_key (fst plan))" by auto
  moreover have "mset (map seg_key (segments s)) \<subseteq># in_flight s" by (simp add: in_flight_def)
  ultimately have sub: "mset (map seg_key (segments s)) \<subseteq># mset (map job_key (fst plan))" by (rule subset_mset.trans [rotated])
  have nn: "\<forall>x\<in>#mset (map job_key (fst plan)). 0 \<le> fst x" by (auto simp: job_key_def)
  have "\<forall>x\<in>#mset (map seg_key (segments s)). 0 \<le> fst x" using sub nn by (meson mset_subset_eqD)
  then have "\<forall>g\<in>set (segments s). 0 \<le> Bytes g" by (auto simp: seg_key_def)
  with sum_sub_mset [OF sub nn] show ?thesis by (simp add: seg_bytes_mset plan_bytes_mset)
qed

lemma upload_reports_bounds:
  assumes "rep \<in> set (upload_reports v cnt bytes segs)" "\<forall>g\<in>set (map fst segs). 0 \<le> Bytes g"
    and "0 \<le> bytes" "0 \<le> uv_before v" "uv_before v + bytes + seg_bytes (map fst segs) \<le> uv_dir v" "0 < uv_dir v" "uv_dir v < 2 ^ 53"
  shows "0 \<le> ur_percent rep \<and> ur_percent rep \<le> 100 \<and> ur_done rep \<le> ur_total rep"
  using assms(1-3,5)
proof (induction segs arbitrary: cnt bytes)
  case (Cons x segs)
  obtain seg t where x: "x = (seg, t)" by (cases x)
  have nn: "0 \<le> seg_bytes (map fst segs)"
    unfolding seg_bytes_def using Cons.prems(2) by (intro sum_list_nonneg) auto
  have b: "0 \<le> bytes + Bytes seg" "uv_before v + (bytes + Bytes seg) + seg_bytes (map fst segs) \<le> uv_dir v"
    using Cons.prems x by (auto simp: seg_bytes_def)
  show ?case
  proof (cases "rep = upload_report_at v (cnt + 1) (bytes + Bytes seg) t")
    case True
    have "0 \<le> percent_of (uv_before v + (bytes + Bytes seg)) (uv_dir v) \<and>
        percent_of (uv_before v + (bytes + Bytes seg)) (uv_dir v) \<le> 100"
      using b nn assms(4,6,7) by (intro percent_of_bounds) auto
    with True b nn assms(6) show ?thesis by (simp add: upload_report_at_def Let_def upload_percent_def)
  next
    case False
    then have "rep \<in> set (upload_reports v (cnt + 1) (bytes + Bytes seg) segs)"
      using Cons.prems(1) by (simp add: x Let_def)
    then show ?thesis using Cons.IH Cons.prems(2) b by auto
  qed
qed simp

text \<open>
  C38. Progress never passes 100 percent. Whatever the workers do and whenever segments arrive, when the
  file with those before it fits the size of the directory (below \<open>2\<^sup>5\<^sup>3\<close> bytes), every percentage
  reported while it uploads lies between 0 and 100 after all roundings, and the bytes
  reported as done are at most the total.
\<close>

theorem upload_percent_bounds:
  assumes "start_upload cfg plan = Some s0" "0 < NNTPConnections cfg" "run_pool ms s0 = Some s"
    and "0 \<le> uv_before v" "uv_before v + plan_bytes (fst plan) \<le> uv_dir v" "0 < uv_dir v" "uv_dir v < 2 ^ 53"
    and "length es = length (segments s)" "rep \<in> set (upload_reports v 0 0 (zip (segments s) es))"
  shows "0 \<le> ur_percent rep \<and> ur_percent rep \<le> 100 \<and> ur_done rep \<le> ur_total rep"
proof -
  note c = collected_within_plan [OF assms(1-3)]
  have fst: "map fst (zip (segments s) es) = segments s" using assms(8) by simp
  show ?thesis
    using upload_reports_bounds [OF assms(9), unfolded fst] c assms(4-7) by auto
qed

lemma good_run_segments:
  "\<exists>s0 s. start_upload demo_cfg one_chunk_plan = Some s0 \<and> run_pool good_run s0 = Some s \<and>
     segments s = [\<lparr>Bytes = 3, seg_Number = 1, MessageID = ''1@b.c''\<rparr>]"
  by (simp add: good_run_def one_chunk_plan_eq start_upload_def demo_cfg_def pool_step_defs
      set_worker_def chan_cap_def job_segment_def mk_job_def numeral_2_eq_2 offer_err_def)

theorem upload_percent_bounds_witness:
  "\<exists>s0 s rep. start_upload demo_cfg one_chunk_plan = Some s0 \<and> run_pool good_run s0 = Some s \<and>
     upload_reports \<lparr>uv_chunks = 1, uv_before = 7, uv_dir = 10\<rparr> 0 0 (zip (segments s) [2]) = [rep] \<and>
     ur_done rep = 10 \<and> ur_percent rep \<le> 100"
proof -
  obtain s0 s where r: "start_upload demo_cfg one_chunk_plan = Some s0" "run_pool good_run s0 = Some s"
    "segments s = [\<lparr>Bytes = 3, seg_Number = 1, MessageID = ''1@b.c''\<rparr>]"
    using good_run_segments by blast
  let ?v = "\<lparr>uv_chunks = 1, uv_before = 7, uv_dir = 10\<rparr>"
  let ?rep = "upload_report_at ?v 1 3 2"
  have reps: "upload_reports ?v 0 0 (zip (segments s) [2]) = [?rep]" by (simp add: r(3))
  have n: "0 < NNTPConnections demo_cfg" by (simp add: demo_cfg_def)
  have p: "plan_bytes (fst one_chunk_plan) = 3" by (simp add: one_chunk_plan_eq plan_bytes_def mk_job_def)
  have "ur_percent ?rep \<le> 100"
    using upload_percent_bounds [OF r(1) n r(2), of ?v "[2]" ?rep] by (simp add: reps p r(3))
  moreover have "ur_done ?rep = 10" by (simp add: upload_report_at_def Let_def)
  ultimately show ?thesis using r reps by blast
qed

end
