(* ===== verification/Go_Json.thy ===== *)
theory Go_Json
  imports Go_Format "HOL-Library.AList"
begin

text \<open>
  What the agent uses of \<open>encoding/json\<close>. A body is kept as its text together with the value it
  parses to, if it is JSON at all. Decoding into a struct follows Go: keys match without regard
  to case, the last match wins, \<open>null\<close> and missing keys leave the zero value, and a value of the
  wrong type leaves the zero value too but makes the decoding fail in the end.
\<close>

datatype json =
  JNull | JBool bool | JNum go_string | JStr go_string | JArr "json list"
| JObj "(go_string \<times> json) list"
| JFloat float64 | JTime time | JText json

text \<open>
  The last three are written by the encoder only: a number from a \<open>float64\<close>, a timestamp, and a
  string that holds the text of an encoded value.
\<close>

record http_body =
  b_text :: go_string
  b_json :: "json option"

definition field :: "go_string \<Rightarrow> json \<Rightarrow> json option" where
  "field name v =
     (case v of
        JObj kvs \<Rightarrow>
          map_of (rev (map (\<lambda>(k, x). (to_lower k, x)) (filter (\<lambda>(k, x). x \<noteq> JNull) kvs))) (to_lower name)
      | _ \<Rightarrow> None)"

text \<open>A \<open>json.RawMessage\<close> field, \<open>null\<close> included.\<close>

definition raw_field :: "go_string \<Rightarrow> json \<Rightarrow> json option" where
  "raw_field name v =
     (case v of
        JObj kvs \<Rightarrow> map_of (rev (map (\<lambda>(k, x). (to_lower k, x)) kvs)) (to_lower name)
      | _ \<Rightarrow> None)"

text \<open>A decoded field, and whether it had the wrong type.\<close>

type_synonym 'a dec = "'a \<times> bool"

definition dec_with :: "'a \<Rightarrow> (json \<Rightarrow> 'a option) \<Rightarrow> go_string \<Rightarrow> json \<Rightarrow> 'a dec" where
  "dec_with z f name v =
     (case field name v of
        None \<Rightarrow> (z, False)
      | Some x \<Rightarrow> (case f x of None \<Rightarrow> (z, True) | Some y \<Rightarrow> (y, False)))"

definition dec_str :: "go_string \<Rightarrow> json \<Rightarrow> go_string dec" where
  "dec_str = dec_with [] (\<lambda>x. case x of JStr s \<Rightarrow> Some s | _ \<Rightarrow> None)"

definition dec_int :: "go_string \<Rightarrow> json \<Rightarrow> int dec" where
  "dec_int = dec_with 0 (\<lambda>x. case x of JNum s \<Rightarrow> parse_int s | _ \<Rightarrow> None)"

definition dec_float :: "go_string \<Rightarrow> json \<Rightarrow> float64 dec" where
  "dec_float = dec_with 0 (\<lambda>x. case x of JNum s \<Rightarrow> parse_float s | _ \<Rightarrow> None)"

definition dec_bool :: "go_string \<Rightarrow> json \<Rightarrow> bool dec" where
  "dec_bool = dec_with False (\<lambda>x. case x of JBool b \<Rightarrow> Some b | _ \<Rightarrow> None)"

text \<open>Whether a value can be decoded into a struct at all: an object, or \<open>null\<close>.\<close>

definition struct_value :: "json \<Rightarrow> bool" where
  "struct_value v \<longleftrightarrow> (case v of JObj kvs \<Rightarrow> True | JNull \<Rightarrow> True | _ \<Rightarrow> False)"

text \<open>A \<open>map[string]string\<close> field; \<open>None\<close> is the nil map.\<close>

definition dec_str_map :: "go_string \<Rightarrow> json \<Rightarrow> (go_string \<times> go_string) list option dec" where
  "dec_str_map = dec_with None (\<lambda>x. case x of
     JObj kvs \<Rightarrow>
       (if list_all (\<lambda>(k, y). case y of JStr s \<Rightarrow> True | JNull \<Rightarrow> True | _ \<Rightarrow> False) kvs
        then Some (Some (fold (\<lambda>(k, y) m. AList.update k (case y of JStr s \<Rightarrow> s | _ \<Rightarrow> []) m) kvs []))
        else None)
   | _ \<Rightarrow> None)"

lemma field_case: "to_lower a = to_lower b \<Longrightarrow> field a v = field b v"
  by (cases v) (simp_all add: field_def)

lemma dec_missing: "field n v = None \<Longrightarrow> dec_with z f n v = (z, False)"
  by (simp add: dec_with_def)

end
