(* ===== verification/Sql_Table.thy ===== *)
theory Sql_Table
  imports Agent_Prelude
begin

text \<open>
  Tables of the agent's SQLite file (\<open>src/storage/migrations\<close>) as the statements of
  \<open>src/storage\<close> use them: rows with an \<open>INTEGER PRIMARY KEY AUTOINCREMENT\<close> id and one \<open>UNIQUE\<close>
  column, in insertion order. A statement that violates the \<open>UNIQUE\<close> constraint fails and changes
  nothing. The laws every store relies on are proved once, in the locale \<open>sql_table\<close>, for any
  row type whose id can be set without touching the unique column.
\<close>

record 'r table =
  rows :: "'r list"
  next_id :: int

definition empty_table :: "'r table" where
  "empty_table = \<lparr>rows = [], next_id = 1\<rparr>"

text \<open>\<open>INSERT\<close>: the row gets the next id; \<open>None\<close> is the constraint violation.\<close>

definition tbl_insert :: "('r \<Rightarrow> 'k) \<Rightarrow> (int \<Rightarrow> 'r) \<Rightarrow> 'r table \<Rightarrow> ('r table \<times> int) option" where
  "tbl_insert ukey mk t =
     (let r = mk (next_id t)
      in if ukey r \<in> ukey ` set (rows t) then None
         else Some (t\<lparr>rows := rows t @ [r], next_id := next_id t + 1\<rparr>, next_id t))"

text \<open>\<open>UPDATE ... WHERE p\<close>, with the number of rows affected; \<open>None\<close> is the violation.\<close>

definition tbl_update ::
  "('r \<Rightarrow> 'k) \<Rightarrow> ('r \<Rightarrow> bool) \<Rightarrow> ('r \<Rightarrow> 'r) \<Rightarrow> 'r table \<Rightarrow> ('r table \<times> nat) option" where
  "tbl_update ukey p f t =
     (let rs = map (\<lambda>r. if p r then f r else r) (rows t)
      in if distinct (map ukey rs) then Some (t\<lparr>rows := rs\<rparr>, length (filter p (rows t))) else None)"

text \<open>\<open>DELETE ... WHERE p\<close>.\<close>

definition tbl_delete :: "('r \<Rightarrow> bool) \<Rightarrow> 'r table \<Rightarrow> 'r table \<times> nat" where
  "tbl_delete p t =
     (t\<lparr>rows := filter (\<lambda>r. \<not> p r) (rows t)\<rparr>, length (filter p (rows t)))"

definition tbl_find :: "('r \<Rightarrow> bool) \<Rightarrow> 'r table \<Rightarrow> 'r option" where
  "tbl_find p t = find p (rows t)"

definition tbl_wf :: "('r \<Rightarrow> int) \<Rightarrow> ('r \<Rightarrow> 'k) \<Rightarrow> 'r table \<Rightarrow> bool" where
  "tbl_wf rid ukey t \<longleftrightarrow>
     distinct (map rid (rows t)) \<and> distinct (map ukey (rows t)) \<and>
     (\<forall>r\<in>set (rows t). 1 \<le> rid r \<and> rid r < next_id t) \<and> 1 \<le> next_id t"

lemma tbl_wf_empty [inv_intros]: "tbl_wf rid ukey empty_table"
  by (simp add: tbl_wf_def empty_table_def)

lemma tbl_insert_Some_iff:
  "tbl_insert ukey mk t = Some (t', i) \<longleftrightarrow>
     i = next_id t \<and> ukey (mk i) \<notin> ukey ` set (rows t) \<and>
     t' = t\<lparr>rows := rows t @ [mk i], next_id := i + 1\<rparr>"
  by (auto simp: tbl_insert_def Let_def)

lemma tbl_update_Some_iff:
  "tbl_update ukey p f t = Some (t', n) \<longleftrightarrow>
     distinct (map ukey (map (\<lambda>r. if p r then f r else r) (rows t))) \<and>
     t' = t\<lparr>rows := map (\<lambda>r. if p r then f r else r) (rows t)\<rparr> \<and>
     n = length (filter p (rows t))"
  by (auto simp: tbl_update_def Let_def)

lemma find_append_table: "find p (xs @ ys) = (case find p xs of None \<Rightarrow> find p ys | Some x \<Rightarrow> Some x)"
  by (induction xs) auto

lemma find_Some_in: "find p xs = Some x \<Longrightarrow> x \<in> set xs \<and> p x"
  by (auto simp: find_Some_iff)

lemma map_if_keep:
  "(\<And>r. g (f r) = g r) \<Longrightarrow> distinct (map (g \<circ> (\<lambda>r. if p r then f r else r)) xs) = distinct (map g xs)"
  by (rule arg_cong [of _ _ distinct]) simp

lemma length_filter_distinct:
  "distinct (map g xs) \<Longrightarrow> length (filter (\<lambda>r. g r = k) xs) = (if k \<in> g ` set xs then 1 else 0)"
  by (induction xs) (auto simp: filter_empty_conv)

subsection \<open>The laws of a table\<close>

locale sql_table =
  fixes rid :: "'r \<Rightarrow> int" and ukey :: "'r \<Rightarrow> 'k" and with_id :: "int \<Rightarrow> 'r \<Rightarrow> 'r"
  assumes rid_with_id [simp]: "rid (with_id i r) = i"
    and ukey_with_id [simp]: "ukey (with_id i r) = ukey r"
begin

lemma insert_wf:
  assumes "tbl_wf rid ukey t" and "tbl_insert ukey (\<lambda>i. with_id i r) t = Some (t', i)"
  shows "tbl_wf rid ukey t'"
  using assms by (auto simp: tbl_wf_def tbl_insert_Some_iff)

lemma insert_fresh:
  assumes "tbl_wf rid ukey t" and "tbl_insert ukey (\<lambda>i. with_id i r) t = Some (t', i)"
  shows "1 \<le> i" and "i \<notin> rid ` set (rows t)"
  using assms by (auto simp: tbl_wf_def tbl_insert_Some_iff)

lemma insert_find:
  assumes "tbl_wf rid ukey t" and "tbl_insert ukey (\<lambda>i. with_id i r) t = Some (t', i)"
  shows "tbl_find (\<lambda>x. rid x = k) t' =
    (if k = i then Some (with_id i r) else tbl_find (\<lambda>x. rid x = k) t)"
proof -
  have "find (\<lambda>x. rid x = i) (rows t) = None"
    using insert_fresh(2) [OF assms] by (auto simp: find_None_iff)
  with assms(2) show ?thesis
    by (auto simp: tbl_find_def tbl_insert_Some_iff find_append_table split: option.splits)
qed

lemma insert_fails_iff:
  "tbl_insert ukey (\<lambda>i. with_id i r) t = None \<longleftrightarrow> (\<exists>x\<in>set (rows t). ukey x = ukey r)"
  by (simp add: tbl_insert_def Let_def image_iff) metis

lemma update_wf:
  assumes "tbl_wf rid ukey t" and "tbl_update ukey p f t = Some (t', n)"
    and "\<And>r. rid (f r) = rid r"
  shows "tbl_wf rid ukey t'"
  using assms(1,2) map_if_keep [of rid f p, OF assms(3)] assms(3)
  by (auto simp: tbl_wf_def tbl_update_Some_iff)

lemma update_keeps_key:
  assumes "tbl_wf rid ukey t" and "\<And>r. ukey (f r) = ukey r"
  shows "tbl_update ukey p f t =
    Some (t\<lparr>rows := map (\<lambda>r. if p r then f r else r) (rows t)\<rparr>, length (filter p (rows t)))"
  using assms(1) map_if_keep [of ukey f p, OF assms(2)]
  by (simp add: tbl_update_def Let_def tbl_wf_def)

lemma delete_wf: "tbl_wf rid ukey t \<Longrightarrow> tbl_wf rid ukey (fst (tbl_delete p t))"
  by (auto simp: tbl_wf_def tbl_delete_def distinct_map_filter)

lemma id_unique:
  "tbl_wf rid ukey t \<Longrightarrow> r \<in> set (rows t) \<Longrightarrow> r' \<in> set (rows t) \<Longrightarrow> rid r = rid r' \<Longrightarrow> r = r'"
  by (auto simp: tbl_wf_def distinct_map dest: inj_onD)

lemma key_unique:
  "tbl_wf rid ukey t \<Longrightarrow> r \<in> set (rows t) \<Longrightarrow> r' \<in> set (rows t) \<Longrightarrow> ukey r = ukey r' \<Longrightarrow> r = r'"
  by (auto simp: tbl_wf_def distinct_map dest: inj_onD)

lemma find_id_iff:
  assumes "tbl_wf rid ukey t"
  shows "tbl_find (\<lambda>x. rid x = k) t = Some r \<longleftrightarrow> r \<in> set (rows t) \<and> rid r = k"
proof
  show "tbl_find (\<lambda>x. rid x = k) t = Some r \<Longrightarrow> r \<in> set (rows t) \<and> rid r = k"
    by (auto simp: tbl_find_def dest: find_Some_in)
  assume r: "r \<in> set (rows t) \<and> rid r = k"
  then obtain r' where r': "find (\<lambda>x. rid x = k) (rows t) = Some r'"
    by (cases "find (\<lambda>x. rid x = k) (rows t)") (auto simp: find_None_iff)
  with r find_Some_in [OF r'] id_unique [OF assms] show "tbl_find (\<lambda>x. rid x = k) t = Some r"
    by (auto simp: tbl_find_def)
qed

lemma affected_id_le_one:
  assumes "tbl_wf rid ukey t"
  shows "length (filter (\<lambda>r. rid r = k) (rows t)) = (if k \<in> rid ` set (rows t) then 1 else 0)"
  using assms length_filter_distinct [of rid "rows t" k] by (simp add: tbl_wf_def)

end

end
