(* ===== verification/Local_Db.thy ===== *)
theory Local_Db
  imports Complex_Main Sql_Table Go_Strings "HOL-Library.List_Lexorder" "HOL-Library.Char_ord"
begin

text \<open>
  The agent's local database (\<open>src/storage\<close>): the rows of its three tables, the database as the
  three tables together, its well-formedness (keys, validity of rows, foreign keys), and the
  migration runner of \<open>db.go\<close>. SQLite is assumed to execute the statements it is given; the
  failures modelled are those the schema produces (\<open>UNIQUE\<close>, foreign keys).
\<close>

subsection \<open>Rows\<close>

record group =
  g_ID :: int
  g_Name :: go_string
  g_Type :: go_string
  g_Newsgroups :: "go_string list"
  g_Screenshots :: "int option"
  g_SampleSeconds :: "int option"
  g_Par2Redundancy :: "int option"
  g_Obfuscate :: "bool option"
  g_WatermarkText :: go_string
  g_BannedExtensions :: "go_string list"
  g_Source :: go_string
  g_Version :: int
  g_CreatedAt :: time
  g_UpdatedAt :: time

record watch_folder =
  w_ID :: int
  w_Path :: go_string
  w_GroupID :: "int option"
  w_Enabled :: bool
  w_CreatedAt :: time
  w_UpdatedAt :: time

text \<open>The status of a job: the values of the \<open>CHECK\<close> constraint of the table.\<close>

datatype job_status = Queued | Processing | Completed | Failed | CancelledJob

record offline_job =
  j_ID :: int
  j_SourcePath :: go_string
  j_Title :: go_string
  j_GroupID :: "int option"
  j_GroupName :: go_string
  j_Status :: job_status
  j_Phase :: go_string
  j_Progress :: rat
  j_Error :: "go_string option"
  j_NzbPath :: "go_string option"
  j_Password :: "go_string option"
  j_CreatedAt :: time
  j_StartedAt :: "time option"
  j_CompletedAt :: "time option"

record db =
  groups :: "group table"
  watches :: "watch_folder table"
  jobs_tbl :: "offline_job table"

datatype db_error = NameRequired | NewsgroupRequired | InvalidSource go_string | IdRequired
  | NotFound | UniqueViolation | ForeignKeyViolation | PathRequired | PathRelative go_string

definition empty_db :: db where
  "empty_db = \<lparr>groups = empty_table, watches = empty_table, jobs_tbl = empty_table\<rparr>"

text \<open>Setting the id of a row, and the three tables as instances of the table interface.\<close>

definition g_with_id :: "int \<Rightarrow> group \<Rightarrow> group" where
  "g_with_id i g = g\<lparr>g_ID := i\<rparr>"

definition w_with_id :: "int \<Rightarrow> watch_folder \<Rightarrow> watch_folder" where
  "w_with_id i w = w\<lparr>w_ID := i\<rparr>"

definition j_with_id :: "int \<Rightarrow> offline_job \<Rightarrow> offline_job" where
  "j_with_id i j = j\<lparr>j_ID := i\<rparr>"

interpretation gt: sql_table g_ID g_Name g_with_id
  by unfold_locales (simp_all add: g_with_id_def)

interpretation wt: sql_table w_ID w_Path w_with_id
  by unfold_locales (simp_all add: w_with_id_def)

interpretation jt: sql_table j_ID j_SourcePath j_with_id
  by unfold_locales (simp_all add: j_with_id_def)

lemma g_with_id_fields [simp]:
  "g_Type (g_with_id i g) = g_Type g" "g_Newsgroups (g_with_id i g) = g_Newsgroups g"
  "g_BannedExtensions (g_with_id i g) = g_BannedExtensions g" "g_Source (g_with_id i g) = g_Source g"
  "g_Version (g_with_id i g) = g_Version g"
  by (simp_all add: g_with_id_def)

lemma with_id_group_id [simp]:
  "w_GroupID (w_with_id i w) = w_GroupID w" "j_GroupID (j_with_id i j) = j_GroupID j"
  "j_Status (j_with_id i j) = j_Status j"
  by (simp_all add: w_with_id_def j_with_id_def)

subsection \<open>Well-formedness\<close>

text \<open>What \<open>validateGroup\<close> establishes.\<close>

definition norm_ext :: "go_string \<Rightarrow> bool" where
  "norm_ext e \<longleftrightarrow> has_prefix e ''.'' \<and> to_lower e = e \<and> trim_space e = e"

definition valid_group :: "group \<Rightarrow> bool" where
  "valid_group g \<longleftrightarrow>
     g_Name g \<noteq> [] \<and> trim_space (g_Name g) = g_Name g \<and>
     g_Newsgroups g \<noteq> [] \<and> (\<forall>n\<in>set (g_Newsgroups g). n \<noteq> [] \<and> trim_space n = n) \<and>
     g_Type g \<noteq> [] \<and> to_lower (g_Type g) = g_Type g \<and> trim_space (g_Type g) = g_Type g \<and>
     list_all norm_ext (g_BannedExtensions g) \<and>
     (g_Source g = ''local'' \<or> g_Source g = ''site'')"

definition valid_watch :: "watch_folder \<Rightarrow> bool" where
  "valid_watch w \<longleftrightarrow> is_abs (w_Path w)"

definition group_ids :: "db \<Rightarrow> int set" where
  "group_ids d = g_ID ` set (rows (groups d))"

definition fk_ok :: "db \<Rightarrow> int option \<Rightarrow> bool" where
  "fk_ok d gid \<longleftrightarrow> (case gid of None \<Rightarrow> True | Some i \<Rightarrow> i \<in> group_ids d)"

definition db_wf :: "db \<Rightarrow> bool" where
  "db_wf d \<longleftrightarrow>
     tbl_wf g_ID g_Name (groups d) \<and> tbl_wf w_ID w_Path (watches d) \<and>
     tbl_wf j_ID j_SourcePath (jobs_tbl d) \<and>
     (\<forall>g\<in>set (rows (groups d)). valid_group g) \<and>
     (\<forall>w\<in>set (rows (watches d)). valid_watch w \<and> fk_ok d (w_GroupID w)) \<and>
     (\<forall>j\<in>set (rows (jobs_tbl d)). fk_ok d (j_GroupID j))"

lemma empty_db_wf [inv_intros]: "db_wf empty_db"
  by (simp add: db_wf_def empty_db_def tbl_wf_empty) (simp add: empty_table_def)

lemma fk_ok_None [simp]: "fk_ok d None"
  by (simp add: fk_ok_def)

lemma fk_ok_groups: "group_ids d = group_ids d' \<Longrightarrow> fk_ok d = fk_ok d'"
  by (auto simp: fk_ok_def fun_eq_iff split: option.splits)

subsection \<open>Migrations\<close>

text \<open>
  \<open>migrate\<close>: the embedded \<open>.sql\<close> files in name order, skipping those recorded. \<open>apply\<close> runs one
  file in a transaction with the record of its name and says whether it committed. The result is
  the list of recorded names and the name the run failed at, if any.
\<close>

definition migration_names :: "(go_string \<times> bool) list \<Rightarrow> go_string list" where
  "migration_names entries =
     sort (map fst (filter (\<lambda>(n, isdir). \<not> isdir \<and> has_suffix n ''.sql'') entries))"

fun run_migrations ::
  "(go_string \<Rightarrow> bool) \<Rightarrow> go_string set \<Rightarrow> go_string list \<Rightarrow> go_string list \<Rightarrow>
     go_string option \<times> go_string list"
where
  "run_migrations apply_ok applied done_names [] = (None, done_names)"
| "run_migrations apply_ok applied done_names (n # ns) =
     (if n \<in> applied then run_migrations apply_ok applied done_names ns
      else if apply_ok n then run_migrations apply_ok applied (done_names @ [n]) ns
      else (Some n, done_names))"

definition migrate ::
  "(go_string \<Rightarrow> bool) \<Rightarrow> (go_string \<times> bool) list \<Rightarrow> go_string list \<Rightarrow>
     go_string option \<times> go_string list" where
  "migrate apply_ok entries recorded =
     run_migrations apply_ok (set recorded) recorded (migration_names entries)"

lemma run_migrations_result:
  "run_migrations apply_ok applied ds ns = (r, ds') \<Longrightarrow>
     \<exists>new. ds' = ds @ new \<and> prefix new (filter (\<lambda>n. n \<notin> applied) ns) \<and>
       (r = None \<longleftrightarrow> new = filter (\<lambda>n. n \<notin> applied) ns) \<and>
       (\<forall>n\<in>set new. apply_ok n)"
proof (induction ns arbitrary: ds)
  case (Cons n ns)
  show ?case
  proof (cases "n \<in> applied \<or> \<not> apply_ok n")
    case True
    with Cons show ?thesis by (auto split: if_splits)
  next
    case False
    with Cons.prems have "run_migrations apply_ok applied (ds @ [n]) ns = (r, ds')" by simp
    from Cons.IH [OF this] False show ?thesis by auto
  qed
qed simp

text \<open>
  Migrations. A run that succeeds leaves every \<open>.sql\<close> file of the binary recorded; the files
  it applied are exactly the unrecorded ones, each applied once, in ascending name order; a second
  run applies nothing. A run that fails has recorded a prefix of them.
\<close>

theorem migrate_contract:
  assumes "migrate apply_ok entries recorded = (r, recorded')"
  shows "\<exists>new. recorded' = recorded @ new \<and> sorted new \<and>
    prefix new (filter (\<lambda>n. n \<notin> set recorded) (migration_names entries)) \<and>
    (r = None \<longrightarrow> set (migration_names entries) \<subseteq> set recorded' \<and>
       migrate apply_ok entries recorded' = (None, recorded'))"
proof -
  let ?todo = "filter (\<lambda>n. n \<notin> set recorded) (migration_names entries)"
  from run_migrations_result [OF assms [unfolded migrate_def]] obtain new where
    new: "recorded' = recorded @ new" "prefix new ?todo" "r = None \<longleftrightarrow> new = ?todo" by blast
  have "sorted ?todo" by (simp add: migration_names_def sorted_filter [of "\<lambda>x. x", simplified])
  with new(2) have "sorted new" by (auto simp: prefix_def sorted_append)
  moreover have "set (migration_names entries) \<subseteq> set recorded'" if "r = None"
    using that new by auto
  moreover have "run_migrations apply_ok (set recorded') ds ns = (None, ds)"
    if "set ns \<subseteq> set recorded'" for ds ns
    using that by (induction ns arbitrary: ds) auto
  ultimately show ?thesis using new by (auto simp: migrate_def)
qed

theorem migrate_contract_witness:
  "\<exists>new. [''001.sql'', ''002.sql''] = [''001.sql''] @ new \<and> sorted new \<and>
    prefix new (filter (\<lambda>n. n \<notin> set [''001.sql''])
      (migration_names [(''002.sql'', False), (''001.sql'', False), (''x'', True)])) \<and>
    (None = (None :: go_string option) \<longrightarrow>
       set (migration_names [(''002.sql'', False), (''001.sql'', False), (''x'', True)])
         \<subseteq> set [''001.sql'', ''002.sql''] \<and>
       migrate (\<lambda>n. True) [(''002.sql'', False), (''001.sql'', False), (''x'', True)]
         [''001.sql'', ''002.sql''] = (None, [''001.sql'', ''002.sql'']))"
  by (rule migrate_contract) code_simp

end
