(* ===== verification/Group_Store.thy ===== *)
theory Group_Store
  imports Local_Db
begin

text \<open>
  Posting groups: \<open>src/storage/groups.go\<close>. Validation, the operations on the \<open>groups\<close> table with
  its \<open>UNIQUE(name)\<close> constraint and version trigger, and the two operations of the site sync. A
  deleted group is cleared from the watch folders and jobs that refer to it (\<open>ON DELETE SET
  NULL\<close>).
\<close>

subsection \<open>Validation\<close>

definition clean_newsgroups :: "go_string list \<Rightarrow> go_string list" where
  "clean_newsgroups ngs = filter (\<lambda>ng. ng \<noteq> []) (map trim_space ngs)"

definition norm_ban :: "go_string \<Rightarrow> go_string option" where
  "norm_ban ext =
     (let e = trim_space (to_lower ext)
      in if e = [] then None else if has_prefix e ''.'' then Some e else Some (''.'' @ e))"

definition clean_bans :: "go_string list \<Rightarrow> go_string list" where
  "clean_bans exts = List.map_filter norm_ban exts"

definition validateGroup :: "group \<Rightarrow> db_error + group" where
  "validateGroup g0 =
     (let g1 = g0\<lparr>g_Name := trim_space (g_Name g0)\<rparr>
      in if g_Name g1 = [] then Inl NameRequired
         else let clean = clean_newsgroups (g_Newsgroups g1)
              in if clean = [] then Inl NewsgroupRequired
                 else let ty = trim_space (to_lower (g_Type g1));
                          g2 = g1\<lparr>g_Newsgroups := clean,
                                  g_Type := (if ty = [] then ''video'' else ty),
                                  g_BannedExtensions := clean_bans (g_BannedExtensions g1),
                                  g_Source := (if g_Source g1 = [] then ''local'' else g_Source g1)\<rparr>
                      in if g_Source g2 \<noteq> ''local'' \<and> g_Source g2 \<noteq> ''site''
                         then Inl (InvalidSource (g_Source g2)) else Inr g2)"

subsection \<open>Operations\<close>

text \<open>The trigger \<open>groups_bump_version\<close>: an update that leaves the version alone adds one.\<close>

definition bump_version :: "group \<Rightarrow> group \<Rightarrow> group" where
  "bump_version old new = (if g_Version new = g_Version old then new\<lparr>g_Version := g_Version old + 1\<rparr> else new)"

definition CreateGroup :: "time \<Rightarrow> group \<Rightarrow> db \<Rightarrow> db_error + (db \<times> group)" where
  "CreateGroup now g0 d =
     (case validateGroup g0 of
        Inl e \<Rightarrow> Inl e
      | Inr g \<Rightarrow>
          (case tbl_insert g_Name
              (\<lambda>i. g_with_id i (g\<lparr>g_Version := 1, g_CreatedAt := now, g_UpdatedAt := now\<rparr>)) (groups d) of
             None \<Rightarrow> Inl UniqueViolation
           | Some (t, i) \<Rightarrow>
               Inr (d\<lparr>groups := t\<rparr>, g\<lparr>g_ID := i, g_CreatedAt := now, g_UpdatedAt := now\<rparr>)))"

text \<open>The columns \<open>UpdateGroup\<close> writes.\<close>

definition set_group_columns :: "time \<Rightarrow> group \<Rightarrow> group \<Rightarrow> group" where
  "set_group_columns now g r =
     r\<lparr>g_Name := g_Name g, g_Type := g_Type g, g_Newsgroups := g_Newsgroups g,
       g_BannedExtensions := g_BannedExtensions g, g_Screenshots := g_Screenshots g,
       g_SampleSeconds := g_SampleSeconds g, g_Par2Redundancy := g_Par2Redundancy g,
       g_Obfuscate := g_Obfuscate g, g_WatermarkText := g_WatermarkText g,
       g_Source := g_Source g, g_UpdatedAt := now\<rparr>"

definition UpdateGroup :: "time \<Rightarrow> group \<Rightarrow> db \<Rightarrow> db_error + (db \<times> group)" where
  "UpdateGroup now g0 d =
     (if g_ID g0 = 0 then Inl IdRequired
      else case validateGroup g0 of
        Inl e \<Rightarrow> Inl e
      | Inr g \<Rightarrow>
          (case tbl_update g_Name (\<lambda>r. g_ID r = g_ID g)
              (\<lambda>r. bump_version r (set_group_columns now g r)) (groups d) of
             None \<Rightarrow> Inl UniqueViolation
           | Some (t, n) \<Rightarrow>
               if n = 0 then Inl NotFound else Inr (d\<lparr>groups := t\<rparr>, g\<lparr>g_UpdatedAt := now\<rparr>)))"

text \<open>\<open>ON DELETE SET NULL\<close> for the rows that refer to a deleted group.\<close>

definition unref :: "int \<Rightarrow> int option \<Rightarrow> int option" where
  "unref i gid = (if gid = Some i then None else gid)"

definition drop_group :: "int \<Rightarrow> db \<Rightarrow> db \<times> nat" where
  "drop_group i d =
     (let (t, n) = tbl_delete (\<lambda>r. g_ID r = i) (groups d)
      in (\<lparr>groups = t,
           watches = watches d\<lparr>rows := map (\<lambda>w. w\<lparr>w_GroupID := unref i (w_GroupID w)\<rparr>) (rows (watches d))\<rparr>,
           jobs_tbl = jobs_tbl d\<lparr>rows := map (\<lambda>j. j\<lparr>j_GroupID := unref i (j_GroupID j)\<rparr>)
             (rows (jobs_tbl d))\<rparr>\<rparr>, n))"

definition DeleteGroup :: "int \<Rightarrow> db \<Rightarrow> db_error + db" where
  "DeleteGroup i d = (let (d', n) = drop_group i d in if n = 0 then Inl NotFound else Inr d')"

text \<open>The columns the update of an existing site row writes; the name stays.\<close>

definition set_site_columns :: "time \<Rightarrow> group \<Rightarrow> group \<Rightarrow> group" where
  "set_site_columns now g r =
     r\<lparr>g_Type := g_Type g, g_Newsgroups := g_Newsgroups g,
       g_BannedExtensions := g_BannedExtensions g, g_Screenshots := g_Screenshots g,
       g_SampleSeconds := g_SampleSeconds g, g_Par2Redundancy := g_Par2Redundancy g,
       g_Obfuscate := g_Obfuscate g, g_WatermarkText := g_WatermarkText g,
       g_Version := g_Version g, g_UpdatedAt := now\<rparr>"

text \<open>The result: the database, whether a row was written, and the group with its id.\<close>

definition UpsertSiteGroup :: "time \<Rightarrow> group \<Rightarrow> db \<Rightarrow> db_error + (db \<times> bool \<times> group)" where
  "UpsertSiteGroup now g0 d =
     (case validateGroup (g0\<lparr>g_Source := ''site''\<rparr>) of
        Inl e \<Rightarrow> Inl e
      | Inr g \<Rightarrow>
          (case tbl_find (\<lambda>r. g_Name r = g_Name g) (groups d) of
             None \<Rightarrow>
               (case tbl_insert g_Name
                   (\<lambda>i. g_with_id i (g\<lparr>g_CreatedAt := now, g_UpdatedAt := now\<rparr>)) (groups d) of
                  None \<Rightarrow> Inl UniqueViolation
                | Some (t, i) \<Rightarrow>
                    Inr (d\<lparr>groups := t\<rparr>, True, g\<lparr>g_ID := i, g_CreatedAt := now, g_UpdatedAt := now\<rparr>))
           | Some r \<Rightarrow>
               if g_Source r = ''local'' then Inr (d, False, g)
               else (case tbl_update g_Name (\<lambda>x. g_ID x = g_ID r)
                       (\<lambda>x. bump_version x (set_site_columns now g x)) (groups d) of
                       None \<Rightarrow> Inl UniqueViolation
                     | Some (t, n) \<Rightarrow>
                         Inr (d\<lparr>groups := t\<rparr>, True, g\<lparr>g_ID := g_ID r, g_UpdatedAt := now\<rparr>))))"

text \<open>\<open>ReconcileSiteGroups\<close>: collect the stale site rows, then delete them one by one.\<close>

definition stale_ids :: "go_string set \<Rightarrow> db \<Rightarrow> int list" where
  "stale_ids liveNames d =
     map g_ID (filter (\<lambda>r. g_Source r = ''site'' \<and> g_Name r \<notin> liveNames) (rows (groups d)))"

definition ReconcileSiteGroups :: "go_string set \<Rightarrow> db \<Rightarrow> db \<times> nat" where
  "ReconcileSiteGroups liveNames d =
     (fold (\<lambda>i d. fst (drop_group i d)) (stale_ids liveNames d) d, length (stale_ids liveNames d))"

definition GetGroup :: "int \<Rightarrow> db \<Rightarrow> db_error + group" where
  "GetGroup i d = (case tbl_find (\<lambda>r. g_ID r = i) (groups d) of None \<Rightarrow> Inl NotFound | Some g \<Rightarrow> Inr g)"

definition ListGroups :: "db \<Rightarrow> group list" where
  "ListGroups d = sort_key g_Name (rows (groups d))"

subsection \<open>Facts about validation\<close>

lemma to_lower_Cons: "to_lower (c # s) = lower_char c # to_lower s"
  by (simp add: to_lower_def)

lemma lower_trim_lower [simp]: "to_lower (trim_space (to_lower s)) = trim_space (to_lower s)"
  by (simp add: trim_space_to_lower)

lemma trim_space_dot:
  assumes "trim_space e = e"
  shows "trim_space (CHR ''.'' # e) = CHR ''.'' # e"
proof (rule trim_space_id)
  from trim_space_trimmed [of e] assms have "trimmed_by is_space e" by simp
  then show "trimmed_by is_space (CHR ''.'' # e)" by (auto simp: trimmed_by_def is_space_def)
qed

lemma lower_dot [simp]: "lower_char (CHR ''.'') = CHR ''.''"
  by (simp add: lower_char_def is_upper_def)

lemma norm_ban_norm: "norm_ban e = Some e' \<Longrightarrow> norm_ext e'"
  by (auto simp: norm_ban_def norm_ext_def Let_def to_lower_Cons trim_space_dot has_prefix_def
      split: if_splits)

lemma norm_ban_id: "norm_ext e \<Longrightarrow> norm_ban e = Some e"
  by (auto simp: norm_ban_def norm_ext_def Let_def has_prefix_def)

lemma clean_bans_norm: "list_all norm_ext (clean_bans exts)"
  by (auto simp: clean_bans_def List.map_filter_def list_all_iff norm_ban_norm)

lemma clean_bans_id: "list_all norm_ext exts \<Longrightarrow> clean_bans exts = exts"
  by (induction exts) (auto simp: clean_bans_def List.map_filter_simps norm_ban_id)

lemma clean_newsgroups_norm: "n \<in> set (clean_newsgroups ngs) \<Longrightarrow> n \<noteq> [] \<and> trim_space n = n"
  by (auto simp: clean_newsgroups_def)

lemma clean_newsgroups_id:
  "\<forall>n\<in>set ngs. n \<noteq> [] \<and> trim_space n = n \<Longrightarrow> clean_newsgroups ngs = ngs"
  by (induction ngs) (auto simp: clean_newsgroups_def)

lemma video_norm: "to_lower ''video'' = ''video''" "trim_space ''video'' = ''video''"
  by code_simp+

text \<open>The successful result of \<open>validateGroup\<close>, field by field.\<close>

lemma validateGroup_Inr_iff:
  "validateGroup g0 = Inr g \<longleftrightarrow>
     trim_space (g_Name g0) \<noteq> [] \<and> clean_newsgroups (g_Newsgroups g0) \<noteq> [] \<and>
     (g_Source g0 = [] \<or> g_Source g0 = ''local'' \<or> g_Source g0 = ''site'') \<and>
     g = g0\<lparr>g_Name := trim_space (g_Name g0), g_Newsgroups := clean_newsgroups (g_Newsgroups g0),
        g_Type := (if trim_space (to_lower (g_Type g0)) = [] then ''video''
                   else trim_space (to_lower (g_Type g0))),
        g_BannedExtensions := clean_bans (g_BannedExtensions g0),
        g_Source := (if g_Source g0 = [] then ''local'' else g_Source g0)\<rparr>"
  by (auto simp: validateGroup_def Let_def split: if_splits)

lemma validateGroup_valid:
  assumes "validateGroup g0 = Inr g"
  shows "valid_group g"
proof -
  have "\<forall>n\<in>set (clean_newsgroups (g_Newsgroups g0)). n \<noteq> [] \<and> trim_space n = n"
    using clean_newsgroups_norm by blast
  moreover have "g_Source g = ''local'' \<or> g_Source g = ''site''"
    using assms by (elim validateGroup_Inr_iff [THEN iffD1, elim_format]) force
  ultimately show ?thesis
    using assms by (simp add: validateGroup_Inr_iff valid_group_def clean_bans_norm video_norm)
qed

lemma validateGroup_id:
  assumes "valid_group g"
  shows "validateGroup g = Inr g"
proof -
  have src: "g_Source g = ''local'' \<or> g_Source g = ''site''"
    using assms by (simp only: valid_group_def)
  have eqs: "trim_space (g_Name g) = g_Name g" "clean_newsgroups (g_Newsgroups g) = g_Newsgroups g"
    "trim_space (to_lower (g_Type g)) = g_Type g" "clean_bans (g_BannedExtensions g) = g_BannedExtensions g"
    and ne: "g_Name g \<noteq> []" "g_Newsgroups g \<noteq> []" "g_Type g \<noteq> []"
    using assms by (simp_all add: valid_group_def clean_bans_id clean_newsgroups_id)
  from src show ?thesis
    by (elim disjE) (simp_all add: validateGroup_def Let_def eqs ne)
qed

text \<open>
  Validation. A group that passes is in normal form (trimmed non-empty name, at least one
  newsgroup and none blank, a lower-case type, banned extensions of the form \<open>.ext\<close> in lower case,
  a known source), validating it again changes nothing, and its id and version are untouched; a
  group is refused exactly for a blank name, no non-blank newsgroup, or an unknown source.
\<close>

theorem validateGroup_contract:
  "case validateGroup g0 of
     Inr g \<Rightarrow> valid_group g \<and> validateGroup g = Inr g \<and> g_ID g = g_ID g0 \<and> g_Version g = g_Version g0
   | Inl e \<Rightarrow>
       if trim_space (g_Name g0) = [] then e = NameRequired
       else if list_all (\<lambda>n. trim_space n = []) (g_Newsgroups g0) then e = NewsgroupRequired
       else e = InvalidSource (g_Source g0) \<and> g_Source g0 \<notin> {[], ''local'', ''site''}"
proof (cases "validateGroup g0")
  case (Inl e)
  have c: "clean_newsgroups (g_Newsgroups g0) = [] \<longleftrightarrow> list_all (\<lambda>n. trim_space n = []) (g_Newsgroups g0)"
    by (simp add: clean_newsgroups_def filter_empty_conv list_all_iff)
  show ?thesis
  proof (cases "trim_space (g_Name g0) = [] \<or> list_all (\<lambda>n. trim_space n = []) (g_Newsgroups g0)")
    case True
    with Inl c show ?thesis by (auto simp: validateGroup_def Let_def)
  next
    case False
    with Inl c show ?thesis
      by (cases "g_Source g0 = []") (simp_all add: validateGroup_def Let_def split: if_split_asm)
  qed
next
  case (Inr g)
  then have "g_ID g = g_ID g0 \<and> g_Version g = g_Version g0" by (simp add: validateGroup_Inr_iff)
  with Inr show ?thesis by (simp add: validateGroup_valid validateGroup_id)
qed

subsection \<open>Every operation keeps the database well-formed\<close>

lemma db_wf_groups:
  assumes "db_wf d" "tbl_wf g_ID g_Name t" "g_ID ` set (rows (groups d)) \<subseteq> g_ID ` set (rows t)"
    and "\<forall>g\<in>set (rows t). valid_group g"
  shows "db_wf (d\<lparr>groups := t\<rparr>)"
proof -
  have "fk_ok d gid \<Longrightarrow> fk_ok (d\<lparr>groups := t\<rparr>) gid" for gid
    using assms(3) by (auto simp: fk_ok_def group_ids_def split: option.splits)
  with assms show ?thesis by (auto simp: db_wf_def)
qed

lemma valid_group_cong:
  "g_Name g = g_Name h \<Longrightarrow> g_Newsgroups g = g_Newsgroups h \<Longrightarrow> g_Type g = g_Type h \<Longrightarrow>
   g_BannedExtensions g = g_BannedExtensions h \<Longrightarrow> g_Source g = g_Source h \<Longrightarrow>
   valid_group g = valid_group h"
  by (simp add: valid_group_def)

lemma valid_group_stamps [simp]:
  "valid_group (g\<lparr>g_Version := v\<rparr>) = valid_group g" "valid_group (g\<lparr>g_CreatedAt := a\<rparr>) = valid_group g"
  "valid_group (g\<lparr>g_UpdatedAt := b\<rparr>) = valid_group g"
  by (simp_all add: valid_group_def)

lemma insert_group_wf:
  assumes "tbl_insert g_Name (\<lambda>i. g_with_id i g) (groups d) = Some (t, i)" "db_wf d" "valid_group g"
  shows "db_wf (d\<lparr>groups := t\<rparr>)"
proof (rule db_wf_groups [OF assms(2)])
  show "tbl_wf g_ID g_Name t" using assms by (auto simp: db_wf_def intro: gt.insert_wf)
  show "g_ID ` set (rows (groups d)) \<subseteq> g_ID ` set (rows t)"
    using assms(1) by (auto simp: tbl_insert_Some_iff)
  have "valid_group (g_with_id i g)" using assms(3) by (simp add: valid_group_def)
  with assms show "\<forall>g\<in>set (rows t). valid_group g"
    by (auto simp: db_wf_def tbl_insert_Some_iff)
qed

lemma update_group_wf:
  assumes "tbl_update g_Name p f (groups d) = Some (t, n)" "db_wf d"
    and "\<And>r. g_ID (f r) = g_ID r"
    and "\<And>r. r \<in> set (rows (groups d)) \<Longrightarrow> p r \<Longrightarrow> valid_group (f r)"
  shows "db_wf (d\<lparr>groups := t\<rparr>)"
proof (rule db_wf_groups [OF assms(2)])
  show "tbl_wf g_ID g_Name t" using assms by (auto simp: db_wf_def intro: gt.update_wf)
  have "g_ID r \<in> g_ID ` set (rows t)" if "r \<in> set (rows (groups d))" for r
    using assms(1,3) that by (intro image_eqI [of _ _ "if p r then f r else r"])
      (auto simp: tbl_update_Some_iff)
  then show "g_ID ` set (rows (groups d)) \<subseteq> g_ID ` set (rows t)" by blast
  show "\<forall>g\<in>set (rows t). valid_group g"
    using assms by (auto simp: db_wf_def tbl_update_Some_iff)
qed

lemma bump_version_fields [simp]:
  "g_ID (bump_version r x) = g_ID x" "g_Name (bump_version r x) = g_Name x"
  "g_Type (bump_version r x) = g_Type x" "g_Newsgroups (bump_version r x) = g_Newsgroups x"
  "g_BannedExtensions (bump_version r x) = g_BannedExtensions x"
  "g_Source (bump_version r x) = g_Source x"
  by (simp_all add: bump_version_def)

lemma valid_bump [simp]: "valid_group (bump_version r x) = valid_group x"
  by (rule valid_group_cong) simp_all

lemma valid_set_columns: "valid_group g \<Longrightarrow> valid_group (set_group_columns now g r)"
  by (simp add: valid_group_def set_group_columns_def)

lemma valid_set_site_columns:
  "valid_group g \<Longrightarrow> valid_group r \<Longrightarrow> valid_group (set_site_columns now g r)"
  by (simp add: valid_group_def set_site_columns_def)

lemma set_columns_id [simp]:
  "g_ID (set_group_columns now g r) = g_ID r" "g_ID (set_site_columns now g r) = g_ID r"
  "g_Name (set_site_columns now g r) = g_Name r" "g_Source (set_site_columns now g r) = g_Source r"
  by (simp_all add: set_group_columns_def set_site_columns_def)

lemma CreateGroup_wf [inv_intros]:
  assumes "db_wf d" "CreateGroup now g0 d = Inr (d', g')"
  shows "db_wf d'"
  using assms
  by (auto simp: CreateGroup_def split: sum.splits option.splits
      dest!: validateGroup_valid intro: insert_group_wf)

lemma UpdateGroup_wf [inv_intros]:
  assumes "db_wf d" "UpdateGroup now g0 d = Inr (d', g')"
  shows "db_wf d'"
  using assms
  by (auto simp: UpdateGroup_def split: sum.splits option.splits if_splits
      dest!: validateGroup_valid elim!: update_group_wf simp: valid_set_columns)

lemma UpsertSiteGroup_wf [inv_intros]:
  assumes "db_wf d" "UpsertSiteGroup now g0 d = Inr (d', u, g')"
  shows "db_wf d'"
proof -
  have "valid_group r" if "r \<in> set (rows (groups d))" for r
    using assms(1) that by (simp add: db_wf_def)
  with assms show ?thesis
    by (auto simp: UpsertSiteGroup_def split: sum.splits option.splits if_splits
        dest!: validateGroup_valid
        elim!: insert_group_wf update_group_wf simp: valid_set_site_columns)
qed

lemma drop_group_wf:
  assumes "db_wf d"
  shows "db_wf (fst (drop_group i d))"
proof -
  let ?d = "fst (drop_group i d)"
  have ids: "group_ids ?d = group_ids d - {i}"
    by (auto simp: drop_group_def tbl_delete_def group_ids_def)
  have fk: "fk_ok d gid \<Longrightarrow> fk_ok ?d (unref i gid)" for gid
    by (auto simp: fk_ok_def ids unref_def split: option.splits)
  have "tbl_wf g_ID g_Name (groups ?d)"
    using assms gt.delete_wf [of "groups d"] by (simp add: drop_group_def tbl_delete_def db_wf_def)
  moreover have "tbl_wf w_ID w_Path (watches ?d)" "tbl_wf j_ID j_SourcePath (jobs_tbl ?d)"
    using assms by (auto simp: drop_group_def tbl_delete_def db_wf_def tbl_wf_def o_def)
  ultimately show ?thesis
    using assms fk
    by (simp add: db_wf_def) (auto simp: drop_group_def tbl_delete_def valid_watch_def)
qed

lemma DeleteGroup_wf [inv_intros]: "db_wf d \<Longrightarrow> DeleteGroup i d = Inr d' \<Longrightarrow> db_wf d'"
  using drop_group_wf [of d i] by (auto simp: DeleteGroup_def split: prod.splits if_splits)

lemma ReconcileSiteGroups_wf [inv_intros]:
  assumes "db_wf d"
  shows "db_wf (fst (ReconcileSiteGroups live d))"
proof -
  have "db_wf d \<Longrightarrow> db_wf (fold (\<lambda>i d. fst (drop_group i d)) is d)" for "is"
    by (induction "is" arbitrary: d) (auto intro: drop_group_wf)
  with assms show ?thesis by (simp add: ReconcileSiteGroups_def)
qed

subsection \<open>What the operations do\<close>

definition local_rows :: "db \<Rightarrow> group list" where
  "local_rows d = filter (\<lambda>r. g_Source r = ''local'') (rows (groups d))"

lemma filter_map_if:
  "(\<And>r. r \<in> set xs \<Longrightarrow> p r \<Longrightarrow> \<not> q r \<and> \<not> q (f r)) \<Longrightarrow>
     filter q (map (\<lambda>r. if p r then f r else r) xs) = filter q xs"
  by (induction xs) auto

lemma find_name_local:
  assumes "db_wf d" "tbl_find (\<lambda>r. g_Name r = n) (groups d) = Some r" "g_Source r \<noteq> ''local''"
    and "x \<in> set (rows (groups d))" "g_ID x = g_ID r"
  shows "g_Source x \<noteq> ''local''"
proof -
  have "r \<in> set (rows (groups d))" using assms(2) by (auto simp: tbl_find_def dest: find_Some_in)
  with assms gt.id_unique [of "groups d" x r] show ?thesis by (simp add: db_wf_def)
qed

lemma UpsertSiteGroup_cases:
  assumes "UpsertSiteGroup now g0 d = Inr (d', u, g')"
  obtains (inserted) g t i where "validateGroup (g0\<lparr>g_Source := ''site''\<rparr>) = Inr g"
      "tbl_find (\<lambda>r. g_Name r = g_Name g) (groups d) = None" "u" "d' = d\<lparr>groups := t\<rparr>"
      "tbl_insert g_Name (\<lambda>i. g_with_id i (g\<lparr>g_CreatedAt := now, g_UpdatedAt := now\<rparr>)) (groups d) =
         Some (t, i)"
    | (skipped) g r where "validateGroup (g0\<lparr>g_Source := ''site''\<rparr>) = Inr g"
      "tbl_find (\<lambda>r. g_Name r = g_Name g) (groups d) = Some r" "g_Source r = ''local''" "\<not> u" "d' = d"
    | (updated) g r t n where "validateGroup (g0\<lparr>g_Source := ''site''\<rparr>) = Inr g"
      "tbl_find (\<lambda>r. g_Name r = g_Name g) (groups d) = Some r" "g_Source r \<noteq> ''local''" "u"
      "d' = d\<lparr>groups := t\<rparr>"
      "tbl_update g_Name (\<lambda>x. g_ID x = g_ID r) (\<lambda>x. bump_version x (set_site_columns now g x)) (groups d)
         = Some (t, n)"
proof (cases "validateGroup (g0\<lparr>g_Source := ''site''\<rparr>)")
  case (Inl e)
  with assms show thesis by (simp add: UpsertSiteGroup_def)
next
  case v: (Inr g)
  show thesis
  proof (cases "tbl_find (\<lambda>r. g_Name r = g_Name g) (groups d)")
    case None
    with assms v show thesis
      by (auto simp: UpsertSiteGroup_def split: option.splits intro: inserted [OF v None])
  next
    case (Some r)
    with assms v show thesis
      by (cases "g_Source r = ''local''")
        (auto simp: UpsertSiteGroup_def split: option.splits
          intro: skipped [OF v Some] updated [OF v Some])
  qed
qed

lemma validate_site:
  "validateGroup (g0\<lparr>g_Source := ''site''\<rparr>) = Inr g \<Longrightarrow>
     g_Source g = ''site'' \<and> g_Name g = trim_space (g_Name g0) \<and> g_Version g = g_Version g0"
  by (simp add: validateGroup_Inr_iff)

lemma UpsertSiteGroup_local:
  assumes "db_wf d" "UpsertSiteGroup now g0 d = Inr (d', u, g')"
  shows "local_rows d' = local_rows d"
  using assms(2)
proof (cases rule: UpsertSiteGroup_cases)
  case (inserted g t i)
  with validate_site [OF inserted(1)] show ?thesis
    by (simp add: local_rows_def tbl_insert_Some_iff)
next
  case (updated g r t n)
  from find_name_local [OF assms(1) updated(2,3)] updated show ?thesis
    by (simp add: local_rows_def tbl_update_Some_iff filter_map_if)
qed simp

text \<open>
  A site push never touches what the operator made: whatever group the site sends, the
  rows with source \<open>local\<close> are the same after it, and the push reports that it wrote nothing
  exactly when a local row already has that name, in which case the database is unchanged.
\<close>

theorem UpsertSiteGroup_respects_local:
  assumes "db_wf d" "UpsertSiteGroup now g0 d = Inr (d', u, g')"
  shows "local_rows d' = local_rows d \<and>
    (\<not> u \<longleftrightarrow> (\<exists>r\<in>set (local_rows d). g_Name r = trim_space (g_Name g0))) \<and> (\<not> u \<longrightarrow> d' = d)"
proof -
  have in_rows: "r \<in> set (rows (groups d)) \<and> p r" if "tbl_find p (groups d) = Some r" for p r
    using that by (auto simp: tbl_find_def dest: find_Some_in)
  from assms(2) have "(\<not> u \<longleftrightarrow> (\<exists>r\<in>set (local_rows d). g_Name r = trim_space (g_Name g0))) \<and>
      (\<not> u \<longrightarrow> d' = d)"
  proof (cases rule: UpsertSiteGroup_cases)
    case (inserted g t i)
    with validate_site [OF inserted(1)] show ?thesis
      by (auto simp: local_rows_def tbl_find_def find_None_iff)
  next
    case (skipped g r)
    with validate_site [OF skipped(1)] in_rows show ?thesis by (auto simp: local_rows_def)
  next
    case (updated g r t n)
    have "g_Source x \<noteq> ''local''" if "x \<in> set (rows (groups d))" "g_Name x = g_Name g" for x
      using gt.key_unique [of "groups d" x r] in_rows [OF updated(2)] that assms(1) updated(3)
      by (simp add: db_wf_def)
    with updated validate_site [OF updated(1)] show ?thesis by (auto simp: local_rows_def)
  qed
  with UpsertSiteGroup_local [OF assms] show ?thesis by blast
qed

definition site_anime :: group where
  "site_anime = \<lparr>g_ID = 0, g_Name = '' anime '', g_Type = ''VIDEO'', g_Newsgroups = [''a.b.anime''],
     g_Screenshots = None, g_SampleSeconds = None, g_Par2Redundancy = None, g_Obfuscate = None,
     g_WatermarkText = [], g_BannedExtensions = [''EXE''], g_Source = [], g_Version = 7,
     g_CreatedAt = 0, g_UpdatedAt = 0\<rparr>"

text \<open>An operator's own group of that name, created at time 5, then pushed by the site.\<close>

definition anime_db :: db where
  "anime_db = (case CreateGroup 5 site_anime empty_db of Inr (d, g) \<Rightarrow> d | Inl e \<Rightarrow> empty_db)"

lemma anime_db_wf: "db_wf anime_db"
  using CreateGroup_wf [OF empty_db_wf] by (auto simp: anime_db_def empty_db_wf split: sum.splits)

theorem UpsertSiteGroup_respects_local_witness:
  "\<exists>g'. UpsertSiteGroup 6 site_anime anime_db = Inr (anime_db, False, g')"
proof -
  have "case UpsertSiteGroup 6 site_anime anime_db of Inr (d', u, g') \<Rightarrow> \<not> u | Inl e \<Rightarrow> False"
    by code_simp
  then obtain d' u g' where r: "UpsertSiteGroup 6 site_anime anime_db = Inr (d', u, g')"
    and nu: "\<not> u" by (auto split: sum.splits)
  from UpsertSiteGroup_respects_local [OF anime_db_wf r] nu r show ?thesis by auto
qed

lemma find_map_update:
  assumes "\<And>r. g_ID (f r) = g_ID r"
  shows "find (\<lambda>x. g_ID x = k) (map (\<lambda>r. if g_ID r = i then f r else r) xs) =
    map_option (\<lambda>r. if g_ID r = i then f r else r) (find (\<lambda>x. g_ID x = k) xs)"
  using assms by (induction xs) auto

text \<open>
  An edit of a group. It fails only for a missing id, a group that does not validate, a
  name another group has, or an unknown id; when it succeeds, reading the group back gives the
  validated values with the row's version raised by exactly one and its creation time kept, and
  every other group reads as before.
\<close>

theorem UpdateGroup_then_Get:
  assumes "db_wf d" "UpdateGroup now g0 d = Inr (d', g')"
  shows "\<exists>old g. GetGroup (g_ID g0) d = Inr old \<and> validateGroup g0 = Inr g \<and>
    GetGroup (g_ID g0) d' =
      Inr (set_group_columns now g old\<lparr>g_Version := g_Version old + 1\<rparr>) \<and>
    (\<forall>k. k \<noteq> g_ID g0 \<longrightarrow> GetGroup k d' = GetGroup k d)"
proof -
  from assms(2) obtain g t n where v: "validateGroup g0 = Inr g" and n: "0 < n"
    and u: "tbl_update g_Name (\<lambda>r. g_ID r = g_ID g)
      (\<lambda>r. bump_version r (set_group_columns now g r)) (groups d) = Some (t, n)"
    and d': "d' = d\<lparr>groups := t\<rparr>"
    by (auto simp: UpdateGroup_def split: sum.splits option.splits if_splits)
  have id: "g_ID g = g_ID g0" using v by (simp add: validateGroup_Inr_iff)
  from n u have "find (\<lambda>x. g_ID x = g_ID g) (rows (groups d)) \<noteq> None"
    by (auto simp: tbl_update_Some_iff find_None_iff filter_empty_conv)
  then obtain old where old: "find (\<lambda>x. g_ID x = g_ID g) (rows (groups d)) = Some old" by blast
  then have oid: "g_ID old = g_ID g" by (auto dest: find_Some_in)
  have rows': "find (\<lambda>x. g_ID x = k) (rows t) =
      map_option (\<lambda>r. if g_ID r = g_ID g then bump_version r (set_group_columns now g r) else r)
        (find (\<lambda>x. g_ID x = k) (rows (groups d)))" for k
    using u find_map_update [of "\<lambda>r. bump_version r (set_group_columns now g r)"]
    by (simp add: tbl_update_Some_iff)
  have other: "find (\<lambda>x. g_ID x = k) (rows t) = find (\<lambda>x. g_ID x = k) (rows (groups d))"
    if "k \<noteq> g_ID g" for k
    using rows' [of k] that
    by (cases "find (\<lambda>x. g_ID x = k) (rows (groups d))") (auto dest: find_Some_in)
  show ?thesis
    using rows' [of "g_ID g"] other v
    by (auto simp: GetGroup_def tbl_find_def d' id [symmetric] old oid bump_version_def
        set_group_columns_def)
qed

theorem UpdateGroup_then_Get_witness:
  "\<exists>d' old g. GetGroup 1 anime_db = Inr old \<and> validateGroup (site_anime\<lparr>g_ID := 1\<rparr>) = Inr g \<and>
     GetGroup 1 d' = Inr (set_group_columns 9 g old\<lparr>g_Version := g_Version old + 1\<rparr>)"
proof -
  have "case UpdateGroup 9 (site_anime\<lparr>g_ID := 1\<rparr>) anime_db of Inr x \<Rightarrow> True | Inl e \<Rightarrow> False"
    by code_simp
  then obtain d' g' where r: "UpdateGroup 9 (site_anime\<lparr>g_ID := 1\<rparr>) anime_db = Inr (d', g')"
    by (auto split: sum.splits)
  from UpdateGroup_then_Get [OF anime_db_wf r] show ?thesis by auto
qed

text \<open>
  The site's version is stored as it is only when it differs from the stored one: pushing an
  existing site group at its own version leaves that version plus one in the row.
\<close>

lemma upsert_same_version:
  assumes "g_Version g = g_Version r"
  shows "g_Version (bump_version r (set_site_columns now g r)) = g_Version g + 1"
  using assms by (simp add: bump_version_def set_site_columns_def)

lemma GetGroup_created:
  assumes "db_wf d" "CreateGroup now g0 d = Inr (d', g')"
  shows "\<exists>r. GetGroup (g_ID g') d' = Inr r \<and> g_Version r = 1 \<and> g_Name r = trim_space (g_Name g0)"
proof -
  from assms(2) obtain g t i where v: "validateGroup g0 = Inr g"
    and ins: "tbl_insert g_Name (\<lambda>i. g_with_id i (g\<lparr>g_Version := 1, g_CreatedAt := now,
      g_UpdatedAt := now\<rparr>)) (groups d) = Some (t, i)" and d': "d' = d\<lparr>groups := t\<rparr>" "g_ID g' = i"
    by (auto simp: CreateGroup_def split: sum.splits option.splits)
  from assms(1) have "tbl_wf g_ID g_Name (groups d)" by (simp add: db_wf_def)
  from gt.insert_find [OF this ins, of i] v d' show ?thesis
    by (simp add: GetGroup_def g_with_id_def validateGroup_Inr_iff)
qed

end
