(* ===== verification/Watch_Store.thy ===== *)
theory Watch_Store
  imports Group_Store
begin

text \<open>
  Watch folders: \<open>src/storage/watches.go\<close>. Paths are validated and cleaned, inserts and updates
  respect the \<open>UNIQUE(path)\<close> constraint and the foreign key to the groups, and the two listings
  join the group's name.
\<close>

definition validateWatch :: "watch_folder \<Rightarrow> db_error + watch_folder" where
  "validateWatch w =
     (let p = trim_space (w_Path w)
      in if p = [] then Inl PathRequired
         else if \<not> is_abs p then Inl (PathRelative p)
         else Inr (w\<lparr>w_Path := path_clean p\<rparr>))"

definition CreateWatch :: "time \<Rightarrow> watch_folder \<Rightarrow> db \<Rightarrow> db_error + (db \<times> watch_folder)" where
  "CreateWatch now w0 d =
     (case validateWatch w0 of
        Inl e \<Rightarrow> Inl e
      | Inr w \<Rightarrow>
          if \<not> fk_ok d (w_GroupID w) then Inl ForeignKeyViolation
          else (case tbl_insert w_Path
                  (\<lambda>i. w_with_id i (w\<lparr>w_CreatedAt := now, w_UpdatedAt := now\<rparr>)) (watches d) of
                  None \<Rightarrow> Inl UniqueViolation
                | Some (t, i) \<Rightarrow>
                    Inr (d\<lparr>watches := t\<rparr>, w\<lparr>w_ID := i, w_CreatedAt := now, w_UpdatedAt := now\<rparr>)))"

definition set_watch_columns :: "time \<Rightarrow> watch_folder \<Rightarrow> watch_folder \<Rightarrow> watch_folder" where
  "set_watch_columns now w r =
     r\<lparr>w_Path := w_Path w, w_GroupID := w_GroupID w, w_Enabled := w_Enabled w, w_UpdatedAt := now\<rparr>"

text \<open>The foreign key is checked only when a row is written.\<close>

definition UpdateWatch :: "time \<Rightarrow> watch_folder \<Rightarrow> db \<Rightarrow> db_error + (db \<times> watch_folder)" where
  "UpdateWatch now w0 d =
     (if w_ID w0 = 0 then Inl IdRequired
      else case validateWatch w0 of
        Inl e \<Rightarrow> Inl e
      | Inr w \<Rightarrow>
          if w_ID w \<notin> w_ID ` set (rows (watches d)) then Inl NotFound
          else if \<not> fk_ok d (w_GroupID w) then Inl ForeignKeyViolation
          else (case tbl_update w_Path (\<lambda>r. w_ID r = w_ID w) (set_watch_columns now w) (watches d) of
                  None \<Rightarrow> Inl UniqueViolation
                | Some (t, n) \<Rightarrow> Inr (d\<lparr>watches := t\<rparr>, w\<lparr>w_UpdatedAt := now\<rparr>)))"

definition DeleteWatch :: "int \<Rightarrow> db \<Rightarrow> db_error + db" where
  "DeleteWatch i d =
     (let (t, n) = tbl_delete (\<lambda>w. w_ID w = i) (watches d)
      in if n = 0 then Inl NotFound else Inr (d\<lparr>watches := t\<rparr>))"

text \<open>The name a \<open>LEFT JOIN\<close> (\<open>COALESCE(g.name, '')\<close>) and a \<open>JOIN\<close> give for a watch.\<close>

definition joined_name :: "db \<Rightarrow> watch_folder \<Rightarrow> go_string option" where
  "joined_name d w =
     (case w_GroupID w of
        None \<Rightarrow> None
      | Some i \<Rightarrow> map_option g_Name (tbl_find (\<lambda>g. g_ID g = i) (groups d)))"

definition ListWatches :: "db \<Rightarrow> (watch_folder \<times> go_string) list" where
  "ListWatches d =
     map (\<lambda>w. (w, case joined_name d w of None \<Rightarrow> [] | Some n \<Rightarrow> n)) (sort_key w_Path (rows (watches d)))"

definition ListActiveWatches :: "db \<Rightarrow> (watch_folder \<times> go_string) list" where
  "ListActiveWatches d =
     List.map_filter (\<lambda>w. map_option (\<lambda>n. (w, n)) (joined_name d w))
       (sort_key w_ID (filter w_Enabled (rows (watches d))))"

subsection \<open>Facts\<close>

lemma path_clean_abs: "is_abs p \<Longrightarrow> is_abs (path_clean p)"
  by (auto simp: path_clean_def is_abs_def has_prefix_def Let_def)

lemma validateWatch_Inr:
  "validateWatch w0 = Inr w \<Longrightarrow> valid_watch w \<and> w_GroupID w = w_GroupID w0 \<and> w_ID w = w_ID w0"
  by (auto simp: validateWatch_def valid_watch_def Let_def path_clean_abs split: if_splits)

lemma valid_watch_stamps [simp]:
  "valid_watch (w\<lparr>w_CreatedAt := a\<rparr>) = valid_watch w" "valid_watch (w\<lparr>w_UpdatedAt := b\<rparr>) = valid_watch w"
  "valid_watch (w_with_id i w) = valid_watch w"
  by (simp_all add: valid_watch_def)

lemma db_wf_watches:
  assumes "db_wf d" "tbl_wf w_ID w_Path t"
    and "\<forall>w\<in>set (rows t). valid_watch w \<and> fk_ok d (w_GroupID w)"
  shows "db_wf (d\<lparr>watches := t\<rparr>)"
proof -
  have "fk_ok (d\<lparr>watches := t\<rparr>) = fk_ok d" by (rule fk_ok_groups) (simp add: group_ids_def)
  with assms show ?thesis by (simp add: db_wf_def)
qed

lemma CreateWatch_wf [inv_intros]:
  assumes "db_wf d" "CreateWatch now w0 d = Inr (d', w')"
  shows "db_wf d'"
proof -
  from assms(2) obtain w t i where v: "validateWatch w0 = Inr w" and fk: "fk_ok d (w_GroupID w)"
    and ins: "tbl_insert w_Path (\<lambda>i. w_with_id i (w\<lparr>w_CreatedAt := now, w_UpdatedAt := now\<rparr>))
      (watches d) = Some (t, i)" and d': "d' = d\<lparr>watches := t\<rparr>"
    by (auto simp: CreateWatch_def split: sum.splits option.splits if_splits)
  from assms(1) have wf: "tbl_wf w_ID w_Path (watches d)" by (simp add: db_wf_def)
  have "\<forall>w\<in>set (rows t). valid_watch w \<and> fk_ok d (w_GroupID w)"
    using ins assms(1) validateWatch_Inr [OF v] fk by (auto simp: tbl_insert_Some_iff db_wf_def)
  with wt.insert_wf [OF wf ins] db_wf_watches [OF assms(1)] d' show ?thesis by simp
qed

lemma UpdateWatch_wf [inv_intros]:
  assumes "db_wf d" "UpdateWatch now w0 d = Inr (d', w')"
  shows "db_wf d'"
proof -
  from assms(2) obtain w t n where v: "validateWatch w0 = Inr w" and fk: "fk_ok d (w_GroupID w)"
    and upd: "tbl_update w_Path (\<lambda>r. w_ID r = w_ID w) (set_watch_columns now w) (watches d) = Some (t, n)"
    and d': "d' = d\<lparr>watches := t\<rparr>"
    by (auto simp: UpdateWatch_def split: sum.splits option.splits if_splits)
  from assms(1) have wf: "tbl_wf w_ID w_Path (watches d)" by (simp add: db_wf_def)
  have "\<forall>w\<in>set (rows t). valid_watch w \<and> fk_ok d (w_GroupID w)"
    using upd assms(1) validateWatch_Inr [OF v] fk
    by (auto simp: tbl_update_Some_iff db_wf_def set_watch_columns_def valid_watch_def)
  moreover have "tbl_wf w_ID w_Path t"
    using wf upd by (rule wt.update_wf) (simp add: set_watch_columns_def)
  ultimately show ?thesis using db_wf_watches [OF assms(1)] d' by simp
qed

lemma DeleteWatch_wf [inv_intros]:
  assumes "db_wf d" "DeleteWatch i d = Inr d'"
  shows "db_wf d'"
proof -
  let ?t = "fst (tbl_delete (\<lambda>w. w_ID w = i) (watches d))"
  have "tbl_wf w_ID w_Path ?t" using assms(1) by (simp add: db_wf_def wt.delete_wf)
  moreover have "\<forall>w\<in>set (rows ?t). valid_watch w \<and> fk_ok d (w_GroupID w)"
    using assms(1) by (auto simp: tbl_delete_def db_wf_def)
  moreover have "d' = d\<lparr>watches := ?t\<rparr>"
    using assms(2) by (auto simp: DeleteWatch_def split: prod.splits if_splits)
  ultimately show ?thesis using db_wf_watches [OF assms(1)] by simp
qed

text \<open>
  The watcher sees exactly the enabled folders that still have a group, each with that
  group's current name: in a well-formed database, a folder of \<open>ListActiveWatches\<close> is an enabled
  row whose group exists, and every enabled row with a group is in the list.
\<close>

theorem ListActiveWatches_exact:
  assumes "db_wf d"
  shows "(w, n) \<in> set (ListActiveWatches d) \<longleftrightarrow>
    w \<in> set (rows (watches d)) \<and> w_Enabled w \<and>
    (\<exists>g\<in>set (rows (groups d)). w_GroupID w = Some (g_ID g) \<and> g_Name g = n)"
proof -
  have wf: "tbl_wf g_ID g_Name (groups d)" using assms by (simp add: db_wf_def)
  have "joined_name d w = Some n \<longleftrightarrow>
      (\<exists>g\<in>set (rows (groups d)). w_GroupID w = Some (g_ID g) \<and> g_Name g = n)"
    using gt.find_id_iff [OF wf] by (fastforce simp: joined_name_def split: option.splits)
  then show ?thesis by (auto simp: ListActiveWatches_def in_map_filter)
qed

definition anime_watch :: watch_folder where
  "anime_watch = \<lparr>w_ID = 0, w_Path = '' /data/anime/ '', w_GroupID = Some 1, w_Enabled = True,
     w_CreatedAt = 0, w_UpdatedAt = 0\<rparr>"

definition watch_db :: db where
  "watch_db = (case CreateWatch 6 anime_watch anime_db of Inr (d, w) \<Rightarrow> d | Inl e \<Rightarrow> anime_db)"

lemma watch_db_wf: "db_wf watch_db"
  using CreateWatch_wf [OF anime_db_wf] by (auto simp: watch_db_def anime_db_wf split: sum.splits)

theorem ListActiveWatches_exact_witness:
  "(hd (rows (watches watch_db)), ''anime'') \<in> set (ListActiveWatches watch_db)"
  by (simp only: ListActiveWatches_exact [OF watch_db_wf]) code_simp

end
