(* ===== verification/Job_Store.thy ===== *)
theory Job_Store
  imports Watch_Store
begin

text \<open>
  Offline jobs: \<open>src/storage/jobs.go\<close>. Creation, the claim of the oldest queued job, the updates
  of a running job, retry, recovery after a crash, and the listings.
\<close>

text \<open>
  \<open>CreateOfflineJob\<close>; an empty status (\<open>None\<close>) becomes \<open>queued\<close>, a zero creation time becomes
  \<open>now\<close>. The columns it does not name are \<open>NULL\<close>.
\<close>

definition new_job :: "time \<Rightarrow> job_status option \<Rightarrow> offline_job \<Rightarrow> offline_job" where
  "new_job now status j0 =
     j0\<lparr>j_Status := (case status of None \<Rightarrow> Queued | Some s \<Rightarrow> s),
        j_CreatedAt := (if is_zero_time (j_CreatedAt j0) then now else j_CreatedAt j0)\<rparr>"

definition inserted_row :: "offline_job \<Rightarrow> offline_job" where
  "inserted_row j =
     j\<lparr>j_Error := None, j_NzbPath := None, j_Password := None, j_StartedAt := None, j_CompletedAt := None\<rparr>"

definition CreateOfflineJob ::
  "time \<Rightarrow> job_status option \<Rightarrow> offline_job \<Rightarrow> db \<Rightarrow> db_error + (db \<times> offline_job)" where
  "CreateOfflineJob now status j0 d =
     (let j = new_job now status j0
      in if \<not> fk_ok d (j_GroupID j) then Inl ForeignKeyViolation
         else case tbl_insert j_SourcePath (\<lambda>i. j_with_id i (inserted_row j)) (jobs_tbl d) of
           None \<Rightarrow> Inl UniqueViolation
         | Some (t, i) \<Rightarrow> Inr (d\<lparr>jobs_tbl := t\<rparr>, j\<lparr>j_ID := i\<rparr>))"

text \<open>\<open>UPDATE offline_jobs ... WHERE p\<close>; these updates never write \<open>source_path\<close>.\<close>

definition upd_jobs :: "(offline_job \<Rightarrow> bool) \<Rightarrow> (offline_job \<Rightarrow> offline_job) \<Rightarrow> db \<Rightarrow> db" where
  "upd_jobs p f d =
     d\<lparr>jobs_tbl := jobs_tbl d\<lparr>rows := map (\<lambda>j. if p j then f j else j) (rows (jobs_tbl d))\<rparr>\<rparr>"

text \<open>\<open>ORDER BY created_at ASC LIMIT 1\<close>: of equal times the row inserted first.\<close>

definition oldest_queued :: "db \<Rightarrow> offline_job option" where
  "oldest_queued d =
     (case filter (\<lambda>j. j_Status j = Queued) (rows (jobs_tbl d)) of
        [] \<Rightarrow> None
      | qs \<Rightarrow> Some (arg_min_list j_CreatedAt qs))"

text \<open>\<open>WHERE status = 'processing' ORDER BY started_at DESC LIMIT 1\<close> (\<open>NULL\<close> sorts last).\<close>

definition latest_started :: "db \<Rightarrow> offline_job option" where
  "latest_started d =
     (let ps = filter (\<lambda>j. j_Status j = Processing) (rows (jobs_tbl d));
          ss = filter (\<lambda>j. j_StartedAt j \<noteq> None) ps
      in case ss of
           [] \<Rightarrow> (case ps of [] \<Rightarrow> None | j # js \<Rightarrow> Some j)
         | _ \<Rightarrow> Some (arg_min_list (\<lambda>j. - the (j_StartedAt j)) ss))"

definition claim_row :: "time \<Rightarrow> offline_job \<Rightarrow> offline_job" where
  "claim_row now j = j\<lparr>j_Status := Processing, j_StartedAt := Some now, j_Phase := ''starting''\<rparr>"

text \<open>The result is the database and the job returned (\<open>None\<close>: nothing was waiting).\<close>

definition ClaimNextJob :: "time \<Rightarrow> db \<Rightarrow> db \<times> offline_job option" where
  "ClaimNextJob now d =
     (case oldest_queued d of
        None \<Rightarrow> (d, None)
      | Some q \<Rightarrow>
          (let d' = upd_jobs (\<lambda>j. j_ID j = j_ID q) (claim_row now) d in (d', latest_started d')))"

definition SourcePathExists :: "go_string \<Rightarrow> db \<Rightarrow> bool" where
  "SourcePathExists path d \<longleftrightarrow> 0 < length (filter (\<lambda>j. j_SourcePath j = path) (rows (jobs_tbl d)))"

definition UpdateJobPhase :: "int \<Rightarrow> go_string \<Rightarrow> rat \<Rightarrow> db \<Rightarrow> db" where
  "UpdateJobPhase i phase progress d =
     upd_jobs (\<lambda>j. j_ID j = i) (\<lambda>j. j\<lparr>j_Phase := phase, j_Progress := progress\<rparr>) d"

definition MarkJobCompleted :: "time \<Rightarrow> int \<Rightarrow> go_string \<Rightarrow> go_string \<Rightarrow> db \<Rightarrow> db" where
  "MarkJobCompleted now i nzbPath password d =
     upd_jobs (\<lambda>j. j_ID j = i)
       (\<lambda>j. j\<lparr>j_Status := Completed, j_Phase := ''done'', j_Progress := 100,
             j_NzbPath := Some nzbPath, j_Password := Some password, j_CompletedAt := Some now\<rparr>) d"

definition MarkJobFailed :: "time \<Rightarrow> int \<Rightarrow> go_string \<Rightarrow> db \<Rightarrow> db" where
  "MarkJobFailed now i errMsg d =
     upd_jobs (\<lambda>j. j_ID j = i)
       (\<lambda>j. j\<lparr>j_Status := Failed, j_Error := Some errMsg, j_CompletedAt := Some now\<rparr>) d"

definition reset_row :: "offline_job \<Rightarrow> offline_job" where
  "reset_row j =
     j\<lparr>j_Status := Queued, j_Phase := [], j_Progress := 0, j_Error := None, j_NzbPath := None,
       j_StartedAt := None, j_CompletedAt := None\<rparr>"

definition ResetQueuedJob :: "int \<Rightarrow> db \<Rightarrow> db_error + db" where
  "ResetQueuedJob i d =
     (if i \<notin> j_ID ` set (rows (jobs_tbl d)) then Inl NotFound
      else Inr (upd_jobs (\<lambda>j. j_ID j = i) reset_row d))"

definition requeue_row :: "offline_job \<Rightarrow> offline_job" where
  "requeue_row j = j\<lparr>j_Status := Queued, j_Phase := [], j_Progress := 0, j_StartedAt := None\<rparr>"

definition RequeueStuckJobs :: "db \<Rightarrow> db \<times> nat" where
  "RequeueStuckJobs d =
     (upd_jobs (\<lambda>j. j_Status j = Processing) requeue_row d,
      length (filter (\<lambda>j. j_Status j = Processing) (rows (jobs_tbl d))))"

definition DeleteJob :: "int \<Rightarrow> db \<Rightarrow> db_error + db" where
  "DeleteJob i d =
     (let (t, n) = tbl_delete (\<lambda>j. j_ID j = i) (jobs_tbl d)
      in if n = 0 then Inl NotFound else Inr (d\<lparr>jobs_tbl := t\<rparr>))"

definition CountJobsByStatus :: "db \<Rightarrow> job_status \<Rightarrow> nat" where
  "CountJobsByStatus d s = length (filter (\<lambda>j. j_Status j = s) (rows (jobs_tbl d)))"

definition ListOfflineJobs :: "int \<Rightarrow> db \<Rightarrow> offline_job list" where
  "ListOfflineJobs limit d =
     (let n = (if limit \<le> 0 then 100 else limit)
      in take (nat n) (sort_key (\<lambda>j. - j_CreatedAt j) (rows (jobs_tbl d))))"

subsection \<open>Well-formedness\<close>

lemma db_wf_jobs:
  assumes "db_wf d" "tbl_wf j_ID j_SourcePath t" "\<forall>j\<in>set (rows t). fk_ok d (j_GroupID j)"
  shows "db_wf (d\<lparr>jobs_tbl := t\<rparr>)"
proof -
  have "fk_ok (d\<lparr>jobs_tbl := t\<rparr>) = fk_ok d" by (rule fk_ok_groups) (simp add: group_ids_def)
  with assms show ?thesis by (simp add: db_wf_def)
qed

lemma upd_jobs_wf:
  assumes "db_wf d"
    and "\<And>j. j_ID (f j) = j_ID j \<and> j_SourcePath (f j) = j_SourcePath j \<and> j_GroupID (f j) = j_GroupID j"
  shows "db_wf (upd_jobs p f d)"
proof -
  from assms(1) have wf: "tbl_wf j_ID j_SourcePath (jobs_tbl d)" by (simp add: db_wf_def)
  have "tbl_update j_SourcePath p f (jobs_tbl d) =
      Some (jobs_tbl (upd_jobs p f d), length (filter p (rows (jobs_tbl d))))"
    using jt.update_keeps_key [OF wf] assms(2) by (simp add: upd_jobs_def)
  with wf assms(2) have "tbl_wf j_ID j_SourcePath (jobs_tbl (upd_jobs p f d))"
    by (blast intro: jt.update_wf)
  moreover have "\<forall>j\<in>set (rows (jobs_tbl (upd_jobs p f d))). fk_ok d (j_GroupID j)"
    using assms by (auto simp: upd_jobs_def db_wf_def)
  ultimately show ?thesis
    using db_wf_jobs [OF assms(1), of "jobs_tbl (upd_jobs p f d)"] by (simp add: upd_jobs_def)
qed

lemma CreateOfflineJob_wf [inv_intros]:
  assumes "db_wf d" "CreateOfflineJob now s j0 d = Inr (d', j')"
  shows "db_wf d'"
proof -
  let ?j = "inserted_row (new_job now s j0)"
  from assms(2) obtain t i where fk: "fk_ok d (j_GroupID ?j)"
    and ins: "tbl_insert j_SourcePath (\<lambda>i. j_with_id i ?j) (jobs_tbl d) = Some (t, i)"
    and d': "d' = d\<lparr>jobs_tbl := t\<rparr>"
    by (auto simp: CreateOfflineJob_def Let_def inserted_row_def split: option.splits if_splits)
  from assms(1) have wf: "tbl_wf j_ID j_SourcePath (jobs_tbl d)" by (simp add: db_wf_def)
  have "\<forall>j\<in>set (rows t). fk_ok d (j_GroupID j)"
    using ins assms(1) fk by (auto simp: tbl_insert_Some_iff db_wf_def)
  with jt.insert_wf [OF wf ins] db_wf_jobs [OF assms(1)] d' show ?thesis by simp
qed

lemma DeleteJob_wf [inv_intros]:
  assumes "db_wf d" "DeleteJob i d = Inr d'"
  shows "db_wf d'"
proof -
  let ?t = "fst (tbl_delete (\<lambda>j. j_ID j = i) (jobs_tbl d))"
  have "tbl_wf j_ID j_SourcePath ?t" using assms(1) by (simp add: db_wf_def jt.delete_wf)
  moreover have "\<forall>j\<in>set (rows ?t). fk_ok d (j_GroupID j)"
    using assms(1) by (auto simp: tbl_delete_def db_wf_def)
  moreover have "d' = d\<lparr>jobs_tbl := ?t\<rparr>"
    using assms(2) by (auto simp: DeleteJob_def split: prod.splits if_splits)
  ultimately show ?thesis using db_wf_jobs [OF assms(1)] by simp
qed

lemma job_updates_wf [inv_intros]:
  assumes "db_wf d"
  shows "db_wf (fst (ClaimNextJob now d))" "db_wf (UpdateJobPhase i ph pr d)"
    "db_wf (MarkJobCompleted now i nzb pw d)" "db_wf (MarkJobFailed now i e d)"
    "db_wf (fst (RequeueStuckJobs d))" "ResetQueuedJob i d = Inr d' \<Longrightarrow> db_wf d'"
proof -
  show "db_wf (fst (ClaimNextJob now d))"
    using assms
    by (auto simp: ClaimNextJob_def claim_row_def Let_def split: option.splits intro!: upd_jobs_wf)
  show "ResetQueuedJob i d = Inr d' \<Longrightarrow> db_wf d'"
    using assms by (auto simp: ResetQueuedJob_def reset_row_def split: if_splits intro!: upd_jobs_wf)
qed (simp_all add: assms UpdateJobPhase_def MarkJobCompleted_def MarkJobFailed_def
    RequeueStuckJobs_def requeue_row_def upd_jobs_wf)

subsection \<open>Claiming\<close>

lemma oldest_queued_Some:
  assumes "oldest_queued d = Some q"
  shows "q \<in> set (rows (jobs_tbl d)) \<and> j_Status q = Queued \<and>
    (\<forall>j\<in>set (rows (jobs_tbl d)). j_Status j = Queued \<longrightarrow> j_CreatedAt q \<le> j_CreatedAt j)"
proof -
  let ?qs = "filter (\<lambda>j. j_Status j = Queued) (rows (jobs_tbl d))"
  from assms have "?qs \<noteq> []" "q = arg_min_list j_CreatedAt ?qs"
    by (auto simp: oldest_queued_def split: list.splits)
  with arg_min_list_in [of ?qs j_CreatedAt] f_arg_min_list_f [of ?qs j_CreatedAt]
  show ?thesis by (auto simp del: filter_set)
qed

lemma oldest_queued_None_iff:
  "oldest_queued d = None \<longleftrightarrow> (\<forall>j\<in>set (rows (jobs_tbl d)). j_Status j \<noteq> Queued)"
proof -
  have "oldest_queued d = None \<longleftrightarrow> filter (\<lambda>j. j_Status j = Queued) (rows (jobs_tbl d)) = []"
    by (simp add: oldest_queued_def split: list.splits)
  then show ?thesis by (simp add: filter_empty_conv)
qed

lemma latest_started_unique:
  assumes "j \<in> set (rows (jobs_tbl d))" "j_Status j = Processing" "j_StartedAt j = Some now"
    and "\<forall>x\<in>set (rows (jobs_tbl d)). x \<noteq> j \<and> j_Status x = Processing \<longrightarrow>
      (\<forall>t. j_StartedAt x = Some t \<longrightarrow> t < now)"
  shows "latest_started d = Some j"
proof -
  let ?f = "\<lambda>j. - the (j_StartedAt j)"
  let ?ss = "filter (\<lambda>j. j_StartedAt j \<noteq> None)
    (filter (\<lambda>j. j_Status j = Processing) (rows (jobs_tbl d)))"
  let ?m = "arg_min_list ?f ?ss"
  have j: "j \<in> set ?ss" using assms by simp
  then have ne: "?ss \<noteq> []" by (metis empty_iff empty_set)
  then have m: "?m \<in> set ?ss" by (rule arg_min_list_in)
  then obtain t where t: "j_StartedAt ?m = Some t" by auto
  have "?f ?m \<le> ?f j"
    using f_arg_min_list_f [OF ne, of ?f] j by (auto simp del: set_filter)
  with t assms(3) have "now \<le> t" by simp
  with assms(4) m t have "?m = j" by fastforce
  with ne show ?thesis by (auto simp: latest_started_def Let_def split: list.splits)
qed

text \<open>
  Claiming a job. Nothing is returned, and nothing changed, exactly when no job is queued.
  Otherwise, provided every job already being processed was started before \<open>now\<close> (what the code
  relies on), the job returned is the one claimed: it was queued, no queued job is older, it is
  now processing since \<open>now\<close>, and every other row is unchanged.
\<close>

theorem ClaimNextJob_contract:
  assumes "db_wf d" "ClaimNextJob now d = (d', r)"
    and "\<forall>j\<in>set (rows (jobs_tbl d)). j_Status j = Processing \<longrightarrow> (\<exists>t<now. j_StartedAt j = Some t)"
  shows "case r of
      None \<Rightarrow> d' = d \<and> (\<forall>j\<in>set (rows (jobs_tbl d)). j_Status j \<noteq> Queued)
    | Some j \<Rightarrow>
        (\<exists>q\<in>set (rows (jobs_tbl d)). j_Status q = Queued \<and> j = claim_row now q \<and>
           (\<forall>x\<in>set (rows (jobs_tbl d)). j_Status x = Queued \<longrightarrow> j_CreatedAt q \<le> j_CreatedAt x) \<and>
           rows (jobs_tbl d') = map (\<lambda>x. if x = q then j else x) (rows (jobs_tbl d)))"
proof (cases "oldest_queued d")
  case None
  with assms(2) show ?thesis by (auto simp: ClaimNextJob_def oldest_queued_None_iff)
next
  case (Some q)
  note q = oldest_queued_Some [OF Some]
  have wf: "tbl_wf j_ID j_SourcePath (jobs_tbl d)" using assms(1) by (simp add: db_wf_def)
  have same: "j_ID x = j_ID q \<longleftrightarrow> x = q" if "x \<in> set (rows (jobs_tbl d))" for x
    using jt.id_unique [OF wf that, of q] q by auto
  from Some assms(2) have d': "d' = upd_jobs (\<lambda>j. j_ID j = j_ID q) (claim_row now) d"
    and r: "r = latest_started d'" by (auto simp: ClaimNextJob_def Let_def)
  have rows': "rows (jobs_tbl d') = map (\<lambda>x. if x = q then claim_row now q else x) (rows (jobs_tbl d))"
    using same by (auto simp: d' upd_jobs_def)
  have "r = Some (claim_row now q)"
    unfolding r
  proof (rule latest_started_unique)
    show "claim_row now q \<in> set (rows (jobs_tbl d'))" using q rows' by auto
    show "\<forall>x\<in>set (rows (jobs_tbl d')). x \<noteq> claim_row now q \<and> j_Status x = Processing \<longrightarrow>
        (\<forall>t. j_StartedAt x = Some t \<longrightarrow> t < now)"
      using assms(3) rows' by (fastforce split: if_splits)
  qed (simp_all add: claim_row_def)
  with q rows' show ?thesis by auto
qed

definition new_anime_job :: offline_job where
  "new_anime_job = \<lparr>j_ID = 0, j_SourcePath = ''/data/anime/a.mkv'', j_Title = ''a'', j_GroupID = Some 1,
     j_GroupName = ''anime'', j_Status = Completed, j_Phase = [], j_Progress = 0, j_Error = None,
     j_NzbPath = None, j_Password = None, j_CreatedAt = 7, j_StartedAt = None, j_CompletedAt = None\<rparr>"

definition job_db :: db where
  "job_db = (case CreateOfflineJob 8 None new_anime_job watch_db of Inr (d, j) \<Rightarrow> d | Inl e \<Rightarrow> watch_db)"

lemma job_db_wf: "db_wf job_db"
  using CreateOfflineJob_wf [OF watch_db_wf] by (auto simp: job_db_def watch_db_wf split: sum.splits)

lemma job_db_rows:
  "list_all (\<lambda>j. j_Status j \<noteq> Processing) (rows (jobs_tbl job_db))"
  "snd (ClaimNextJob 9 job_db) \<noteq> None"
  by code_simp+

theorem ClaimNextJob_contract_witness:
  "\<exists>j. snd (ClaimNextJob 9 job_db) = Some j \<and>
     (\<exists>q\<in>set (rows (jobs_tbl job_db)). j_Status q = Queued \<and> j = claim_row 9 q)"
proof -
  have "\<forall>j\<in>set (rows (jobs_tbl job_db)). j_Status j = Processing \<longrightarrow> (\<exists>t<9. j_StartedAt j = Some t)"
    using job_db_rows(1) by (simp add: list_all_iff)
  from ClaimNextJob_contract [OF job_db_wf prod.collapse [symmetric] this] job_db_rows(2)
  show ?thesis by (auto split: option.splits)
qed

text \<open>
  Recovery after a crash. \<open>RequeueStuckJobs\<close> leaves no job processing: the jobs that were
  are queued again (and counted), with their phase, progress and start time cleared, finished
  and waiting jobs are untouched, and nothing else of any row changes.
\<close>

theorem RequeueStuckJobs_recovers:
  "case RequeueStuckJobs d of (d', n) \<Rightarrow>
     CountJobsByStatus d' Processing = 0 \<and>
     CountJobsByStatus d' Queued = CountJobsByStatus d Queued + n \<and>
     n = CountJobsByStatus d Processing \<and>
     groups d' = groups d \<and> watches d' = watches d \<and>
     rows (jobs_tbl d') =
       map (\<lambda>j. if j_Status j = Processing then requeue_row j else j) (rows (jobs_tbl d))"
proof -
  have st: "j_Status (requeue_row j) = Queued" for j by (simp add: requeue_row_def)
  have "length (filter (\<lambda>j. j_Status j = Queued)
        (map (\<lambda>j. if j_Status j = Processing then requeue_row j else j) xs)) =
      length (filter (\<lambda>j. j_Status j = Queued) xs) + length (filter (\<lambda>j. j_Status j = Processing) xs)"
    for xs by (induction xs) (auto simp: st)
  moreover have "filter (\<lambda>j. j_Status j = Processing)
      (map (\<lambda>j. if j_Status j = Processing then requeue_row j else j) xs) = []" for xs
    by (induction xs) (auto simp: st)
  ultimately show ?thesis
    by (simp add: RequeueStuckJobs_def upd_jobs_def CountJobsByStatus_def)
qed

text \<open>
  A retry is not limited to failed and completed jobs: a job that is being processed goes back
  to the queue as well, where it can be claimed a second time, and the password of the earlier
  run stays in the row.
\<close>

lemma ResetQueuedJob_any_status:
  assumes "db_wf d" "j \<in> set (rows (jobs_tbl d))"
  shows "\<exists>d'. ResetQueuedJob (j_ID j) d = Inr d' \<and> reset_row j \<in> set (rows (jobs_tbl d')) \<and>
    j_Status (reset_row j) = Queued \<and> j_Password (reset_row j) = j_Password j"
  using assms by (auto simp: ResetQueuedJob_def upd_jobs_def reset_row_def)

end
