(* ===== verification/Site_Sync.thy ===== *)
theory Site_Sync
  imports Job_Store
begin

text \<open>
  The sync of the site's catalog of posting groups: the body of \<open>runOnce\<close> in
  \<open>src/services/site_groups_sync.go\<close>, over the operations of the group store, and the database as
  a whole: every sequence of its operations keeps it well-formed.
\<close>

record sync_state =
  lastVersion :: int
  doFullSync :: bool

record groups_response =
  resp_Groups :: "group list"
  resp_MaxVersion :: int

definition initial_sync :: sync_state where
  "initial_sync = \<lparr>lastVersion = 0, doFullSync = True\<rparr>"

text \<open>The version asked for.\<close>

definition sync_since :: "sync_state \<Rightarrow> int" where
  "sync_since st = (if doFullSync st then 0 else lastVersion st)"

text \<open>The group built from one catalog entry: no id, no source, no times.\<close>

definition from_site :: "group \<Rightarrow> group" where
  "from_site sg = sg\<lparr>g_ID := 0, g_Source := [], g_CreatedAt := zero_time, g_UpdatedAt := zero_time\<rparr>"

text \<open>The loop over the catalog; an entry that fails is skipped. \<open>clock k\<close> is the time of the
  \<open>k\<close>-th write.\<close>

fun upsert_all :: "(nat \<Rightarrow> time) \<Rightarrow> nat \<Rightarrow> group list \<Rightarrow> db \<Rightarrow> db \<times> nat" where
  "upsert_all clock k [] d = (d, 0)"
| "upsert_all clock k (sg # sgs) d =
     (case UpsertSiteGroup (clock k) (from_site sg) d of
        Inl e \<Rightarrow> upsert_all clock (Suc k) sgs d
      | Inr (d1, ok, g) \<Rightarrow>
          (let (d2, n) = upsert_all clock (Suc k) sgs d1 in (d2, if ok then Suc n else n)))"

text \<open>One pass; \<open>None\<close> is a fetch that failed (also in maintenance).\<close>

definition runOnce ::
  "(nat \<Rightarrow> time) \<Rightarrow> groups_response option \<Rightarrow> sync_state \<Rightarrow> db \<Rightarrow> sync_state \<times> db" where
  "runOnce clock resp st d =
     (case resp of
        None \<Rightarrow> (st, d)
      | Some r \<Rightarrow>
          (let d1 = fst (upsert_all clock 0 (resp_Groups r) d);
               live = g_Name ` set (resp_Groups r);
               d2 = (if doFullSync st then fst (ReconcileSiteGroups live d1) else d1)
           in (\<lparr>lastVersion = (if lastVersion st < resp_MaxVersion r then resp_MaxVersion r
                               else lastVersion st), doFullSync = False\<rparr>, d2)))"

text \<open>
  \<open>StartSiteGroupsSync\<close>: nothing without a database or a site; otherwise one pass at once and one per
  tick, each with what the site answers, until the context ends.
\<close>

definition siteGroupsPollInterval :: duration where
  "siteGroupsPollInterval = 5 * minute"

definition StartSiteGroupsSync ::
  "bool \<Rightarrow> ((nat \<Rightarrow> time) \<times> groups_response option) list \<Rightarrow> db option \<Rightarrow> db option" where
  "StartSiteGroupsSync has_site passes dbo =
     (case dbo of
        None \<Rightarrow> None
      | Some d \<Rightarrow>
          if \<not> has_site then Some d
          else Some (snd (fold (\<lambda>(clock, resp) (st, d). runOnce clock resp st d) passes (initial_sync, d))))"

subsection \<open>Reconciliation\<close>

lemma fold_drop_rows:
  "rows (groups (fold (\<lambda>i d. fst (drop_group i d)) is d)) =
     filter (\<lambda>r. g_ID r \<notin> set is) (rows (groups d))"
  by (induction "is" arbitrary: d)
    (auto simp: drop_group_def tbl_delete_def intro!: filter_cong)

lemma stale_ids_iff:
  assumes "db_wf d" "r \<in> set (rows (groups d))"
  shows "g_ID r \<in> set (stale_ids live d) \<longleftrightarrow> g_Source r = ''site'' \<and> g_Name r \<notin> live"
proof -
  have "tbl_wf g_ID g_Name (groups d)" using assms by (simp add: db_wf_def)
  from gt.id_unique [OF this assms(2)] assms(2) show ?thesis by (auto simp: stale_ids_def)
qed

lemma ReconcileSiteGroups_rows:
  assumes "db_wf d"
  shows "rows (groups (fst (ReconcileSiteGroups live d))) =
    filter (\<lambda>r. g_Source r = ''site'' \<longrightarrow> g_Name r \<in> live) (rows (groups d))"
  using stale_ids_iff [OF assms]
  by (auto simp: ReconcileSiteGroups_def fold_drop_rows intro!: filter_cong)

subsection \<open>The catalog loop\<close>

lemma UpsertSiteGroup_names:
  assumes "UpsertSiteGroup now g0 d = Inr (d', u, g')"
  shows "g_Name ` set (rows (groups d)) \<subseteq> g_Name ` set (rows (groups d'))"
    and "trim_space (g_Name g0) \<in> g_Name ` set (rows (groups d'))"
proof -
  have "g_Name ` set (rows (groups d)) \<subseteq> g_Name ` set (rows (groups d')) \<and>
    trim_space (g_Name g0) \<in> g_Name ` set (rows (groups d'))"
    using assms
  proof (cases rule: UpsertSiteGroup_cases)
    case (inserted g t i)
    with validate_site [OF inserted(1)] show ?thesis by (auto simp: tbl_insert_Some_iff)
  next
    case (skipped g r)
    with validate_site [OF skipped(1)] show ?thesis
      by (auto simp: tbl_find_def intro: rev_image_eqI dest!: find_Some_in)
  next
    case (updated g r t n)
    have "set (map g_Name (rows (groups d'))) = set (map g_Name (rows (groups d)))"
      using updated(5,6) by (intro arg_cong [of _ _ set]) (auto simp: tbl_update_Some_iff)
    then have "g_Name ` set (rows (groups d')) = g_Name ` set (rows (groups d))" by simp
    with validate_site [OF updated(1)] updated(2) show ?thesis
      by (auto simp: tbl_find_def intro: rev_image_eqI dest!: find_Some_in)
  qed
  then show "g_Name ` set (rows (groups d)) \<subseteq> g_Name ` set (rows (groups d'))"
    "trim_space (g_Name g0) \<in> g_Name ` set (rows (groups d'))" by auto
qed

lemma fst_upsert_all:
  "fst (upsert_all clock k (sg # sgs) d) =
     (case UpsertSiteGroup (clock k) (from_site sg) d of
        Inl e \<Rightarrow> fst (upsert_all clock (Suc k) sgs d)
      | Inr (d1, ok, g) \<Rightarrow> fst (upsert_all clock (Suc k) sgs d1))"
  by (auto split: sum.splits prod.splits)

definition accepted :: "group \<Rightarrow> bool" where
  "accepted sg \<longleftrightarrow> \<not> isl (validateGroup ((from_site sg)\<lparr>g_Source := ''site''\<rparr>))"

lemma upsert_accepted:
  assumes "db_wf d" "accepted sg"
  shows "\<not> isl (UpsertSiteGroup now (from_site sg) d)"
proof -
  from assms(2) obtain g where v: "validateGroup ((from_site sg)\<lparr>g_Source := ''site''\<rparr>) = Inr g"
    by (auto simp: accepted_def isl_def) (metis sum.exhaust)
  have wf: "tbl_wf g_ID g_Name (groups d)" using assms(1) by (simp add: db_wf_def)
  have "tbl_find (\<lambda>r. g_Name r = g_Name g) (groups d) = None \<Longrightarrow>
      tbl_insert g_Name (\<lambda>i. g_with_id i (g\<lparr>g_CreatedAt := now, g_UpdatedAt := now\<rparr>)) (groups d) \<noteq> None"
    unfolding gt.insert_fails_iff by (auto simp: tbl_find_def find_None_iff)
  then show ?thesis
    by (cases "tbl_find (\<lambda>r. g_Name r = g_Name g) (groups d)")
      (auto simp: UpsertSiteGroup_def v gt.update_keeps_key [OF wf])
qed

lemma upsert_all_facts:
  assumes "db_wf d"
  shows "db_wf (fst (upsert_all clock k gs d)) \<and>
    local_rows (fst (upsert_all clock k gs d)) = local_rows d \<and>
    g_Name ` set (rows (groups d)) \<subseteq> g_Name ` set (rows (groups (fst (upsert_all clock k gs d)))) \<and>
    (\<forall>sg\<in>set gs. accepted sg \<longrightarrow>
       trim_space (g_Name sg) \<in> g_Name ` set (rows (groups (fst (upsert_all clock k gs d)))))"
  using assms
proof (induction gs arbitrary: k d)
  case (Cons sg sgs)
  show ?case
  proof (cases "UpsertSiteGroup (clock k) (from_site sg) d")
    case (Inl e)
    with upsert_accepted [OF Cons.prems, of sg "clock k"] have "\<not> accepted sg" by auto
    with Inl Cons.IH [OF Cons.prems, of "Suc k"] show ?thesis by (simp only: fst_upsert_all) auto
  next
    case (Inr x)
    obtain d1 ok g where x: "x = (d1, ok, g)" by (cases x)
    note u = Inr [unfolded x]
    have eq: "fst (upsert_all clock k (sg # sgs) d) = fst (upsert_all clock (Suc k) sgs d1)"
      by (simp only: fst_upsert_all u sum.case prod.case)
    have "g_Name (from_site sg) = g_Name sg" by (simp add: from_site_def)
    with Cons.IH [OF UpsertSiteGroup_wf [OF Cons.prems u], of "Suc k"]
      UpsertSiteGroup_local [OF Cons.prems u] UpsertSiteGroup_names [OF u]
    show ?thesis unfolding eq by auto
  qed
qed simp

text \<open>
  C22. A full sync. Whatever catalog the site sends, into any well-formed database: the
  operator's own groups are untouched, every group that still comes from the site has its name
  in the catalog, and every acceptable entry whose name has no surrounding blanks is present
  afterwards (as the site's group, or as the operator's group of that name).
\<close>

theorem full_sync_contract:
  assumes "db_wf d" "doFullSync st"
  shows "case runOnce clock (Some r) st d of (st', d') \<Rightarrow>
    db_wf d' \<and> local_rows d' = local_rows d \<and> \<not> doFullSync st' \<and>
    lastVersion st \<le> lastVersion st' \<and> resp_MaxVersion r \<le> lastVersion st' \<and>
    (\<forall>g\<in>set (rows (groups d')). g_Source g = ''site'' \<longrightarrow> g_Name g \<in> g_Name ` set (resp_Groups r)) \<and>
    (\<forall>sg\<in>set (resp_Groups r). accepted sg \<and> trim_space (g_Name sg) = g_Name sg \<longrightarrow>
       g_Name sg \<in> g_Name ` set (rows (groups d')))"
proof -
  let ?d1 = "fst (upsert_all clock 0 (resp_Groups r) d)"
  let ?live = "g_Name ` set (resp_Groups r)"
  let ?d2 = "fst (ReconcileSiteGroups ?live ?d1)"
  note f = upsert_all_facts [OF assms(1), of clock 0 "resp_Groups r"]
  then have rows2: "rows (groups ?d2) =
      filter (\<lambda>g. g_Source g = ''site'' \<longrightarrow> g_Name g \<in> ?live) (rows (groups ?d1))"
    by (simp add: ReconcileSiteGroups_rows)
  have "local_rows ?d2 = local_rows ?d1"
    by (auto simp: local_rows_def rows2 intro!: filter_cong)
  moreover have "g_Name sg \<in> g_Name ` set (rows (groups ?d2))"
    if "sg \<in> set (resp_Groups r)" "accepted sg" "trim_space (g_Name sg) = g_Name sg" for sg
  proof -
    from f that obtain x where "x \<in> set (rows (groups ?d1))" "g_Name sg = g_Name x" by auto
    moreover have "g_Name x \<in> ?live" using that(1) \<open>g_Name sg = g_Name x\<close> by (metis image_eqI)
    ultimately have "x \<in> set (rows (groups ?d2))" by (simp add: rows2)
    with \<open>g_Name sg = g_Name x\<close> show ?thesis by (rule image_eqI)
  qed
  ultimately show ?thesis
    using f assms ReconcileSiteGroups_wf [of ?d1 ?live] rows2
    by (simp add: runOnce_def Let_def)
qed

theorem full_sync_contract_witness:
  "g_Name site_anime \<noteq> ''anime'' \<and>
   ''anime'' \<in> g_Name ` set (rows (groups (snd (runOnce (\<lambda>k. 5)
     (Some \<lparr>resp_Groups = [site_anime\<lparr>g_Name := ''anime''\<rparr>], resp_MaxVersion = 7\<rparr>)
     initial_sync empty_db))))"
proof -
  have "accepted (site_anime\<lparr>g_Name := ''anime''\<rparr>)" "trim_space ''anime'' = ''anime''"
    by code_simp+
  then show ?thesis
    using full_sync_contract [OF empty_db_wf, where st = initial_sync and clock = "\<lambda>k. 5"
        and r = "\<lparr>resp_Groups = [site_anime\<lparr>g_Name := ''anime''\<rparr>], resp_MaxVersion = 7\<rparr>"]
    by (simp add: initial_sync_def split: prod.splits) (simp add: site_anime_def)
qed

text \<open>
  The hypothesis on blanks is needed: the row is stored under the trimmed name, but the
  reconciliation compares it with the name as the site sent it, so a padded name is written and
  deleted again in the same pass.
\<close>

lemma padded_name_deleted:
  "rows (groups (fst (upsert_all (\<lambda>k. 5) 0 [site_anime] empty_db))) \<noteq> [] \<and>
   rows (groups (snd (runOnce (\<lambda>k. 5) (Some \<lparr>resp_Groups = [site_anime], resp_MaxVersion = 7\<rparr>)
     initial_sync empty_db))) = []"
  by code_simp

subsection \<open>The database as a whole\<close>

text \<open>One operation of the agent on its database; the arguments are arbitrary.\<close>

inductive db_step :: "db \<Rightarrow> db \<Rightarrow> bool" where
  create_group: "CreateGroup now g d = Inr (d', g') \<Longrightarrow> db_step d d'"
| update_group: "UpdateGroup now g d = Inr (d', g') \<Longrightarrow> db_step d d'"
| delete_group: "DeleteGroup i d = Inr d' \<Longrightarrow> db_step d d'"
| sync: "runOnce clock resp st d = (st', d') \<Longrightarrow> db_step d d'"
| create_watch: "CreateWatch now w d = Inr (d', w') \<Longrightarrow> db_step d d'"
| update_watch: "UpdateWatch now w d = Inr (d', w') \<Longrightarrow> db_step d d'"
| delete_watch: "DeleteWatch i d = Inr d' \<Longrightarrow> db_step d d'"
| create_job: "CreateOfflineJob now s j d = Inr (d', j') \<Longrightarrow> db_step d d'"
| claim: "ClaimNextJob now d = (d', r) \<Longrightarrow> db_step d d'"
| phase: "UpdateJobPhase i ph pr d = d' \<Longrightarrow> db_step d d'"
| completed: "MarkJobCompleted now i nzb pw d = d' \<Longrightarrow> db_step d d'"
| failed: "MarkJobFailed now i e d = d' \<Longrightarrow> db_step d d'"
| reset: "ResetQueuedJob i d = Inr d' \<Longrightarrow> db_step d d'"
| requeue: "RequeueStuckJobs d = (d', n) \<Longrightarrow> db_step d d'"
| delete_job: "DeleteJob i d = Inr d' \<Longrightarrow> db_step d d'"

inductive_cases db_stepE: "db_step d d'"

lemma runOnce_wf: "db_wf d \<Longrightarrow> runOnce clock resp st d = (st', d') \<Longrightarrow> db_wf d'"
  using upsert_all_facts ReconcileSiteGroups_wf
  by (auto simp: runOnce_def Let_def split: option.splits if_splits)

lemma sync_passes_wf:
  "db_wf d \<Longrightarrow> db_wf (snd (fold (\<lambda>(clock, resp) (st, d). runOnce clock resp st d) passes (st, d)))"
proof (induction passes arbitrary: st d)
  case (Cons p ps)
  obtain clock resp where p: "p = (clock, resp)" by (cases p)
  obtain st1 d1 where r: "runOnce clock resp st d = (st1, d1)" by fastforce
  from Cons.IH [OF runOnce_wf [OF Cons.prems r]] r show ?case by (simp add: p)
qed simp

lemma StartSiteGroupsSync_wf:
  "db_wf d \<Longrightarrow> StartSiteGroupsSync has_site passes (Some d) = Some d' \<Longrightarrow> db_wf d'"
  using sync_passes_wf by (auto simp: StartSiteGroupsSync_def split: if_splits)

lemma db_step_wf:
  assumes "db_step d d'" "db_wf d"
  shows "db_wf d'"
  using assms(1)
proof cases
  case (claim now r)
  with job_updates_wf(1) [OF assms(2), of now] show ?thesis by simp
next
  case (requeue n)
  with job_updates_wf(5) [OF assms(2)] show ?thesis by simp
qed (use assms(2) in \<open>auto intro: inv_intros runOnce_wf\<close>)

interpretation db_ops: step_invariant db_step db_wf
  by unfold_locales (rule db_step_wf)

text \<open>
  The database invariant. Starting from the empty database, after any sequence of
  operations of the agent (user interface, site sync, watcher, processor), whatever their
  arguments: ids and names, paths and source paths are unique, every stored group is valid, every
  watched path is absolute, and every group a watch folder or a job refers to exists.
\<close>

theorem db_reachable_wf: "db_step\<^sup>*\<^sup>* empty_db d \<Longrightarrow> db_wf d"
  using db_ops.inv_reach empty_db_wf by blast

theorem db_reachable_wf_witness: "db_wf (fst (RequeueStuckJobs anime_db))"
proof -
  have "case CreateGroup 5 site_anime empty_db of Inr x \<Rightarrow> True | Inl e \<Rightarrow> False" by code_simp
  then obtain g where "CreateGroup 5 site_anime empty_db = Inr (anime_db, g)"
    by (auto simp: anime_db_def split: sum.splits)
  then have "db_step empty_db anime_db" by (rule db_step.create_group)
  moreover have "db_step anime_db (fst (RequeueStuckJobs anime_db))"
    by (rule db_step.requeue [OF prod.collapse [symmetric]])
  ultimately show ?thesis by (intro db_reachable_wf) (rule converse_rtranclp_into_rtranclp, auto)
qed

end
