(* ===== verification/Site_Client.thy ===== *)
theory Site_Client
  imports Go_Json Layered_Config Site_Sync
begin

text \<open>
  The client of the indexer site: \<open>src/client/client.go\<close>. Each call builds its request, the
  transport adds the protocol headers and notes the time of every answer, and the answer is
  classified into a result or a typed error. The network is a parameter: what it returns for a
  request. Gzip is the identity on the modelled bodies.
\<close>

subsection \<open>The transport\<close>

definition AgentProtocolVersion :: int where
  "AgentProtocolVersion = 2"

definition AgentVersion :: go_string where
  "AgentVersion = ''1.4.0''"

datatype form_part =
  Field go_string go_string
| FilePart go_string go_string go_string   \<comment> \<open>name, file name, content\<close>

datatype payload = NoBody | JsonBody json | Form "form_part list"

record request =
  q_method :: go_string
  q_url :: go_string
  q_headers :: "(go_string \<times> go_string) list"
  q_payload :: payload

record response =
  StatusCode :: int
  Body :: http_body

text \<open>\<open>BadRequest\<close>: the request could not be built from its URL. \<open>NetErr\<close>: no answer.\<close>

datatype answer = BadRequest go_string | NetErr go_string | Answer response

type_synonym network = "request \<Rightarrow> answer"

record site_client =
  baseURL :: go_string
  token :: go_string
  lastOKNano :: time

definition New :: "go_string \<Rightarrow> go_string \<Rightarrow> time \<Rightarrow> site_client" where
  "New site_url agent_token t = \<lparr>baseURL = site_url, token = agent_token, lastOKNano = t\<rparr>"

definition LastOK :: "site_client \<Rightarrow> time" where
  "LastOK c = lastOKNano c"

definition new_request :: "site_client \<Rightarrow> go_string \<Rightarrow> go_string \<Rightarrow> payload \<Rightarrow> request" where
  "new_request c verb url p =
     \<lparr>q_method = verb, q_url = url,
      q_headers = (''Authorization'', ''Bearer '' @ token c) #
        (case p of JsonBody v \<Rightarrow> [(''Content-Type'', ''application/json'')] | _ \<Rightarrow> []),
      q_payload = p\<rparr>"

text \<open>\<open>RoundTrip\<close>\<close>

definition RoundTrip :: "network \<Rightarrow> time \<Rightarrow> site_client \<Rightarrow> request \<Rightarrow> answer \<times> site_client" where
  "RoundTrip net t c q =
     (let q' = q\<lparr>q_headers := q_headers q @
             [(''X-Agent-Protocol'', int_str AgentProtocolVersion), (''X-Agent-Version'', AgentVersion)]\<rparr>;
          a = net q'
      in (a, case a of Answer r \<Rightarrow> c\<lparr>lastOKNano := t\<rparr> | _ \<Rightarrow> c))"

text \<open>A call that does not tell the two failures apart.\<close>

definition send ::
  "network \<Rightarrow> time \<Rightarrow> site_client \<Rightarrow> go_string \<Rightarrow> go_string \<Rightarrow> payload \<Rightarrow> (go_string + response) \<times> site_client" where
  "send net t c verb url p =
     (case RoundTrip net t c (new_request c verb url p) of
        (Answer r, c') \<Rightarrow> (Inr r, c')
      | (BadRequest e, c') \<Rightarrow> (Inl e, c')
      | (NetErr e, c') \<Rightarrow> (Inl e, c'))"

subsection \<open>Errors\<close>

record maintenance_response =
  Maintenance :: bool
  Reason :: go_string
  StartedAt :: int
  ElapsedSeconds :: int
  ETASeconds :: int

datatype site_error =
  SiteError go_string
| UpgradeRequiredError int go_string
| MaintenanceError maintenance_response

definition site_error_text :: "site_error \<Rightarrow> go_string" where
  "site_error_text e =
     (case e of
        SiteError s \<Rightarrow> s
      | UpgradeRequiredError n msg \<Rightarrow>
          ''agent upgrade required: site needs protocol v'' @ int_str n @ '' (this agent is v'' @
          int_str AgentProtocolVersion @ '') '' @ [CHR 0xE2, CHR 0x80, CHR 0x94] @ '' '' @ msg
      | MaintenanceError i \<Rightarrow>
          ''site maintenance: '' @ Reason i @ '' (elapsed '' @ int_str (ElapsedSeconds i) @ ''s, eta '' @
          int_str (ETASeconds i) @ ''s)'')"

definition IsUpgradeRequired :: "site_error \<Rightarrow> (int \<times> go_string) option" where
  "IsUpgradeRequired e = (case e of UpgradeRequiredError n s \<Rightarrow> Some (n, s) | _ \<Rightarrow> None)"

definition IsMaintenanceError :: "site_error \<Rightarrow> maintenance_response option" where
  "IsMaintenanceError e = (case e of MaintenanceError i \<Rightarrow> Some i | _ \<Rightarrow> None)"

definition body_value :: "http_body \<Rightarrow> json" where
  "body_value b = (case b_json b of Some v \<Rightarrow> v | None \<Rightarrow> JNull)"

definition parseUpgradeRequired :: "http_body \<Rightarrow> site_error" where
  "parseUpgradeRequired b =
     (let v = body_value b; message = fst (dec_str ''message'' v); err = fst (dec_str ''error'' v)
      in UpgradeRequiredError (fst (dec_int ''min_protocol'' v))
           (if message \<noteq> [] then message else if err \<noteq> [] then err else b_text b))"

text \<open>The body of a 503: \<open>Some\<close> if it decodes without error and says maintenance.\<close>

definition parse_maintenance :: "http_body \<Rightarrow> maintenance_response option" where
  "parse_maintenance b =
     (case b_json b of
        None \<Rightarrow> None
      | Some v \<Rightarrow>
          (let (mt, e1) = dec_bool ''maintenance'' v; (rs, e2) = dec_str ''reason'' v;
               (st, e3) = dec_int ''started_at'' v; (el, e4) = dec_int ''elapsed_seconds'' v;
               (eta, e5) = dec_int ''eta_seconds'' v
           in if struct_value v \<and> \<not> (e1 \<or> e2 \<or> e3 \<or> e4 \<or> e5) \<and> mt
              then Some \<lparr>Maintenance = mt, Reason = rs, StartedAt = st, ElapsedSeconds = el, ETASeconds = eta\<rparr>
              else None))"

subsection \<open>Polling\<close>

record agent_task =
  RequestID :: int
  LockID :: int
  Title :: go_string
  NyaaURL :: go_string
  InfoHash :: go_string
  Category :: go_string
  Season :: go_string
  Episodes :: go_string
  BoostCount :: int
  Private :: bool
  TorrentFileURL :: go_string

record poll_result =
  pr_Task :: "agent_task option"
  pr_Reason :: go_string
  pr_Command :: go_string

definition no_task :: "go_string \<Rightarrow> poll_result" where
  "no_task reason = \<lparr>pr_Task = None, pr_Reason = reason, pr_Command = []\<rparr>"

definition decode_task :: "json \<Rightarrow> agent_task dec" where
  "decode_task v =
     (let (rid, e1) = dec_int ''request_id'' v; (lid, e2) = dec_int ''lock_id'' v;
          (ti, e3) = dec_str ''title'' v; (ny, e4) = dec_str ''nyaa_url'' v;
          (ih, e5) = dec_str ''info_hash'' v; (ca, e6) = dec_str ''category'' v;
          (se, e7) = dec_str ''season'' v; (ep, e8) = dec_str ''episodes'' v;
          (bc, e9) = dec_int ''boost_count'' v; (pv, e10) = dec_bool ''private'' v;
          (tf, e11) = dec_str ''torrent_file_url'' v
      in (\<lparr>RequestID = rid, LockID = lid, Title = ti, NyaaURL = ny, InfoHash = ih, Category = ca,
           Season = se, Episodes = ep, BoostCount = bc, Private = pv, TorrentFileURL = tf\<rparr>,
          e1 \<or> e2 \<or> e3 \<or> e4 \<or> e5 \<or> e6 \<or> e7 \<or> e8 \<or> e9 \<or> e10 \<or> e11))"

definition decode_poll :: "http_body \<Rightarrow> site_error + poll_result" where
  "decode_poll b =
     (case b_json b of
        None \<Rightarrow> Inl (SiteError ''decode poll response'')
      | Some v \<Rightarrow>
          (let (task, e1) = decode_task v; (reason, e2) = dec_str ''reason'' v;
               (command, e3) = dec_str ''command'' v
           in if \<not> struct_value v \<or> e1 \<or> e2 \<or> e3 then Inl (SiteError ''decode poll response'')
              else if command \<noteq> [] then Inr \<lparr>pr_Task = None, pr_Reason = [], pr_Command = command\<rparr>
              else if reason \<noteq> [] then Inr (no_task reason)
              else if RequestID task = 0 then Inr (no_task ''empty response (no request_id)'')
              else Inr \<lparr>pr_Task = Some task, pr_Reason = [], pr_Command = []\<rparr>))"

text \<open>The classification of an answer to a poll, by status.\<close>

definition poll_answer :: "response \<Rightarrow> site_error + poll_result" where
  "poll_answer r =
     (if StatusCode r = 204 then Inr (no_task ''no content (legacy 204)'')
      else if StatusCode r = 401 then
        Inl (SiteError (''unauthorized '' @ [CHR 0xE2, CHR 0x80, CHR 0x94] @ '' check your AGENT_TOKEN''))
      else if StatusCode r = 403 then
        Inl (SiteError (''BLOCKED: '' @ b_text (Body r) @ '' (approve new IP in Account Settings on the site)''))
      else if StatusCode r = 426 then Inl (parseUpgradeRequired (Body r))
      else if StatusCode r = 503 then
        (case parse_maintenance (Body r) of
           Some i \<Rightarrow> Inl (MaintenanceError i)
         | None \<Rightarrow> Inl (SiteError (''poll returned 503: '' @ b_text (Body r))))
      else if StatusCode r \<noteq> 200 then
        Inl (SiteError (''poll returned '' @ int_str (StatusCode r) @ '': '' @ b_text (Body r)))
      else decode_poll (Body r))"

definition Poll :: "network \<Rightarrow> time \<Rightarrow> site_client \<Rightarrow> (site_error + poll_result) \<times> site_client" where
  "Poll net t c =
     (case RoundTrip net t c (new_request c ''POST'' (baseURL c @ ''/api/agent/poll'') NoBody) of
        (BadRequest e, c') \<Rightarrow> (Inl (SiteError e), c)
      | (NetErr e, c') \<Rightarrow> (Inl (SiteError (''poll request failed: '' @ e)), c')
      | (Answer r, c') \<Rightarrow> (poll_answer r, c'))"

subsection \<open>Torrent files\<close>

definition torrent_limit :: nat where
  "torrent_limit = 10 * 2 ^ 20"

text \<open>\<open>Inr None\<close>: the site has no cached file.\<close>

definition FetchCachedTorrentByInfoHash ::
  "network \<Rightarrow> time \<Rightarrow> site_client \<Rightarrow> go_string \<Rightarrow> (site_error + go_string option) \<times> site_client" where
  "FetchCachedTorrentByInfoHash net t c infoHash =
     (case send net t c ''GET'' (baseURL c @ ''/api/agent/cached-torrent/'' @ infoHash) NoBody of
        (Inl e, c') \<Rightarrow> (Inl (SiteError e), c')
      | (Inr r, c') \<Rightarrow>
          (if StatusCode r = 404 then Inr None
           else if StatusCode r \<noteq> 200 then
             Inl (SiteError (''cached-torrent fetch returned '' @ int_str (StatusCode r) @ '': '' @ b_text (Body r)))
           else Inr (Some (take torrent_limit (b_text (Body r)))), c'))"

definition full_url :: "site_client \<Rightarrow> go_string \<Rightarrow> go_string" where
  "full_url c urlPath =
     (if \<not> has_prefix urlPath ''http://'' \<and> \<not> has_prefix urlPath ''https://'' then baseURL c @ urlPath
      else urlPath)"

definition FetchTorrentFile ::
  "network \<Rightarrow> time \<Rightarrow> site_client \<Rightarrow> go_string \<Rightarrow> (site_error + go_string) \<times> site_client" where
  "FetchTorrentFile net t c urlPath =
     (case send net t c ''GET'' (full_url c urlPath) NoBody of
        (Inl e, c') \<Rightarrow> (Inl (SiteError e), c')
      | (Inr r, c') \<Rightarrow>
          (if StatusCode r = 404 then
             Inl (SiteError (''torrent file not found (site returned 404 '' @
               [CHR 0xE2, CHR 0x80, CHR 0x94] @ '' lock may have expired)''))
           else if StatusCode r \<noteq> 200 then
             Inl (SiteError (''torrent fetch returned '' @ int_str (StatusCode r) @ '': '' @ b_text (Body r)))
           else Inr (take torrent_limit (b_text (Body r))), c'))"

subsection \<open>Configuration and directives\<close>

record remote_config =
  MaxConcurrent :: int
  CpuMaxPercent :: int
  rc_MaxDiskUsageGB :: float64
  SlowSpeedThreshold :: float64
  SlowSpeedTimeout :: int
  rc_LowPeersThreshold :: int
  rc_LowPeersTimeout :: int
  WebOverrides :: "(go_string \<times> go_string) list option"

definition decode_config :: "json \<Rightarrow> remote_config dec" where
  "decode_config v =
     (let (mc, e1) = dec_int ''max_concurrent'' v; (cp, e2) = dec_int ''cpu_max_percent'' v;
          (md, e3) = dec_float ''max_disk_usage_gb'' v; (sth, e4) = dec_float ''slow_speed_threshold'' v;
          (sto, e5) = dec_int ''slow_speed_timeout'' v; (pth, e6) = dec_int ''low_peers_threshold'' v;
          (pto, e7) = dec_int ''low_peers_timeout'' v; (wo, e8) = dec_str_map ''web_overrides'' v
      in (\<lparr>MaxConcurrent = mc, CpuMaxPercent = cp, rc_MaxDiskUsageGB = md, SlowSpeedThreshold = sth,
           SlowSpeedTimeout = sto, rc_LowPeersThreshold = pth, rc_LowPeersTimeout = pto, WebOverrides = wo\<rparr>,
          e1 \<or> e2 \<or> e3 \<or> e4 \<or> e5 \<or> e6 \<or> e7 \<or> e8))"

text \<open>A successful answer decoded into a struct.\<close>

definition decode_body :: "(json \<Rightarrow> 'a dec) \<Rightarrow> http_body \<Rightarrow> site_error + 'a" where
  "decode_body f b =
     (case b_json b of
        None \<Rightarrow> Inl (SiteError ''invalid JSON'')
      | Some v \<Rightarrow> (let (x, e) = f v in if struct_value v \<and> \<not> e then Inr x else Inl (SiteError ''wrong type'')))"

definition GetConfig :: "network \<Rightarrow> time \<Rightarrow> site_client \<Rightarrow> (site_error + remote_config) \<times> site_client" where
  "GetConfig net t c =
     (case send net t c ''GET'' (baseURL c @ ''/api/agent/config'') NoBody of
        (Inl e, c') \<Rightarrow> (Inl (SiteError e), c')
      | (Inr r, c') \<Rightarrow>
          (if StatusCode r \<noteq> 200 then Inl (SiteError (''config returned '' @ int_str (StatusCode r)))
           else decode_body decode_config (Body r), c'))"

definition report_json :: "settings_report \<Rightarrow> json" where
  "report_json r =
     JObj [(''on_disk_writable'', JBool (OnDiskWritable r)),
       (''has_private_trackers'', JBool (HasPrivateTrackers r)), (''local_ui_url'', JStr (LocalUIURL r)),
       (''yml_path'', JStr (YmlPath r)),
       (''local'', JObj (map (\<lambda>(k, v). (k, JObj [(''value'', JStr (lv_Value v)), (''source'', JStr (lv_Source v))])) (Local r)))]"

text \<open>A post whose answer is not looked at.\<close>

definition post_json ::
  "network \<Rightarrow> time \<Rightarrow> site_client \<Rightarrow> go_string \<Rightarrow> json \<Rightarrow> site_error option \<times> site_client" where
  "post_json net t c path v =
     (case send net t c ''POST'' (baseURL c @ path) (JsonBody v) of
        (Inl e, c') \<Rightarrow> (Some (SiteError e), c')
      | (Inr r, c') \<Rightarrow> (None, c'))"

definition PostLocalConfig ::
  "network \<Rightarrow> time \<Rightarrow> site_client \<Rightarrow> settings_report \<Rightarrow> site_error option \<times> site_client" where
  "PostLocalConfig net t c r = post_json net t c ''/api/agent/local-config'' (report_json r)"

definition PutWebConfig ::
  "network \<Rightarrow> time \<Rightarrow> site_client \<Rightarrow> go_string \<Rightarrow> go_string \<Rightarrow> site_error option \<times> site_client" where
  "PutWebConfig net t c key v =
     (case send net t c ''PUT'' (baseURL c @ ''/api/agent/web-config'')
         (JsonBody (JObj [(''key'', JStr key), (''value'', JStr v)])) of
        (Inl e, c') \<Rightarrow> (Some (SiteError e), c')
      | (Inr r, c') \<Rightarrow>
          (if 400 \<le> StatusCode r
           then Some (SiteError (''web-config write returned '' @ int_str (StatusCode r) @ '': '' @ b_text (Body r)))
           else None, c'))"

record directive =
  dr_ID :: int
  dr_Kind :: go_string
  dr_Payload :: "json option"

text \<open>A list field: \<open>null\<close> and a missing key give the nil slice.\<close>

definition dec_list :: "(json \<Rightarrow> 'a dec) \<Rightarrow> go_string \<Rightarrow> json \<Rightarrow> 'a list dec" where
  "dec_list f = dec_with [] (\<lambda>x. case x of
     JArr vs \<Rightarrow> (if list_all (\<lambda>v. struct_value v \<and> \<not> snd (f v)) vs then Some (map (fst \<circ> f) vs) else None)
   | _ \<Rightarrow> None)"

definition decode_directive :: "json \<Rightarrow> directive dec" where
  "decode_directive v =
     (let (i, e1) = dec_int ''id'' v; (k, e2) = dec_str ''kind'' v
      in (\<lparr>dr_ID = i, dr_Kind = k, dr_Payload = raw_field ''payload'' v\<rparr>, e1 \<or> e2))"

definition FetchDirectives :: "network \<Rightarrow> time \<Rightarrow> site_client \<Rightarrow> (site_error + directive list) \<times> site_client" where
  "FetchDirectives net t c =
     (case send net t c ''GET'' (baseURL c @ ''/api/agent/directives'') NoBody of
        (Inl e, c') \<Rightarrow> (Inl (SiteError e), c')
      | (Inr r, c') \<Rightarrow>
          (if StatusCode r = 404 then Inr []
           else if StatusCode r \<noteq> 200 then Inl (SiteError (''directives returned '' @ int_str (StatusCode r)))
           else decode_body (dec_list decode_directive ''directives'') (Body r), c'))"

definition AckDirective ::
  "network \<Rightarrow> time \<Rightarrow> site_client \<Rightarrow> int \<Rightarrow> go_string \<Rightarrow> site_error option \<times> site_client" where
  "AckDirective net t c i errMsg =
     post_json net t c ''/api/agent/directives/ack'' (JObj [(''id'', JNum (int_str i)), (''error'', JStr errMsg)])"

subsection \<open>The catalog of groups\<close>

definition dec_str_list :: "go_string \<Rightarrow> json \<Rightarrow> go_string list dec" where
  "dec_str_list = dec_with [] (\<lambda>x. case x of
     JArr vs \<Rightarrow>
       (if list_all (\<lambda>v. case v of JStr s \<Rightarrow> True | JNull \<Rightarrow> True | _ \<Rightarrow> False) vs
        then Some (map (\<lambda>v. case v of JStr s \<Rightarrow> s | _ \<Rightarrow> []) vs) else None)
   | _ \<Rightarrow> None)"

definition dec_int_ptr :: "go_string \<Rightarrow> json \<Rightarrow> int option dec" where
  "dec_int_ptr = dec_with None (\<lambda>x. case x of JNum s \<Rightarrow> map_option Some (parse_int s) | _ \<Rightarrow> None)"

definition dec_bool_ptr :: "go_string \<Rightarrow> json \<Rightarrow> bool option dec" where
  "dec_bool_ptr = dec_with None (\<lambda>x. case x of JBool b \<Rightarrow> Some (Some b) | _ \<Rightarrow> None)"

definition decode_group :: "json \<Rightarrow> group dec" where
  "decode_group v =
     (let (i, e1) = dec_int ''id'' v; (n, e2) = dec_str ''name'' v; (ty, e3) = dec_str ''type'' v;
          (ng, e4) = dec_str_list ''newsgroups'' v; (be, e5) = dec_str_list ''banned_extensions'' v;
          (sc, e6) = dec_int_ptr ''screenshots'' v; (ss, e7) = dec_int_ptr ''sample_seconds'' v;
          (p2, e8) = dec_int_ptr ''par2_redundancy'' v; (ob, e9) = dec_bool_ptr ''obfuscate'' v;
          (wm, e10) = dec_str ''watermark_text'' v; (ve, e11) = dec_int ''version'' v
      in (\<lparr>g_ID = i, g_Name = n, g_Type = ty, g_Newsgroups = ng, g_Screenshots = sc, g_SampleSeconds = ss,
           g_Par2Redundancy = p2, g_Obfuscate = ob, g_WatermarkText = wm, g_BannedExtensions = be,
           g_Source = [], g_Version = ve, g_CreatedAt = zero_time, g_UpdatedAt = zero_time\<rparr>,
          e1 \<or> e2 \<or> e3 \<or> e4 \<or> e5 \<or> e6 \<or> e7 \<or> e8 \<or> e9 \<or> e10 \<or> e11))"

definition decode_groups :: "json \<Rightarrow> groups_response dec" where
  "decode_groups v =
     (let (mv, e1) = dec_int ''max_version'' v; (gs, e2) = dec_list decode_group ''groups'' v
      in (\<lparr>resp_Groups = gs, resp_MaxVersion = mv\<rparr>, e1 \<or> e2))"

definition FetchAgentGroups ::
  "network \<Rightarrow> time \<Rightarrow> site_client \<Rightarrow> int \<Rightarrow> (site_error + groups_response) \<times> site_client" where
  "FetchAgentGroups net t c sinceVersion =
     (case send net t c ''GET'' (baseURL c @ ''/api/agent/groups?since_version='' @ int_str sinceVersion) NoBody of
        (Inl e, c') \<Rightarrow> (Inl (SiteError e), c')
      | (Inr r, c') \<Rightarrow>
          (if StatusCode r = 404 then Inr \<lparr>resp_Groups = [], resp_MaxVersion = 0\<rparr>
           else if StatusCode r = 503 then
             (case parse_maintenance (Body r) of
                Some i \<Rightarrow> Inl (MaintenanceError i)
              | None \<Rightarrow> Inl (SiteError (''agent groups returned 503: '' @ b_text (Body r))))
           else if StatusCode r \<noteq> 200 then Inl (SiteError (''agent groups returned '' @ int_str (StatusCode r)))
           else decode_body decode_groups (Body r), c'))"

text \<open>One pass of the sync over the network.\<close>

definition sync_pass ::
  "network \<Rightarrow> time \<Rightarrow> (nat \<Rightarrow> time) \<Rightarrow> site_client \<Rightarrow> sync_state \<Rightarrow> db \<Rightarrow> (sync_state \<times> db) \<times> site_client" where
  "sync_pass net t clock c st d =
     (case FetchAgentGroups net t c (sync_since st) of
        (Inl e, c') \<Rightarrow> (runOnce clock None st d, c')
      | (Inr r, c') \<Rightarrow> (runOnce clock (Some r) st d, c'))"


subsection \<open>What is on the wire\<close>

text \<open>The request as the site receives it.\<close>

definition on_wire :: "site_client \<Rightarrow> go_string \<Rightarrow> go_string \<Rightarrow> payload \<Rightarrow> request" where
  "on_wire c verb url p =
     (let q = new_request c verb url p
      in q\<lparr>q_headers := q_headers q @
           [(''X-Agent-Protocol'', int_str AgentProtocolVersion), (''X-Agent-Version'', AgentVersion)]\<rparr>)"

lemma RoundTrip_on_wire:
  "RoundTrip net t c (new_request c verb url p) =
     (net (on_wire c verb url p), case net (on_wire c verb url p) of Answer r \<Rightarrow> c\<lparr>lastOKNano := t\<rparr> | _ \<Rightarrow> c)"
  by (simp add: RoundTrip_def on_wire_def Let_def)

lemma send_on_wire:
  "send net t c verb url p =
     (case net (on_wire c verb url p) of
        Answer r \<Rightarrow> (Inr r, c\<lparr>lastOKNano := t\<rparr>) | BadRequest e \<Rightarrow> (Inl e, c) | NetErr e \<Rightarrow> (Inl e, c))"
  by (simp add: send_def RoundTrip_on_wire split: answer.splits)

lemma on_wire_headers:
  "map_of (q_headers (on_wire c verb url p)) ''Authorization'' = Some (''Bearer '' @ token c)"
  "map_of (q_headers (on_wire c verb url p)) ''X-Agent-Protocol'' = Some ''2''"
proof -
  have "int_str 2 = ''2''" by code_simp
  then show "map_of (q_headers (on_wire c verb url p)) ''X-Agent-Protocol'' = Some ''2''"
    by (simp add: on_wire_def new_request_def Let_def AgentProtocolVersion_def split: payload.splits)
qed (simp add: on_wire_def new_request_def Let_def)

lemma decode_poll_Inl: "decode_poll b = Inl e \<Longrightarrow> e = SiteError ''decode poll response''"
  by (auto simp: decode_poll_def Let_def split: option.splits prod.splits if_splits)

lemma decode_poll_task:
  assumes "decode_poll b = Inr pr" "pr_Task pr = Some task"
  shows "RequestID task \<noteq> 0 \<and> pr_Reason pr = [] \<and> pr_Command pr = []"
proof -
  from assms(1) obtain v where v: "b_json b = Some v" by (auto simp: decode_poll_def split: option.splits)
  obtain task0 e1 where d: "decode_task v = (task0, e1)" by force
  from assms v d show ?thesis
    by (auto simp: decode_poll_def Let_def no_task_def split: prod.splits if_splits)
qed

lemma poll_answer_maintenance:
  "(\<exists>i. poll_answer r = Inl (MaintenanceError i)) \<longleftrightarrow>
     StatusCode r = 503 \<and> parse_maintenance (Body r) \<noteq> None"
  by (auto simp: poll_answer_def parseUpgradeRequired_def Let_def split: option.splits if_splits
      dest: decode_poll_Inl)

lemma poll_answer_upgrade:
  "(\<exists>n s. poll_answer r = Inl (UpgradeRequiredError n s)) \<longleftrightarrow> StatusCode r = 426"
  by (auto simp: poll_answer_def parseUpgradeRequired_def Let_def split: option.splits if_splits
      dest: decode_poll_Inl)

lemma poll_answer_task:
  assumes "poll_answer r = Inr pr"
  shows "StatusCode r \<in> {200, 204}"
    and "pr_Task pr = Some task \<Longrightarrow>
      StatusCode r = 200 \<and> RequestID task \<noteq> 0 \<and> pr_Reason pr = [] \<and> pr_Command pr = []"
proof -
  from assms have s: "StatusCode r = 204 \<and> pr = no_task ''no content (legacy 204)'' \<or>
      StatusCode r = 200 \<and> decode_poll (Body r) = Inr pr"
    by (auto simp: poll_answer_def parseUpgradeRequired_def Let_def split: option.splits if_splits)
  then show "StatusCode r \<in> {200, 204}" by auto
  show "StatusCode r = 200 \<and> RequestID task \<noteq> 0 \<and> pr_Reason pr = [] \<and> pr_Command pr = []"
    if "pr_Task pr = Some task"
    using s that decode_poll_task [of "Body r" pr task] by (auto simp: no_task_def)
qed

text \<open>The answer to a poll that has the form of a task: a JSON object, or \<open>null\<close>, with fields of the right types.\<close>

definition poll_well_formed :: "json \<Rightarrow> bool" where
  "poll_well_formed v \<longleftrightarrow>
     struct_value v \<and> \<not> snd (decode_task v) \<and> \<not> snd (dec_str ''reason'' v) \<and> \<not> snd (dec_str ''command'' v)"

lemma decode_poll_fields:
  "decode_poll b =
     (case b_json b of
        None \<Rightarrow> Inl (SiteError ''decode poll response'')
      | Some v \<Rightarrow>
          (let command = fst (dec_str ''command'' v); reason = fst (dec_str ''reason'' v); task = fst (decode_task v)
           in if \<not> poll_well_formed v then Inl (SiteError ''decode poll response'')
              else Inr \<lparr>pr_Task = (if command = [] \<and> reason = [] \<and> RequestID task \<noteq> 0 then Some task else None),
                pr_Reason = (if command \<noteq> [] then [] else if reason \<noteq> [] then reason
                  else if RequestID task = 0 then ''empty response (no request_id)'' else []),
                pr_Command = command\<rparr>))"
  by (simp add: decode_poll_def poll_well_formed_def no_task_def Let_def split_beta split: option.split)

text \<open>
  C32. How a poll is understood. The request carries the agent's token and protocol version. Without
  an answer the client is unchanged and the poll is a plain error that says so. If the site
  answers, the contact time moves to now, and the status decides: 204 is a poll without a task; 200
  with a well-formed body is a command if there is one, else the reason for no task if there is one,
  else the task, unless it has no request id; 200 with any other body is a decoding error; 426 is an
  upgrade demand with the version and the message of the body; 503 is a maintenance pause if its body
  says so; and every other answer is a plain error.
\<close>

theorem Poll_contract:
  "let q = on_wire c ''POST'' (baseURL c @ ''/api/agent/poll'') NoBody; (res, c') = Poll net t c
   in map_of (q_headers q) ''Authorization'' = Some (''Bearer '' @ token c) \<and>
      map_of (q_headers q) ''X-Agent-Protocol'' = Some ''2'' \<and>
      (case net q of
         BadRequest e \<Rightarrow> c' = c \<and> res = Inl (SiteError e)
       | NetErr e \<Rightarrow> c' = c \<and> res = Inl (SiteError (''poll request failed: '' @ e))
       | Answer r \<Rightarrow>
           c' = c\<lparr>lastOKNano := t\<rparr> \<and>
           (StatusCode r = 204 \<longrightarrow>
              res = Inr \<lparr>pr_Task = None, pr_Reason = ''no content (legacy 204)'', pr_Command = []\<rparr>) \<and>
           (StatusCode r = 200 \<longrightarrow>
              (case b_json (Body r) of
                 None \<Rightarrow> res = Inl (SiteError ''decode poll response'')
               | Some v \<Rightarrow>
                   (let command = fst (dec_str ''command'' v); reason = fst (dec_str ''reason'' v);
                        task = fst (decode_task v)
                    in if \<not> poll_well_formed v then res = Inl (SiteError ''decode poll response'')
                       else \<exists>pr. res = Inr pr \<and> pr_Command pr = command \<and>
                         pr_Task pr = (if command = [] \<and> reason = [] \<and> RequestID task \<noteq> 0 then Some task else None) \<and>
                         pr_Reason pr = (if command \<noteq> [] then [] else if reason \<noteq> [] then reason
                           else if RequestID task = 0 then ''empty response (no request_id)'' else [])))) \<and>
           (StatusCode r = 426 \<longrightarrow>
              (let v = body_value (Body r); message = fst (dec_str ''message'' v); err = fst (dec_str ''error'' v)
               in res = Inl (UpgradeRequiredError (fst (dec_int ''min_protocol'' v))
                    (if message \<noteq> [] then message else if err \<noteq> [] then err else b_text (Body r))))) \<and>
           (StatusCode r = 503 \<longrightarrow>
              res = Inl (case parse_maintenance (Body r) of
                 Some i \<Rightarrow> MaintenanceError i | None \<Rightarrow> SiteError (''poll returned 503: '' @ b_text (Body r)))) \<and>
           (StatusCode r \<notin> {200, 204, 426, 503} \<longrightarrow>
              res = Inl (SiteError
                (if StatusCode r = 401 then ''unauthorized '' @ [CHR 0xE2, CHR 0x80, CHR 0x94] @ '' check your AGENT_TOKEN''
                 else if StatusCode r = 403 then
                   ''BLOCKED: '' @ b_text (Body r) @ '' (approve new IP in Account Settings on the site)''
                 else ''poll returned '' @ int_str (StatusCode r) @ '': '' @ b_text (Body r)))))"
proof -
  let ?q = "on_wire c ''POST'' (baseURL c @ ''/api/agent/poll'') NoBody"
  have P: "Poll net t c = (case net ?q of
      BadRequest e \<Rightarrow> (Inl (SiteError e), c)
    | NetErr e \<Rightarrow> (Inl (SiteError (''poll request failed: '' @ e)), c)
    | Answer r \<Rightarrow> (poll_answer r, c\<lparr>lastOKNano := t\<rparr>))"
    by (simp add: Poll_def RoundTrip_on_wire split: answer.splits)
  show ?thesis
  proof (cases "net ?q")
    case (Answer r)
    have p: "fst (Poll net t c) = poll_answer r" "snd (Poll net t c) = c\<lparr>lastOKNano := t\<rparr>"
      by (simp_all add: P Answer)
    consider "StatusCode r = 204" | "StatusCode r = 200" | "StatusCode r = 426" | "StatusCode r = 503"
      | (other) "StatusCode r \<notin> {200, 204, 426, 503}" by blast
    then show ?thesis
    proof cases
      case 2
      then have "poll_answer r = decode_poll (Body r)" by (simp add: poll_answer_def)
      with 2 p Answer show ?thesis
        by (cases "b_json (Body r)") (simp_all add: Let_def split_beta on_wire_headers decode_poll_fields)
    next
      case other
      with p Answer show ?thesis by (simp add: Let_def split_beta on_wire_headers poll_answer_def)
    qed (use p Answer in \<open>simp_all add: Let_def split_beta on_wire_headers poll_answer_def no_task_def
          parseUpgradeRequired_def split: option.split\<close>)
  qed (simp_all add: Let_def P on_wire_headers)
qed

definition busy_site :: network where
  "busy_site q = Answer \<lparr>StatusCode = 503,
     Body = \<lparr>b_text = [], b_json = Some (JObj [(''maintenance'', JBool True), (''eta_seconds'', JNum ''90'')])\<rparr>\<rparr>"

definition agent_client :: site_client where
  "agent_client = New ''https://site'' ''secret'' 0"

theorem Poll_contract_witness:
  "\<exists>i. fst (Poll busy_site 7 agent_client) = Inl (MaintenanceError i)"
proof -
  let ?b = "\<lparr>b_text = [], b_json = Some (JObj [(''maintenance'', JBool True), (''eta_seconds'', JNum ''90'')])\<rparr>"
  have "parse_maintenance ?b \<noteq> None" by code_simp
  then obtain i where "parse_maintenance ?b = Some i" by blast
  with Poll_contract [of agent_client busy_site 7] show ?thesis
    by (simp add: busy_site_def Let_def split: prod.splits)
qed

text \<open>
  A site that does not know the endpoint answers 404, which is read as an empty catalog: a full
  sync then deletes every group that came from the site.
\<close>

lemma sync_404_wipes:
  assumes "db_wf d" "doFullSync st"
    and "net (on_wire c ''GET'' (baseURL c @ ''/api/agent/groups?since_version='' @ int_str 0) NoBody) = Answer r"
    and "StatusCode r = 404"
  shows "\<forall>g \<in> set (rows (groups (snd (fst (sync_pass net t clock c st d))))). g_Source g \<noteq> ''site''"
proof -
  have "sync_pass net t clock c st d =
      (runOnce clock (Some \<lparr>resp_Groups = [], resp_MaxVersion = 0\<rparr>) st d, c\<lparr>lastOKNano := t\<rparr>)"
    using assms(2-4) by (simp add: sync_pass_def FetchAgentGroups_def send_on_wire sync_since_def)
  with assms(1,2) show ?thesis by (simp add: runOnce_def ReconcileSiteGroups_rows Let_def)
qed

end
