(* ===== verification/Site_Reports.thy ===== *)
theory Site_Reports
  imports Site_Client
begin

text \<open>
  What the agent reports to the site: the calls of \<open>src/client/client.go\<close> that post logs, progress
  and status, and the completion of a task, with its multipart form, the split of large uploads
  and the re-submission of saved files. Calls that send more than one request give the list of
  the requests sent.
\<close>

subsection \<open>Logs, progress and status\<close>

definition PostLog ::
  "network \<Rightarrow> time \<Rightarrow> site_client \<Rightarrow> go_string \<Rightarrow> go_string \<Rightarrow> site_error option \<times> site_client" where
  "PostLog net t c level message =
     post_json net t c ''/api/agent/log'' (JObj [(''level'', JStr level), (''message'', JStr message)])"

definition ClearMyLocks :: "network \<Rightarrow> time \<Rightarrow> site_client \<Rightarrow> (site_error + int) \<times> site_client" where
  "ClearMyLocks net t c =
     (case send net t c ''POST'' (baseURL c @ ''/api/agent/clear-locks'') NoBody of
        (Inl e, c') \<Rightarrow> (Inl (SiteError e), c')
      | (Inr r, c') \<Rightarrow> (Inr (fst (dec_int ''cleared'' (body_value (Body r)))), c'))"

record lock_warning =
  lw_Kind :: go_string
  lw_Label :: go_string
  lw_Icon :: go_string
  lw_ExpiresAt :: time

definition warning_json :: "lock_warning \<Rightarrow> json" where
  "warning_json w =
     JObj [(''kind'', JStr (lw_Kind w)), (''label'', JStr (lw_Label w)), (''icon'', JStr (lw_Icon w)),
       (''expires_at'', JTime (lw_ExpiresAt w))]"

definition ReportProgress ::
  "network \<Rightarrow> time \<Rightarrow> site_client \<Rightarrow> int \<Rightarrow> go_string \<Rightarrow> go_string \<Rightarrow> lock_warning list \<Rightarrow>
     site_error option \<times> site_client" where
  "ReportProgress net t c lockID prog speed warnings =
     post_json net t c ''/api/agent/progress''
       (JObj [(''lock_id'', JNum (int_str lockID)), (''progress'', JStr prog), (''speed'', JStr speed),
         (''warnings'', JText (JArr (map warning_json warnings)))])"

record file_progress =
  fp_Name :: go_string
  fp_Size :: int
  fp_Transferred :: int
  fp_Percent :: float64
  fp_Speed :: go_string
  fp_UpSpeed :: go_string
  fp_Phase :: go_string
  fp_Peers :: int
  fp_Warnings :: "lock_warning list"

record live_status =
  ls_Phase :: go_string
  ls_VPNStatus :: go_string
  ls_PublicIP :: go_string
  ls_DownloadSpeed :: go_string
  ls_UploadSpeed :: go_string
  ls_Files :: "file_progress list"
  ls_TaskTitle :: go_string
  ls_RequestID :: int
  ls_DiskFreeGB :: float64
  ls_DiskReservedGB :: float64

text \<open>A field with \<open>omitempty\<close>.\<close>

definition opt_field :: "bool \<Rightarrow> go_string \<Rightarrow> json \<Rightarrow> (go_string \<times> json) list" where
  "opt_field present k v = (if present then [(k, v)] else [])"

definition file_json :: "file_progress \<Rightarrow> json" where
  "file_json f =
     JObj ([(''name'', JStr (fp_Name f)), (''size'', JNum (int_str (fp_Size f))),
        (''transferred'', JNum (int_str (fp_Transferred f))), (''percent'', JFloat (fp_Percent f))] @
       opt_field (fp_Speed f \<noteq> []) ''speed'' (JStr (fp_Speed f)) @
       opt_field (fp_UpSpeed f \<noteq> []) ''up_speed'' (JStr (fp_UpSpeed f)) @
       [(''phase'', JStr (fp_Phase f))] @
       opt_field (fp_Peers f \<noteq> 0) ''peers'' (JNum (int_str (fp_Peers f))) @
       opt_field (fp_Warnings f \<noteq> []) ''warnings'' (JArr (map warning_json (fp_Warnings f))))"

definition status_json :: "live_status \<Rightarrow> json" where
  "status_json s =
     JObj ([(''phase'', JStr (ls_Phase s)), (''vpn_status'', JStr (ls_VPNStatus s)),
        (''public_ip'', JStr (ls_PublicIP s))] @
       opt_field (ls_DownloadSpeed s \<noteq> []) ''download_speed'' (JStr (ls_DownloadSpeed s)) @
       opt_field (ls_UploadSpeed s \<noteq> []) ''upload_speed'' (JStr (ls_UploadSpeed s)) @
       opt_field (ls_Files s \<noteq> []) ''files'' (JArr (map file_json (ls_Files s))) @
       opt_field (ls_TaskTitle s \<noteq> []) ''task_title'' (JStr (ls_TaskTitle s)) @
       opt_field (ls_RequestID s \<noteq> 0) ''request_id'' (JNum (int_str (ls_RequestID s))) @
       opt_field (ls_DiskFreeGB s \<noteq> 0) ''disk_free_gb'' (JFloat (ls_DiskFreeGB s)) @
       opt_field (ls_DiskReservedGB s \<noteq> 0) ''disk_reserved_gb'' (JFloat (ls_DiskReservedGB s)))"

text \<open>The answer to a status post: the request to cancel, 0 for none.\<close>

definition PostStatus ::
  "network \<Rightarrow> time \<Rightarrow> site_client \<Rightarrow> live_status \<Rightarrow> (site_error + int) \<times> site_client" where
  "PostStatus net t c s =
     (case send net t c ''POST'' (baseURL c @ ''/api/agent/status'') (JsonBody (status_json s)) of
        (Inl e, c') \<Rightarrow> (Inl (SiteError e), c')
      | (Inr r, c') \<Rightarrow> (Inr (fst (dec_int ''cancel_request_id'' (body_value (Body r)))), c'))"

subsection \<open>Multipart forms\<close>

definition crlf :: go_string where
  "crlf = [CHR 0x0D, CHR 0x0A]"

definition escape_quotes :: "go_string \<Rightarrow> go_string" where
  "escape_quotes s = concat (map (\<lambda>c. if c = CHR 0x5C \<or> c = CHR 0x22 then [CHR 0x5C, c] else [c]) s)"

definition quoted :: "go_string \<Rightarrow> go_string" where
  "quoted s = [CHR 0x22] @ escape_quotes s @ [CHR 0x22]"

fun part_header :: "form_part \<Rightarrow> go_string" where
  "part_header (Field n v) = ''Content-Disposition: form-data; name='' @ quoted n @ crlf"
| "part_header (FilePart n f v) =
     ''Content-Disposition: form-data; name='' @ quoted n @ ''; filename='' @ quoted f @ crlf @
     ''Content-Type: application/octet-stream'' @ crlf"

fun part_content :: "form_part \<Rightarrow> go_string" where
  "part_content (Field n v) = v"
| "part_content (FilePart n f v) = v"

definition render_part :: "go_string \<Rightarrow> form_part \<Rightarrow> go_string" where
  "render_part boundary p = ''--'' @ boundary @ crlf @ part_header p @ crlf @ part_content p"

text \<open>The body a \<open>multipart.Writer\<close> with this boundary produces once closed.\<close>

definition render_form :: "go_string \<Rightarrow> form_part list \<Rightarrow> go_string" where
  "render_form boundary ps =
     join crlf (map (render_part boundary) ps) @ crlf @ ''--'' @ boundary @ ''--'' @ crlf"

definition boundary_length :: nat where
  "boundary_length = 60"

subsection \<open>Completion\<close>

record complete_result =
  cr_LockID :: int
  cr_RequestID :: int
  cr_Status :: go_string
  cr_FailReason :: go_string
  cr_NzbData :: "go_string option"
  cr_Password :: go_string
  cr_MediaInfo :: "go_string option"   \<comment> \<open>its JSON text\<close>
  cr_Screenshots :: "go_string list"
  cr_TotalSizeBytes :: int

definition maxUploadSize :: int where
  "maxUploadSize = 80 * 2 ^ 20"

record screenshot_file =
  sf_index :: nat
  sf_path :: go_string
  sf_size :: int

text \<open>
  What the file system answers about a path: the size of \<open>os.Stat\<close>, and the bytes that can be read
  after \<open>os.Open\<close>. The two are asked at different moments and may disagree: a file that can be
  statted may not open, or may have another length by then.
\<close>

record file_view =
  stat_size :: "go_string \<Rightarrow> int option"
  open_file :: "go_string \<Rightarrow> go_string option"

definition screenshot_part :: "file_view \<Rightarrow> screenshot_file \<Rightarrow> form_part list" where
  "screenshot_part fs sf =
     (case open_file fs (sf_path sf) of
        None \<Rightarrow> []
      | Some v \<Rightarrow> [FilePart (''screenshot_'' @ nat_str (sf_index sf)) (path_base (sf_path sf)) v])"

definition opt_part :: "bool \<Rightarrow> form_part \<Rightarrow> form_part list" where
  "opt_part present p = (if present then [p] else [])"

definition buildCompleteForm :: "file_view \<Rightarrow> complete_result \<Rightarrow> screenshot_file list \<Rightarrow> form_part list" where
  "buildCompleteForm fs r shots =
     [Field ''lock_id'' (int_str (cr_LockID r)), Field ''request_id'' (int_str (cr_RequestID r)),
      Field ''status'' (cr_Status r)] @
     opt_part (cr_FailReason r \<noteq> []) (Field ''fail_reason'' (cr_FailReason r)) @
     opt_part (cr_Password r \<noteq> []) (Field ''password'' (cr_Password r)) @
     opt_part (0 < cr_TotalSizeBytes r) (Field ''total_size_bytes'' (int_str (cr_TotalSizeBytes r))) @
     (case cr_NzbData r of None \<Rightarrow> [] | Some v \<Rightarrow> [FilePart ''nzb_data'' ''release.nzb'' v]) @
     (case cr_MediaInfo r of None \<Rightarrow> [] | Some v \<Rightarrow> [Field ''media_info'' v]) @
     concat (map (screenshot_part fs) shots)"

text \<open>\<open>postGzipped\<close>: the response map of a 200 (empty when its body is no JSON object).\<close>

definition form_request :: "site_client \<Rightarrow> go_string \<Rightarrow> form_part list \<Rightarrow> request" where
  "form_request c url ps =
     \<lparr>q_method = ''POST'', q_url = url,
      q_headers = [(''Authorization'', ''Bearer '' @ token c), (''Content-Encoding'', ''gzip''),
        (''Content-Type'', ''multipart/form-data'')],
      q_payload = Form ps\<rparr>"

definition postGzipped ::
  "network \<Rightarrow> time \<Rightarrow> site_client \<Rightarrow> go_string \<Rightarrow> form_part list \<Rightarrow>
     (site_error + (go_string \<times> json) list) \<times> site_client" where
  "postGzipped net t c url ps =
     (case RoundTrip net t c (form_request c url ps) of
        (BadRequest e, c') \<Rightarrow> (Inl (SiteError e), c')
      | (NetErr e, c') \<Rightarrow> (Inl (SiteError e), c')
      | (Answer r, c') \<Rightarrow>
          (if StatusCode r \<noteq> 200 then
             (case (if StatusCode r = 503 then parse_maintenance (Body r) else None) of
                Some i \<Rightarrow> Inl (MaintenanceError i)
              | None \<Rightarrow> Inl (SiteError (''returned '' @ int_str (StatusCode r) @ '': '' @ b_text (Body r))))
           else Inr (case b_json (Body r) of Some (JObj kvs) \<Rightarrow> kvs | _ \<Rightarrow> []), c'))"

text \<open>The \<open>nzb_id\<close> of a response map, 0 if there is none.\<close>

definition nzb_id_of :: "(go_string \<times> json) list \<Rightarrow> int" where
  "nzb_id_of m =
     (case map_of (rev m) ''nzb_id'' of
        Some (JNum s) \<Rightarrow> (case parse_float s of Some x \<Rightarrow> int_of_float x | None \<Rightarrow> 0)
      | _ \<Rightarrow> 0)"

text \<open>\<open>uploadScreenshot\<close>: the request, unless the file cannot be opened.\<close>

definition screenshot_form :: "file_view \<Rightarrow> int \<Rightarrow> go_string \<Rightarrow> form_part list option" where
  "screenshot_form fs nzbID path =
     map_option (\<lambda>v. [Field ''nzb_id'' (int_str nzbID), FilePart ''screenshot'' (path_base path) v])
       (open_file fs path)"

definition uploadScreenshot ::
  "network \<Rightarrow> time \<Rightarrow> file_view \<Rightarrow> site_client \<Rightarrow> int \<Rightarrow> go_string \<Rightarrow>
     site_error option \<times> form_part list list \<times> site_client" where
  "uploadScreenshot net t fs c nzbID path =
     (case screenshot_form fs nzbID path of
        None \<Rightarrow> (Some (SiteError ''open screenshot''), [], c)
      | Some ps \<Rightarrow>
          (case postGzipped net t c (baseURL c @ ''/api/agent/screenshot'') ps of
             (Inl e, c') \<Rightarrow> (Some e, [ps], c')
           | (Inr m, c') \<Rightarrow> (None, [ps], c')))"

fun upload_all ::
  "network \<Rightarrow> time \<Rightarrow> file_view \<Rightarrow> int \<Rightarrow> screenshot_file list \<Rightarrow> site_client \<Rightarrow>
     form_part list list \<times> site_client" where
  "upload_all net t fs nzbID [] c = ([], c)"
| "upload_all net t fs nzbID (sf # sfs) c =
     (case uploadScreenshot net t fs c nzbID (sf_path sf) of
        (e, qs, c1) \<Rightarrow> (case upload_all net t fs nzbID sfs c1 of (qs', c2) \<Rightarrow> (qs @ qs', c2)))"

definition stat_screenshots :: "file_view \<Rightarrow> go_string list \<Rightarrow> screenshot_file list" where
  "stat_screenshots fs paths =
     concat (map (\<lambda>(i, p). case stat_size fs p of None \<Rightarrow> []
         | Some n \<Rightarrow> [\<lparr>sf_index = Suc i, sf_path = p, sf_size = n\<rparr>])
       (zip [0..<length paths] paths))"

definition fits_one_request :: "go_string \<Rightarrow> file_view \<Rightarrow> complete_result \<Rightarrow> bool" where
  "fits_one_request boundary fs r \<longleftrightarrow>
     (let shots = stat_screenshots fs (cr_Screenshots r)
      in int (length (render_form boundary (buildCompleteForm fs r []))) + sum_list (map sf_size shots) +
         int (length shots) * 512 \<le> maxUploadSize)"

text \<open>\<open>Complete\<close>: the error, the forms posted in order, and the client.\<close>

definition Complete ::
  "network \<Rightarrow> time \<Rightarrow> go_string \<Rightarrow> file_view \<Rightarrow> site_client \<Rightarrow> complete_result \<Rightarrow>
     site_error option \<times> form_part list list \<times> site_client" where
  "Complete net t boundary fs c r =
     (let shots = stat_screenshots fs (cr_Screenshots r); url = baseURL c @ ''/api/agent/complete''
      in if fits_one_request boundary fs r then
           (let ps = buildCompleteForm fs r shots
            in case postGzipped net t c url ps of
                 (Inl e, c') \<Rightarrow> (Some e, [ps], c')
               | (Inr m, c') \<Rightarrow> (None, [ps], c'))
         else
           (let ps = buildCompleteForm fs r []
            in case postGzipped net t c url ps of
                 (Inl e, c') \<Rightarrow> (Some e, [ps], c')
               | (Inr m, c') \<Rightarrow>
                   (if nzb_id_of m = 0 then (None, [ps], c')
                    else case upload_all net t fs (nzb_id_of m) shots c' of
                      (qs, c'') \<Rightarrow> (None, ps # qs, c''))))"

text \<open>\<open>Backfill\<close>: the id the site gives the file.\<close>

definition backfill_form :: "int \<Rightarrow> go_string \<Rightarrow> go_string \<Rightarrow> form_part list" where
  "backfill_form requestID nzbData password =
     [Field ''request_id'' (int_str requestID)] @ opt_part (password \<noteq> []) (Field ''password'' password) @
     [FilePart ''nzb_data'' ''release.nzb'' nzbData]"

definition Backfill ::
  "network \<Rightarrow> time \<Rightarrow> site_client \<Rightarrow> int \<Rightarrow> go_string \<Rightarrow> go_string \<Rightarrow> (site_error + int) \<times> site_client" where
  "Backfill net t c requestID nzbData password =
     (case postGzipped net t c (baseURL c @ ''/api/agent/backfill'') (backfill_form requestID nzbData password) of
        (Inl e, c') \<Rightarrow> (Inl e, c')
      | (Inr m, c') \<Rightarrow> (Inr (nzb_id_of m), c'))"


subsection \<open>The size of a bundled completion\<close>

lemma length_escape_quotes: "length (escape_quotes s) \<le> 2 * length s"
  by (induction s) (auto simp: escape_quotes_def)

lemma length_nat_str_small: "n < 1000 \<Longrightarrow> length (nat_str n) \<le> 3"
  by (simp add: nat_str.simps)

lemma length_join_append:
  "xs \<noteq> [] \<Longrightarrow> length (join sep (xs @ ys)) = length (join sep xs) + sum_list (map (\<lambda>y. length sep + length y) ys)"
proof (induction xs rule: induct_list012)
  case (2 x)
  show ?case
  proof (induction ys arbitrary: x)
    case (Cons y ys)
    then show ?case by (simp add: add.assoc)
  qed simp
next
  case (3 x y zs)
  then show ?case by simp
qed simp

lemma escape_screenshot:
  "length (escape_quotes (''screenshot_'' @ nat_str n)) = 11 + length (nat_str n)"
proof -
  have plain: "escape_quotes s = s" if "\<forall>c \<in> set s. c \<noteq> CHR 0x5C \<and> c \<noteq> CHR 0x22" for s
    using that by (induction s) (auto simp: escape_quotes_def)
  have "\<forall>c \<in> set (nat_str n). c \<noteq> CHR 0x5C \<and> c \<noteq> CHR 0x22"
  proof
    fix c assume "c \<in> set (nat_str n)"
    then obtain d where "d < 10" "c = digit_char d" using nat_str_digits by blast
    then have "of_char c = 48 + d" by (simp add: digit_char_def of_char_of)
    with \<open>d < 10\<close> show "c \<noteq> CHR 0x5C \<and> c \<noteq> CHR 0x22" by auto
  qed
  then have "escape_quotes (''screenshot_'' @ nat_str n) = ''screenshot_'' @ nat_str n"
    by (intro plain) auto
  then show ?thesis by simp
qed

text \<open>512 bytes cover the framing of a screenshot with a file name of up to 160 bytes.\<close>

lemma screenshot_part_size:
  assumes "length boundary = boundary_length" "sf_index sf < 1000" "length (path_base (sf_path sf)) \<le> 160"
    and "0 \<le> sf_size sf" "\<forall>v. open_file fs (sf_path sf) = Some v \<longrightarrow> sf_size sf = int (length v)"
  shows "int (sum_list (map (\<lambda>p. length crlf + length (render_part boundary p)) (screenshot_part fs sf))) \<le>
    sf_size sf + 512"
proof -
  have "length (quoted (''screenshot_'' @ nat_str (sf_index sf))) \<le> 16"
    using length_nat_str_small [OF assms(2)] escape_screenshot [of "sf_index sf"] by (simp add: quoted_def)
  moreover have "length (quoted (path_base (sf_path sf))) \<le> 322"
    using length_escape_quotes [of "path_base (sf_path sf)"] assms(3) by (simp add: quoted_def)
  ultimately show ?thesis
    using assms(1,4,5)
    by (cases "open_file fs (sf_path sf)")
      (simp_all add: screenshot_part_def render_part_def crlf_def boundary_length_def)
qed

lemma stat_screenshots_facts:
  assumes "sf \<in> set (stat_screenshots fs paths)"
  shows "sf_index sf \<le> length paths" "sf_path sf \<in> set paths" "stat_size fs (sf_path sf) = Some (sf_size sf)"
proof -
  from assms obtain i p where ip: "(i, p) \<in> set (zip [0..<length paths] paths)"
    and sf: "sf \<in> set (case stat_size fs p of None \<Rightarrow> []
        | Some n \<Rightarrow> [\<lparr>sf_index = Suc i, sf_path = p, sf_size = n\<rparr>])"
    by (auto simp: stat_screenshots_def)
  from ip have "i < length paths" "p \<in> set paths" by (auto dest: set_zip_leftD set_zip_rightD)
  moreover from sf obtain n where "stat_size fs p = Some n" by (cases "stat_size fs p") auto
  ultimately show "sf_index sf \<le> length paths" "sf_path sf \<in> set paths"
    "stat_size fs (sf_path sf) = Some (sf_size sf)" using sf by simp_all
qed

lemma buildCompleteForm_split:
  "buildCompleteForm fs r shots = buildCompleteForm fs r [] @ concat (map (screenshot_part fs) shots)"
  by (simp add: buildCompleteForm_def)

lemma buildCompleteForm_nonempty: "buildCompleteForm fs r [] \<noteq> []"
  by (simp add: buildCompleteForm_def)

lemma shots_size:
  assumes "length boundary = boundary_length"
    and "\<forall>sf \<in> set shots. sf_index sf < 1000 \<and> length (path_base (sf_path sf)) \<le> 160 \<and>
      0 \<le> sf_size sf \<and> (\<forall>v. open_file fs (sf_path sf) = Some v \<longrightarrow> sf_size sf = int (length v))"
  shows "int (sum_list (map (\<lambda>p. length crlf + length (render_part boundary p))
      (concat (map (screenshot_part fs) shots)))) \<le> sum_list (map sf_size shots) + int (length shots) * 512"
  using assms(2)
proof (induction shots)
  case (Cons sf shots)
  with screenshot_part_size [OF assms(1), of sf fs] show ?case by simp
qed simp

text \<open>
  A completion sent in one request stays below the upload limit. If the estimate says that
  everything fits, the multipart body really built, boundaries and part headers included, is at
  most 80 MiB, for up to 999 screenshots whose file names have at most 160 bytes and which, if they
  open, still have the size they were statted with.
\<close>

theorem bundled_completion_fits:
  assumes "length boundary = boundary_length" "length (cr_Screenshots r) < 1000"
    and "\<forall>p \<in> set (cr_Screenshots r). length (path_base p) \<le> 160"
    and "\<forall>p n. stat_size fs p = Some n \<longrightarrow>
      0 \<le> n \<and> (\<forall>v. open_file fs p = Some v \<longrightarrow> n = int (length v))"
    and "fits_one_request boundary fs r"
  shows "int (length (render_form boundary
      (buildCompleteForm fs r (stat_screenshots fs (cr_Screenshots r))))) \<le> maxUploadSize"
proof -
  let ?shots = "stat_screenshots fs (cr_Screenshots r)" and ?base = "buildCompleteForm fs r []"
  let ?parts = "concat (map (screenshot_part fs) ?shots)"
  have "\<forall>sf \<in> set ?shots. sf_index sf < 1000 \<and> length (path_base (sf_path sf)) \<le> 160 \<and>
      0 \<le> sf_size sf \<and> (\<forall>v. open_file fs (sf_path sf) = Some v \<longrightarrow> sf_size sf = int (length v))"
  proof (intro ballI)
    fix sf assume "sf \<in> set ?shots"
    note f = stat_screenshots_facts [OF this]
    from f(1) assms(2) have "sf_index sf < 1000" by simp
    with f(2,3) assms(3,4) show "sf_index sf < 1000 \<and> length (path_base (sf_path sf)) \<le> 160 \<and>
      0 \<le> sf_size sf \<and> (\<forall>v. open_file fs (sf_path sf) = Some v \<longrightarrow> sf_size sf = int (length v))"
      by blast
  qed
  note s = shots_size [OF assms(1) this]
  have "length (render_form boundary (?base @ ?parts)) = length (render_form boundary ?base) +
      sum_list (map (\<lambda>p. length crlf + length (render_part boundary p)) ?parts)"
    unfolding render_form_def map_append
    using length_join_append [of "map (render_part boundary) ?base" crlf "map (render_part boundary) ?parts"]
      buildCompleteForm_nonempty by (simp add: comp_def)
  with s assms(5) show ?thesis
    unfolding buildCompleteForm_split [of fs r ?shots] by (simp add: fits_one_request_def Let_def)
qed


definition small_result :: complete_result where
  "small_result = \<lparr>cr_LockID = 3, cr_RequestID = 42, cr_Status = ''completed'', cr_FailReason = [],
     cr_NzbData = Some ''nzb'', cr_Password = [], cr_MediaInfo = None, cr_Screenshots = [''/s/shot1.jpg''],
     cr_TotalSizeBytes = 0\<rparr>"

definition one_file :: file_view where
  "one_file = \<lparr>stat_size = (\<lambda>p. if p = ''/s/shot1.jpg'' then Some 4 else None),
     open_file = (\<lambda>p. if p = ''/s/shot1.jpg'' then Some ''JPEG'' else None)\<rparr>"

lemma small_fits: "fits_one_request (replicate 60 CHR ''x'') one_file small_result"
  by code_simp

theorem bundled_completion_fits_witness:
  "int (length (render_form (replicate 60 CHR ''x'')
     (buildCompleteForm one_file small_result (stat_screenshots one_file (cr_Screenshots small_result))))) \<le>
   maxUploadSize"
proof (rule bundled_completion_fits [OF _ _ _ _ small_fits])
  show "\<forall>p \<in> set (cr_Screenshots small_result). length (path_base p) \<le> 160" by code_simp
qed (auto simp: boundary_length_def small_result_def one_file_def)

subsection \<open>What a completion delivers\<close>

text \<open>
  The screenshots that can be delivered: of the listed paths, numbered from 1, those that can be
  statted and opened, with the name and the bytes they are sent under.
\<close>

definition shot_of :: "file_view \<Rightarrow> nat \<Rightarrow> go_string \<Rightarrow> (nat \<times> go_string \<times> go_string) list" where
  "shot_of fs i p =
     (case (stat_size fs p, open_file fs p) of
        (Some n, Some v) \<Rightarrow> [(i, path_base p, v)]
      | _ \<Rightarrow> [])"

definition readable_shots :: "file_view \<Rightarrow> go_string list \<Rightarrow> (nat \<times> go_string \<times> go_string) list" where
  "readable_shots fs paths = concat (map (\<lambda>(i, p). shot_of fs (Suc i) p) (zip [0..<length paths] paths))"

definition is_shot :: "form_part \<Rightarrow> bool" where
  "is_shot p = (case p of FilePart n f v \<Rightarrow> take 10 n = ''screenshot'' | Field n v \<Rightarrow> False)"

text \<open>The own data of a task in a form, each item exactly when the result has it.\<close>

definition carries :: "complete_result \<Rightarrow> form_part list \<Rightarrow> bool" where
  "carries r ps \<longleftrightarrow>
     (\<forall>v. Field ''lock_id'' v \<in> set ps \<longleftrightarrow> v = int_str (cr_LockID r)) \<and>
     (\<forall>v. Field ''request_id'' v \<in> set ps \<longleftrightarrow> v = int_str (cr_RequestID r)) \<and>
     (\<forall>v. Field ''status'' v \<in> set ps \<longleftrightarrow> v = cr_Status r) \<and>
     (\<forall>v. Field ''fail_reason'' v \<in> set ps \<longleftrightarrow> v = cr_FailReason r \<and> v \<noteq> []) \<and>
     (\<forall>v. Field ''password'' v \<in> set ps \<longleftrightarrow> v = cr_Password r \<and> v \<noteq> []) \<and>
     (\<forall>v. Field ''total_size_bytes'' v \<in> set ps \<longleftrightarrow> v = int_str (cr_TotalSizeBytes r) \<and> 0 < cr_TotalSizeBytes r) \<and>
     (\<forall>v. FilePart ''nzb_data'' ''release.nzb'' v \<in> set ps \<longleftrightarrow> cr_NzbData r = Some v) \<and>
     (\<forall>v. Field ''media_info'' v \<in> set ps \<longleftrightarrow> cr_MediaInfo r = Some v)"

lemma screenshot_parts_set:
  "p \<in> set (concat (map (screenshot_part fs) shots)) \<Longrightarrow>
     \<exists>i f v. p = FilePart (''screenshot_'' @ nat_str i) f v"
  by (auto simp: screenshot_part_def split: option.splits)

lemma form_carries: "carries r (buildCompleteForm fs r shots)"
proof -
  have no_field: "Field n v \<notin> set (concat (map (screenshot_part fs) shots))"
    and no_nzb: "FilePart ''nzb_data'' f v \<notin> set (concat (map (screenshot_part fs) shots))" for n f v
    using screenshot_parts_set [of "Field n v" fs shots]
      screenshot_parts_set [of "FilePart ''nzb_data'' f v" fs shots] by auto
  have split: "p \<in> set (buildCompleteForm fs r shots) \<longleftrightarrow>
      p \<in> set (buildCompleteForm fs r []) \<or> p \<in> set (concat (map (screenshot_part fs) shots))" for p
    unfolding buildCompleteForm_split [of fs r shots] by simp
  have "carries r (buildCompleteForm fs r [])"
    unfolding carries_def buildCompleteForm_def opt_part_def
    by (intro conjI allI) (auto split: option.splits)
  then show ?thesis
    unfolding carries_def split by (simp only: no_field no_nzb simp_thms)
qed

lemma filter_screenshot_parts:
  "filter is_shot (concat (map (screenshot_part fs) shots)) = concat (map (screenshot_part fs) shots)"
  by (auto simp: filter_id_conv screenshot_part_def is_shot_def split: option.splits)

lemma filter_base_form: "filter is_shot (buildCompleteForm fs r []) = []"
  by (auto simp: buildCompleteForm_def opt_part_def is_shot_def split: option.splits)

lemma over_readable:
  assumes "\<And>i p. concat (map f (case stat_size fs p of None \<Rightarrow> []
      | Some n \<Rightarrow> [\<lparr>sf_index = i, sf_path = p, sf_size = n\<rparr>])) = map h (shot_of fs i p)"
  shows "concat (map f (stat_screenshots fs paths)) = map h (readable_shots fs paths)"
proof -
  have "concat (map f (concat (map (\<lambda>(i, p). case stat_size fs p of None \<Rightarrow> []
        | Some n \<Rightarrow> [\<lparr>sf_index = Suc i, sf_path = p, sf_size = n\<rparr>]) zs))) =
      map h (concat (map (\<lambda>(i, p). shot_of fs (Suc i) p) zs))" for zs
    by (induction zs) (simp_all add: assms case_prod_beta)
  then show ?thesis unfolding stat_screenshots_def readable_shots_def .
qed

lemma form_shots:
  "filter is_shot (buildCompleteForm fs r (stat_screenshots fs paths)) =
     map (\<lambda>(i, f, v). FilePart (''screenshot_'' @ nat_str i) f v) (readable_shots fs paths)"
proof -
  have parts: "concat (map (screenshot_part fs) (stat_screenshots fs paths)) =
      map (\<lambda>(i, f, v). FilePart (''screenshot_'' @ nat_str i) f v) (readable_shots fs paths)"
    by (rule over_readable) (auto simp: screenshot_part_def shot_of_def split: option.splits)
  show ?thesis
    unfolding buildCompleteForm_split [of fs r "stat_screenshots fs paths"] filter_append filter_base_form
      filter_screenshot_parts
    using parts by simp
qed

definition own_form :: "int \<Rightarrow> nat \<times> go_string \<times> go_string \<Rightarrow> form_part list" where
  "own_form nzbID = (\<lambda>(i, f, v). [Field ''nzb_id'' (int_str nzbID), FilePart ''screenshot'' f v])"

text \<open>The forms posted for the screenshots one by one, whatever the answers to them.\<close>

lemma uploadScreenshot_forms:
  "fst (snd (uploadScreenshot net t fs c i p)) =
     (case open_file fs p of None \<Rightarrow> [] | Some v \<Rightarrow> [own_form i (k, path_base p, v)])"
  by (auto simp: uploadScreenshot_def screenshot_form_def own_form_def split: option.splits sum.splits prod.splits)

lemma upload_all_forms:
  "fst (upload_all net t fs i shots c) =
     concat (map (\<lambda>sf. case open_file fs (sf_path sf) of None \<Rightarrow> []
       | Some v \<Rightarrow> [own_form i (sf_index sf, path_base (sf_path sf), v)]) shots)"
proof (induction shots arbitrary: c)
  case (Cons sf shots)
  obtain e qs c1 where u: "uploadScreenshot net t fs c i (sf_path sf) = (e, qs, c1)"
    by (metis prod_cases3)
  obtain qs' c2 where r: "upload_all net t fs i shots c1 = (qs', c2)" by force
  from uploadScreenshot_forms [of net t fs c i "sf_path sf" "sf_index sf"] u r Cons.IH [of c1]
  show ?case by simp
qed simp

lemma upload_readable:
  "fst (upload_all net t fs i (stat_screenshots fs paths) c) = map (own_form i) (readable_shots fs paths)"
  unfolding upload_all_forms by (rule over_readable) (auto simp: shot_of_def split: option.splits)

text \<open>
  C33. What a completion delivers. The first form posted always carries the task's own data: the
  ids and the status, and the reason, the password, the size, the NZB and the media information
  exactly when the result has them. Its screenshots are all those that can be read, in order and
  under their numbers, if everything fits into one request, and none otherwise. If this form is
  refused nothing else is sent and the refusal is the error returned. If it is accepted there is
  no error, and when the screenshots were left out they follow one per form, in order, under the
  id the site returned; without an id they are not sent at all.
\<close>

theorem Complete_delivers:
  "let (err, forms, c') = Complete net t boundary fs c r;
       form = hd forms;
       bundled = fits_one_request boundary fs r;
       shots = readable_shots fs (cr_Screenshots r)
   in carries r form \<and>
      filter is_shot form =
        (if bundled then map (\<lambda>(i, f, v). FilePart (''screenshot_'' @ nat_str i) f v) shots else []) \<and>
      (case fst (postGzipped net t c (baseURL c @ ''/api/agent/complete'') form) of
         Inl e \<Rightarrow> err = Some e \<and> forms = [form]
       | Inr m \<Rightarrow> err = None \<and>
           forms = form # (if bundled \<or> nzb_id_of m = 0 then [] else map (own_form (nzb_id_of m)) shots))"
proof -
  let ?stat = "stat_screenshots fs (cr_Screenshots r)" and ?url = "baseURL c @ ''/api/agent/complete''"
  show ?thesis
  proof (cases "fits_one_request boundary fs r")
    case True
    obtain res c1 where "postGzipped net t c ?url (buildCompleteForm fs r ?stat) = (res, c1)" by force
    with True show ?thesis
      by (cases res) (simp_all add: Complete_def Let_def form_carries form_shots)
  next
    case False
    obtain res c1 where p: "postGzipped net t c ?url (buildCompleteForm fs r []) = (res, c1)" by force
    show ?thesis
    proof (cases res)
      case (Inl e)
      with False p show ?thesis by (simp add: Complete_def Let_def form_carries filter_base_form)
    next
      case (Inr m)
      obtain qs c2 where "upload_all net t fs (nzb_id_of m) ?stat c1 = (qs, c2)" by force
      with False p Inr upload_readable [of net t fs "nzb_id_of m" "cr_Screenshots r" c1] show ?thesis
        by (simp add: Complete_def Let_def form_carries filter_base_form)
    qed
  qed
qed

text \<open>
  Two listed screenshots, the first statted but no longer readable, the second of 100 MiB at the
  time of the stat: the completion is sent without them and the second follows on its own.
\<close>

definition late_files :: file_view where
  "late_files = \<lparr>stat_size = (\<lambda>p. if p = ''/s/shot1.jpg'' then Some 4 else Some (100 * 2 ^ 20)),
     open_file = (\<lambda>p. if p = ''/s/shot1.jpg'' then None else Some ''JPEG'')\<rparr>"

definition two_shots :: complete_result where
  "two_shots = small_result\<lparr>cr_Screenshots := [''/s/shot1.jpg'', ''/s/shot2.jpg'']\<rparr>"

definition accepting_site :: network where
  "accepting_site q = Answer \<lparr>StatusCode = 200,
     Body = \<lparr>b_text = [], b_json = Some (JObj [(''nzb_id'', JNum ''7'')])\<rparr>\<rparr>"

lemma late_files_split: "\<not> fits_one_request (replicate 60 CHR ''x'') late_files two_shots"
  by code_simp

lemma accepted_id:
  "\<exists>m. fst (postGzipped accepting_site 5 c url ps) = Inr m \<and> nzb_id_of m = 7"
proof -
  have "nzb_id_of [(''nzb_id'', JNum ''7'')] = 7" by code_simp
  then show ?thesis by (simp add: postGzipped_def RoundTrip_def accepting_site_def Let_def)
qed

theorem Complete_delivers_witness:
  "tl (fst (snd (Complete accepting_site 5 (replicate 60 CHR ''x'') late_files
      (New ''https://site'' ''secret'' 0) two_shots))) =
     [[Field ''nzb_id'' ''7'', FilePart ''screenshot'' ''shot2.jpg'' ''JPEG'']]"
proof -
  have shots: "map (own_form 7) (readable_shots late_files (cr_Screenshots two_shots)) =
      [[Field ''nzb_id'' ''7'', FilePart ''screenshot'' ''shot2.jpg'' ''JPEG'']]"
    by code_simp
  obtain err forms c' where out: "Complete accepting_site 5 (replicate 60 CHR ''x'') late_files
      (New ''https://site'' ''secret'' 0) two_shots = (err, forms, c')"
    by (metis prod_cases3)
  obtain m where m: "fst (postGzipped accepting_site 5 (New ''https://site'' ''secret'' 0)
      (baseURL (New ''https://site'' ''secret'' 0) @ ''/api/agent/complete'') (hd forms)) = Inr m"
    "nzb_id_of m = 7" using accepted_id by blast
  show ?thesis
    using Complete_delivers [of accepting_site 5 "replicate 60 CHR ''x''" late_files
        "New ''https://site'' ''secret'' 0" two_shots] late_files_split shots m
    by (cases forms) (simp_all add: out Let_def)
qed

end
