(* ===== verification/Agent_Guards.thy ===== *)
theory Agent_Guards
  imports Site_Reports Disk_Reserve
begin

text \<open>
  The guards of the agent's main program (\<open>src/main.go\<close>): the counter of local errors with its
  self-pause, the cooldown of requests that did not fit (with its file), the set of active tasks,
  the classification of errors by their text, the live status, and the watchdog with the VPN
  restart of \<open>src/services/vpn_control.go\<close>.
\<close>

subsection \<open>Self-pause after local errors\<close>

record abort_guard =
  consecutiveAborts :: int
  abortPauseUntil :: time

definition abortPauseThreshold :: int where
  "abortPauseThreshold = 5"

definition abortPauseDuration :: duration where
  "abortPauseDuration = 5 * minute"

definition recordAbort :: "time \<Rightarrow> abort_guard \<Rightarrow> abort_guard" where
  "recordAbort t g =
     (let n = consecutiveAborts g + 1; g' = g\<lparr>consecutiveAborts := n\<rparr>
      in if abortPauseThreshold \<le> n then g'\<lparr>abortPauseUntil := t + abortPauseDuration\<rparr> else g')"

definition recordSuccess :: "abort_guard \<Rightarrow> abort_guard" where
  "recordSuccess g = g\<lparr>consecutiveAborts := 0\<rparr>"

definition abortPauseRemaining :: "time \<Rightarrow> abort_guard \<Rightarrow> duration" where
  "abortPauseRemaining t g = (let d = time_sub (abortPauseUntil g) t in if 0 < d then d else 0)"

definition no_aborts :: abort_guard where
  "no_aborts = \<lparr>consecutiveAborts = 0, abortPauseUntil = zero_time\<rparr>"

subsection \<open>Cooldown of oversized requests\<close>

text \<open>The map in memory, and what its file holds: \<open>None\<close> if it is missing or no such map.\<close>

record skip_guard =
  oversizeSkip :: "(int \<times> time) list"
  oversizeSkipFile :: bool
  skip_file :: "(int \<times> time) list option"

definition oversizeSkipTTL :: duration where
  "oversizeSkipTTL = 30 * minute"

definition saveOversizeSkipLocked :: "write_outcome \<Rightarrow> skip_guard \<Rightarrow> skip_guard" where
  "saveOversizeSkipLocked wr g =
     (if \<not> oversizeSkipFile g then g
      else case wr of
             Wrote \<Rightarrow> g\<lparr>skip_file := Some (oversizeSkip g)\<rparr>
           | NotOpened err \<Rightarrow> g
           | CutShort err n \<Rightarrow> g\<lparr>skip_file := None\<rparr>)"

definition loadOversizeSkip :: "time \<Rightarrow> skip_guard \<Rightarrow> skip_guard" where
  "loadOversizeSkip t g =
     (let g' = g\<lparr>oversizeSkipFile := True\<rparr>
      in case skip_file g of
           None \<Rightarrow> g'
         | Some raw \<Rightarrow>
             g'\<lparr>oversizeSkip := fold (\<lambda>(i, e) m. AList.update i e m) (filter (\<lambda>(i, e). t < e) raw) (oversizeSkip g)\<rparr>)"

definition markOversize :: "write_outcome \<Rightarrow> time \<Rightarrow> int \<Rightarrow> skip_guard \<Rightarrow> skip_guard" where
  "markOversize wr t requestID g =
     saveOversizeSkipLocked wr (g\<lparr>oversizeSkip := AList.update requestID (t + oversizeSkipTTL) (oversizeSkip g)\<rparr>)"

definition shouldSkipOversize :: "write_outcome \<Rightarrow> time \<Rightarrow> int \<Rightarrow> skip_guard \<Rightarrow> bool \<times> skip_guard" where
  "shouldSkipOversize wr t requestID g =
     (case map_of (oversizeSkip g) requestID of
        None \<Rightarrow> (False, g)
      | Some e \<Rightarrow>
          if e < t then
            (False, saveOversizeSkipLocked wr (g\<lparr>oversizeSkip := AList.delete requestID (oversizeSkip g)\<rparr>))
          else (True, g))"

text \<open>A restart of the agent: memory is lost, the file is loaded.\<close>

definition restart_skip :: "time \<Rightarrow> skip_guard \<Rightarrow> skip_guard" where
  "restart_skip t g = loadOversizeSkip t \<lparr>oversizeSkip = [], oversizeSkipFile = False, skip_file = skip_file g\<rparr>"

definition fresh_skip :: skip_guard where
  "fresh_skip = \<lparr>oversizeSkip = [], oversizeSkipFile = True, skip_file = None\<rparr>"

subsection \<open>Errors by their text\<close>

definition isAgentLocalError :: "go_string \<Rightarrow> bool" where
  "isAgentLocalError s \<longleftrightarrow>
     contains s ''address already in use'' \<or> contains s ''Only one usage of each socket'' \<or>
     contains s ''SOCKS5'' \<or> contains s ''failed to create SOCKS5''"

definition isRuntimeDiskFullError :: "go_string \<Rightarrow> bool" where
  "isRuntimeDiskFullError s \<longleftrightarrow>
     contains s ''no space left'' \<or> contains s ''insufficient disk space'' \<or>
     contains s ''There is not enough space on the disk''"

subsection \<open>Active tasks\<close>

definition claimTask :: "int \<Rightarrow> int list \<Rightarrow> bool \<times> int list" where
  "claimTask i act = (if i \<in> set act then (False, act) else (True, act @ [i]))"

definition releaseTask :: "int \<Rightarrow> int list \<Rightarrow> int list" where
  "releaseTask i act = filter (\<lambda>j. j \<noteq> i) act"

definition activeTaskCount :: "int list \<Rightarrow> int" where
  "activeTaskCount act = int (length act)"

subsection \<open>Live status\<close>

type_synonym task_progress = "(int \<times> file_progress) list"

definition idle_status :: live_status where
  "idle_status = \<lparr>ls_Phase = ''idle'', ls_VPNStatus = [], ls_PublicIP = [], ls_DownloadSpeed = [],
     ls_UploadSpeed = [], ls_Files = [], ls_TaskTitle = [], ls_RequestID = 0, ls_DiskFreeGB = 0,
     ls_DiskReservedGB = 0\<rparr>"

definition setLivePhase :: "go_string \<Rightarrow> live_status \<Rightarrow> live_status" where
  "setLivePhase phase s = s\<lparr>ls_Phase := phase\<rparr>"

definition setLiveTask :: "go_string \<Rightarrow> int \<Rightarrow> live_status \<Rightarrow> live_status" where
  "setLiveTask title requestID s = s\<lparr>ls_TaskTitle := title, ls_RequestID := requestID\<rparr>"

definition clearLiveStatus :: "live_status \<Rightarrow> live_status" where
  "clearLiveStatus s = idle_status"

definition updateTaskProgress :: "int \<Rightarrow> file_progress option \<Rightarrow> task_progress \<Rightarrow> task_progress" where
  "updateTaskProgress requestID fp m =
     (case fp of None \<Rightarrow> AList.delete requestID m | Some f \<Rightarrow> AList.update requestID f m)"

text \<open>\<open>fmt.Sscanf(s, "%f", ...)\<close> on the texts the agent writes: the number at the start, else 0.\<close>

definition scan_float :: "go_string \<Rightarrow> float64" where
  "scan_float s =
     (case parse_float (takeWhile (\<lambda>c. char_digit c \<noteq> None \<or> c \<in> {CHR ''.'', CHR ''-'', CHR ''+''}) s) of
        Some x \<Rightarrow> x | None \<Rightarrow> 0)"

definition speed_text :: "float64 \<Rightarrow> go_string" where
  "speed_text x = (if 0 < x then fmt_fixed 2 x @ '' MB/s'' else [])"

text \<open>The entries are summed in the order in which the map is walked.\<close>

definition aggregateLiveStatus :: "task_progress \<Rightarrow> live_status \<Rightarrow> (float64 \<times> float64) \<times> live_status" where
  "aggregateLiveStatus m s =
     (let fps = map snd m;
          dl = foldl (\<lambda>a f. fadd a (scan_float (fp_Speed f))) 0 fps;
          ul = foldl (\<lambda>a f. fadd a (scan_float (fp_UpSpeed f))) 0 fps;
          phase = (if fps = [] then ''idle''
                   else if \<exists>f \<in> set fps. fp_Phase f = ''uploading'' then ''uploading''
                   else if \<exists>f \<in> set fps. fp_Phase f = ''downloading'' then ''downloading''
                   else ''processing'')
      in ((dl, ul), s\<lparr>ls_Files := fps, ls_Phase := phase,
            ls_DownloadSpeed := (if fps = [] then [] else speed_text dl),
            ls_UploadSpeed := (if fps = [] then [] else speed_text ul)\<rparr>))"

record live_snapshot =
  sn_Phase :: go_string
  sn_TaskTitle :: go_string
  sn_DownloadMBps :: float64
  sn_UploadMBps :: float64
  sn_VPNStatus :: go_string
  sn_PublicIP :: go_string
  sn_DiskFreeGB :: float64
  sn_DiskReservedGB :: float64
  sn_DiskTotalGB :: float64
  sn_UpdatedAt :: time

definition SetLiveSnapshot :: "time \<Rightarrow> live_snapshot \<Rightarrow> live_snapshot" where
  "SetLiveSnapshot t s = s\<lparr>sn_UpdatedAt := t\<rparr>"

definition gib :: "float64 \<Rightarrow> float64" where
  "gib x = fdiv (fdiv (fdiv x 1024) 1024) 1024"

text \<open>
  One pass of \<open>startStatusReporter\<close>: the status posted, the snapshot for the local UI, the last
  error logged, and the job to cancel. \<open>vpn\<close> is the network state, \<open>free\<close> and \<open>total\<close> the disk
  queries (\<open>None\<close>: failed).
\<close>

definition status_pass ::
  "network \<Rightarrow> time \<Rightarrow> go_string \<times> go_string \<Rightarrow> u64 option \<Rightarrow> u64 option \<Rightarrow> ledger \<Rightarrow> task_progress \<Rightarrow> go_string \<Rightarrow>
     live_status \<Rightarrow> site_client \<Rightarrow> live_status \<times> live_snapshot \<times> go_string \<times> go_string option \<times> site_client" where
  "status_pass net t vpn free_space disk_total led m lastErrMsg s0 c =
     (let ((dl, ul), s) = aggregateLiveStatus m s0;
          snap0 = s\<lparr>ls_VPNStatus := fst vpn, ls_PublicIP := snd vpn\<rparr>;
          snap1 = (case free_space of Some f \<Rightarrow> snap0\<lparr>ls_DiskFreeGB := gib (float_of_int (uint f))\<rparr> | None \<Rightarrow> snap0);
          snap = snap1\<lparr>ls_DiskReservedGB := gib (float_of_int (TotalReservedBytes led))\<rparr>;
          totalGB = (case disk_total of Some x \<Rightarrow> if 0 < x then gib (float_of_int (uint x)) else 0 | None \<Rightarrow> 0);
          view = SetLiveSnapshot t
            \<lparr>sn_Phase = ls_Phase snap, sn_TaskTitle = ls_TaskTitle snap, sn_DownloadMBps = dl,
             sn_UploadMBps = ul, sn_VPNStatus = ls_VPNStatus snap, sn_PublicIP = ls_PublicIP snap,
             sn_DiskFreeGB = ls_DiskFreeGB snap, sn_DiskReservedGB = ls_DiskReservedGB snap,
             sn_DiskTotalGB = totalGB, sn_UpdatedAt = 0\<rparr>
      in case PostStatus net t c snap of
           (Inl e, c') \<Rightarrow> (s, view, site_error_text e, None, c')
         | (Inr cancel, c') \<Rightarrow>
             (s, view, [], if 0 < cancel then Some (''request-'' @ int_str cancel) else None, c'))"

subsection \<open>The watchdog\<close>

datatype watchdog_action = Wait | Exit | RestartTunnel

definition watchdogVPNRestartAfter :: duration where
  "watchdogVPNRestartAfter = 5 * minute"

definition watchdogHardExitAfter :: duration where
  "watchdogHardExitAfter = 10 * minute"

definition watchdogVPNCooldown :: duration where
  "watchdogVPNCooldown = 3 * minute"

text \<open>One tick: what is done, and when the tunnel was last restarted.\<close>

definition watchdog_tick :: "time \<Rightarrow> time \<Rightarrow> time \<Rightarrow> watchdog_action \<times> time" where
  "watchdog_tick t lastOK lastVPNRestart =
     (let age = time_sub t lastOK
      in if age < watchdogVPNRestartAfter then (Wait, lastVPNRestart)
         else if watchdogHardExitAfter \<le> age then (Exit, lastVPNRestart)
         else if time_sub t lastVPNRestart < watchdogVPNCooldown then (Wait, lastVPNRestart)
         else (RestartTunnel, t))"

text \<open>The ticks up to an exit; each carries the time and the time of the last contact.\<close>

fun watchdog_run :: "time \<Rightarrow> (time \<times> time) list \<Rightarrow> (time \<times> watchdog_action) list" where
  "watchdog_run r [] = []"
| "watchdog_run r ((t, ok) # ts) =
     (case watchdog_tick t ok r of
        (Exit, r') \<Rightarrow> [(t, Exit)]
      | (a, r') \<Rightarrow> (t, a) # watchdog_run r' ts)"

text \<open>
  \<open>RestartVPN\<close>: for each of the two endpoints, stop and then start; the first one on which both
  are accepted ends it. The result also gives the requests made.
\<close>

definition vpn_paths :: "go_string list" where
  "vpn_paths = [''/v1/openvpn/status'', ''/v1/wireguard/status'']"

fun restart_on :: "(go_string \<times> go_string \<Rightarrow> go_string option) \<Rightarrow> go_string \<Rightarrow> go_string list \<Rightarrow>
    go_string option \<times> (go_string \<times> go_string) list" where
  "restart_on put lastErr [] = (Some (''all gluetun endpoints failed (last: '' @ lastErr @ '')''), [])"
| "restart_on put lastErr (p # ps) =
     (case put (p, ''stopped'') of
        Some e \<Rightarrow> (case restart_on put e ps of (r, qs) \<Rightarrow> (r, (p, ''stopped'') # qs))
      | None \<Rightarrow>
          (case put (p, ''running'') of
             Some e \<Rightarrow> (case restart_on put e ps of (r, qs) \<Rightarrow> (r, (p, ''stopped'') # (p, ''running'') # qs))
           | None \<Rightarrow> (None, [(p, ''stopped''), (p, ''running'')])))"

definition RestartVPN :: "(go_string \<times> go_string \<Rightarrow> go_string option) \<Rightarrow> go_string option \<times> (go_string \<times> go_string) list" where
  "RestartVPN put = restart_on put [] vpn_paths"

subsection \<open>The cooldown refines its specification\<close>

datatype skip_op = Mark int | Query int | Restart

text \<open>The answers the agent gives to the queries, in order.\<close>

fun skip_run :: "skip_guard \<Rightarrow> (time \<times> skip_op) list \<Rightarrow> bool list" where
  "skip_run g [] = []"
| "skip_run g ((t, Mark i) # ops) = skip_run (markOversize Wrote t i g) ops"
| "skip_run g ((t, Query i) # ops) =
     (case shouldSkipOversize Wrote t i g of (b, g') \<Rightarrow> b # skip_run g' ops)"
| "skip_run g ((t, Restart) # ops) = skip_run (restart_skip t g) ops"

text \<open>The specification keeps when each request was last marked, restarts or not.\<close>

fun spec_run :: "(int \<rightharpoonup> time) \<Rightarrow> (time \<times> skip_op) list \<Rightarrow> bool list" where
  "spec_run a [] = []"
| "spec_run a ((t, Mark i) # ops) = spec_run (a(i \<mapsto> t)) ops"
| "spec_run a ((t, Query i) # ops) =
     (case a i of None \<Rightarrow> False | Some t0 \<Rightarrow> t \<le> t0 + oversizeSkipTTL) # spec_run a ops"
| "spec_run a ((t, Restart) # ops) = spec_run a ops"

text \<open>A map agrees with the specification from a moment on.\<close>

definition expiries :: "time \<Rightarrow> (int \<rightharpoonup> time) \<Rightarrow> (int \<rightharpoonup> time) \<Rightarrow> bool" where
  "expiries t a M \<longleftrightarrow>
     (\<forall>i. (\<forall>e. M i = Some e \<longrightarrow> (\<exists>t0. a i = Some t0 \<and> e = t0 + oversizeSkipTTL)) \<and>
          (\<forall>t0. a i = Some t0 \<and> t \<le> t0 + oversizeSkipTTL \<longrightarrow> M i = Some (t0 + oversizeSkipTTL)))"

definition agree :: "time \<Rightarrow> (int \<rightharpoonup> time) \<Rightarrow> (int \<times> time) list \<Rightarrow> bool" where
  "agree t a m \<longleftrightarrow> distinct (map fst m) \<and> expiries t a (map_of m)"

definition skip_rel :: "time \<Rightarrow> (int \<rightharpoonup> time) \<Rightarrow> skip_guard \<Rightarrow> bool" where
  "skip_rel t a g \<longleftrightarrow> oversizeSkipFile g \<and> agree t a (oversizeSkip g) \<and>
     agree t a (case skip_file g of None \<Rightarrow> [] | Some m \<Rightarrow> m)"

lemma agree_later: "agree t a m \<Longrightarrow> t \<le> t' \<Longrightarrow> agree t' a m"
  unfolding agree_def expiries_def by (meson order_trans)

lemma skip_rel_later: "skip_rel t a g \<Longrightarrow> t \<le> t' \<Longrightarrow> skip_rel t' a g"
  by (auto simp: skip_rel_def intro: agree_later split: option.splits)

lemma agree_mark: "agree t a m \<Longrightarrow> agree t (a(i \<mapsto> t)) (AList.update i (t + oversizeSkipTTL) m)"
  by (auto simp: agree_def expiries_def update_conv' distinct_update split: if_splits)

lemma agree_expired:
  "agree t a m \<Longrightarrow> a i = Some t0 \<Longrightarrow> t0 + oversizeSkipTTL < t \<Longrightarrow> agree t a (AList.delete i m)"
  by (auto simp: agree_def expiries_def delete_conv' distinct_delete)

lemma agree_reload:
  assumes "agree t a m" "\<forall>i t0. a i = Some t0 \<longrightarrow> t \<noteq> t0 + oversizeSkipTTL"
  shows "agree t a (fold (\<lambda>(k, v) m. AList.update k v m) (filter (\<lambda>(i, e). t < e) m) [])"
proof -
  let ?f = "filter (\<lambda>(i, e). t < e) m"
  have d: "distinct (map fst m)" using assms(1) by (simp add: agree_def)
  have df: "distinct (map fst ?f)" using d by (rule distinct_map_filter)
  have mf: "map_of ?f i = (case map_of m i of None \<Rightarrow> None | Some e \<Rightarrow> if t < e then Some e else None)" for i
    using d by (induction m) (auto split: option.splits if_splits simp: map_of_eq_None_iff)
  have "map_of (fold (\<lambda>(k, v) m. AList.update k v m) ?f []) = map_of ?f"
    using map_of_fold_update [of "\<lambda>v. v" ?f "[]"] by (simp add: map_of_rev_distinct [OF df])
  moreover have "distinct (map fst (fold (\<lambda>(k, v) m. AList.update k v m) ?f []))"
    using distinct_fold_update [of "[]" "\<lambda>v. v" ?f] by simp
  moreover have "expiries t a (\<lambda>i. case M i of None \<Rightarrow> None | Some e \<Rightarrow> if t < e then Some e else None)"
    if "expiries t a M" for M
    using that assms(2) unfolding expiries_def by (fastforce split: option.splits if_splits)
  ultimately show ?thesis
    using assms(1) unfolding agree_def by (simp add: mf [abs_def])
qed

lemma restart_rel:
  assumes "skip_rel t a g" "\<forall>i t0. a i = Some t0 \<longrightarrow> t \<noteq> t0 + oversizeSkipTTL"
  shows "skip_rel t a (restart_skip t g)"
proof (cases "skip_file g")
  case None
  with assms show ?thesis by (simp add: skip_rel_def restart_skip_def loadOversizeSkip_def)
next
  case (Some m)
  then have "agree t a m" using assms(1) by (simp add: skip_rel_def)
  from agree_reload [OF this assms(2)] this Some show ?thesis
    by (simp add: skip_rel_def restart_skip_def loadOversizeSkip_def Let_def)
qed

lemma query_rel:
  assumes "skip_rel t a g"
  shows "fst (shouldSkipOversize Wrote t i g) =
      (case a i of None \<Rightarrow> False | Some t0 \<Rightarrow> t \<le> t0 + oversizeSkipTTL)"
    and "skip_rel t a (snd (shouldSkipOversize Wrote t i g))"
proof -
  have ag: "agree t a (oversizeSkip g)" "oversizeSkipFile g" using assms by (simp_all add: skip_rel_def)
  show "fst (shouldSkipOversize Wrote t i g) =
      (case a i of None \<Rightarrow> False | Some t0 \<Rightarrow> t \<le> t0 + oversizeSkipTTL)"
    using ag(1) unfolding agree_def expiries_def shouldSkipOversize_def
    by (fastforce split: option.splits if_splits)
  show "skip_rel t a (snd (shouldSkipOversize Wrote t i g))"
  proof (cases "map_of (oversizeSkip g) i")
    case None
    with assms show ?thesis by (simp add: shouldSkipOversize_def)
  next
    case (Some e)
    then obtain t0 where "a i = Some t0" "e = t0 + oversizeSkipTTL" using ag(1) unfolding agree_def expiries_def by blast
    with Some assms agree_expired [OF ag(1), of i t0] ag(2) show ?thesis
      by (auto simp: shouldSkipOversize_def saveOversizeSkipLocked_def skip_rel_def)
  qed
qed

lemma skip_run_refines:
  assumes "skip_rel t a g" "sorted (t # map fst ops)"
    and "\<forall>tr i t0. (tr, Restart) \<in> set ops \<and> (a i = Some t0 \<or> (t0, Mark i) \<in> set ops) \<longrightarrow>
      tr \<noteq> t0 + oversizeSkipTTL"
  shows "skip_run g ops = spec_run a ops"
  using assms
proof (induction ops arbitrary: t a g)
  case (Cons x ops)
  obtain t' op where x: "x = (t', op)" by (cases x)
  have le: "t \<le> t'" and s: "sorted (t' # map fst ops)" using Cons.prems(2) x by auto
  have rel: "skip_rel t' a g" using Cons.prems(1) le by (rule skip_rel_later)
  have fut: "\<forall>tr i t0. (tr, Restart) \<in> set ops \<and> (a i = Some t0 \<or> (t0, Mark i) \<in> set ops) \<longrightarrow>
      tr \<noteq> t0 + oversizeSkipTTL" using Cons.prems(3) by (simp, blast)
  show ?case
  proof (cases op)
    case (Mark i)
    have "skip_rel t' (a(i \<mapsto> t')) (markOversize Wrote t' i g)"
      using rel agree_mark by (simp add: skip_rel_def markOversize_def saveOversizeSkipLocked_def)
    moreover have "\<forall>tr j t0. (tr, Restart) \<in> set ops \<and> ((a(i \<mapsto> t')) j = Some t0 \<or> (t0, Mark j) \<in> set ops) \<longrightarrow>
        tr \<noteq> t0 + oversizeSkipTTL"
      using Cons.prems(3) fut unfolding x Mark by (metis fun_upd_apply list.set_intros(1,2) option.inject)
    ultimately have "skip_run (markOversize Wrote t' i g) ops = spec_run (a(i \<mapsto> t')) ops"
      using s by (intro Cons.IH)
    then show ?thesis by (simp only: x Mark skip_run.simps spec_run.simps)
  next
    case (Query i)
    with query_rel [OF rel, of i] Cons.IH [OF _ s fut] x show ?thesis
      by (cases "shouldSkipOversize Wrote t' i g") simp
  next
    case Restart
    have "\<forall>i t0. a i = Some t0 \<longrightarrow> t' \<noteq> t0 + oversizeSkipTTL"
      using Cons.prems(3) unfolding x Restart by (metis list.set_intros(1))
    from Cons.IH [OF restart_rel [OF rel this] s fut] x Restart show ?thesis by simp
  qed
qed simp

text \<open>
  C20. The cooldown of a request that did not fit survives restarts. Whatever sequence of marks,
  queries and restarts happens in the order of time (file writes succeeding, and no restart
  falling on the very nanosecond of an expiry), a query answers that the request is still in
  its cooldown exactly if it was last marked at most thirty minutes before.
\<close>

theorem oversize_cooldown_refines:
  assumes "sorted (map fst ops)"
    and "\<forall>tr i t0. (tr, Restart) \<in> set ops \<and> (t0, Mark i) \<in> set ops \<longrightarrow> tr \<noteq> t0 + oversizeSkipTTL"
  shows "skip_run fresh_skip ops = spec_run Map.empty ops"
proof (cases ops)
  case (Cons x xs)
  have "skip_rel (fst x) Map.empty fresh_skip"
    by (simp add: skip_rel_def fresh_skip_def agree_def expiries_def)
  with skip_run_refines [of "fst x" Map.empty fresh_skip ops] assms Cons show ?thesis by simp
qed simp

theorem oversize_cooldown_refines_witness:
  "skip_run fresh_skip [(0, Mark 7), (minute, Restart), (2 * minute, Query 7), (31 * minute, Query 7)] =
     [True, False]"
  by (subst oversize_cooldown_refines) (auto simp: oversizeSkipTTL_def time_unit_defs)

subsection \<open>The self-pause\<close>

datatype task_outcome = Aborted time | Succeeded

definition guard_step :: "abort_guard \<Rightarrow> task_outcome \<Rightarrow> abort_guard" where
  "guard_step g e = (case e of Aborted t \<Rightarrow> recordAbort t g | Succeeded \<Rightarrow> recordSuccess g)"

lemma guard_step_simps [simp]:
  "guard_step g (Aborted t) = recordAbort t g" "guard_step g Succeeded = recordSuccess g"
  by (simp_all add: guard_step_def)

definition streak :: "task_outcome list \<Rightarrow> nat" where
  "streak es = length (takeWhile (\<lambda>e. e \<noteq> Succeeded) (rev es))"

fun abort_times :: "task_outcome list \<Rightarrow> time list" where
  "abort_times [] = []"
| "abort_times (Aborted t # es) = t # abort_times es"
| "abort_times (Succeeded # es) = abort_times es"

text \<open>An abort at \<open>t\<close> that was at least the fifth in a row.\<close>

definition pauses_at :: "task_outcome list \<Rightarrow> time \<Rightarrow> bool" where
  "pauses_at es t \<longleftrightarrow> (\<exists>pre post. es = pre @ Aborted t # post \<and> 5 \<le> streak (pre @ [Aborted t]))"

lemma streak_snoc [simp]: "streak (es @ [e]) = (if e = Succeeded then 0 else Suc (streak es))"
  by (simp add: streak_def)

lemma abort_times_append [simp]: "abort_times (xs @ ys) = abort_times xs @ abort_times ys"
  by (induction xs rule: abort_times.induct) auto

lemma pauses_at_snoc:
  "pauses_at (es @ [e]) t \<longleftrightarrow> pauses_at es t \<or> e = Aborted t \<and> 5 \<le> streak (es @ [e])"
proof
  assume "pauses_at (es @ [e]) t"
  then obtain pre post where d: "es @ [e] = pre @ Aborted t # post" "5 \<le> streak (pre @ [Aborted t])"
    by (auto simp: pauses_at_def)
  show "pauses_at es t \<or> e = Aborted t \<and> 5 \<le> streak (es @ [e])"
  proof (cases post rule: rev_cases)
    case Nil
    with d show ?thesis by simp
  next
    case (snoc ys y)
    with d have "es = pre @ Aborted t # ys" by simp
    with d show ?thesis by (auto simp: pauses_at_def)
  qed
next
  assume "pauses_at es t \<or> e = Aborted t \<and> 5 \<le> streak (es @ [e])"
  then show "pauses_at (es @ [e]) t"
    unfolding pauses_at_def by (metis append.assoc append_Cons append_Nil)
qed

lemma pauses_at_time: "pauses_at es t \<Longrightarrow> t \<in> set (abort_times es)"
  by (auto simp: pauses_at_def)

lemma abort_guard_inv:
  assumes "sorted (abort_times es)"
  shows "consecutiveAborts (foldl guard_step no_aborts es) = int (streak es) \<and>
    (abortPauseUntil (foldl guard_step no_aborts es) = zero_time \<and> (\<forall>t. \<not> pauses_at es t) \<or>
     (\<exists>t. pauses_at es t \<and> (\<forall>t'. pauses_at es t' \<longrightarrow> t' \<le> t) \<and>
        abortPauseUntil (foldl guard_step no_aborts es) = t + abortPauseDuration))"
  using assms
proof (induction es rule: rev_induct)
  case Nil
  show ?case by (simp add: no_aborts_def streak_def pauses_at_def)
next
  case (snoc e es)
  then have IH: "consecutiveAborts (foldl guard_step no_aborts es) = int (streak es)"
    "abortPauseUntil (foldl guard_step no_aborts es) = zero_time \<and> (\<forall>t. \<not> pauses_at es t) \<or>
     (\<exists>t. pauses_at es t \<and> (\<forall>t'. pauses_at es t' \<longrightarrow> t' \<le> t) \<and>
        abortPauseUntil (foldl guard_step no_aborts es) = t + abortPauseDuration)"
    by (auto simp: sorted_append)
  show ?case
  proof (cases e)
    case Succeeded
    with IH show ?thesis by (auto simp: recordSuccess_def pauses_at_snoc)
  next
    case (Aborted t)
    have c: "consecutiveAborts (foldl guard_step no_aborts (es @ [e])) = int (streak (es @ [e]))"
      using IH(1) Aborted by (simp add: recordAbort_def Let_def)
    have le: "\<forall>t'. pauses_at es t' \<longrightarrow> t' \<le> t"
      using snoc.prems pauses_at_time [of es] Aborted by (auto simp: sorted_append)
    show ?thesis
    proof (cases "5 \<le> streak (es @ [e])")
      case True
      then have "pauses_at (es @ [e]) t" "\<forall>t'. pauses_at (es @ [e]) t' \<longrightarrow> t' \<le> t"
        using le Aborted by (auto simp: pauses_at_snoc)
      moreover have "abortPauseUntil (foldl guard_step no_aborts (es @ [e])) = t + abortPauseDuration"
        using True IH(1) Aborted by (simp add: recordAbort_def Let_def abortPauseThreshold_def)
      ultimately show ?thesis using c by blast
    next
      case False
      then have "pauses_at (es @ [e]) = pauses_at es" by (auto simp: pauses_at_snoc fun_eq_iff)
      moreover have "abortPauseUntil (foldl guard_step no_aborts (es @ [e])) =
          abortPauseUntil (foldl guard_step no_aborts es)"
        using False IH(1) Aborted by (simp add: recordAbort_def Let_def abortPauseThreshold_def)
      ultimately show ?thesis using c IH(2) by simp
    qed
  qed
qed

text \<open>
  The self-pause is exact. Over any history of task outcomes in the order of time, the agent
  is pausing its polls at a moment exactly if some local error, at least the fifth in a row
  without a success in between, happened less than five minutes before.
\<close>

theorem self_pause_exact:
  assumes "sorted (abort_times es)" "zero_time \<le> t'"
  shows "0 < abortPauseRemaining t' (foldl guard_step no_aborts es) \<longleftrightarrow>
    (\<exists>t. pauses_at es t \<and> t' < t + 5 * minute)"
proof -
  have "0 < abortPauseRemaining t' g \<longleftrightarrow> t' < abortPauseUntil g" for g
    by (auto simp: abortPauseRemaining_def Let_def time_sub_def max_duration_def min_duration_def)
  with abort_guard_inv [OF assms(1)] assms(2) show ?thesis
    unfolding abortPauseDuration_def by (smt (verit))
qed

theorem self_pause_exact_witness:
  "0 < abortPauseRemaining (2 * minute) (foldl guard_step no_aborts (map Aborted [0, 1, 2, 3, 4]))"
proof -
  have "pauses_at (map Aborted [0, 1, 2, 3, 4]) 4"
    unfolding pauses_at_def
    by (rule exI [of _ "map Aborted [0, 1, 2, 3]"], rule exI [of _ "[]"]) (simp add: streak_def)
  moreover have "sorted (abort_times (map Aborted [0, 1, 2, 3, 4]))" "zero_time \<le> 2 * minute"
    "2 * minute < 4 + 5 * minute"
    by (simp_all add: zero_time_def time_unit_defs)
  ultimately show ?thesis using self_pause_exact by blast
qed

subsection \<open>The watchdog\<close>

lemma watchdog_restart_spacing:
  assumes "sorted (map fst ts)" "(t, RestartTunnel) \<in> set (watchdog_run r ts)"
  shows "watchdogVPNCooldown \<le> time_sub t r \<and> t \<in> fst ` set ts"
  using assms
proof (induction ts arbitrary: r)
  case (Cons x ts)
  obtain t0 ok where x: "x = (t0, ok)" by (cases x)
  show ?case
  proof (cases "fst (watchdog_tick t0 ok r) = RestartTunnel")
    case True
    then have w: "watchdog_tick t0 ok r = (RestartTunnel, t0)" "watchdogVPNCooldown \<le> time_sub t0 r"
      by (auto simp: watchdog_tick_def Let_def split: if_splits)
    from Cons.prems(2) consider "t = t0" | "(t, RestartTunnel) \<in> set (watchdog_run t0 ts)"
      by (auto simp: x w)
    then show ?thesis
    proof cases
      case 2
      with Cons.IH [of t0] Cons.prems(1) have "t \<in> fst ` set ts" by simp
      with Cons.prems(1) x have "t0 \<le> t" by auto
      with w(2) time_sub_mono [of t0 t r] \<open>t \<in> fst ` set ts\<close> show ?thesis by simp
    qed (use w(2) x in simp)
  next
    case False
    then have "watchdog_tick t0 ok r = (Wait, r) \<or> watchdog_tick t0 ok r = (Exit, r)"
      by (auto simp: watchdog_tick_def Let_def split: if_splits)
    with Cons.prems(2) have "(t, RestartTunnel) \<in> set (watchdog_run r ts)" by (auto simp: x)
    with Cons.IH Cons.prems(1) have "watchdogVPNCooldown \<le> time_sub t r \<and> t \<in> fst ` set ts" by simp
    then show ?thesis by simp
  qed
qed simp

lemma watchdog_restarts_apart:
  assumes "sorted (map fst ts)"
  shows "sorted_wrt (\<lambda>x y. watchdogVPNCooldown \<le> time_sub (fst y) (fst x))
    (filter (\<lambda>x. snd x = RestartTunnel) (watchdog_run r ts))"
  using assms
proof (induction ts arbitrary: r)
  case (Cons x ts)
  obtain t0 ok where x: "x = (t0, ok)" by (cases x)
  have s: "sorted (map fst ts)" using Cons.prems by simp
  show ?case
  proof (cases "watchdog_tick t0 ok r")
    case (Pair a r')
    show ?thesis
    proof (cases a)
      case RestartTunnel
      then have "r' = t0" using Pair by (auto simp: watchdog_tick_def Let_def split: if_splits)
      with RestartTunnel Pair Cons.IH [OF s, of t0] watchdog_restart_spacing [OF s, of _ t0] show ?thesis
        by (auto simp: x)
    qed (use Pair Cons.IH [OF s] in \<open>simp_all add: x\<close>)
  qed
qed simp

lemma watchdog_run_actions:
  "k < length (watchdog_run r ts) \<Longrightarrow>
     fst (watchdog_run r ts ! k) = fst (ts ! k) \<and>
     (snd (watchdog_run r ts ! k) = Exit \<longleftrightarrow> watchdogHardExitAfter \<le> time_sub (fst (ts ! k)) (snd (ts ! k))) \<and>
     (snd (watchdog_run r ts ! k) = RestartTunnel \<longrightarrow>
        watchdogVPNRestartAfter \<le> time_sub (fst (ts ! k)) (snd (ts ! k)))"
proof (induction ts arbitrary: r k)
  case (Cons x ts)
  obtain t0 ok where x: "x = (t0, ok)" by (cases x)
  have a: "fst (watchdog_tick t0 ok r) = Exit \<longleftrightarrow> watchdogHardExitAfter \<le> time_sub t0 ok"
    "fst (watchdog_tick t0 ok r) = RestartTunnel \<Longrightarrow> watchdogVPNRestartAfter \<le> time_sub t0 ok"
    by (auto simp: watchdog_tick_def Let_def watchdogHardExitAfter_def watchdogVPNRestartAfter_def
        time_unit_defs split: if_splits)
  obtain act r' where w: "watchdog_tick t0 ok r = (act, r')" by force
  show ?case
  proof (cases k)
    case 0
    with a w show ?thesis by (cases act) (simp_all add: x)
  next
    case (Suc j)
    with Cons w show ?thesis by (cases act) (simp_all add: x)
  qed
qed simp

lemma watchdog_run_length:
  "length (watchdog_run r ts) \<le> length ts \<and>
   (length (watchdog_run r ts) < length ts \<longrightarrow> watchdog_run r ts \<noteq> [] \<and> snd (last (watchdog_run r ts)) = Exit)"
proof (induction ts arbitrary: r)
  case (Cons x ts)
  obtain t0 ok where x: "x = (t0, ok)" by (cases x)
  obtain act r' where w: "watchdog_tick t0 ok r = (act, r')" by force
  from Cons.IH [of r'] w show ?case by (cases act) (auto simp: x)
qed simp

text \<open>
  C34. The watchdog. It acts at every tick until it exits; it exits at a tick exactly when the
  site has not answered for ten minutes; it restarts the tunnel only when the site has not
  answered for five, and two restarts are at least three minutes apart.
\<close>

theorem watchdog_contract:
  assumes "sorted (map fst ts)"
  shows "sorted_wrt (\<lambda>x y. 3 * minute \<le> time_sub (fst y) (fst x))
      (filter (\<lambda>x. snd x = RestartTunnel) (watchdog_run r ts)) \<and>
    (\<forall>k < length (watchdog_run r ts).
       (snd (watchdog_run r ts ! k) = Exit \<longleftrightarrow> 10 * minute \<le> time_sub (fst (ts ! k)) (snd (ts ! k))) \<and>
       (snd (watchdog_run r ts ! k) = RestartTunnel \<longrightarrow> 5 * minute \<le> time_sub (fst (ts ! k)) (snd (ts ! k)))) \<and>
    (length (watchdog_run r ts) = length ts \<or>
     watchdog_run r ts \<noteq> [] \<and> snd (last (watchdog_run r ts)) = Exit)"
proof (intro conjI allI impI)
  show "sorted_wrt (\<lambda>x y. 3 * minute \<le> time_sub (fst y) (fst x))
      (filter (\<lambda>x. snd x = RestartTunnel) (watchdog_run r ts))"
    using watchdog_restarts_apart [OF assms] by (simp add: watchdogVPNCooldown_def)
  show "length (watchdog_run r ts) = length ts \<or>
     watchdog_run r ts \<noteq> [] \<and> snd (last (watchdog_run r ts)) = Exit"
    using watchdog_run_length [of r ts] by linarith
next
  fix k assume k: "k < length (watchdog_run r ts)"
  from watchdog_run_actions [OF k]
  show "snd (watchdog_run r ts ! k) = Exit \<longleftrightarrow> 10 * minute \<le> time_sub (fst (ts ! k)) (snd (ts ! k))"
    by (simp add: watchdogHardExitAfter_def)
  from watchdog_run_actions [OF k]
  show "5 * minute \<le> time_sub (fst (ts ! k)) (snd (ts ! k))" if "snd (watchdog_run r ts ! k) = RestartTunnel"
    using that by (simp add: watchdogVPNRestartAfter_def)
qed

theorem watchdog_contract_witness:
  "length (watchdog_run zero_time [(minute, 0), (6 * minute, 0), (11 * minute, 0)]) = 3 \<and>
   snd (watchdog_run zero_time [(minute, 0), (6 * minute, 0), (11 * minute, 0)] ! 2) = Exit"
proof -
  let ?ts = "[(minute, 0), (6 * minute, 0), (11 * minute, 0)]"
  have l: "length (watchdog_run zero_time ?ts) = 3"
    by (simp add: watchdog_tick_def Let_def watchdogVPNRestartAfter_def watchdogHardExitAfter_def
        watchdogVPNCooldown_def time_unit_defs time_sub_def zero_time_def max_duration_def min_duration_def)
  have "sorted (map fst ?ts)" by (simp add: time_unit_defs)
  from watchdog_contract [OF this, of zero_time] l show ?thesis
    by (simp add: time_sub_def time_unit_defs max_duration_def min_duration_def)
qed

subsection \<open>Restarting the tunnel\<close>

text \<open>
  If a restart is reported, the last two requests asked one endpoint to stop and then to run, and
  both were accepted. The converse does not protect the tunnel: an endpoint that accepted the
  stop and refused the start is left stopped.
\<close>

lemma restart_on_ok:
  "fst (restart_on put e ps) = None \<Longrightarrow>
     \<exists>p qs. p \<in> set ps \<and> snd (restart_on put e ps) = qs @ [(p, ''stopped''), (p, ''running'')] \<and>
       put (p, ''stopped'') = None \<and> put (p, ''running'') = None"
proof (induction ps arbitrary: e)
  case (Cons p ps)
  have step: "\<exists>q \<in> set (p # ps). \<exists>qs. ws @ snd (restart_on put e' ps) = qs @ [(q, ''stopped''), (q, ''running'')] \<and>
      put (q, ''stopped'') = None \<and> put (q, ''running'') = None"
    if none: "fst (restart_on put e' ps) = None" for e' ws
  proof -
    from Cons.IH [OF none] obtain q qs where "q \<in> set ps"
      "snd (restart_on put e' ps) = qs @ [(q, ''stopped''), (q, ''running'')]"
      "put (q, ''stopped'') = None" "put (q, ''running'') = None" by blast
    then show ?thesis
      by (intro bexI [of _ q] exI [of _ "ws @ qs"]) simp_all
  qed
  show ?case
  proof (cases "put (p, ''stopped'')")
    case (Some e')
    with Cons.prems step [of e' "[(p, ''stopped'')]"] show ?thesis by (simp add: split_beta) blast
  next
    case stopped: None
    show ?thesis
    proof (cases "put (p, ''running'')")
      case (Some e')
      with stopped Cons.prems step [of e' "[(p, ''stopped''), (p, ''running'')]"] show ?thesis
        by (simp add: split_beta) blast
    qed (use stopped in auto)
  qed
qed simp

end
