(* ===== verification/Online_Task.thy ===== *)
theory Online_Task
  imports Agent_Guards Torrent_Rules
begin

text \<open>
  One task of the site from its dispatch to its report: \<open>processTask\<close> of \<open>src/main.go\<close> with its
  failure handling, its deferred clean-up, the progress callback and the retry loop of the
  completion; the directives the site queues; and the re-submission of saved results. The steps
  that run external tools or touch files (probing, screenshots, staging, PAR2, encryption, the
  upload itself) enter through their results.
\<close>

subsection \<open>Directives\<close>

text \<open>
  \<open>applyDirective\<close>: the text of the acknowledgement, with the settings after it. \<open>decode_text\<close> and
  \<open>write_text\<close> are the texts of the two errors.
\<close>

definition applyDirective ::
  "environ \<Rightarrow> bool \<Rightarrow> go_string \<Rightarrow> go_string \<Rightarrow> directive \<Rightarrow> layered \<Rightarrow> agent_config \<Rightarrow>
     go_string \<times> layered \<times> agent_config" where
  "applyDirective e write_ok decode_text write_text d l cfg =
     (if dr_Kind d = ''write_config'' then
        (case dr_Payload d of
           None \<Rightarrow> (''bad payload: '' @ decode_text, l, cfg)
         | Some v \<Rightarrow>
             (let (ups, bad) = dec_str_map ''updates'' v
              in if \<not> struct_value v \<or> bad then (''bad payload: '' @ decode_text, l, cfg)
                 else (case WriteYml write_ok (case ups of None \<Rightarrow> [] | Some m \<Rightarrow> m) l of
                         (None, l') \<Rightarrow> (write_text, l', cfg)
                       | (Some written, l') \<Rightarrow> ([], l', Refresh e l' cfg))))
      else (''unknown directive kind: '' @ dr_Kind d, l, cfg))"

subsection \<open>Saved results\<close>

text \<open>
  \<open>runBackfill\<close> over the files the pattern matches, each with its content (\<open>None\<close>: it cannot be
  read). The result is the paths deleted, with the numbers of successes and failures.
\<close>

definition backup_prefix :: go_string where
  "backup_prefix = ''backup-request-''"

definition backup_id :: "go_string \<Rightarrow> int option" where
  "backup_id path = parse_int (trim_suffix (trim_prefix (path_base path) backup_prefix) ''.nzb'')"

fun runBackfill ::
  "network \<Rightarrow> time \<Rightarrow> (go_string \<times> go_string option) list \<Rightarrow> site_client \<Rightarrow>
     go_string list \<times> nat \<times> nat \<times> site_client" where
  "runBackfill net t [] c = ([], 0, 0, c)"
| "runBackfill net t ((path, content) # fs) c =
     (case backup_id path of
        None \<Rightarrow> runBackfill net t fs c
      | Some requestID \<Rightarrow>
          (case content of
             None \<Rightarrow> (case runBackfill net t fs c of (rm, ok, bad, c') \<Rightarrow> (rm, ok, Suc bad, c'))
           | Some dat \<Rightarrow>
               (case Backfill net t c requestID dat [] of
                  (Inl e, c1) \<Rightarrow>
                    (case runBackfill net t fs c1 of (rm, ok, bad, c') \<Rightarrow> (rm, ok, Suc bad, c'))
                | (Inr nzbID, c1) \<Rightarrow>
                    (case runBackfill net t fs c1 of (rm, ok, bad, c') \<Rightarrow> (path # rm, Suc ok, bad, c')))))"

subsection \<open>The retry loop of a completion\<close>

text \<open>
  One attempt: the site's answer, and, for the wait that may follow it, whether the task was
  cancelled before it or during it.
\<close>

record attempt =
  at_answer :: "site_error option"
  at_cancelled :: bool
  at_cancelled_waiting :: bool

definition maintenance_wait :: "int \<Rightarrow> duration" where
  "maintenance_wait eta =
     (let w = wrap64 (wrap64 (eta + 15) * second);
          w1 = (if w < 30 * second then 30 * second else w)
      in if 10 * minute < w1 then 10 * minute else w1)"

text \<open>
  What the loop does: it calls the site, reports that it waits out a maintenance (and for how
  long it waited, if it was not cancelled), or backs off after another error.
\<close>

datatype loop_event = Tried | Maintained go_string "duration option" | Backoff duration

text \<open>
  The loop over the answers given: the final error with the events in order, or \<open>None\<close> while it
  is still going on.
\<close>

fun complete_loop :: "nat \<Rightarrow> attempt list \<Rightarrow> (site_error option \<times> loop_event list) option" where
  "complete_loop n [] = None"
| "complete_loop n (a # as) =
     (case at_answer a of
        None \<Rightarrow> Some (None, [Tried])
      | Some e \<Rightarrow>
          (case IsMaintenanceError e of
             Some i \<Rightarrow>
               (if at_cancelled a then Some (Some e, [Tried, Maintained (Reason i) None])
                else map_option (\<lambda>(r, evs). (r, Tried # Maintained (Reason i)
                    (if at_cancelled_waiting a then None else Some (maintenance_wait (ETASeconds i))) # evs))
                  (complete_loop n as))
           | None \<Rightarrow>
               (if 3 \<le> Suc n then Some (Some e, [Tried])
                else map_option (\<lambda>(r, evs). (r, Tried # Backoff (int (Suc n * 10) * second) # evs))
                  (complete_loop (Suc n) as))))"

subsection \<open>Errors of a task\<close>

datatype task_err = DiskShort int int | SlowErr | Err go_string

definition err_text :: "task_err \<Rightarrow> go_string" where
  "err_text e =
     (case e of
        DiskShort sz av \<Rightarrow>
          ''insufficient disk space: torrent is '' @ fmt_fixed 1 (fdiv (float_of_int sz) 1000000000) @
          '' GB, have '' @ fmt_fixed 1 (fdiv (float_of_int av) 1000000000) @ '' GB free''
      | SlowErr \<Rightarrow> ''download rejected: speed too low for too long''
      | Err s \<Rightarrow> s)"

definition torrent_task_err :: "torrent_error \<Rightarrow> task_err" where
  "torrent_task_err e =
     (case e of
        MkdirFailed s \<Rightarrow> Err s | StageFailed s \<Rightarrow> Err s | ClientFailed s \<Rightarrow> Err s | AddFailed s \<Rightarrow> Err s
      | MetadataTimeout \<Rightarrow> Err ''metadata fetch timed out after 2 minutes (DHT/trackers unreachable)''
      | Cancelled \<Rightarrow> Err ''context canceled''
      | DiskShortfall sz av \<Rightarrow> DiskShort sz av
      | SlowDownload \<Rightarrow> SlowErr)"

subsection \<open>The agent around a task\<close>

datatype effect =
  Progress int go_string                   \<comment> \<open>lock id, text\<close>
| Completion complete_result
| SiteLog go_string go_string

record agent =
  ag_jobs :: jobs_map
  ag_ledger :: ledger
  ag_aborts :: abort_guard
  ag_skips :: skip_guard
  ag_progress :: task_progress
  ag_cancels :: "go_string list"
  ag_callbacks :: "go_string list"
  ag_files :: "(go_string \<times> go_string) list"
  ag_sent :: "effect list"

text \<open>
  Everything a task meets on its way. A step that fails gives the text of its error; \<open>te_rand k\<close>
  is the \<open>k\<close>-th random name; \<open>te_cancelled\<close> says whether the task had been cancelled when the
  download returned an error.
\<close>

record task_env =
  te_now :: time
  te_clock :: go_string
  te_skip_write :: write_outcome
  te_backup_write :: write_outcome
  te_cfg :: agent_config
  te_layered :: layered
  te_remote :: "remote_config option"
  te_is_dir :: "go_string \<Rightarrow> bool"
  te_fetch :: "site_error + go_string"
  te_cached :: "site_error + go_string option"
  te_world :: world
  te_cancelled :: bool
  te_videos :: "go_string list"
  te_probe :: "go_string + go_string \<times> float64"
  te_shots :: "go_string + go_string list"
  te_manga :: "go_string option"
  te_stage_mkdir :: "go_string option"
  te_stage :: "go_string option"
  te_par2 :: "go_string option"
  te_rand :: "nat \<Rightarrow> go_string"
  te_encrypt :: "go_string option"
  te_upload_size :: int
  te_upload :: "go_string option"
  te_nzb :: "go_string \<Rightarrow> go_string + go_string"
  te_attempts :: "attempt list"

definition job_name :: "agent_task \<Rightarrow> go_string" where
  "job_name task = ''request-'' @ int_str (RequestID task)"

definition send_effect :: "effect \<Rightarrow> agent \<Rightarrow> agent" where
  "send_effect x ag = ag\<lparr>ag_sent := ag_sent ag @ [x]\<rparr>"

definition reportProgress :: "task_env \<Rightarrow> agent_task \<Rightarrow> go_string \<Rightarrow> go_string \<Rightarrow> agent \<Rightarrow> agent" where
  "reportProgress e task phase details ag =
     send_effect (Progress (LockID task) (phase @ '': '' @ details))
       (ag\<lparr>ag_jobs := UpdateState (te_clock e) (job_name task) phase details 0 (ag_jobs ag)\<rparr>)"

definition failed_result :: "agent_task \<Rightarrow> go_string \<Rightarrow> go_string \<Rightarrow> int \<Rightarrow> complete_result" where
  "failed_result task status reason tot =
     \<lparr>cr_LockID = LockID task, cr_RequestID = RequestID task, cr_Status = status, cr_FailReason = reason,
      cr_NzbData = None, cr_Password = [], cr_MediaInfo = None, cr_Screenshots = [], cr_TotalSizeBytes = tot\<rparr>"

text \<open>The closure \<open>fail\<close>.\<close>

definition is_disk_error :: "task_err \<Rightarrow> bool" where
  "is_disk_error err \<longleftrightarrow> (case err of DiskShort sz av \<Rightarrow> True | _ \<Rightarrow> isRuntimeDiskFullError (err_text err))"

definition fail_task :: "task_env \<Rightarrow> agent_task \<Rightarrow> go_string \<Rightarrow> task_err \<Rightarrow> agent \<Rightarrow> agent" where
  "fail_task e task msg err ag =
     (let reason = msg @ '': '' @ err_text err
      in if is_disk_error err then
           (let ag1 = send_effect (Completion (failed_result task ''aborted'' reason
                  (case err of DiskShort sz av \<Rightarrow> sz | _ \<Rightarrow> 0))) (reportProgress e task ''Aborted'' reason ag)
            in ag1\<lparr>ag_skips := markOversize (te_skip_write e) (te_now e) (RequestID task) (ag_skips ag1)\<rparr>)
         else if isAgentLocalError (err_text err) then
           (let ag1 = send_effect (Completion (failed_result task ''aborted'' reason 0))
                  (reportProgress e task ''Aborted'' reason ag)
            in ag1\<lparr>ag_aborts := recordAbort (te_now e) (ag_aborts ag1)\<rparr>)
         else send_effect (Completion (failed_result task ''failed'' reason 0))
                (reportProgress e task ''Failed'' reason ag))"


subsection \<open>The progress callback\<close>

record sample =
  sa_down :: float64
  sa_up :: float64
  sa_percent :: float64
  sa_phase :: go_string
  sa_peers :: int
  sa_total :: int
  sa_transferred :: int
  sa_eta :: float64
  sa_warnings :: "lock_warning list"

definition sends_up :: "sample \<Rightarrow> bool" where
  "sends_up s \<longleftrightarrow> sa_phase s = ''seeding'' \<or> sa_phase s = ''uploading''"

definition headline :: "sample \<Rightarrow> float64" where
  "headline s = (if sends_up s then sa_up s else sa_down s)"

definition sample_progress :: "agent_task \<Rightarrow> sample \<Rightarrow> file_progress" where
  "sample_progress task s =
     \<lparr>fp_Name = Title task, fp_Size = sa_total s, fp_Transferred = sa_transferred s, fp_Percent = sa_percent s,
      fp_Speed = fmt_fixed 2 (sa_down s) @ '' MB/s'',
      fp_UpSpeed = (if 0 < sa_up s \<or> sends_up s then fmt_fixed 2 (sa_up s) @ '' MB/s'' else []),
      fp_Phase = sa_phase s, fp_Peers = sa_peers s, fp_Warnings = sa_warnings s\<rparr>"

definition push_due :: "time \<Rightarrow> time \<Rightarrow> sample \<Rightarrow> bool" where
  "push_due t lastLockUpdate s \<longleftrightarrow>
     10 * second \<le> time_sub t lastLockUpdate \<or>
     sa_warnings s \<noteq> [] \<and> 1 * second \<le> time_sub t lastLockUpdate"

definition push_text :: "sample \<Rightarrow> go_string" where
  "push_text s =
     (if sa_phase s = ''uploading'' then ''Uploading'' else if sa_phase s = ''seeding'' then ''Seeding''
      else ''Downloading'') @
     '': '' @ fmt_fixed 0 (sa_percent s) @ ''% ('' @ fmt_fixed 1 (headline s) @ '' MB/s)'' @
     (if 0 < sa_peers s then '' ['' @ int_str (sa_peers s) @ '' peers]'' else []) @
     (if 0 < sa_eta s then '' - ETA '' @ FormatETA (sa_eta s) else [])"

text \<open>The agent after one call, with the time of the last push to the site.\<close>

definition progressCb :: "agent_task \<Rightarrow> time \<Rightarrow> sample \<Rightarrow> time \<times> agent \<Rightarrow> time \<times> agent" where
  "progressCb task t s p =
     (case p of (lastLockUpdate, ag) \<Rightarrow>
        (let ag1 = ag\<lparr>ag_progress := updateTaskProgress (RequestID task) (Some (sample_progress task s)) (ag_progress ag)\<rparr>
         in if push_due t lastLockUpdate s then (t, send_effect (Progress (LockID task) (push_text s)) ag1)
            else (lastLockUpdate, ag1)))"

text \<open>Whatever the speed of the samples, the site is called at most once a second.\<close>

fun push_times :: "agent_task \<Rightarrow> (time \<times> sample) list \<Rightarrow> time \<times> agent \<Rightarrow> time list" where
  "push_times task [] p = []"
| "push_times task ((t, s) # ss) p =
     (if push_due t (fst p) s then [t] else []) @ push_times task ss (progressCb task t s p)"

lemma push_times_sub: "set (push_times task ss q) \<subseteq> fst ` set ss"
proof (induction ss arbitrary: q)
  case (Cons x ss)
  obtain t s where "x = (t, s)" by (cases x)
  with Cons [of "progressCb task t s q"] show ?case by auto
qed simp

lemma push_times_spaced:
  "sorted (map fst ss) \<Longrightarrow>
     list_all (\<lambda>t. second \<le> time_sub t (fst p)) (push_times task ss p) \<and>
     sorted_wrt (\<lambda>a b. second \<le> time_sub b a) (push_times task ss p)"
proof (induction ss arbitrary: p)
  case (Cons x ss)
  obtain t s where x: "x = (t, s)" by (cases x)
  obtain l ag where p: "p = (l, ag)" by (cases p)
  note sub = push_times_sub [of task ss]
  have IH: "list_all (\<lambda>t. second \<le> time_sub t (fst q)) (push_times task ss q)"
    "sorted_wrt (\<lambda>a b. second \<le> time_sub b a) (push_times task ss q)" for q
    using Cons.IH [of q] Cons.prems by simp_all
  show ?case
  proof (cases "push_due t l s")
    case True
    then have d: "second \<le> time_sub t l" by (auto simp: push_due_def time_unit_defs)
    have "\<forall>u \<in> set (push_times task ss q). t \<le> u" for q using sub [of q] Cons.prems x by auto
    then have "list_all (\<lambda>u. second \<le> time_sub u l) (push_times task ss q)" for q
      unfolding list_all_iff using order_trans [OF d time_sub_mono] by blast
    moreover have "fst (progressCb task t s p) = t" using True by (simp add: progressCb_def p Let_def)
    ultimately show ?thesis using True d IH [of "progressCb task t s p"] by (simp add: x p list_all_iff)
  next
    case False
    then have "fst (progressCb task t s p) = l" by (simp add: progressCb_def p Let_def)
    with False IH [of "progressCb task t s p"] show ?thesis by (simp add: x p)
  qed
qed simp

subsection \<open>The download\<close>

definition task_dl_opts :: "task_env \<Rightarrow> agent_task \<Rightarrow> download_opts" where
  "task_dl_opts e task =
     (let o0 = \<lparr>SlowThresholdMBs = SlowSpeedThresholdMBs (te_cfg e), SlowTimeoutMins = SlowSpeedTimeoutMins (te_cfg e),
                LowPeersThreshold = -1, LowPeersTimeoutMins = 0, IsBoosted = (0 < BoostCount task)\<rparr>
      in case te_remote e of
           None \<Rightarrow> o0
         | Some rc \<Rightarrow>
             (let o1 = (if 0 < SlowSpeedTimeout rc
                        then o0\<lparr>SlowThresholdMBs := SlowSpeedThreshold rc, SlowTimeoutMins := SlowSpeedTimeout rc\<rparr>
                        else o0)
              in if 0 < rc_LowPeersTimeout rc
                 then o1\<lparr>LowPeersThreshold := rc_LowPeersThreshold rc, LowPeersTimeoutMins := rc_LowPeersTimeout rc\<rparr>
                 else o1))"

definition magnet_of :: "agent_task \<Rightarrow> go_string" where
  "magnet_of task = ''magnet:?xt=urn:btih:'' @ InfoHash task"

text \<open>
  The choice of the source: for a private task with a \<open>.torrent\<close> URL that file, otherwise the
  site's cache if it has the hash, otherwise the magnet. An empty private file gives the empty
  path and no error.
\<close>

definition fetch_payload :: "task_env \<Rightarrow> agent_task \<Rightarrow> ledger \<Rightarrow> (task_err + fetched) \<times> ledger" where
  "fetch_payload e task led =
     (let cfg = te_cfg e; l = te_layered e; opts = Some (task_dl_opts e task); job = job_name task
      in if Private task \<and> TorrentFileURL task \<noteq> [] then
           (case te_fetch e of
              Inl err \<Rightarrow> (Inl (Err (site_error_text err)), led)
            | Inr blob \<Rightarrow>
                (if blob \<noteq> [] then (Inr (DownloadPrivateTorrentBytes (te_world e) cfg l job opts), led)
                 else (Inr (Fetched []), led)))
         else
           (let cached = (if InfoHash task \<noteq> [] then (case te_cached e of Inr (Some c) \<Rightarrow> c | _ \<Rightarrow> []) else [])
            in if cached \<noteq> [] then (Inr (DownloadCachedTorrentBytes (te_world e) cfg l job opts), led)
               else case DownloadMagnet (te_world e) cfg l (magnet_of task) job opts led of
                 (f, led') \<Rightarrow> (Inr f, led')))"

datatype verdict =
  StillBusy
| TooSlow
| SkippedByUser
| Failing go_string task_err
| Downloaded_to go_string
| Built go_string go_string "go_string option" "go_string list"   \<comment> \<open>NZB, password, media, screenshots\<close>

text \<open>The registry of progress callbacks (\<open>src/services/progress.go\<close>), by job.\<close>

definition SetProgressCallbackForJob :: "go_string \<Rightarrow> go_string list \<Rightarrow> go_string list" where
  "SetProgressCallbackForJob job cbs = List.insert job cbs"

definition ClearProgressCallbackForJob :: "go_string \<Rightarrow> go_string list \<Rightarrow> go_string list" where
  "ClearProgressCallbackForJob job cbs = removeAll job cbs"

definition GetProgressCallback :: "go_string \<Rightarrow> go_string list \<Rightarrow> bool" where
  "GetProgressCallback job cbs \<longleftrightarrow> job \<in> set cbs"

definition resumable_path :: "task_env \<Rightarrow> agent_task \<Rightarrow> agent \<Rightarrow> go_string" where
  "resumable_path e task ag =
     (case map_of (ag_jobs ag) (job_name task) of
        Some j \<Rightarrow> if js_DownloadedPath j \<noteq> [] \<and> te_is_dir e (js_DownloadedPath j) then js_DownloadedPath j else []
      | None \<Rightarrow> [])"

definition download_error :: "task_env \<Rightarrow> task_err \<Rightarrow> verdict" where
  "download_error e err =
     (if err = SlowErr then TooSlow else if te_cancelled e then SkippedByUser
      else Failing ''Download error'' err)"

definition download_step :: "task_env \<Rightarrow> agent_task \<Rightarrow> agent \<Rightarrow> agent \<times> verdict" where
  "download_step e task ag0 =
     (let prev = resumable_path e task ag0
      in if prev \<noteq> [] then (ag0, Downloaded_to prev)
         else
           (let ag1 = reportProgress e task ''Downloading'' ''Fetching torrent metadata...'' ag0;
                cbs = SetProgressCallbackForJob (job_name task) (ag_callbacks ag1)
            in case fetch_payload e task (ag_ledger ag1) of
                 (res, led) \<Rightarrow>
                   (let ag2 = ag1\<lparr>ag_ledger := led, ag_callbacks := ClearProgressCallbackForJob (job_name task) cbs\<rparr>
                    in case res of
                         Inl err \<Rightarrow> (ag2, download_error e err)
                       | Inr (FetchFailed err) \<Rightarrow> (ag2, download_error e (torrent_task_err err))
                       | Inr Fetching \<Rightarrow> (ag2\<lparr>ag_callbacks := cbs\<rparr>, StillBusy)
                       | Inr (Fetched path) \<Rightarrow>
                           (ag2\<lparr>ag_jobs := UpdateJobMeta (job_name task) path [] [] (ag_jobs ag2)\<rparr>,
                            Downloaded_to path))))"


subsection \<open>From the download to the NZB\<close>

definition show_progress :: "agent_task \<Rightarrow> go_string \<Rightarrow> int \<Rightarrow> agent \<Rightarrow> agent" where
  "show_progress task phase sz ag =
     ag\<lparr>ag_progress := updateTaskProgress (RequestID task)
          (Some \<lparr>fp_Name = Title task, fp_Size = sz, fp_Transferred = 0, fp_Percent = 0, fp_Speed = [],
             fp_UpSpeed = [], fp_Phase = phase, fp_Peers = 0, fp_Warnings = []\<rparr>) (ag_progress ag)\<rparr>"

text \<open>
  The media step: the information of the largest video, with screenshots if it runs longer than
  ten seconds, or else the pages of a manga archive. Failures here are only logged.
\<close>

definition media_step :: "task_env \<Rightarrow> agent_task \<Rightarrow> agent \<Rightarrow> agent \<times> go_string option \<times> go_string list" where
  "media_step e task ag0 =
     (let ag = show_progress task ''processing'' 0
            (reportProgress e task ''Analyzing'' ''Extracting video metadata...'' ag0);
          shots = (case te_shots e of Inl err \<Rightarrow> [] | Inr ss \<Rightarrow> ss)
      in if te_videos e \<noteq> [] then
           (case te_probe e of
              Inl err \<Rightarrow> (ag, None, [])
            | Inr (info, dur) \<Rightarrow>
                (if 10 < dur
                 then (show_progress task ''screenshots'' 0
                         (reportProgress e task ''Screenshots'' ''Capturing preview images...'' ag), Some info, shots)
                 else (ag, Some info, [])))
         else if te_manga e \<noteq> None then
           (show_progress task ''screenshots'' 0
              (reportProgress e task ''Screenshots'' ''Extracting preview pages...'' ag), None, shots)
         else (ag, None, []))"

definition stage_step :: "task_env \<Rightarrow> agent_task \<Rightarrow> agent \<Rightarrow> agent \<times> (go_string \<times> task_err) option" where
  "stage_step e task ag =
     (case te_stage_mkdir e of
        Some err \<Rightarrow> (ag, Some (''Stage dir error'', Err err))
      | None \<Rightarrow>
          (let ag1 = reportProgress e task ''Preparing''
                 (if Obfuscate (te_cfg e) then ''Obfuscating filenames...'' else ''Copying files...'') ag
           in (ag1, map_option (\<lambda>err. (''Prepare error'', Err err)) (te_stage e))))"

definition par2_step :: "task_env \<Rightarrow> agent_task \<Rightarrow> agent \<Rightarrow> agent" where
  "par2_step e task ag =
     (let ag1 = show_progress task ''par2'' 0 (reportProgress e task ''PAR2'' ''Generating recovery data...'' ag)
      in if te_par2 e \<noteq> None
         then reportProgress e task ''PAR2'' ''PAR2 failed, uploading without recovery'' ag1 else ag1)"

text \<open>The password, or the error.\<close>

definition encrypt_step :: "task_env \<Rightarrow> agent_task \<Rightarrow> agent \<Rightarrow> agent \<times> (task_err + go_string)" where
  "encrypt_step e task ag =
     (if \<not> Encrypt (te_cfg e) then (ag, Inr [])
      else
        (let ag1 = show_progress task ''encrypting'' 0
               (reportProgress e task ''Encrypting'' ''Creating password-protected 7z archive...'' ag)
         in (ag1, case te_encrypt e of Some err \<Rightarrow> Inl (Err err) | None \<Rightarrow> Inr (te_rand e 3))))"

definition upload_step :: "task_env \<Rightarrow> agent_task \<Rightarrow> agent \<Rightarrow> agent \<times> task_err option" where
  "upload_step e task ag =
     (let ag1 = show_progress task ''queued'' (te_upload_size e)
            (reportProgress e task ''Queued'' ''Waiting for upload slot...'' ag);
          ag2 = reportProgress e task ''Uploading''
            (fmt_fixed 1 (mb (float_of_int (te_upload_size e))) @ '' MiB via '' @
             int_str (c_NNTPConnections (te_cfg e)) @ '' NNTP connections...'') ag1;
          cbs = SetProgressCallbackForJob (job_name task) (ag_callbacks ag2)
      in (ag2\<lparr>ag_callbacks := ClearProgressCallbackForJob (job_name task) cbs\<rparr>,
          map_option Err (te_upload e)))"

definition build_step :: "task_env \<Rightarrow> agent_task \<Rightarrow> agent \<Rightarrow> agent \<times> verdict" where
  "build_step e task ag0 =
     (let (ag1, media, shots) = media_step e task ag0;
          (ag2, staged) = stage_step e task ag1
      in case staged of
           Some (msg, err) \<Rightarrow> (ag2, Failing msg err)
         | None \<Rightarrow>
             (let (ag3, enc) = encrypt_step e task (par2_step e task ag2)
              in case enc of
                   Inl err \<Rightarrow> (ag3, Failing ''Encryption error'' err)
                 | Inr password \<Rightarrow>
                     (let (ag4, up) = upload_step e task ag3
                      in case up of
                           Some err \<Rightarrow> (ag4, Failing ''Upload error'' err)
                         | None \<Rightarrow>
                             (let ag5 = reportProgress e task ''Finalizing'' ''Generating NZB...'' ag4
                              in case te_nzb e password of
                                   Inl err \<Rightarrow> (ag5, Failing ''NZB error'' (Err err))
                                 | Inr nzb \<Rightarrow>
                                     (reportProgress e task ''Reporting'' ''Sending results to site...'' ag5,
                                      Built nzb password media shots)))))"

definition slow_reason :: go_string where
  "slow_reason = ''Download too slow '' @ [CHR 0xE2, CHR 0x80, CHR 0x94] @ '' skipping''"

subsection \<open>The report, the clean-up and the whole task\<close>

definition completed_result ::
  "agent_task \<Rightarrow> go_string \<Rightarrow> go_string \<Rightarrow> go_string option \<Rightarrow> go_string list \<Rightarrow> complete_result" where
  "completed_result task nzb password media shots =
     \<lparr>cr_LockID = LockID task, cr_RequestID = RequestID task, cr_Status = ''completed'', cr_FailReason = [],
      cr_NzbData = Some nzb, cr_Password = password, cr_MediaInfo = media, cr_Screenshots = shots,
      cr_TotalSizeBytes = 0\<rparr>"

definition loop_effect :: "task_env \<Rightarrow> agent_task \<Rightarrow> complete_result \<Rightarrow> loop_event \<Rightarrow> agent \<Rightarrow> agent" where
  "loop_effect e task r ev ag =
     (case ev of
        Tried \<Rightarrow> send_effect (Completion r) ag
      | Maintained reason w \<Rightarrow> reportProgress e task ''Waiting'' (''Site maintenance: '' @ reason) ag
      | Backoff d \<Rightarrow> ag)"

definition backup_path :: "task_env \<Rightarrow> agent_task \<Rightarrow> go_string" where
  "backup_path e task = path_join [TempDir (te_cfg e), backup_prefix @ int_str (RequestID task) @ ''.nzb'']"

definition report_completion :: "task_env \<Rightarrow> agent_task \<Rightarrow> go_string \<Rightarrow> complete_result \<Rightarrow> agent \<Rightarrow> agent option" where
  "report_completion e task nzb r ag =
     (case complete_loop 0 (te_attempts e) of
        None \<Rightarrow> None
      | Some (res, evs) \<Rightarrow>
          (let ag1 = fold (loop_effect e task r) evs ag
           in Some (case res of
                Some err \<Rightarrow>
                  (let written = WriteFile (te_backup_write e) (backup_path e task) nzb (ag_files ag1);
                       saved = ag1\<lparr>ag_files := fst written\<rparr>;
                       ag2 = (if snd written = None
                              then send_effect (SiteLog ''error'' (''Completion failed for request #'' @
                                  int_str (RequestID task) @ ''. NZB saved locally at '' @ backup_path e task)) saved
                              else saved)
                   in reportProgress e task ''Failed'' (''Report error: '' @ site_error_text err) ag2)
              | None \<Rightarrow>
                  ag1\<lparr>ag_jobs := UpdateState (te_clock e) (job_name task) ''Completed''
                         ''Uploaded and reported to site.'' 100 (ag_jobs ag1),
                      ag_aborts := recordSuccess (ag_aborts ag1)\<rparr>)))"

text \<open>What happens for each way the pipeline can end; \<open>None\<close> while it is still running.\<close>

definition conclude :: "task_env \<Rightarrow> agent_task \<Rightarrow> agent \<times> verdict \<Rightarrow> agent option" where
  "conclude e task p =
     (case p of (ag, v) \<Rightarrow>
        (case v of
           StillBusy \<Rightarrow> None
         | TooSlow \<Rightarrow>
             Some (send_effect (Completion (failed_result task ''failed'' slow_reason 0))
               (reportProgress e task ''Failed'' slow_reason ag))
         | SkippedByUser \<Rightarrow>
             Some (send_effect (Completion (failed_result task ''failed'' ''Task skipped by user'' 0))
               (reportProgress e task ''Skipped'' ''Task skipped by user'' ag))
         | Failing msg err \<Rightarrow> Some (fail_task e task msg err ag)
         | Downloaded_to path \<Rightarrow> Some ag
         | Built nzb password media shots \<Rightarrow>
             report_completion e task nzb (completed_result task nzb password media shots) ag))"

text \<open>The deferred calls.\<close>

definition clean_up :: "agent_task \<Rightarrow> agent \<Rightarrow> agent" where
  "clean_up task ag =
     ag\<lparr>ag_ledger := ReleaseDisk (job_name task) (ag_ledger ag),
        ag_progress := updateTaskProgress (RequestID task) None (ag_progress ag),
        ag_cancels := removeAll (job_name task) (ag_cancels ag)\<rparr>"

definition run_task :: "task_env \<Rightarrow> agent_task \<Rightarrow> agent \<Rightarrow> agent \<times> verdict" where
  "run_task e task ag0 =
     (case download_step e task (reportProgress e task ''Initializing'' ''Preparing pipeline...'' ag0) of
        (ag, Downloaded_to path) \<Rightarrow> build_step e task ag
      | (ag, v) \<Rightarrow> (ag, v))"

definition cooldown_reason :: go_string where
  "cooldown_reason = ''too large for this agent (cooldown)''"

definition processTask :: "task_env \<Rightarrow> agent_task \<Rightarrow> agent \<Rightarrow> agent option" where
  "processTask e task ag =
     (case shouldSkipOversize (te_skip_write e) (te_now e) (RequestID task) (ag_skips ag) of
        (True, sk) \<Rightarrow>
          Some (send_effect (Completion (failed_result task ''aborted'' cooldown_reason 0)) (ag\<lparr>ag_skips := sk\<rparr>))
      | (False, sk) \<Rightarrow>
          (let ag1 = ag\<lparr>ag_skips := sk, ag_cancels := List.insert (job_name task) (ag_cancels ag)\<rparr>
           in map_option (clean_up task) (conclude e task (run_task e task ag1))))"

subsection \<open>The retry loop\<close>

lemma maintenance_wait_bounds: "30 * second \<le> maintenance_wait eta \<and> maintenance_wait eta \<le> 10 * minute"
  by (simp add: maintenance_wait_def Let_def time_unit_defs)

text \<open>The errors that count: those that are not maintenance.\<close>

definition counts :: "attempt \<Rightarrow> bool" where
  "counts a \<longleftrightarrow> (case at_answer a of None \<Rightarrow> False | Some e \<Rightarrow> IsMaintenanceError e = None)"

definition tries :: "loop_event list \<Rightarrow> nat" where
  "tries evs = length (filter (\<lambda>ev. ev = Tried) evs)"

text \<open>How the loop ended: accepted, the third error that counts, or cancelled in maintenance.\<close>

definition loop_end :: "nat \<Rightarrow> attempt list \<Rightarrow> attempt \<Rightarrow> bool" where
  "loop_end n used a \<longleftrightarrow>
     at_answer a = None \<or> counts a \<and> n + length (filter counts used) = 2 \<or>
     at_answer a \<noteq> None \<and> \<not> counts a \<and> at_cancelled a"

lemma complete_loop_shape:
  assumes "complete_loop n as = Some (r, evs)" "n < 3"
  shows "\<exists>used a rest. as = used @ a # rest \<and> tries evs = Suc (length used) \<and> r = at_answer a \<and>
    (\<forall>u \<in> set used. at_answer u \<noteq> None) \<and> n + length (filter counts used) < 3 \<and> loop_end n used a"
  using assms
proof (induction n as arbitrary: r evs rule: complete_loop.induct)
  case (2 n a as)
  have extend: "\<exists>used b rest. a # as = used @ b # rest \<and> tries evs = Suc (length used) \<and> r = at_answer b \<and>
      (\<forall>u \<in> set used. at_answer u \<noteq> None) \<and> n + length (filter counts used) < 3 \<and> loop_end n used b"
    if "as = used @ b # rest \<and> tries evs' = Suc (length used) \<and> r = at_answer b \<and>
        (\<forall>u \<in> set used. at_answer u \<noteq> None) \<and> k + length (filter counts used) < 3 \<and> loop_end k used b"
      "k = n + (if counts a then 1 else 0)" "at_answer a \<noteq> None" "tries evs = Suc (tries evs')"
    for used b rest evs' k
    using that by (intro exI [of _ "a # used"] exI [of _ b] exI [of _ rest]) (auto simp: loop_end_def)
  show ?case
  proof (cases "at_answer a")
    case None
    with 2 show ?thesis
      by (intro exI [of _ "[]"] exI [of _ a] exI [of _ as]) (auto simp: loop_end_def tries_def)
  next
    case (Some e)
    show ?thesis
    proof (cases "IsMaintenanceError e")
      case m: (Some i)
      have nc: "\<not> counts a" using Some m by (simp add: counts_def)
      show ?thesis
      proof (cases "at_cancelled a")
        case True
        with Some m nc 2 show ?thesis
          by (intro exI [of _ "[]"] exI [of _ a] exI [of _ as]) (auto simp: loop_end_def tries_def)
      next
        case False
        with Some m 2(3) obtain evs' w where
          l: "complete_loop n as = Some (r, evs')" "evs = Tried # Maintained (Reason i) w # evs'" by auto
        from 2(2) [OF Some m False l(1) 2(4)] obtain used b rest where
          ih: "as = used @ b # rest \<and> tries evs' = Suc (length used) \<and> r = at_answer b \<and>
            (\<forall>u \<in> set used. at_answer u \<noteq> None) \<and> n + length (filter counts used) < 3 \<and> loop_end n used b"
          by (elim exE)
        show ?thesis by (rule extend [OF ih]) (simp_all add: nc Some l(2) tries_def)
      qed
    next
      case nm: None
      have c: "counts a" using Some nm by (simp add: counts_def)
      show ?thesis
      proof (cases "3 \<le> Suc n")
        case True
        with Some nm c 2 show ?thesis
          by (intro exI [of _ "[]"] exI [of _ a] exI [of _ as]) (auto simp: loop_end_def tries_def)
      next
        case False
        with Some nm 2(3) obtain evs' d where
          l: "complete_loop (Suc n) as = Some (r, evs')" "evs = Tried # Backoff d # evs'" by auto
        have "Suc n < 3" using False by simp
        from 2(1) [OF Some nm False l(1) this] obtain used b rest where
          ih: "as = used @ b # rest \<and> tries evs' = Suc (length used) \<and> r = at_answer b \<and>
            (\<forall>u \<in> set used. at_answer u \<noteq> None) \<and> Suc n + length (filter counts used) < 3 \<and>
            loop_end (Suc n) used b" by (elim exE)
        show ?thesis by (rule extend [OF ih]) (simp_all add: c Some l(2) tries_def)
      qed
    qed
  qed
qed simp

lemma complete_loop_waits:
  "complete_loop n as = Some (r, evs) \<Longrightarrow> Maintained why (Some w) \<in> set evs \<Longrightarrow>
     30 * second \<le> w \<and> w \<le> 10 * minute"
proof (induction n as arbitrary: r evs rule: complete_loop.induct)
  case (2 n a as)
  then show ?case
    by (auto split: option.splits if_splits simp: maintenance_wait_bounds)
qed simp

lemma complete_loop_ends:
  assumes "n < 3" "(\<exists>a \<in> set as. at_answer a = None) \<or> 3 \<le> n + length (filter counts as)"
  shows "complete_loop n as \<noteq> None"
  using assms
proof (induction n as rule: complete_loop.induct)
  case (2 n a as)
  show ?case
  proof (cases "at_answer a")
    case (Some e)
    show ?thesis
    proof (cases "IsMaintenanceError e")
      case m: (Some i)
      then show ?thesis using 2(2) [OF Some m] 2(3,4) Some by (auto simp: counts_def)
    next
      case nm: None
      then show ?thesis using 2(1) [OF Some nm] 2(3,4) Some by (auto simp: counts_def)
    qed
  qed simp
qed simp

text \<open>
  C25. The retry loop of a completion. It ends as soon as the site accepts or three errors other
  than maintenance have come back, and not before unless the task is cancelled during a
  maintenance; all calls before the last one had failed, at most two of them with an error that
  counts; and every maintenance is waited out for between thirty seconds and ten minutes,
  whatever time the site announced.
\<close>

theorem completion_retry_contract:
  "((\<exists>a \<in> set as. at_answer a = None) \<or> 3 \<le> length (filter counts as) \<longrightarrow> complete_loop 0 as \<noteq> None) \<and>
   (\<forall>r evs. complete_loop 0 as = Some (r, evs) \<longrightarrow>
      (\<exists>used a rest. as = used @ a # rest \<and> tries evs = Suc (length used) \<and> r = at_answer a \<and>
         (\<forall>u \<in> set used. at_answer u \<noteq> None) \<and> length (filter counts used) \<le> 2 \<and>
         (at_answer a = None \<or> counts a \<and> length (filter counts used) = 2 \<or>
          at_answer a \<noteq> None \<and> \<not> counts a \<and> at_cancelled a)) \<and>
      (\<forall>why w. Maintained why (Some w) \<in> set evs \<longrightarrow> 30 * second \<le> w \<and> w \<le> 10 * minute))"
proof (intro conjI allI impI)
  show "complete_loop 0 as \<noteq> None" if "(\<exists>a \<in> set as. at_answer a = None) \<or> 3 \<le> length (filter counts as)"
    using complete_loop_ends [of 0 as] that by simp
  fix r evs assume c: "complete_loop 0 as = Some (r, evs)"
  from complete_loop_shape [OF c]
  show "\<exists>used a rest. as = used @ a # rest \<and> tries evs = Suc (length used) \<and> r = at_answer a \<and>
         (\<forall>u \<in> set used. at_answer u \<noteq> None) \<and> length (filter counts used) \<le> 2 \<and>
         (at_answer a = None \<or> counts a \<and> length (filter counts used) = 2 \<or>
          at_answer a \<noteq> None \<and> \<not> counts a \<and> at_cancelled a)"
    unfolding loop_end_def by fastforce
  fix why w assume "Maintained why (Some w) \<in> set evs"
  from complete_loop_waits [OF c this] show "30 * second \<le> w" "w \<le> 10 * minute" by auto
qed

definition busy_then_ok :: "attempt list" where
  "busy_then_ok =
     [\<lparr>at_answer = Some (MaintenanceError \<lparr>Maintenance = True, Reason = ''vacuum'', StartedAt = 0,
         ElapsedSeconds = 5, ETASeconds = 240\<rparr>), at_cancelled = False, at_cancelled_waiting = False\<rparr>,
      \<lparr>at_answer = Some (SiteError ''timeout''), at_cancelled = False, at_cancelled_waiting = False\<rparr>,
      \<lparr>at_answer = None, at_cancelled = False, at_cancelled_waiting = False\<rparr>]"

theorem completion_retry_contract_witness: "complete_loop 0 busy_then_ok \<noteq> None"
  using completion_retry_contract [of busy_then_ok] by (simp add: busy_then_ok_def)

subsection \<open>Steps that only report\<close>

fun is_progress :: "effect \<Rightarrow> bool" where
  "is_progress (Progress i s) = True"
| "is_progress (Completion r) = False"
| "is_progress (SiteLog l m) = False"

text \<open>
  A step that reports progress and otherwise leaves the guards, the ledger, the files and the
  cancel functions alone.
\<close>

definition quiet :: "agent \<Rightarrow> agent \<Rightarrow> bool" where
  "quiet ag ag' \<longleftrightarrow> ag_ledger ag' = ag_ledger ag \<and> ag_aborts ag' = ag_aborts ag \<and> ag_skips ag' = ag_skips ag \<and>
     ag_cancels ag' = ag_cancels ag \<and> ag_files ag' = ag_files ag \<and>
     (\<exists>ps. ag_sent ag' = ag_sent ag @ ps \<and> list_all is_progress ps)"

named_theorems quiet_intros

lemma quiet_refl [quiet_intros]: "quiet ag ag"
  by (simp add: quiet_def)

lemma quiet_trans: "quiet a b \<Longrightarrow> quiet b c \<Longrightarrow> quiet a c"
  by (auto simp: quiet_def)

lemma quiet_report [quiet_intros]: "quiet a b \<Longrightarrow> quiet a (reportProgress e task ph d b)"
  by (auto simp: quiet_def reportProgress_def send_effect_def)

lemma quiet_show [quiet_intros]: "quiet a b \<Longrightarrow> quiet a (show_progress task ph sz b)"
  by (auto simp: quiet_def show_progress_def)

lemma quiet_callbacks [quiet_intros]: "quiet a b \<Longrightarrow> quiet a (b\<lparr>ag_callbacks := cbs\<rparr>)"
  by (auto simp: quiet_def)

lemma quiet_jobs [quiet_intros]: "quiet a b \<Longrightarrow> quiet a (b\<lparr>ag_jobs := js\<rparr>)"
  by (auto simp: quiet_def)

lemma quiet_media: "quiet ag (fst (media_step e task ag))"
  unfolding media_step_def Let_def
  by (auto split: sum.splits prod.splits intro!: quiet_intros)

lemma quiet_stage: "quiet ag (fst (stage_step e task ag))"
  unfolding stage_step_def Let_def by (auto split: option.splits intro!: quiet_intros)

lemma quiet_par2 [quiet_intros]: "quiet a b \<Longrightarrow> quiet a (par2_step e task b)"
  unfolding par2_step_def Let_def by (auto intro!: quiet_intros)

lemma quiet_encrypt: "quiet ag (fst (encrypt_step e task ag))"
  unfolding encrypt_step_def Let_def by (auto intro!: quiet_intros)

lemma quiet_upload: "quiet ag (fst (upload_step e task ag))"
  unfolding upload_step_def Let_def by (auto intro!: quiet_intros)

text \<open>The building of the NZB reports only, and ends in a failure or with the NZB.\<close>

lemma build_step_quiet:
  "quiet ag (fst (build_step e task ag)) \<and>
   (case snd (build_step e task ag) of Failing msg err \<Rightarrow> True | Built nzb pw media shots \<Rightarrow> True | _ \<Rightarrow> False)"
proof -
  obtain ag1 media shots where m: "media_step e task ag = (ag1, media, shots)" by (metis prod_cases3)
  obtain ag2 staged where s: "stage_step e task ag1 = (ag2, staged)" by force
  obtain ag3 enc where c: "encrypt_step e task (par2_step e task ag2) = (ag3, enc)" by force
  obtain ag4 up where u: "upload_step e task ag3 = (ag4, up)" by force
  have q1: "quiet ag ag1" using quiet_media [of ag e task] m by simp
  have q2: "quiet ag ag2" using q1 quiet_stage [of ag1 e task] s by (auto intro: quiet_trans)
  have q3: "quiet ag ag3"
    using q2 quiet_encrypt [of "par2_step e task ag2" e task] c quiet_par2 [OF quiet_refl, of ag2 e task]
    by (auto intro: quiet_trans)
  have q4: "quiet ag ag4" using q3 quiet_upload [of ag3 e task] u by (auto intro: quiet_trans)
  note simps = build_step_def m s c u Let_def split_beta
  show ?thesis
  proof (cases staged)
    case (Some x)
    with q2 show ?thesis by (simp add: simps)
  next
    case staged: None
    show ?thesis
    proof (cases enc)
      case (Inl err)
      with staged q3 show ?thesis by (simp add: simps)
    next
      case enc: (Inr pw)
      show ?thesis
      proof (cases up)
        case (Some err)
        with staged enc q4 show ?thesis by (simp add: simps)
      next
        case None
        with staged enc q4 show ?thesis by (cases "te_nzb e pw") (simp_all add: simps quiet_intros)
      qed
    qed
  qed
qed

subsection \<open>The download\<close>

lemma fetch_payload_ledger:
  "snd (fetch_payload e task led) = led \<or>
   snd (fetch_payload e task led) = ReserveDisk (job_name task) (t_length (te_world e)) led"
proof -
  have "snd (DownloadMagnet w cfg l uri job opts led) = led \<or>
      snd (DownloadMagnet w cfg l uri job opts led) = ReserveDisk job (t_length w) led" for w cfg l uri job opts
    unfolding DownloadMagnet_def downloadMagnet_def Let_def
    by (auto simp: admit_def split: option.splits sum.splits meta_event.splits if_splits)
  then show ?thesis
    unfolding fetch_payload_def Let_def by (auto split: sum.splits if_splits prod.splits) (metis snd_conv)+
qed

definition busy_agent :: "agent \<Rightarrow> agent_task \<Rightarrow> int \<Rightarrow> agent \<Rightarrow> bool" where
  "busy_agent ag task n ag' \<longleftrightarrow>
     (\<exists>led \<in> {ag_ledger ag, ReserveDisk (job_name task) n (ag_ledger ag)}. quiet (ag\<lparr>ag_ledger := led\<rparr>) ag')"

lemma download_step_quiet:
  "busy_agent ag task (t_length (te_world e)) (fst (download_step e task ag)) \<and>
   (case snd (download_step e task ag) of Built nzb pw media shots \<Rightarrow> False | _ \<Rightarrow> True)"
proof -
  let ?ag1 = "reportProgress e task ''Downloading'' ''Fetching torrent metadata...'' ag"
  obtain res led where f: "fetch_payload e task (ag_ledger ?ag1) = (res, led)" by force
  have l: "ag_ledger ?ag1 = ag_ledger ag" by (simp add: reportProgress_def send_effect_def)
  have led: "led \<in> {ag_ledger ag, ReserveDisk (job_name task) (t_length (te_world e)) (ag_ledger ag)}"
    using fetch_payload_ledger [of e task "ag_ledger ?ag1"] f l by auto
  have q: "quiet (ag\<lparr>ag_ledger := led\<rparr>) (?ag1\<lparr>ag_ledger := led, ag_callbacks := cbs\<rparr>)" for cbs
    by (simp add: quiet_def reportProgress_def send_effect_def)
  have v: "(case download_error e err of Built nzb pw media shots \<Rightarrow> False | _ \<Rightarrow> True)" for err
    by (simp add: download_error_def)
  show ?thesis
  proof (cases "resumable_path e task ag = []")
    case False
    then show ?thesis by (auto simp: download_step_def busy_agent_def intro: quiet_refl)
  next
    case True
    then show ?thesis
      unfolding download_step_def Let_def busy_agent_def
      using led q v f
      by (auto split: sum.splits fetched.splits intro!: quiet_jobs)
  qed
qed


lemma run_task_quiet:
  "busy_agent ag task (t_length (te_world e)) (fst (run_task e task ag)) \<and>
   (case snd (run_task e task ag) of Downloaded_to p \<Rightarrow> False | _ \<Rightarrow> True)"
proof -
  let ?ag1 = "reportProgress e task ''Initializing'' ''Preparing pipeline...'' ag"
  obtain ag2 v where d: "download_step e task ?ag1 = (ag2, v)" by force
  have l1: "ag_ledger ?ag1 = ag_ledger ag" by (simp add: reportProgress_def send_effect_def)
  have "busy_agent ?ag1 task (t_length (te_world e)) ag2" using download_step_quiet [of ?ag1 task e] d by simp
  then obtain led where
    led: "led \<in> {ag_ledger ag, ReserveDisk (job_name task) (t_length (te_world e)) (ag_ledger ag)}"
    and q: "quiet (?ag1\<lparr>ag_ledger := led\<rparr>) ag2"
    unfolding busy_agent_def l1 by blast
  have "quiet (ag\<lparr>ag_ledger := led\<rparr>) (?ag1\<lparr>ag_ledger := led\<rparr>)"
    by (simp add: quiet_def reportProgress_def send_effect_def)
  then have q2: "quiet (ag\<lparr>ag_ledger := led\<rparr>) ag2" using q by (rule quiet_trans)
  show ?thesis
  proof (cases "\<exists>p. v = Downloaded_to p")
    case True
    then have "run_task e task ag = build_step e task ag2" using d by (auto simp: run_task_def)
    with build_step_quiet [of ag2 e task] q2 led show ?thesis
      by (auto simp: busy_agent_def intro: quiet_trans split: verdict.splits)
  next
    case False
    then have "run_task e task ag = (ag2, v)" using d by (auto simp: run_task_def split: verdict.splits)
    with q2 led False show ?thesis by (auto simp: busy_agent_def split: verdict.splits)
  qed
qed

subsection \<open>What a task reports, and what it leaves behind\<close>

definition completions :: "effect list \<Rightarrow> complete_result list" where
  "completions es = List.map_filter (\<lambda>x. case x of Completion r \<Rightarrow> Some r | _ \<Rightarrow> None) es"

lemma completions_append [simp]: "completions (xs @ ys) = completions xs @ completions ys"
  by (induction xs) (auto simp: completions_def List.map_filter_simps split: option.splits)

lemma completions_progress: "list_all is_progress ps \<Longrightarrow> completions ps = []"
proof (induction ps)
  case (Cons p ps)
  then show ?case by (cases p) (auto simp: completions_def List.map_filter_simps)
qed (simp add: completions_def List.map_filter_simps)

lemma completions_one [simp]:
  "completions [Completion r] = [r]" "completions [Progress i s] = []" "completions [SiteLog l m] = []"
  by (simp_all add: completions_def List.map_filter_simps)

lemma quiet_completions: "quiet ag ag' \<Longrightarrow> completions (ag_sent ag') = completions (ag_sent ag)"
  by (auto simp: quiet_def completions_progress)

lemma completions_report [simp]:
  "completions (ag_sent (reportProgress e task ph d ag)) = completions (ag_sent ag)"
  by (rule quiet_completions) (rule quiet_report [OF quiet_refl])

lemma completions_send [simp]:
  "completions (ag_sent (send_effect (Completion r) ag)) = completions (ag_sent ag) @ [r]"
  "completions (ag_sent (send_effect (SiteLog l m) ag)) = completions (ag_sent ag)"
  by (simp_all add: send_effect_def)

lemma ledger_report [simp]: "ag_ledger (reportProgress e task ph d ag) = ag_ledger ag"
  and ledger_send [simp]: "ag_ledger (send_effect x ag) = ag_ledger ag"
  by (simp_all add: reportProgress_def send_effect_def)

lemma fold_loop_effects:
  "completions (ag_sent (fold (loop_effect e task r) evs ag)) = completions (ag_sent ag) @ replicate (tries evs) r \<and>
   ag_ledger (fold (loop_effect e task r) evs ag) = ag_ledger ag"
proof (induction evs arbitrary: ag)
  case (Cons ev evs)
  have "completions (ag_sent (loop_effect e task r ev ag)) =
      completions (ag_sent ag) @ (if ev = Tried then [r] else []) \<and> ag_ledger (loop_effect e task r ev ag) = ag_ledger ag"
    by (cases ev) (simp_all add: loop_effect_def)
  with Cons.IH [of "loop_effect e task r ev ag"] show ?case by (simp add: tries_def)
qed (simp add: tries_def)

text \<open>Every way to conclude: the completions sent, and the ledger untouched.\<close>

definition own_result :: "agent_task \<Rightarrow> complete_result \<Rightarrow> bool" where
  "own_result task r \<longleftrightarrow> cr_LockID r = LockID task \<and> cr_RequestID r = RequestID task"

definition verdict_reports :: "task_env \<Rightarrow> agent_task \<Rightarrow> verdict \<Rightarrow> complete_result list \<Rightarrow> bool" where
  "verdict_reports e task v rs \<longleftrightarrow>
     (case v of
        Built nzb pw media shots \<Rightarrow>
          (\<exists>r res evs. complete_loop 0 (te_attempts e) = Some (res, evs) \<and> rs = replicate (tries evs) r \<and>
             own_result task r \<and> cr_Status r = ''completed'' \<and> cr_NzbData r = Some nzb \<and> cr_Password r = pw)
      | _ \<Rightarrow> (\<exists>r. rs = [r] \<and> own_result task r \<and> cr_Status r \<in> {''failed'', ''aborted''} \<and> cr_NzbData r = None))"

lemma own_results [simp]:
  "own_result task (failed_result task st why n)" "own_result task (completed_result task nzb pw media shots)"
  by (simp_all add: own_result_def failed_result_def completed_result_def)

lemma conclude_reports:
  assumes "conclude e task (ag, v) = Some ag'" "\<forall>p. v \<noteq> Downloaded_to p"
  shows "(\<exists>rs. completions (ag_sent ag') = completions (ag_sent ag) @ rs \<and> verdict_reports e task v rs) \<and>
    ag_ledger ag' = ag_ledger ag"
proof (cases v)
  case (Failing msg err)
  then show ?thesis
    using assms(1)
    by (auto simp: conclude_def fail_task_def Let_def verdict_reports_def failed_result_def own_result_def
        split: if_splits)
next
  case (Built nzb pw media shots)
  let ?r = "completed_result task nzb pw media shots"
  from assms(1) Built obtain res evs where
    l: "complete_loop 0 (te_attempts e) = Some (res, evs)"
    by (auto simp: conclude_def report_completion_def split: option.splits)
  have "completions (ag_sent ag') = completions (ag_sent ag) @ replicate (tries evs) ?r \<and> ag_ledger ag' = ag_ledger ag"
    using assms(1) Built l fold_loop_effects [of e task ?r evs ag]
    by (cases res) (auto simp: conclude_def report_completion_def Let_def send_effect_def)
  moreover have "verdict_reports e task v (replicate (tries evs) ?r)"
    unfolding verdict_reports_def Built verdict.case
    by (intro exI [of _ ?r] exI [of _ res] exI [of _ evs]) (simp add: l completed_result_def own_result_def)
  ultimately show ?thesis by blast
qed (use assms in \<open>auto simp: conclude_def verdict_reports_def failed_result_def own_result_def\<close>)


lemma release_after_reserve:
  assumes "map_of (reservations led) job = None" "led' \<in> {led, ReserveDisk job n led}"
  shows "ReleaseDisk job led' = led"
proof -
  have "job \<notin> fst ` set (reservations led)" using assms(1) by (simp add: map_of_eq_None_iff)
  moreover from this have "filter (\<lambda>(k, v). job \<noteq> k) (reservations led) = reservations led"
    by (force simp: filter_id_conv)
  ultimately show ?thesis
    using assms by (auto simp: ReleaseDisk_def ReserveDisk_def Let_def update_fresh AList.delete_eq map_add_def)
qed

lemma processTask_cases:
  assumes "processTask e task ag = Some ag'"
  obtains (cooldown) sk where
      "shouldSkipOversize (te_skip_write e) (te_now e) (RequestID task) (ag_skips ag) = (True, sk)"
      "ag' = send_effect (Completion (failed_result task ''aborted'' cooldown_reason 0)) (ag\<lparr>ag_skips := sk\<rparr>)"
  | (ran) sk ag2 v ag3 where
      "shouldSkipOversize (te_skip_write e) (te_now e) (RequestID task) (ag_skips ag) = (False, sk)"
      "run_task e task (ag\<lparr>ag_skips := sk, ag_cancels := List.insert (job_name task) (ag_cancels ag)\<rparr>) = (ag2, v)"
      "conclude e task (ag2, v) = Some ag3" "ag' = clean_up task ag3" "\<forall>p. v \<noteq> Downloaded_to p"
proof -
  obtain b sk where s: "shouldSkipOversize (te_skip_write e) (te_now e) (RequestID task) (ag_skips ag) = (b, sk)"
    by force
  show ?thesis
  proof (cases b)
    case True
    with assms s cooldown show ?thesis by (simp add: processTask_def)
  next
    case False
    let ?ag1 = "ag\<lparr>ag_skips := sk, ag_cancels := List.insert (job_name task) (ag_cancels ag)\<rparr>"
    obtain ag2 v where r: "run_task e task ?ag1 = (ag2, v)" by force
    from assms s False r obtain ag3 where "conclude e task (ag2, v) = Some ag3" "ag' = clean_up task ag3"
      by (auto simp: processTask_def Let_def)
    moreover have "\<forall>p. v \<noteq> Downloaded_to p" using run_task_quiet [of ?ag1 task e] r by auto
    ultimately show ?thesis using ran [of sk ag2 v ag3] s False r by simp
  qed
qed

text \<open>
  C7. A task that ends is reported exactly once and leaves nothing behind. Every run of
  \<open>processTask\<close> that ends has told the site about its own request and lock: either one final
  failure or abort, or the same completion with the NZB, repeated until the retry loop ended.
  Afterwards the disk ledger is exactly what it was before the task, the task's progress entry
  is gone and so is its cancel function.
\<close>

theorem processTask_contract:
  assumes "processTask e task ag = Some ag'"
    and "map_of (reservations (ag_ledger ag)) (job_name task) = None"
    and "map_of (ag_progress ag) (RequestID task) = None" "job_name task \<notin> set (ag_cancels ag)"
  shows "(\<exists>rs r. completions (ag_sent ag') = completions (ag_sent ag) @ rs \<and> rs \<noteq> [] \<and> set rs = {r} \<and>
      own_result task r \<and>
      (cr_Status r = ''completed'' \<and> cr_NzbData r \<noteq> None \<or>
       length rs = 1 \<and> cr_Status r \<in> {''failed'', ''aborted''} \<and> cr_NzbData r = None)) \<and>
    ag_ledger ag' = ag_ledger ag \<and> map_of (ag_progress ag') (RequestID task) = None \<and>
    job_name task \<notin> set (ag_cancels ag')"
  using assms(1)
proof (cases rule: processTask_cases)
  case (cooldown sk)
  let ?r = "failed_result task ''aborted'' cooldown_reason 0"
  have "completions (ag_sent ag') = completions (ag_sent ag) @ [?r]" using cooldown by (simp add: send_effect_def)
  moreover have "cr_Status ?r = ''aborted''" "cr_NzbData ?r = None" by (simp_all add: failed_result_def)
  ultimately have "\<exists>rs r. completions (ag_sent ag') = completions (ag_sent ag) @ rs \<and> rs \<noteq> [] \<and> set rs = {r} \<and>
      own_result task r \<and>
      (cr_Status r = ''completed'' \<and> cr_NzbData r \<noteq> None \<or>
       length rs = 1 \<and> cr_Status r \<in> {''failed'', ''aborted''} \<and> cr_NzbData r = None)"
    by (intro exI [of _ "[?r]"] exI [of _ ?r]) simp
  moreover have "ag_ledger ag' = ag_ledger ag" "ag_progress ag' = ag_progress ag" "ag_cancels ag' = ag_cancels ag"
    using cooldown(2) by (simp_all add: send_effect_def)
  ultimately show ?thesis using assms(3,4) by simp
next
  case (ran sk ag2 v ag3)
  let ?ag1 = "ag\<lparr>ag_skips := sk, ag_cancels := List.insert (job_name task) (ag_cancels ag)\<rparr>"
  have l1: "ag_ledger ?ag1 = ag_ledger ag" by simp
  have "busy_agent ?ag1 task (t_length (te_world e)) ag2" using run_task_quiet [of ?ag1 task e] ran(2) by simp
  then obtain led where
    led: "led \<in> {ag_ledger ag, ReserveDisk (job_name task) (t_length (te_world e)) (ag_ledger ag)}"
    and q: "quiet (?ag1\<lparr>ag_ledger := led\<rparr>) ag2"
    unfolding busy_agent_def l1 by blast
  have c2: "completions (ag_sent ag2) = completions (ag_sent ag)" using quiet_completions [OF q] by simp
  have l2: "ag_ledger ag2 = led" using q by (simp add: quiet_def)
  from conclude_reports [OF ran(3,5)] obtain rs where
    rs: "completions (ag_sent ag3) = completions (ag_sent ag2) @ rs" "verdict_reports e task v rs"
    and l3: "ag_ledger ag3 = led" using l2 by auto
  have "ag_ledger ag' = ag_ledger ag"
    using release_after_reserve [OF assms(2) led] l3 ran(4) by (simp add: clean_up_def)
  moreover have "map_of (ag_progress ag') (RequestID task) = None" "job_name task \<notin> set (ag_cancels ag')"
    using ran(4) by (simp_all add: clean_up_def updateTaskProgress_def AList.delete_conv')
  moreover have "completions (ag_sent ag') = completions (ag_sent ag) @ rs"
    using rs(1) c2 ran(4) by (simp add: clean_up_def)
  moreover have "\<exists>r. rs \<noteq> [] \<and> set rs = {r} \<and> own_result task r \<and>
      (cr_Status r = ''completed'' \<and> cr_NzbData r \<noteq> None \<or>
       length rs = 1 \<and> cr_Status r \<in> {''failed'', ''aborted''} \<and> cr_NzbData r = None)"
  proof (cases v)
    case (Built nzb pw media shots)
    with rs(2) obtain r res evs where l: "complete_loop 0 (te_attempts e) = Some (res, evs)"
      "rs = replicate (tries evs) r" "own_result task r" "cr_Status r = ''completed''" "cr_NzbData r = Some nzb"
      by (auto simp: verdict_reports_def)
    moreover have "0 < tries evs" using complete_loop_shape [OF l(1)] by auto
    ultimately show ?thesis by (intro exI [of _ r]) (auto simp: set_replicate_conv_if)
  qed (use rs(2) ran(5) in \<open>auto simp: verdict_reports_def\<close>)
  ultimately show ?thesis by blast
qed


subsection \<open>Failures and the guards\<close>

lemma skips_report [simp]: "ag_skips (reportProgress e task ph d ag) = ag_skips ag"
  "ag_aborts (reportProgress e task ph d ag) = ag_aborts ag"
  "ag_files (reportProgress e task ph d ag) = ag_files ag"
  by (simp_all add: reportProgress_def send_effect_def)

lemma skips_send [simp]: "ag_skips (send_effect x ag) = ag_skips ag" "ag_aborts (send_effect x ag) = ag_aborts ag"
  "ag_files (send_effect x ag) = ag_files ag"
  by (simp_all add: send_effect_def)

lemma clean_up_simps [simp]:
  "ag_skips (clean_up task ag) = ag_skips ag" "ag_aborts (clean_up task ag) = ag_aborts ag"
  "ag_sent (clean_up task ag) = ag_sent ag" "ag_files (clean_up task ag) = ag_files ag"
  by (simp_all add: clean_up_def)

lemma failing_run:
  assumes "shouldSkipOversize (te_skip_write e) (te_now e) (RequestID task) (ag_skips ag) = (False, sk)"
    and "run_task e task (ag\<lparr>ag_skips := sk, ag_cancels := List.insert (job_name task) (ag_cancels ag)\<rparr>) =
      (ag2, Failing msg err)"
  shows "processTask e task ag = Some (clean_up task (fail_task e task msg err ag2))"
    and "ag_skips ag2 = sk" "ag_aborts ag2 = ag_aborts ag"
    and "completions (ag_sent ag2) = completions (ag_sent ag)"
proof -
  let ?ag1 = "ag\<lparr>ag_skips := sk, ag_cancels := List.insert (job_name task) (ag_cancels ag)\<rparr>"
  show "processTask e task ag = Some (clean_up task (fail_task e task msg err ag2))"
    using assms by (simp add: processTask_def Let_def conclude_def)
  have "busy_agent ?ag1 task (t_length (te_world e)) ag2" using run_task_quiet [of ?ag1 task e] assms(2) by simp
  then obtain led where q: "quiet (?ag1\<lparr>ag_ledger := led\<rparr>) ag2"
    unfolding busy_agent_def by blast
  then show "ag_skips ag2 = sk" "ag_aborts ag2 = ag_aborts ag" by (simp_all add: quiet_def)
  show "completions (ag_sent ag2) = completions (ag_sent ag)" using quiet_completions [OF q] by simp
qed

text \<open>
  C26. How a failure is treated. A task that fails for lack of disk space is handed back as
  aborted, with the torrent's size if the pre-flight check found it, and its request is put into
  the cooldown; a failure of the agent's own environment is handed back as aborted too and counts
  towards the self-pause; every other failure is reported as failed and touches neither guard.
\<close>

theorem failure_classes:
  assumes "shouldSkipOversize (te_skip_write e) (te_now e) (RequestID task) (ag_skips ag) = (False, sk)"
    and "run_task e task (ag\<lparr>ag_skips := sk, ag_cancels := List.insert (job_name task) (ag_cancels ag)\<rparr>) =
      (ag2, Failing msg err)"
  shows "\<exists>ag'. processTask e task ag = Some ag' \<and>
    (let reason = msg @ '': '' @ err_text err
     in if is_disk_error err then
          completions (ag_sent ag') = completions (ag_sent ag) @ [failed_result task ''aborted'' reason
            (case err of DiskShort sz av \<Rightarrow> sz | _ \<Rightarrow> 0)] \<and>
          ag_skips ag' = markOversize (te_skip_write e) (te_now e) (RequestID task) sk \<and> ag_aborts ag' = ag_aborts ag
        else if isAgentLocalError (err_text err) then
          completions (ag_sent ag') = completions (ag_sent ag) @ [failed_result task ''aborted'' reason 0] \<and>
          ag_skips ag' = sk \<and> ag_aborts ag' = recordAbort (te_now e) (ag_aborts ag)
        else
          completions (ag_sent ag') = completions (ag_sent ag) @ [failed_result task ''failed'' reason 0] \<and>
          ag_skips ag' = sk \<and> ag_aborts ag' = ag_aborts ag)"
  using failing_run [OF assms] by (simp add: fail_task_def Let_def)

lemma processTask_cooldown:
  "shouldSkipOversize (te_skip_write e) (te_now e) (RequestID task) (ag_skips ag) = (True, ag_skips ag) \<Longrightarrow>
     processTask e task ag = Some (send_effect (Completion (failed_result task ''aborted'' cooldown_reason 0)) ag)"
  by (simp add: processTask_def)

text \<open>
  C27. A request that did not fit is not tried again at once. If a task failed for lack of disk
  space and the site hands the same request back within thirty minutes, the agent gives it back
  as aborted without touching anything else, in particular without starting a download.
\<close>

theorem oversize_not_retried:
  assumes "shouldSkipOversize (te_skip_write e) (te_now e) (RequestID task) (ag_skips ag) = (False, sk)"
    and "run_task e task (ag\<lparr>ag_skips := sk, ag_cancels := List.insert (job_name task) (ag_cancels ag)\<rparr>) =
      (ag2, Failing msg err)"
    and "is_disk_error err" "te_now e \<le> te_now e'" "te_now e' \<le> te_now e + 30 * minute"
  shows "\<exists>ag'. processTask e task ag = Some ag' \<and>
    processTask e' task ag' =
      Some (send_effect (Completion (failed_result task ''aborted'' cooldown_reason 0)) ag')"
proof -
  let ?ag' = "clean_up task (fail_task e task msg err ag2)"
  have sk: "ag_skips ?ag' = markOversize (te_skip_write e) (te_now e) (RequestID task) sk"
    using failing_run(2) [OF assms(1,2)] assms(3) by (simp add: fail_task_def Let_def)
  have "map_of (oversizeSkip (ag_skips ?ag')) (RequestID task) = Some (te_now e + oversizeSkipTTL)"
    unfolding sk by (simp add: markOversize_def saveOversizeSkipLocked_def update_conv' split: write_outcome.split)
  then have "shouldSkipOversize (te_skip_write e') (te_now e') (RequestID task) (ag_skips ?ag') = (True, ag_skips ?ag')"
    using assms(5) by (simp add: shouldSkipOversize_def oversizeSkipTTL_def)
  then have "processTask e' task ?ag' =
      Some (send_effect (Completion (failed_result task ''aborted'' cooldown_reason 0)) ?ag')"
    by (rule processTask_cooldown)
  with failing_run(1) [OF assms(1,2)] show ?thesis by blast
qed

subsection \<open>Nothing that was uploaded is lost\<close>

lemma backup_id_path:
  assumes "- (2 ^ 63) \<le> RequestID task" "RequestID task < 2 ^ 63"
  shows "backup_id (backup_path e task) = Some (RequestID task)"
proof -
  let ?f = "backup_prefix @ int_str (RequestID task) @ ''.nzb''"
  have "plain_name ?f" using int_str_no_slash by (auto simp: plain_name_def backup_prefix_def slash_def)
  then have "path_base (backup_path e task) = ?f" unfolding backup_path_def by (rule path_base_join)
  moreover have "trim_prefix ?f backup_prefix = int_str (RequestID task) @ ''.nzb''" by (rule trim_prefix_append)
  moreover have "trim_suffix (int_str (RequestID task) @ ''.nzb'') ''.nzb'' = int_str (RequestID task)"
    by (rule trim_suffix_append)
  ultimately show ?thesis using assms by (simp add: backup_id_def parse_int_int_str)
qed

text \<open>
  C8. Uploaded work is not lost. Once the NZB of a task exists, a run that ends has had it
  accepted by the site, or, if the agent can write to its directory, has saved exactly these
  bytes under a name from which the next start of the agent recovers the request.
\<close>

theorem uploaded_work_kept:
  assumes "shouldSkipOversize (te_skip_write e) (te_now e) (RequestID task) (ag_skips ag) = (False, sk)"
    and "run_task e task (ag\<lparr>ag_skips := sk, ag_cancels := List.insert (job_name task) (ag_cancels ag)\<rparr>) =
      (ag2, Built nzb pw media shots)"
    and "processTask e task ag = Some ag'" "te_backup_write e = Wrote"
    and "- (2 ^ 63) \<le> RequestID task" "RequestID task < 2 ^ 63"
  shows "(\<exists>a \<in> set (te_attempts e). at_answer a = None) \<or>
    map_of (ag_files ag') (backup_path e task) = Some nzb \<and>
    backup_id (backup_path e task) = Some (RequestID task)"
proof -
  let ?r = "completed_result task nzb pw media shots"
  from assms(1-3) have r: "map_option (clean_up task) (report_completion e task nzb ?r ag2) = Some ag'"
    by (simp add: processTask_def Let_def conclude_def)
  then obtain res evs where l: "complete_loop 0 (te_attempts e) = Some (res, evs)"
    by (auto simp: report_completion_def split: option.splits)
  from complete_loop_shape [OF l] have res: "res \<in> at_answer ` set (te_attempts e)" by auto
  show ?thesis
  proof (cases res)
    case None
    with res show ?thesis by (metis imageE)
  next
    case (Some err)
    with r l assms(4) have "map_of (ag_files ag') (backup_path e task) = Some nzb"
      by (auto simp: report_completion_def Let_def update_conv')
    with backup_id_path [OF assms(5,6)] show ?thesis by simp
  qed
qed

text \<open>The working disk is needed: a backup that was cut short stays under the name a start re-submits.\<close>

lemma cut_backup_left:
  assumes "complete_loop 0 (te_attempts e) = Some (Some err, evs)" "te_backup_write e = CutShort w n"
  shows "\<exists>ag'. report_completion e task nzb r ag = Some ag' \<and>
    map_of (ag_files ag') (backup_path e task) = Some (take n nzb)"
  using assms by (simp add: report_completion_def Let_def WriteFile_def update_conv')

text \<open>
  The saved file does not hold the password of an encrypted upload, and the re-submission sends
  none.
\<close>

lemma backfill_sends_no_password:
  "backfill_form requestID dat [] = [Field ''request_id'' (int_str requestID), FilePart ''nzb_data'' ''release.nzb'' dat]"
  by (simp add: backfill_form_def opt_part_def)

lemma runBackfill_ignores_password:
  "runBackfill net t [(path, Some dat)] c =
     (case backup_id path of
        None \<Rightarrow> ([], 0, 0, c)
      | Some i \<Rightarrow> (case Backfill net t c i dat [] of (Inl err, c1) \<Rightarrow> ([], 0, 1, c1) | (Inr n, c1) \<Rightarrow> ([path], 1, 0, c1)))"
  by (simp split: option.splits sum.splits prod.splits)

text \<open>
  A file is deleted only after the site accepted it.
\<close>

lemma runBackfill_deletes_accepted:
  "path \<in> set (fst (runBackfill net t fs c)) \<Longrightarrow>
     \<exists>dat i c0 n. (path, Some dat) \<in> set fs \<and> backup_id path = Some i \<and> fst (Backfill net t c0 i dat []) = Inr n"
proof (induction fs arbitrary: c)
  case (Cons x fs)
  obtain p content where x: "x = (p, content)" by (cases x)
  show ?case
  proof (cases "path \<in> (\<Union>c. set (fst (runBackfill net t fs c)))")
    case True
    with Cons.IH show ?thesis by fastforce
  next
    case False
    then obtain i dat where i: "backup_id p = Some i" "content = Some dat" and p: "path = p"
      and b: "\<exists>n. fst (Backfill net t c i dat []) = Inr n"
      using Cons.prems
      by (cases "backup_id p"; cases content; cases "fst (Backfill net t c (the (backup_id p)) (the content) [])")
        (auto simp: x split_beta)
    then show ?thesis by (auto simp: x)
  qed
qed simp

subsection \<open>Private tasks\<close>

text \<open>
  A private task without a \<open>.torrent\<close> URL takes the public path: with no cached file its magnet is
  opened with the public trackers and the hash table on.
\<close>

lemma private_task_without_url_is_public:
  assumes "Private task" "TorrentFileURL task = []" "te_cached e = Inr None"
  shows "fetch_payload e task led =
    (case downloadMagnet (te_world e) (te_cfg e) (te_layered e) (magnet_of task) (job_name task)
       (Some (task_dl_opts e task)) False led of (f, led') \<Rightarrow> (Inr f, led'))"
  using assms by (simp add: fetch_payload_def DownloadMagnet_def Let_def)

text \<open>A finished job keeps its download path, so the sweep keeps the empty directory around it.\<close>

lemma finished_download_dir_kept:
  assumes "map_of js job = Some j" "js_DownloadedPath j \<noteq> []"
  shows "path_base (path_dir (js_DownloadedPath j)) \<in> kept_dirs (UpdateState clk job ''Completed'' d 100 js)"
proof -
  let ?j = "j\<lparr>js_Phase := ''Completed'', js_Details := d, js_Progress := 100, js_UpdatedAt := clk\<rparr>"
  have "map_of (UpdateState clk job ''Completed'' d 100 js) job = Some ?j"
    using assms(1) by (simp add: UpdateState_def update_conv')
  then have "(job, ?j) \<in> set (UpdateState clk job ''Completed'' d 100 js)" by (rule map_of_SomeD)
  with assms(2) show ?thesis unfolding kept_dirs_def by force
qed


subsection \<open>Sample runs\<close>

definition demo_world :: world where
  "demo_world = \<lparr>temp_dir_err = None, stage_err = None, mkdir_err = None, dialer_made = True,
     client_err = (\<lambda>p. None), add_err = (\<lambda>s. None), meta = MetaTimeout, t_name = ''Show'', t_length = 1000,
     disk_cap = 0, disk_free = Some 5000, disk_used = 0, t_start = 0, t_done = 0, events = []\<rparr>"

definition demo_layered :: layered where
  "demo_layered = \<lparr>yml = [], env = [], web = [], yml_file = None, writable = True\<rparr>"

definition demo_task :: agent_task where
  "demo_task = \<lparr>RequestID = 7, LockID = 3, Title = ''Show'', NyaaURL = [], InfoHash = ''abc'', Category = [],
     Season = [], Episodes = [], BoostCount = 0, Private = True, TorrentFileURL = ''/t/7''\<rparr>"

definition demo_agent :: agent where
  "demo_agent = \<lparr>ag_jobs = [], ag_ledger = no_reservations, ag_aborts = no_aborts, ag_skips = fresh_skip,
     ag_progress = [], ag_cancels = [], ag_callbacks = [], ag_files = [], ag_sent = []\<rparr>"

text \<open>A task whose private file could not be fetched because the disk was full.\<close>

definition full_env :: task_env where
  "full_env = \<lparr>te_now = 0, te_clock = ''12:00:00'', te_skip_write = Wrote, te_backup_write = Wrote,
     te_cfg = newConfigFromLayered (\<lambda>k. None) demo_layered, te_layered = demo_layered, te_remote = None,
     te_is_dir = (\<lambda>p. True), te_fetch = Inl (SiteError ''no space left on device''), te_cached = Inr None,
     te_world = demo_world, te_cancelled = False, te_videos = [], te_probe = Inl [], te_shots = Inl [],
     te_manga = None, te_stage_mkdir = None, te_stage = None, te_par2 = None, te_rand = (\<lambda>k. ''r''),
     te_encrypt = None, te_upload_size = 10, te_upload = None, te_nzb = (\<lambda>pw. Inr ''<nzb/>''),
     te_attempts = replicate 3 \<lparr>at_answer = Some (SiteError ''refused''), at_cancelled = False,
       at_cancelled_waiting = False\<rparr>\<rparr>"

text \<open>The same task with its download still on disk.\<close>

definition resumed_agent :: agent where
  "resumed_agent = demo_agent\<lparr>ag_jobs := [(job_name demo_task, (fresh_state (job_name demo_task))
     \<lparr>js_DownloadedPath := ''/tmp/dl-request-7/Show''\<rparr>)]\<rparr>"

lemma demo_not_skipped:
  "ag_skips ag = fresh_skip \<Longrightarrow>
     shouldSkipOversize (te_skip_write full_env) (te_now full_env) (RequestID demo_task) (ag_skips ag) = (False, fresh_skip)"
  by (simp add: shouldSkipOversize_def fresh_skip_def)

abbreviation started :: "agent \<Rightarrow> agent" where
  "started ag \<equiv> ag\<lparr>ag_skips := fresh_skip, ag_cancels := List.insert (job_name demo_task) (ag_cancels ag)\<rparr>"

lemma demo_full:
  "\<exists>ag2. run_task full_env demo_task (started demo_agent) = (ag2, Failing ''Download error'' (Err ''no space left on device''))"
proof -
  have "resumable_path full_env demo_task (reportProgress full_env demo_task ph d (started demo_agent)) = []" for ph d
    by (simp add: resumable_path_def reportProgress_def send_effect_def demo_agent_def UpdateState_def fresh_state_def Let_def)
  moreover have "fetch_payload full_env demo_task led = (Inl (Err ''no space left on device''), led)" for led
    by (simp add: fetch_payload_def full_env_def demo_task_def site_error_text_def Let_def)
  moreover have "\<not> te_cancelled full_env" by (simp add: full_env_def)
  ultimately show ?thesis
    by (simp add: run_task_def download_step_def download_error_def Let_def)
qed

lemma demo_disk_error: "is_disk_error (Err ''no space left on device'')"
  by (simp add: is_disk_error_def) code_simp

theorem failure_classes_witness:
  "\<exists>ag'. processTask full_env demo_task demo_agent = Some ag' \<and>
     ag_skips ag' = markOversize Wrote 0 7 fresh_skip \<and> ag_aborts ag' = no_aborts"
proof -
  obtain ag2 where r: "run_task full_env demo_task (started demo_agent) =
      (ag2, Failing ''Download error'' (Err ''no space left on device''))" using demo_full by blast
  have "ag_skips demo_agent = fresh_skip" by (simp add: demo_agent_def)
  from failure_classes [OF demo_not_skipped [OF this] r] demo_disk_error show ?thesis
    by (auto simp: Let_def full_env_def demo_task_def demo_agent_def)
qed

theorem processTask_contract_witness:
  "\<exists>ag'. processTask full_env demo_task demo_agent = Some ag' \<and> ag_ledger ag' = no_reservations \<and>
     job_name demo_task \<notin> set (ag_cancels ag')"
proof -
  obtain ag2 where r: "run_task full_env demo_task (started demo_agent) =
      (ag2, Failing ''Download error'' (Err ''no space left on device''))" using demo_full by blast
  have "ag_skips demo_agent = fresh_skip" by (simp add: demo_agent_def)
  from failing_run(1) [OF demo_not_skipped [OF this] r] obtain ag' where
    p: "processTask full_env demo_task demo_agent = Some ag'" by blast
  have "map_of (reservations (ag_ledger demo_agent)) (job_name demo_task) = None"
    "map_of (ag_progress demo_agent) (RequestID demo_task) = None" "job_name demo_task \<notin> set (ag_cancels demo_agent)"
    by (simp_all add: demo_agent_def no_reservations_def)
  from processTask_contract [OF p this] p show ?thesis by (simp add: demo_agent_def)
qed

theorem oversize_not_retried_witness:
  "\<exists>ag'. processTask full_env demo_task demo_agent = Some ag' \<and>
     processTask (full_env\<lparr>te_now := 20 * minute\<rparr>) demo_task ag' =
       Some (send_effect (Completion (failed_result demo_task ''aborted'' cooldown_reason 0)) ag')"
proof -
  obtain ag2 where r: "run_task full_env demo_task (started demo_agent) =
      (ag2, Failing ''Download error'' (Err ''no space left on device''))" using demo_full by blast
  have s: "ag_skips demo_agent = fresh_skip" by (simp add: demo_agent_def)
  have t: "te_now full_env \<le> te_now (full_env\<lparr>te_now := 20 * minute\<rparr>)"
    "te_now (full_env\<lparr>te_now := 20 * minute\<rparr>) \<le> te_now full_env + 30 * minute"
    by (simp_all add: full_env_def time_unit_defs)
  show ?thesis by (rule oversize_not_retried [OF demo_not_skipped [OF s] r demo_disk_error t])
qed

lemma demo_built:
  "\<exists>ag2. run_task full_env demo_task (started resumed_agent) = (ag2, Built ''<nzb/>'' [] None [])"
proof -
  have path: "resumable_path full_env demo_task (reportProgress full_env demo_task ph d (started resumed_agent)) =
      ''/tmp/dl-request-7/Show''" for ph d
    by (simp add: resumable_path_def reportProgress_def send_effect_def resumed_agent_def UpdateState_def Let_def
        full_env_def)
  have enc: "\<not> Encrypt (te_cfg full_env)" by (simp add: full_env_def) code_simp
  have simple: "te_videos full_env = []" "te_manga full_env = None" "te_stage_mkdir full_env = None"
    "te_stage full_env = None" "te_par2 full_env = None" "te_upload full_env = None"
    "te_nzb full_env pw = Inr ''<nzb/>''" for pw
    by (simp_all add: full_env_def)
  show ?thesis
    by (simp add: run_task_def download_step_def path Let_def build_step_def media_step_def stage_step_def
        encrypt_step_def enc simple upload_step_def split_beta)
qed

theorem uploaded_work_kept_witness:
  "\<exists>ag'. processTask full_env demo_task resumed_agent = Some ag' \<and>
     map_of (ag_files ag') (backup_path full_env demo_task) = Some ''<nzb/>''"
proof -
  obtain ag2 where r: "run_task full_env demo_task (started resumed_agent) = (ag2, Built ''<nzb/>'' [] None [])"
    using demo_built by blast
  have "ag_skips resumed_agent = fresh_skip" by (simp add: resumed_agent_def demo_agent_def)
  note s = demo_not_skipped [OF this]
  have l: "complete_loop 0 (te_attempts full_env) \<noteq> None"
    by (simp add: full_env_def numeral_eq_Suc IsMaintenanceError_def)
  obtain ag' where p: "processTask full_env demo_task resumed_agent = Some ag'"
    using s r l by (auto simp: processTask_def Let_def conclude_def report_completion_def)
  have "te_backup_write full_env = Wrote" "- (2 ^ 63) \<le> RequestID demo_task" "RequestID demo_task < 2 ^ 63"
    "\<not> (\<exists>a \<in> set (te_attempts full_env). at_answer a = None)"
    by (simp_all add: full_env_def demo_task_def)
  with uploaded_work_kept [OF s r p] p show ?thesis by blast
qed

end
