(* ===== verification/Poll_Loop.thy ===== *)
theory Poll_Loop
  imports Online_Task
begin

text \<open>
  The main loop of the agent (\<open>main\<close> in \<open>src/main.go\<close>): one iteration over what the site, the
  processor and the disk answer, and the loop interleaved with tasks that finish.
\<close>

subsection \<open>One iteration\<close>

record loop_state =
  lp_cfg :: agent_config
  lp_layered :: layered
  lp_maxDL :: int
  lp_cap :: u64
  lp_lastReason :: go_string
  lp_active :: "int list"
  lp_aborts :: abort_guard
  lp_ledger :: ledger

text \<open>
  What an iteration sees: the answers of the site to the configuration, the report, the directives
  and the poll, the processor load and the disk (\<open>None\<close>: the query failed), and the time.
\<close>

record loop_input =
  li_now :: time
  li_env :: environ
  li_config :: "site_error + remote_config"
  li_report_failed :: bool
  li_directives :: "site_error + directive list"
  li_write_ok :: bool
  li_error_text :: go_string
  li_cpu :: "float64 option"
  li_fs_free :: "u64 option"
  li_disk_used :: u64
  li_poll :: "site_error + poll_result"

datatype loop_result = Sleep duration | Shutdown | Dispatch agent_task "remote_config option"

text \<open>The start of the loop: at least one download at a time.\<close>

definition initial_maxDL :: "agent_config \<Rightarrow> int" where
  "initial_maxDL cfg = (if MaxConcurrentDownloads cfg < 1 then 1 else MaxConcurrentDownloads cfg)"

text \<open>The remote configuration: processor threshold, and the overrides of the site.\<close>

definition cpu_threshold :: "loop_input \<Rightarrow> loop_state \<Rightarrow> float64" where
  "cpu_threshold i st =
     (case li_config i of
        Inr rc \<Rightarrow> if 0 < CpuMaxPercent rc then float_of_int (CpuMaxPercent rc) else CPUMaxPercent (lp_cfg st)
      | Inl err \<Rightarrow> CPUMaxPercent (lp_cfg st))"

definition apply_remote :: "loop_input \<Rightarrow> loop_state \<Rightarrow> loop_state" where
  "apply_remote i st =
     (case li_config i of
        Inl err \<Rightarrow> st
      | Inr rc \<Rightarrow>
          (let st1 = (if 0 < MaxConcurrent rc \<and> MaxConcurrent rc \<noteq> lp_maxDL st then st\<lparr>lp_maxDL := MaxConcurrent rc\<rparr> else st);
               st2 = (if 0 < rc_MaxDiskUsageGB rc then st1\<lparr>lp_cap := InitDiskLimit (rc_MaxDiskUsageGB rc)\<rparr> else st1)
           in case WebOverrides rc of
                None \<Rightarrow> st2
              | Some m \<Rightarrow>
                  (let l = ApplyWeb m (lp_layered st2)
                   in st2\<lparr>lp_layered := l, lp_cfg := Refresh (li_env i) l (lp_cfg st2)\<rparr>)))"

text \<open>The report of the settings, and the directives in order.\<close>

definition apply_directives :: "loop_input \<Rightarrow> loop_state \<Rightarrow> loop_state" where
  "apply_directives i st =
     (let st1 = (if li_report_failed i \<and> lp_lastReason st \<noteq> ''local_config_post''
                 then st\<lparr>lp_lastReason := ''local_config_post''\<rparr> else st)
      in case li_directives i of
           Inl err \<Rightarrow> st1
         | Inr ds \<Rightarrow>
             fold (\<lambda>d s. case applyDirective (li_env i) (li_write_ok i) (li_error_text i) (li_error_text i) d
                      (lp_layered s) (lp_cfg s) of
                    (ack, l, cfg) \<Rightarrow> s\<lparr>lp_layered := l, lp_cfg := cfg\<rparr>) ds st1)"

definition poll_interval :: "agent_config \<Rightarrow> duration" where
  "poll_interval cfg = wrap64 (PollInterval cfg * second)"

definition cpu_busy :: "loop_input \<Rightarrow> float64 \<Rightarrow> bool" where
  "cpu_busy i threshold \<longleftrightarrow> 0 < threshold \<and> (case li_cpu i of Some pct \<Rightarrow> threshold < pct | None \<Rightarrow> False)"

definition disk_low :: "loop_input \<Rightarrow> loop_state \<Rightarrow> bool" where
  "disk_low i st \<longleftrightarrow>
     (case FreeDiskAfterReservations (lp_cap st) (li_fs_free i) (li_disk_used i) (lp_ledger st) of
        Some eff \<Rightarrow> gib (float_of_int (uint eff)) < 1
      | None \<Rightarrow> False)"

text \<open>The handling of a poll that failed.\<close>

definition poll_failed :: "duration \<Rightarrow> site_error \<Rightarrow> loop_state \<Rightarrow> loop_state \<times> loop_result" where
  "poll_failed interval err st =
     (case IsUpgradeRequired err of
        Some u \<Rightarrow> (st\<lparr>lp_lastReason := ''upgrade''\<rparr>, Sleep (10 * minute))
      | None \<Rightarrow>
          (case IsMaintenanceError err of
             Some m \<Rightarrow> (st\<lparr>lp_lastReason := ''maintenance''\<rparr>, Sleep (maintenance_wait (ETASeconds m)))
           | None \<Rightarrow> (st, Sleep interval)))"

text \<open>The handling of a poll that succeeded.\<close>

definition poll_succeeded ::
  "duration \<Rightarrow> remote_config option \<Rightarrow> poll_result \<Rightarrow> loop_state \<Rightarrow> loop_state \<times> loop_result" where
  "poll_succeeded interval rc pr st0 =
     (let st = (if lp_lastReason st0 = ''maintenance'' then st0\<lparr>lp_lastReason := []\<rparr> else st0)
      in if pr_Command pr = ''stop'' then (st, Sleep interval)
         else if pr_Command pr = ''stop_after_current'' then
           (if activeTaskCount (lp_active st) = 0 then (st, Shutdown) else (st, Sleep interval))
         else case pr_Task pr of
           None \<Rightarrow> (if pr_Reason pr \<noteq> [] then st\<lparr>lp_lastReason := pr_Reason pr\<rparr> else st, Sleep interval)
         | Some task \<Rightarrow>
             (case claimTask (RequestID task) (lp_active st) of
                (False, act) \<Rightarrow> (st\<lparr>lp_lastReason := []\<rparr>, Sleep interval)
              | (True, act) \<Rightarrow> (st\<lparr>lp_lastReason := [], lp_active := act\<rparr>, Dispatch task rc)))"

definition loop_body :: "duration \<Rightarrow> loop_input \<Rightarrow> loop_state \<Rightarrow> loop_state \<times> loop_result" where
  "loop_body interval i st0 =
     (let threshold = cpu_threshold i st0;
          st = apply_directives i (apply_remote i st0)
      in if lp_maxDL st \<le> activeTaskCount (lp_active st) then (st, Sleep interval)
         else if cpu_busy i threshold then (st\<lparr>lp_lastReason := ''cpu_high''\<rparr>, Sleep interval)
         else if disk_low i st then (st\<lparr>lp_lastReason := ''disk_low''\<rparr>, Sleep interval)
         else if 0 < abortPauseRemaining (li_now i) (lp_aborts st) then
           (st\<lparr>lp_lastReason := ''abort_pause''\<rparr>, Sleep interval)
         else
           (let st1 = (if lp_lastReason st = ''abort_pause'' then st\<lparr>lp_lastReason := []\<rparr> else st)
            in case li_poll i of
                 Inl err \<Rightarrow> poll_failed interval err st1
               | Inr pr \<Rightarrow> poll_succeeded interval (case li_config i of Inr rc \<Rightarrow> Some rc | Inl err \<Rightarrow> None) pr st1))"

subsection \<open>When a task is dispatched\<close>

lemma fold_directives_keep:
  "lp_active (fold (\<lambda>d s. case f d (lp_layered s) (lp_cfg s) of
        (ack, l, cfg) \<Rightarrow> s\<lparr>lp_layered := l, lp_cfg := cfg\<rparr>) ds st) = lp_active st \<and>
   lp_maxDL (fold (\<lambda>d s. case f d (lp_layered s) (lp_cfg s) of
        (ack, l, cfg) \<Rightarrow> s\<lparr>lp_layered := l, lp_cfg := cfg\<rparr>) ds st) = lp_maxDL st \<and>
   lp_aborts (fold (\<lambda>d s. case f d (lp_layered s) (lp_cfg s) of
        (ack, l, cfg) \<Rightarrow> s\<lparr>lp_layered := l, lp_cfg := cfg\<rparr>) ds st) = lp_aborts st"
proof (induction ds arbitrary: st)
  case (Cons d ds)
  then show ?case by (simp split: prod.splits)
qed simp

lemma apply_directives_keep:
  "lp_active (apply_directives i st) = lp_active st" "lp_maxDL (apply_directives i st) = lp_maxDL st"
  "lp_aborts (apply_directives i st) = lp_aborts st"
  unfolding apply_directives_def Let_def
  by (auto simp: fold_directives_keep split: sum.splits)

lemma apply_remote_keep:
  "lp_active (apply_remote i st) = lp_active st" "lp_aborts (apply_remote i st) = lp_aborts st"
  "lp_maxDL (apply_remote i st) = (case li_config i of
     Inr rc \<Rightarrow> if 0 < MaxConcurrent rc then MaxConcurrent rc else lp_maxDL st | Inl err \<Rightarrow> lp_maxDL st)"
  unfolding apply_remote_def Let_def by (auto split: sum.splits option.splits)

lemma poll_failed_sleeps: "\<exists>d. snd (poll_failed interval err st) = Sleep d"
  and poll_failed_keep: "lp_active (fst (poll_failed interval err st)) = lp_active st"
  by (auto simp: poll_failed_def split: option.splits)

lemma poll_succeeded_cases:
  "case poll_succeeded interval rc pr st of (st', res) \<Rightarrow>
     (case res of
        Dispatch task rc' \<Rightarrow> rc' = rc \<and> pr_Task pr = Some task \<and> pr_Command pr \<notin> {''stop'', ''stop_after_current''} \<and>
          RequestID task \<notin> set (lp_active st) \<and> lp_active st' = lp_active st @ [RequestID task]
      | Shutdown \<Rightarrow> pr_Command pr = ''stop_after_current'' \<and> lp_active st = [] \<and> lp_active st' = lp_active st
      | Sleep d \<Rightarrow> d = interval \<and> lp_active st' = lp_active st)"
  unfolding poll_succeeded_def Let_def claimTask_def activeTaskCount_def
  by (auto split: option.splits)

lemma loop_body_cases:
  assumes "loop_body interval i st = (st', res)"
  defines "st1 \<equiv> apply_directives i (apply_remote i st)"
  shows "case res of
      Dispatch task rc \<Rightarrow>
        activeTaskCount (lp_active st) < lp_maxDL st1 \<and> \<not> cpu_busy i (cpu_threshold i st) \<and> \<not> disk_low i st1 \<and>
        abortPauseRemaining (li_now i) (lp_aborts st) = 0 \<and> RequestID task \<notin> set (lp_active st) \<and>
        lp_active st' = lp_active st @ [RequestID task] \<and> lp_maxDL st' = lp_maxDL st1 \<and>
        (\<exists>pr. li_poll i = Inr pr \<and> pr_Task pr = Some task \<and> pr_Command pr \<notin> {''stop'', ''stop_after_current''})
    | Shutdown \<Rightarrow> lp_active st = [] \<and> lp_active st' = []
    | Sleep d \<Rightarrow> lp_active st' = lp_active st"
proof -
  have keep: "lp_active st1 = lp_active st" "lp_aborts st1 = lp_aborts st"
    by (simp_all add: st1_def apply_directives_keep apply_remote_keep)
  define st2 where "st2 = (if lp_lastReason st1 = ''abort_pause'' then st1\<lparr>lp_lastReason := []\<rparr> else st1)"
  have keep2: "lp_active st2 = lp_active st" "lp_maxDL st2 = lp_maxDL st1"
    by (simp_all add: st2_def keep)
  let ?rc = "case li_config i of Inr rc \<Rightarrow> Some rc | Inl err \<Rightarrow> None"
  let ?refused = "lp_maxDL st1 \<le> activeTaskCount (lp_active st1) \<or> cpu_busy i (cpu_threshold i st) \<or>
    disk_low i st1 \<or> 0 < abortPauseRemaining (li_now i) (lp_aborts st1)"
  show ?thesis
  proof (cases ?refused)
    case True
    then have "\<exists>d. res = Sleep d \<and> lp_active st' = lp_active st1"
      using assms(1) unfolding loop_body_def Let_def st1_def [symmetric] by (auto split: if_splits)
    with keep show ?thesis by auto
  next
    case False
    have z: "abortPauseRemaining (li_now i) (lp_aborts st) = 0"
      using False keep by (auto simp: abortPauseRemaining_def Let_def split: if_splits)
    have b: "loop_body interval i st = (case li_poll i of
        Inl err \<Rightarrow> poll_failed interval err st2 | Inr pr \<Rightarrow> poll_succeeded interval ?rc pr st2)"
      using False unfolding loop_body_def Let_def st1_def [symmetric] st2_def by simp
    show ?thesis
    proof (cases "li_poll i")
      case (Inl err)
      with b assms(1) have p: "poll_failed interval err st2 = (st', res)" by simp
      from poll_failed_sleeps [of interval err st2] obtain d where "res = Sleep d" unfolding p by auto
      with poll_failed_keep [of interval err st2] keep2 show ?thesis by (simp add: p)
    next
      case (Inr pr)
      with b assms(1) have p: "poll_succeeded interval ?rc pr st2 = (st', res)" by simp
      have "lp_maxDL st' = lp_maxDL st2"
        using p unfolding poll_succeeded_def Let_def
        by (auto split: if_splits option.splits prod.splits bool.splits)
      with p poll_succeeded_cases [where interval = interval and rc = ?rc and pr = pr and st = st2] keep2 keep False z Inr show ?thesis
        by (auto split: loop_result.splits)
    qed
  qed
qed

text \<open>What a poll that succeeded leads to, and the wait after one that failed.\<close>

lemma poll_succeeded_result:
  "snd (poll_succeeded interval rc pr st) =
     (if pr_Command pr = ''stop'' then Sleep interval
      else if pr_Command pr = ''stop_after_current'' then (if lp_active st = [] then Shutdown else Sleep interval)
      else case pr_Task pr of
        None \<Rightarrow> Sleep interval
      | Some task \<Rightarrow> if RequestID task \<in> set (lp_active st) then Sleep interval else Dispatch task rc)"
  unfolding poll_succeeded_def Let_def claimTask_def activeTaskCount_def by (simp split: option.split)

lemma poll_failed_wait:
  "snd (poll_failed interval err st) = Sleep
     (case IsUpgradeRequired err of
        Some u \<Rightarrow> 10 * minute
      | None \<Rightarrow> (case IsMaintenanceError err of Some m \<Rightarrow> maintenance_wait (ETASeconds m) | None \<Rightarrow> interval))"
  by (simp add: poll_failed_def split: option.split)

text \<open>The guards of an iteration, after the site's configuration and directives have been applied.\<close>

definition guards_pass :: "loop_input \<Rightarrow> loop_state \<Rightarrow> bool" where
  "guards_pass i st \<longleftrightarrow>
     activeTaskCount (lp_active st) <
       (case li_config i of Inr c \<Rightarrow> if 0 < MaxConcurrent c then MaxConcurrent c else lp_maxDL st
        | Inl err \<Rightarrow> lp_maxDL st) \<and>
     \<not> cpu_busy i (cpu_threshold i st) \<and> \<not> disk_low i (apply_directives i (apply_remote i st)) \<and>
     abortPauseRemaining (li_now i) (lp_aborts st) = 0"

lemma abort_pause_gate: "0 < abortPauseRemaining t g \<longleftrightarrow> abortPauseRemaining t g \<noteq> 0"
  by (auto simp: abortPauseRemaining_def Let_def)

lemma loop_body_closed:
  "\<not> guards_pass i st \<Longrightarrow> snd (loop_body interval i st) = Sleep interval"
  by (auto simp: loop_body_def Let_def guards_pass_def apply_directives_keep apply_remote_keep abort_pause_gate)

lemma loop_body_open:
  assumes "guards_pass i st"
  shows "\<exists>st1. lp_active st1 = lp_active st \<and>
    loop_body interval i st =
      (case li_poll i of
         Inl err \<Rightarrow> poll_failed interval err st1
       | Inr pr \<Rightarrow> poll_succeeded interval (case li_config i of Inr rc \<Rightarrow> Some rc | Inl err \<Rightarrow> None) pr st1)"
proof -
  let ?s = "apply_directives i (apply_remote i st)"
  let ?s1 = "if lp_lastReason ?s = ''abort_pause'' then ?s\<lparr>lp_lastReason := []\<rparr> else ?s"
  have "lp_active ?s1 = lp_active st" by (simp add: apply_directives_keep apply_remote_keep)
  then show ?thesis
    using assms
    by (intro exI [of _ ?s1]) (auto simp: loop_body_def Let_def guards_pass_def apply_directives_keep apply_remote_keep)
qed

lemma loop_body_active:
  "lp_active (fst (loop_body interval i st)) =
     (case snd (loop_body interval i st) of
        Dispatch task rc \<Rightarrow> lp_active st @ [RequestID task] | _ \<Rightarrow> lp_active st)"
proof -
  obtain st' res where l: "loop_body interval i st = (st', res)" by force
  from loop_body_cases [OF l] l show ?thesis by (cases res) simp_all
qed

text \<open>
  C19. What an iteration of the loop does. Its guards are: fewer tasks run than the limit in force (the
  site's, if it sent one), the processor is not over its threshold, the disk has at least one
  gigabyte left beside all reservations or could not be asked, and no self-pause is on. A task is
  dispatched exactly if the guards pass, the poll brought it without a stop command, and the same
  request is not already running; the agent shuts down exactly if the guards pass, no task runs and
  the poll said to stop after the current ones; else it sleeps, for the poll interval, or, when the
  poll was refused, for ten minutes if an upgrade is demanded and for the wait of a maintenance pause.
  Only a dispatch changes the set of running requests, to which it adds its own.
\<close>

theorem dispatch_guarded:
  "case loop_body interval i st of (st', res) \<Rightarrow>
     (\<forall>task rc. res = Dispatch task rc \<longleftrightarrow>
        guards_pass i st \<and> rc = (case li_config i of Inr c \<Rightarrow> Some c | Inl err \<Rightarrow> None) \<and>
        (\<exists>pr. li_poll i = Inr pr \<and> pr_Task pr = Some task \<and>
           pr_Command pr \<notin> {''stop'', ''stop_after_current''} \<and> RequestID task \<notin> set (lp_active st))) \<and>
     (res = Shutdown \<longleftrightarrow>
        guards_pass i st \<and> lp_active st = [] \<and>
        (\<exists>pr. li_poll i = Inr pr \<and> pr_Command pr = ''stop_after_current'')) \<and>
     (\<forall>d. res = Sleep d \<longrightarrow> d =
        (case (guards_pass i st, li_poll i) of
           (True, Inl err) \<Rightarrow>
             (case IsUpgradeRequired err of
                Some u \<Rightarrow> 10 * minute
              | None \<Rightarrow> (case IsMaintenanceError err of Some m \<Rightarrow> maintenance_wait (ETASeconds m) | None \<Rightarrow> interval))
         | _ \<Rightarrow> interval)) \<and>
     lp_active st' = (case res of Dispatch task rc \<Rightarrow> lp_active st @ [RequestID task] | _ \<Rightarrow> lp_active st)"
proof (cases "guards_pass i st")
  case False
  then show ?thesis
    using loop_body_active [of interval i st] loop_body_closed [OF False, of interval] by (auto simp: split_beta)
next
  case True
  then obtain st1 where s: "lp_active st1 = lp_active st" and
    l: "loop_body interval i st =
      (case li_poll i of
         Inl err \<Rightarrow> poll_failed interval err st1
       | Inr pr \<Rightarrow> poll_succeeded interval (case li_config i of Inr rc \<Rightarrow> Some rc | Inl err \<Rightarrow> None) pr st1)"
    using loop_body_open by blast
  note act = loop_body_active [of interval i st]
  show ?thesis
  proof (cases "li_poll i")
    case (Inl err)
    with l act True show ?thesis by (simp add: split_beta poll_failed_wait)
  next
    case (Inr pr)
    with l act True s show ?thesis by (auto simp: split_beta poll_succeeded_result split: option.splits)
  qed
qed

subsection \<open>The loop among its tasks\<close>

text \<open>
  The agent as a whole: an iteration, a task that ends (whose deferred call releases it), and
  whatever running tasks do to the ledger and the error counter. \<open>M\<close> bounds what the site asks for.
\<close>

inductive agent_step :: "int \<Rightarrow> duration \<Rightarrow> loop_state \<Rightarrow> loop_state \<Rightarrow> bool" for M interval where
  iterate: "loop_body interval i st = (st', res) \<Longrightarrow> (\<forall>rc. li_config i = Inr rc \<longrightarrow> MaxConcurrent rc \<le> M) \<Longrightarrow>
    agent_step M interval st st'"
| finish: "agent_step M interval st (st\<lparr>lp_active := releaseTask j (lp_active st)\<rparr>)"
| running: "agent_step M interval st (st\<lparr>lp_aborts := g, lp_ledger := led\<rparr>)"

inductive_cases agent_stepE: "agent_step M interval st st'"

definition loop_inv :: "int \<Rightarrow> loop_state \<Rightarrow> bool" where
  "loop_inv M st \<longleftrightarrow> distinct (lp_active st) \<and> activeTaskCount (lp_active st) \<le> M \<and> lp_maxDL st \<le> M"

lemma loop_body_maxDL:
  "lp_maxDL (fst (loop_body interval i st)) = lp_maxDL (apply_remote i st)"
proof -
  obtain st' res where l: "loop_body interval i st = (st', res)" by force
  have f: "lp_maxDL (fst (poll_failed d err s)) = lp_maxDL s" for d err s
    by (auto simp: poll_failed_def split: option.splits)
  have p: "lp_maxDL (fst (poll_succeeded d rc pr s)) = lp_maxDL s" for d rc pr s
    unfolding poll_succeeded_def Let_def by (auto split: option.splits prod.splits bool.splits)
  show ?thesis
    unfolding loop_body_def Let_def
    by (auto simp: f p apply_directives_keep split: sum.splits)
qed

lemma agent_step_inv: "agent_step M interval st st' \<Longrightarrow> loop_inv M st \<Longrightarrow> loop_inv M st'"
proof (erule agent_stepE)
  fix i res
  assume inv: "loop_inv M st" and l: "loop_body interval i st = (st', res)"
    and m: "\<forall>rc. li_config i = Inr rc \<longrightarrow> MaxConcurrent rc \<le> M"
  have mx: "lp_maxDL (apply_remote i st) \<le> M"
    using inv m by (auto simp: apply_remote_keep loop_inv_def split: sum.splits)
  have "lp_maxDL st' \<le> M" using loop_body_maxDL [of interval i st] l mx by simp
  moreover have "distinct (lp_active st') \<and> activeTaskCount (lp_active st') \<le> M"
    using loop_body_cases [OF l] inv mx
    by (cases res) (auto simp: loop_inv_def activeTaskCount_def apply_directives_keep)
  ultimately show "loop_inv M st'" by (simp add: loop_inv_def)
next
  fix j
  assume inv: "loop_inv M st" and "st' = st\<lparr>lp_active := releaseTask j (lp_active st)\<rparr>"
  moreover from inv have "int (length (filter (\<lambda>k. k \<noteq> j) (lp_active st))) \<le> M"
    unfolding loop_inv_def activeTaskCount_def
    by (blast intro: order_trans [OF of_nat_mono [OF length_filter_le]])
  ultimately show "loop_inv M st'" unfolding loop_inv_def activeTaskCount_def releaseTask_def by auto
qed (simp add: loop_inv_def)

interpretation agent_loop: step_invariant "agent_step M interval" "loop_inv M" for M interval
  by unfold_locales (auto intro: agent_step_inv)

text \<open>
  C18. No request runs twice at the same time, and the limit is kept. From a start without tasks,
  whatever the site answers and however tasks end in between, the running requests are distinct and
  at most as many as the highest limit that was ever in force. The limit that an iteration goes by is
  the one the site has just sent, or else the one before; it adds at most one task, and only if no
  more than this limit then run. After the site has lowered the limit, no task is added until
  enough have ended.
\<close>

theorem no_double_dispatch:
  assumes "(agent_step M interval)\<^sup>*\<^sup>* st0 st" "lp_active st0 = []" "lp_maxDL st0 \<le> M" "0 \<le> M"
  shows "distinct (lp_active st) \<and> int (length (lp_active st)) \<le> M \<and>
    (\<forall>i st' res. loop_body interval i st = (st', res) \<longrightarrow>
       lp_maxDL st' = (case li_config i of Inr rc \<Rightarrow> if 0 < MaxConcurrent rc then MaxConcurrent rc else lp_maxDL st
         | Inl err \<Rightarrow> lp_maxDL st) \<and>
       (lp_active st' = lp_active st \<or>
        (\<exists>r. lp_active st' = lp_active st @ [r] \<and> r \<notin> set (lp_active st) \<and>
           int (length (lp_active st')) \<le> lp_maxDL st')))"
proof -
  have "loop_inv M st0" using assms(2-4) by (simp add: loop_inv_def activeTaskCount_def)
  with assms(1) have "loop_inv M st" by (rule agent_loop.inv_reach)
  moreover have "lp_maxDL st' = (case li_config i of Inr rc \<Rightarrow> if 0 < MaxConcurrent rc then MaxConcurrent rc else lp_maxDL st
         | Inl err \<Rightarrow> lp_maxDL st) \<and>
       (lp_active st' = lp_active st \<or>
        (\<exists>r. lp_active st' = lp_active st @ [r] \<and> r \<notin> set (lp_active st) \<and>
           int (length (lp_active st')) \<le> lp_maxDL st'))"
    if l: "loop_body interval i st = (st', res)" for i st' res
    using loop_body_cases [OF l] loop_body_maxDL [of interval i st] l
    by (cases res) (auto simp: apply_remote_keep apply_directives_keep activeTaskCount_def)
  ultimately show ?thesis unfolding loop_inv_def activeTaskCount_def by blast
qed

definition idle_loop :: loop_state where
  "idle_loop = \<lparr>lp_cfg = newConfigFromLayered (\<lambda>k. None) demo_layered, lp_layered = demo_layered, lp_maxDL = 1,
     lp_cap = 0, lp_lastReason = [], lp_active = [], lp_aborts = no_aborts, lp_ledger = no_reservations\<rparr>"

definition demo_input :: loop_input where
  "demo_input = \<lparr>li_now = 0, li_env = (\<lambda>k. None), li_config = Inl (SiteError []), li_report_failed = False,
     li_directives = Inr [], li_write_ok = True, li_error_text = [], li_cpu = None, li_fs_free = None,
     li_disk_used = 0, li_poll = Inr \<lparr>pr_Task = Some demo_task, pr_Reason = [], pr_Command = []\<rparr>\<rparr>"

lemma demo_dispatch: "fst (loop_body second demo_input idle_loop) = idle_loop\<lparr>lp_active := [7]\<rparr>"
proof -
  have c: "cpu_threshold demo_input idle_loop = c \<Longrightarrow> \<not> cpu_busy demo_input c" for c
    by (simp add: cpu_busy_def demo_input_def)
  show ?thesis
    by (simp add: loop_body_def Let_def c apply_directives_def apply_remote_def disk_low_def
        FreeDiskAfterReservations_def poll_succeeded_def claimTask_def abortPauseRemaining_def
        demo_input_def idle_loop_def no_aborts_def time_sub_def zero_time_def min_duration_def
        max_duration_def activeTaskCount_def demo_task_def cpu_busy_def)
qed

text \<open>The same request again is not dispatched while it runs.\<close>

theorem no_double_dispatch_witness:
  "(agent_step 1 second)\<^sup>*\<^sup>* idle_loop (idle_loop\<lparr>lp_active := [7]\<rparr>) \<and>
   distinct (lp_active (idle_loop\<lparr>lp_active := [7]\<rparr>)) \<and> int (length (lp_active (idle_loop\<lparr>lp_active := [7]\<rparr>))) \<le> 1 \<and>
   lp_active (fst (loop_body second demo_input (idle_loop\<lparr>lp_active := [7]\<rparr>))) = [7]"
proof -
  let ?busy = "idle_loop\<lparr>lp_active := [7]\<rparr>"
  have "agent_step 1 second idle_loop (fst (loop_body second demo_input idle_loop))"
    by (rule agent_step.iterate [of _ demo_input _ _ "snd (loop_body second demo_input idle_loop)"])
      (simp_all add: demo_input_def)
  then have s: "(agent_step 1 second)\<^sup>*\<^sup>* idle_loop ?busy"
    unfolding demo_dispatch by blast
  obtain st' res where l: "loop_body second demo_input ?busy = (st', res)" by force
  have "lp_maxDL ?busy = 1" "li_config demo_input = Inl (SiteError [])" "lp_active ?busy = [7]"
    by (simp_all add: idle_loop_def demo_input_def)
  with no_double_dispatch [OF s] l s show ?thesis by (fastforce simp: idle_loop_def)
qed

text \<open>An idle agent whose guards pass dispatches the task of the poll.\<close>

theorem dispatch_guarded_witness:
  "snd (loop_body second demo_input idle_loop) = Dispatch demo_task None"
proof -
  have "guards_pass demo_input idle_loop"
    by (simp add: guards_pass_def cpu_busy_def disk_low_def FreeDiskAfterReservations_def abortPauseRemaining_def
        demo_input_def idle_loop_def no_aborts_def time_sub_def zero_time_def min_duration_def
        max_duration_def activeTaskCount_def)
  with dispatch_guarded [where interval = second and i = demo_input and st = idle_loop] show ?thesis
    by (simp add: split_beta demo_input_def idle_loop_def)
qed

end
