(* ===== verification/Offline_Watcher.thy ===== *)
theory Offline_Watcher
  imports Job_Store
begin

text \<open>
  The watch-folder scanner: \<open>src/services/offline_watcher.go\<close>. One tick lists every active folder and
  queues a job for each visible, settled entry that has none. What \<open>os.ReadDir\<close> and \<open>Info\<close> answer is an
  argument, with the time at which each entry is looked at.
\<close>

definition watcherQuietPeriod :: duration where
  "watcherQuietPeriod = 30 * second"

record dir_entry =
  de_name :: go_string
  de_dir :: bool
  de_mtime :: "time option"
  de_seen :: time

definition hidden_name :: "go_string \<Rightarrow> bool" where
  "hidden_name name \<longleftrightarrow> has_prefix name ''.'' \<or> has_suffix name ''.part'' \<or> has_suffix name ''.tmp''"

definition titleFromEntry :: "go_string \<Rightarrow> bool \<Rightarrow> go_string" where
  "titleFromEntry name isDir = (if isDir then name else trim_suffix name (path_ext name))"

definition settled :: "dir_entry \<Rightarrow> bool" where
  "settled e \<longleftrightarrow> (case de_mtime e of None \<Rightarrow> False | Some t \<Rightarrow> watcherQuietPeriod \<le> time_sub (de_seen e) t)"

definition watch_job :: "watch_folder \<Rightarrow> go_string \<Rightarrow> dir_entry \<Rightarrow> offline_job" where
  "watch_job w gname e =
     \<lparr>j_ID = 0, j_SourcePath = path_join [w_Path w, de_name e], j_Title = titleFromEntry (de_name e) (de_dir e),
      j_GroupID = w_GroupID w, j_GroupName = gname, j_Status = Queued, j_Phase = [], j_Progress = 0, j_Error = None,
      j_NzbPath = None, j_Password = None, j_CreatedAt = zero_time, j_StartedAt = None, j_CompletedAt = None\<rparr>"

text \<open>The body of the loop over the entries; a failing insert is only logged.\<close>

definition scan_entry :: "watch_folder \<Rightarrow> go_string \<Rightarrow> dir_entry \<Rightarrow> db \<Rightarrow> db" where
  "scan_entry w gname e d =
     (if hidden_name (de_name e) then d
      else if \<not> settled e then d
      else if SourcePathExists (path_join [w_Path w, de_name e]) d then d
      else case CreateOfflineJob (de_seen e) None (watch_job w gname e) d of
             Inl err \<Rightarrow> d
           | Inr (d', j) \<Rightarrow> d')"

definition scanOneWatch :: "(go_string \<Rightarrow> go_string + dir_entry list) \<Rightarrow> watch_folder \<times> go_string \<Rightarrow> db \<Rightarrow> db" where
  "scanOneWatch readDir wn d =
     (case readDir (w_Path (fst wn)) of
        Inl err \<Rightarrow> d
      | Inr es \<Rightarrow> fold (scan_entry (fst wn) (snd wn)) es d)"

definition scanAllWatches :: "(go_string \<Rightarrow> go_string + dir_entry list) \<Rightarrow> db \<Rightarrow> db" where
  "scanAllWatches readDir d = fold (scanOneWatch readDir) (ListActiveWatches d) d"

text \<open>
  \<open>StartOfflineWatcher\<close>: nothing without a database; otherwise one scan at once and one per tick until
  the context ends. The list holds what the directories look like at each scan before that.
\<close>

fun StartOfflineWatcher :: "db option \<Rightarrow> (go_string \<Rightarrow> go_string + dir_entry list) list \<Rightarrow> db option" where
  "StartOfflineWatcher None scans = None"
| "StartOfflineWatcher (Some d) scans = Some (fold scanAllWatches scans d)"

subsection \<open>One entry\<close>

definition eligible :: "dir_entry \<Rightarrow> bool" where
  "eligible e \<longleftrightarrow> \<not> hidden_name (de_name e) \<and> settled e"

text \<open>What a scan may do to the database: append queued jobs, and nothing else.\<close>

definition appends :: "(offline_job \<Rightarrow> bool) \<Rightarrow> db \<Rightarrow> db \<Rightarrow> bool" where
  "appends P d d' \<longleftrightarrow>
     groups d' = groups d \<and> watches d' = watches d \<and>
     (\<exists>new. rows (jobs_tbl d') = rows (jobs_tbl d) @ new \<and> (\<forall>j\<in>set new. j_Status j = Queued \<and> P j))"

lemma appends_refl: "appends P d d"
  by (simp add: appends_def)

lemma appends_trans: "appends P d d1 \<Longrightarrow> appends P d1 d2 \<Longrightarrow> appends P d d2"
  unfolding appends_def by fastforce

lemma appends_mono: "appends P d d' \<Longrightarrow> (\<And>j. P j \<Longrightarrow> Q j) \<Longrightarrow> appends Q d d'"
  unfolding appends_def by blast

lemma SourcePathExists_iff: "SourcePathExists p d \<longleftrightarrow> (\<exists>j\<in>set (rows (jobs_tbl d)). j_SourcePath j = p)"
  by (auto simp: SourcePathExists_def filter_empty_conv)

lemma appends_keeps_paths: "appends P d d' \<Longrightarrow> SourcePathExists p d \<Longrightarrow> SourcePathExists p d'"
  by (auto simp: appends_def SourcePathExists_iff)

lemma create_appends:
  assumes "CreateOfflineJob now None j0 d = Inr (d', j)"
  shows "appends (\<lambda>x. j_SourcePath x = j_SourcePath j0 \<and> j_Title x = j_Title j0 \<and> j_GroupID x = j_GroupID j0) d d'"
    and "SourcePathExists (j_SourcePath j0) d'"
proof -
  let ?r = "inserted_row (new_job now None j0)"
  from assms obtain t i where ins: "tbl_insert j_SourcePath (\<lambda>i. j_with_id i ?r) (jobs_tbl d) = Some (t, i)"
    and d': "d' = d\<lparr>jobs_tbl := t\<rparr>"
    by (auto simp: CreateOfflineJob_def Let_def split: option.splits if_splits)
  then have rows: "rows (jobs_tbl d') = rows (jobs_tbl d) @ [j_with_id i ?r]"
    by (auto simp: tbl_insert_Some_iff)
  have r: "j_Status ?r = Queued" "j_SourcePath ?r = j_SourcePath j0" "j_Title ?r = j_Title j0" "j_GroupID ?r = j_GroupID j0"
    by (simp_all add: inserted_row_def new_job_def)
  show "appends (\<lambda>x. j_SourcePath x = j_SourcePath j0 \<and> j_Title x = j_Title j0 \<and> j_GroupID x = j_GroupID j0) d d'"
    unfolding appends_def rows using r by (auto simp: d' j_with_id_def)
  show "SourcePathExists (j_SourcePath j0) d'" using rows r by (auto simp: SourcePathExists_iff j_with_id_def)
qed

lemma create_succeeds:
  assumes "fk_ok d (j_GroupID j0)" "\<not> SourcePathExists (j_SourcePath j0) d"
  shows "\<exists>d' j. CreateOfflineJob now None j0 d = Inr (d', j)"
proof -
  let ?r = "inserted_row (new_job now None j0)"
  have r: "j_GroupID (new_job now None j0) = j_GroupID j0" "j_SourcePath ?r = j_SourcePath j0"
    by (simp_all add: inserted_row_def new_job_def)
  have "tbl_insert j_SourcePath (\<lambda>i. j_with_id i ?r) (jobs_tbl d) \<noteq> None"
    using assms(2) r by (simp add: jt.insert_fails_iff SourcePathExists_iff)
  then obtain t i where "tbl_insert j_SourcePath (\<lambda>i. j_with_id i ?r) (jobs_tbl d) = Some (t, i)" by auto
  with assms(1) r show ?thesis by (simp add: CreateOfflineJob_def Let_def)
qed

text \<open>The job a scan makes of an entry.\<close>

definition job_of :: "watch_folder \<Rightarrow> dir_entry \<Rightarrow> offline_job \<Rightarrow> bool" where
  "job_of w e j \<longleftrightarrow> eligible e \<and> j_SourcePath j = path_join [w_Path w, de_name e] \<and>
     j_Title j = titleFromEntry (de_name e) (de_dir e) \<and> j_GroupID j = w_GroupID w"

lemma scan_entry_appends: "appends (job_of w e) d (scan_entry w g e d)"
proof -
  have "appends (job_of w e) d d'" if "eligible e" "CreateOfflineJob (de_seen e) None (watch_job w g e) d = Inr (d', j)" for d' j
    using appends_mono [OF create_appends(1) [OF that(2)]] that(1) by (simp add: job_of_def watch_job_def)
  then show ?thesis
    by (auto simp: scan_entry_def eligible_def appends_refl split: sum.splits)
qed

lemma scan_entry_wf: "db_wf d \<Longrightarrow> db_wf (scan_entry w g e d)"
  by (auto simp: scan_entry_def split: sum.splits intro: CreateOfflineJob_wf)

lemma scan_entry_claims:
  assumes "eligible e" "fk_ok d (w_GroupID w)"
  shows "SourcePathExists (path_join [w_Path w, de_name e]) (scan_entry w g e d)"
proof (cases "SourcePathExists (path_join [w_Path w, de_name e]) d")
  case False
  have src: "j_SourcePath (watch_job w g e) = path_join [w_Path w, de_name e]" "j_GroupID (watch_job w g e) = w_GroupID w"
    by (simp_all add: watch_job_def)
  obtain d' j where c: "CreateOfflineJob (de_seen e) None (watch_job w g e) d = Inr (d', j)"
    using create_succeeds [of d "watch_job w g e"] assms(2) False src by metis
  with False assms(1) create_appends(2) [OF c] src show ?thesis by (simp add: scan_entry_def eligible_def)
qed (use assms in \<open>simp add: scan_entry_def eligible_def\<close>)

subsection \<open>A whole scan\<close>

lemma appends_fk: "appends P d d' \<Longrightarrow> fk_ok d' = fk_ok d"
  by (rule fk_ok_groups) (simp add: appends_def group_ids_def)

lemma fold_appends:
  assumes "\<And>x d. appends (P x) d (f x d)"
  shows "appends (\<lambda>j. \<exists>x\<in>set xs. P x j) d (fold f xs d)"
proof (induction xs arbitrary: d)
  case (Cons x xs)
  have "appends (\<lambda>j. \<exists>y\<in>set (x # xs). P y j) d (f x d)" using assms by (rule appends_mono) auto
  moreover have "appends (\<lambda>j. \<exists>y\<in>set (x # xs). P y j) (f x d) (fold f xs (f x d))"
    using Cons.IH by (rule appends_mono) auto
  ultimately show ?case by (simp add: appends_trans)
qed (simp add: appends_refl)

text \<open>A step that appends, once it holds a path, keeps it to the end of the loop.\<close>

lemma fold_claims:
  assumes "\<And>x d. appends (P x) d (f x d)" "x \<in> set xs"
    and "\<And>d'. appends (\<lambda>_. True) d d' \<Longrightarrow> SourcePathExists p (f x d')"
  shows "SourcePathExists p (fold f xs d)"
proof -
  from assms(2) obtain ys zs where xs: "xs = ys @ x # zs" by (metis split_list)
  have "appends (\<lambda>_. True) d (fold f ys d)" using fold_appends [of P f ys d, OF assms(1)] by (rule appends_mono) simp
  then have "SourcePathExists p (f x (fold f ys d))" by (rule assms(3))
  then have "SourcePathExists p (fold f zs (f x (fold f ys d)))"
    using appends_keeps_paths [OF fold_appends [of P f, OF assms(1)]] by blast
  then show ?thesis by (simp add: xs)
qed

definition watch_entries :: "(go_string \<Rightarrow> go_string + dir_entry list) \<Rightarrow> watch_folder \<Rightarrow> dir_entry list" where
  "watch_entries readDir w = (case readDir (w_Path w) of Inl err \<Rightarrow> [] | Inr es \<Rightarrow> es)"

lemma scanOneWatch_fold:
  "scanOneWatch readDir wn d = fold (scan_entry (fst wn) (snd wn)) (watch_entries readDir (fst wn)) d"
  by (simp add: scanOneWatch_def watch_entries_def split: sum.splits)

abbreviation scan_job :: "(go_string \<Rightarrow> go_string + dir_entry list) \<Rightarrow> watch_folder \<times> go_string \<Rightarrow> offline_job \<Rightarrow> bool" where
  "scan_job readDir wn j \<equiv> \<exists>e\<in>set (watch_entries readDir (fst wn)). job_of (fst wn) e j"

lemma scanOneWatch_appends: "appends (scan_job readDir wn) d (scanOneWatch readDir wn d)"
  unfolding scanOneWatch_fold by (rule fold_appends) (rule scan_entry_appends)

lemma fold_wf: "(\<And>x d. db_wf d \<Longrightarrow> db_wf (f x d)) \<Longrightarrow> db_wf d \<Longrightarrow> db_wf (fold f xs d)"
  by (induction xs arbitrary: d) auto

lemma scanAllWatches_wf [inv_intros]: "db_wf d \<Longrightarrow> db_wf (scanAllWatches readDir d)"
  unfolding scanAllWatches_def scanOneWatch_fold by (intro fold_wf scan_entry_wf)

lemma active_fk: "db_wf d \<Longrightarrow> (w, n) \<in> set (ListActiveWatches d) \<Longrightarrow> fk_ok d (w_GroupID w)"
  by (auto simp: ListActiveWatches_def in_map_filter db_wf_def)

lemma scan_claims_eligible:
  assumes "db_wf d" and w: "(w, n) \<in> set (ListActiveWatches d)" and e: "e \<in> set (watch_entries readDir w)" "eligible e"
  shows "SourcePathExists (path_join [w_Path w, de_name e]) (scanAllWatches readDir d)"
  unfolding scanAllWatches_def
proof (rule fold_claims [OF scanOneWatch_appends w])
  fix d1 assume "appends (\<lambda>_. True) d d1"
  then have fk: "fk_ok d1 (w_GroupID w)" using active_fk [OF assms(1) w] appends_fk by metis
  show "SourcePathExists (path_join [w_Path w, de_name e]) (scanOneWatch readDir (w, n) d1)"
    unfolding scanOneWatch_fold fst_conv snd_conv
  proof (rule fold_claims [OF scan_entry_appends e(1)])
    fix d2 assume "appends (\<lambda>_. True) d1 d2"
    then have "fk_ok d2 (w_GroupID w)" using fk appends_fk by metis
    then show "SourcePathExists (path_join [w_Path w, de_name e]) (scan_entry w n e d2)"
      by (rule scan_entry_claims [OF e(2)])
  qed
qed

lemma scan_new_rows:
  "\<exists>new. rows (jobs_tbl (scanAllWatches readDir d)) = rows (jobs_tbl d) @ new \<and>
      (\<forall>j\<in>set new. j_Status j = Queued \<and>
         (\<exists>(w, n)\<in>set (ListActiveWatches d). \<exists>e\<in>set (watch_entries readDir w). job_of w e j))"
proof -
  have "appends (\<lambda>j. \<exists>wn\<in>set (ListActiveWatches d). scan_job readDir wn j) d (scanAllWatches readDir d)"
    unfolding scanAllWatches_def by (rule fold_appends) (rule scanOneWatch_appends)
  then show ?thesis by (fastforce simp: appends_def)
qed

lemma scan_keeps_tables:
  "groups (scanAllWatches readDir d) = groups d \<and> watches (scanAllWatches readDir d) = watches d"
  unfolding scanAllWatches_def using fold_appends [of "scan_job readDir" "scanOneWatch readDir", OF scanOneWatch_appends]
  by (simp add: appends_def)

text \<open>
  C23. A scan queues exactly what it should and changes nothing else. In a well-formed database: the
  groups and the watch folders stay as they are; the earlier job rows are kept as they
  are and the new ones, all queued, come after them; each new job is for a visible entry of an
  active folder that has been quiet for half a minute, with that folder's group; and every such
  entry has a job afterwards. As source paths are unique, no entry is ever queued twice, however
  often it is seen.
\<close>

theorem scanAllWatches_exact:
  assumes "db_wf d"
  shows "db_wf (scanAllWatches readDir d) \<and>
    groups (scanAllWatches readDir d) = groups d \<and> watches (scanAllWatches readDir d) = watches d \<and>
    distinct (map j_SourcePath (rows (jobs_tbl (scanAllWatches readDir d)))) \<and>
    (\<exists>new. rows (jobs_tbl (scanAllWatches readDir d)) = rows (jobs_tbl d) @ new \<and>
      (\<forall>j\<in>set new. j_Status j = Queued \<and>
         (\<exists>(w, n)\<in>set (ListActiveWatches d). \<exists>e\<in>set (watch_entries readDir w). job_of w e j))) \<and>
    (\<forall>w n e. (w, n) \<in> set (ListActiveWatches d) \<longrightarrow> e \<in> set (watch_entries readDir w) \<longrightarrow> eligible e \<longrightarrow>
      SourcePathExists (path_join [w_Path w, de_name e]) (scanAllWatches readDir d))"
proof (intro conjI allI impI)
  show wf: "db_wf (scanAllWatches readDir d)" using assms by (rule scanAllWatches_wf)
  then show "distinct (map j_SourcePath (rows (jobs_tbl (scanAllWatches readDir d))))" by (simp add: db_wf_def tbl_wf_def)
qed (use assms scan_keeps_tables in \<open>blast intro: scan_new_rows scan_claims_eligible\<close>)+

definition dropped_file :: dir_entry where
  "dropped_file = \<lparr>de_name = ''b.mkv'', de_dir = False, de_mtime = Some 0, de_seen = 31 * second\<rparr>"

definition anime_listing :: "go_string \<Rightarrow> go_string + dir_entry list" where
  "anime_listing p = Inr [dropped_file]"

lemma dropped_eligible: "eligible dropped_file"
  by code_simp

theorem scanAllWatches_exact_witness:
  "SourcePathExists ''/data/anime/b.mkv'' (scanAllWatches anime_listing watch_db)"
proof -
  have "list_ex (\<lambda>(w, n). w_Path w = ''/data/anime'') (ListActiveWatches watch_db)" by code_simp
  then obtain w n where w: "(w, n) \<in> set (ListActiveWatches watch_db)" "w_Path w = ''/data/anime''"
    by (auto simp: list_ex_iff)
  have "dropped_file \<in> set (watch_entries anime_listing w)" by (simp add: watch_entries_def anime_listing_def)
  with scanAllWatches_exact [OF watch_db_wf, of anime_listing] w(1) dropped_eligible
  have "SourcePathExists (path_join [w_Path w, de_name dropped_file]) (scanAllWatches anime_listing watch_db)" by blast
  then have "SourcePathExists (path_join [''/data/anime'', de_name dropped_file]) (scanAllWatches anime_listing watch_db)"
    using w(2) by simp
  moreover have "path_join [''/data/anime'', de_name dropped_file] = ''/data/anime/b.mkv''" by code_simp
  ultimately show ?thesis by simp
qed

text \<open>A second scan of directories in which nothing new has settled changes nothing.\<close>

lemma rescan_entry: "SourcePathExists (path_join [w_Path w, de_name e]) d \<Longrightarrow> scan_entry w g e d = d"
  by (simp add: scan_entry_def)

lemma rescan_idle:
  assumes "\<And>w n e. (w, n) \<in> set (ListActiveWatches d) \<Longrightarrow> e \<in> set (watch_entries readDir w) \<Longrightarrow> eligible e \<Longrightarrow>
    SourcePathExists (path_join [w_Path w, de_name e]) d"
  shows "scanAllWatches readDir d = d"
proof -
  have idle: "fold f xs d = d" if "\<And>x. x \<in> set xs \<Longrightarrow> f x d = d" for f and xs :: "'x list"
    using that by (induction xs) auto
  have "scanOneWatch readDir wn d = d" if wn: "wn \<in> set (ListActiveWatches d)" for wn
    unfolding scanOneWatch_fold
  proof (rule idle)
    fix e assume e: "e \<in> set (watch_entries readDir (fst wn))"
    show "scan_entry (fst wn) (snd wn) e d = d"
    proof (cases "eligible e")
      case True
      have "(fst wn, snd wn) \<in> set (ListActiveWatches d)" using wn by simp
      from assms [OF this e True] show ?thesis by (rule rescan_entry)
    next
      case False
      then show ?thesis by (auto simp: scan_entry_def eligible_def)
    qed
  qed
  then show ?thesis unfolding scanAllWatches_def by (rule idle)
qed

end
