(* ===== verification/File_Staging.thy ===== *)
theory File_Staging
  imports Group_Store "HOL-Library.AList"
begin

text \<open>
  Files on their way to the uploader: \<open>src/services/blocklist.go\<close>, \<open>src/services/obfuscate.go\<close> and
  the random names of \<open>src/services/archive.go\<close>. A directory is the sequence of callbacks
  \<open>filepath.Walk\<close> makes over it; a staged directory is the association of its files' paths with
  their bytes. What the file system answers (links, copies, removals) is an argument.
\<close>

subsection \<open>Random names\<close>

definition hex_digit :: "nat \<Rightarrow> char" where
  "hex_digit d = (if d < 10 then char_of (48 + d) else char_of (87 + d))"

definition hex_byte :: "byte \<Rightarrow> go_string" where
  "hex_byte b = [hex_digit (unat b div 16), hex_digit (unat b mod 16)]"

text \<open>\<open>GenerateRandomPassword\<close>, of the bytes that the random source returned.\<close>

definition GenerateRandomPassword :: "byte list \<Rightarrow> go_string" where
  "GenerateRandomPassword bs = concat (map hex_byte bs)"

subsection \<open>The blocklist\<close>

definition DefaultBlockedExtensions :: "go_string list" where
  "DefaultBlockedExtensions = [
    ''.ade'', ''.adp'', ''.app'', ''.application'', ''.appref-ms'', ''.asp'', ''.aspx'', ''.asx'',
    ''.bas'', ''.bat'', ''.bgi'', ''.cab'', ''.cer'', ''.chm'', ''.cmd'', ''.cnt'', ''.com'',
    ''.cpl'', ''.crt'', ''.csh'', ''.der'', ''.diagcab'', ''.exe'', ''.fxp'', ''.gadget'',
    ''.grp'', ''.hlp'', ''.hpj'', ''.hta'', ''.htc'', ''.inf'', ''.ins'', ''.iso'', ''.isp'',
    ''.its'', ''.jar'', ''.jnlp'', ''.js'', ''.jse'', ''.ksh'', ''.lnk'', ''.mad'', ''.maf'',
    ''.mag'', ''.mam'', ''.maq'', ''.mar'', ''.mas'', ''.mat'', ''.mau'', ''.mav'', ''.maw'',
    ''.mcf'', ''.mda'', ''.mdb'', ''.mde'', ''.mdt'', ''.mdw'', ''.mdz'', ''.msc'', ''.msh'',
    ''.msh1'', ''.msh2'', ''.mshxml'', ''.msh1xml'', ''.msh2xml'', ''.msi'', ''.msp'', ''.mst'',
    ''.msu'', ''.ops'', ''.osd'', ''.pcd'', ''.pif'', ''.pl'', ''.plg'', ''.prf'', ''.prg'',
    ''.printerexport'', ''.ps1'', ''.ps1xml'', ''.ps2'', ''.ps2xml'', ''.psc1'', ''.psc2'',
    ''.psd1'', ''.psdm1'', ''.pst'', ''.py'', ''.pyc'', ''.pyo'', ''.pyw'', ''.pyz'', ''.pyzw'',
    ''.reg'', ''.scf'', ''.scr'', ''.sct'', ''.shb'', ''.shs'', ''.sln'', ''.theme'', ''.tmp'',
    ''.url'', ''.vb'', ''.vbe'', ''.vbp'', ''.vbs'', ''.vcxproj'', ''.vhd'', ''.vhdx'',
    ''.vsmacros'', ''.vsw'', ''.webpnp'', ''.website'', ''.ws'', ''.wsc'', ''.wsf'', ''.wsh'',
    ''.xbap'', ''.xll'', ''.xnk'']"

definition block_key :: "go_string \<Rightarrow> go_string option" where
  "block_key ext =
     (let e = to_lower (trim_space ext)
      in if e = [] then None else if has_prefix e ''.'' then Some e else Some (''.'' @ e))"

definition EffectiveBlocklist :: "go_string list \<Rightarrow> go_string set" where
  "EffectiveBlocklist groupList =
     (if groupList = [] then set DefaultBlockedExtensions
      else set (List.map_filter block_key groupList))"

text \<open>
  One callback of \<open>filepath.Walk\<close>: the path below the root, the error the callback is given, and,
  for a file, its bytes.
\<close>

record file_entry =
  fe_rel :: go_string
  fe_err :: "go_string option"
  fe_dir :: bool
  fe_data :: "byte list"

definition file_ext :: "file_entry \<Rightarrow> go_string" where
  "file_ext e = path_ext (path_base (fe_rel e))"

definition is_blocked :: "go_string set \<Rightarrow> file_entry \<Rightarrow> bool" where
  "is_blocked bl e \<longleftrightarrow> to_lower (file_ext e) \<in> bl"

text \<open>
  The callback of \<open>RemoveBlockedFiles\<close> returns the error it is given, which ends the walk; \<open>rm\<close> says
  whether \<open>os.Remove\<close> succeeds. The results are the entries left and the number reported.
\<close>

fun remove_walk :: "go_string set \<Rightarrow> (go_string \<Rightarrow> bool) \<Rightarrow> file_entry list \<Rightarrow> file_entry list \<times> nat" where
  "remove_walk bl rm [] = ([], 0)"
| "remove_walk bl rm (e # es) =
     (if fe_err e \<noteq> None then (e # es, 0)
      else case remove_walk bl rm es of (left, n) \<Rightarrow>
        (if fe_dir e \<or> \<not> is_blocked bl e then (e # left, n)
         else ((if rm (fe_rel e) then left else e # left), Suc n)))"

definition RemoveBlockedFiles ::
  "go_string set option \<Rightarrow> (go_string \<Rightarrow> bool) \<Rightarrow> file_entry list \<Rightarrow> file_entry list \<times> nat" where
  "RemoveBlockedFiles blocklist rm es =
     remove_walk (case blocklist of None \<Rightarrow> set DefaultBlockedExtensions | Some bl \<Rightarrow> bl) rm es"

subsection \<open>Copies and links\<close>

type_synonym staged = "(go_string \<times> byte list) list"

text \<open>
  What happens to one copy: the source cannot be opened, the target cannot be created, the copy
  stops after some bytes (with or without the space preallocated before), or it ends.
\<close>

datatype copy_io = OpenErr go_string | CreateErr go_string | WriteErr nat bool go_string | CopyOk

record file_io =
  io_link :: bool
  io_copy :: copy_io

definition copyFile :: "copy_io \<Rightarrow> byte list \<Rightarrow> go_string \<Rightarrow> staged \<Rightarrow> go_string option \<times> staged" where
  "copyFile io dat dst st =
     (case io of
        OpenErr err \<Rightarrow> (Some err, st)
      | CreateErr err \<Rightarrow> (Some err, st)
      | WriteErr n prealloc err \<Rightarrow>
          (Some err,
           AList.update dst (take n dat @ (if prealloc then replicate (length dat - n) 0 else [])) st)
      | CopyOk \<Rightarrow> (None, AList.update dst dat st))"

text \<open>A hard link is refused when the target exists.\<close>

definition linkOrCopy :: "file_io \<Rightarrow> byte list \<Rightarrow> go_string \<Rightarrow> staged \<Rightarrow> go_string option \<times> staged" where
  "linkOrCopy io dat dst st =
     (if io_link io \<and> dst \<notin> fst ` set st then (None, AList.update dst dat st)
      else copyFile (io_copy io) dat dst st)"

text \<open>
  The walk of the two staging functions: it ends at the first error, skips directories and empty
  files, and looks at the context before each file. \<open>put k e\<close> stages the \<open>k\<close>-th file.
\<close>

fun stage_walk ::
  "(nat \<Rightarrow> file_entry \<Rightarrow> staged \<Rightarrow> go_string option \<times> staged) \<Rightarrow> (go_string \<Rightarrow> bool) \<Rightarrow> nat \<Rightarrow>
     file_entry list \<Rightarrow> staged \<Rightarrow> go_string option \<times> staged"
where
  "stage_walk put ctx k [] st = (None, st)"
| "stage_walk put ctx k (e # es) st =
     (if fe_err e \<noteq> None then (fe_err e, st)
      else if fe_dir e \<or> fe_data e = [] then stage_walk put ctx k es st
      else if ctx (fe_rel e) then (Some ''context canceled'', st)
      else case put k e st of
             (Some err, st1) \<Rightarrow> (Some err, st1)
           | (None, st1) \<Rightarrow> stage_walk put ctx (Suc k) es st1)"

text \<open>What \<open>os.Stat\<close> says of the source, and its content.\<close>

datatype source = NoSource go_string | OneFile go_string "byte list" | Tree "file_entry list"

definition obf_name :: "(nat \<Rightarrow> byte list) \<Rightarrow> nat \<Rightarrow> go_string \<Rightarrow> go_string" where
  "obf_name rnd k ext = GenerateRandomPassword (rnd k) @ ext"

definition ObfuscateFiles ::
  "(nat \<Rightarrow> byte list) \<Rightarrow> (go_string \<Rightarrow> file_io) \<Rightarrow> (go_string \<Rightarrow> bool) \<Rightarrow> source \<Rightarrow> staged \<Rightarrow>
     go_string option \<times> staged" where
  "ObfuscateFiles rnd io ctx src st =
     (case src of
        NoSource err \<Rightarrow> (Some err, st)
      | OneFile name dat \<Rightarrow> copyFile (io_copy (io name)) dat (obf_name rnd 0 (path_ext name)) st
      | Tree es \<Rightarrow>
          stage_walk (\<lambda>k e. copyFile (io_copy (io (fe_rel e))) (fe_data e) (obf_name rnd k (file_ext e)))
            ctx 0 es st)"

definition CopyFiles ::
  "(go_string \<Rightarrow> file_io) \<Rightarrow> (go_string \<Rightarrow> bool) \<Rightarrow> source \<Rightarrow> staged \<Rightarrow> go_string option \<times> staged" where
  "CopyFiles io ctx src st =
     (case src of
        NoSource err \<Rightarrow> (Some err, st)
      | OneFile name dat \<Rightarrow> linkOrCopy (io name) dat name st
      | Tree es \<Rightarrow> stage_walk (\<lambda>k e. linkOrCopy (io (fe_rel e)) (fe_data e) (fe_rel e)) ctx 0 es st)"

subsection \<open>Base names\<close>

definition unsafe_chars :: "char list" where
  "unsafe_chars = [slash, CHR 0x5C, CHR '':'', CHR ''*'', CHR ''?'', CHR 0x22, CHR ''<'', CHR ''>'', CHR ''|'']"

definition safe_char :: "char \<Rightarrow> char" where
  "safe_char c = (if c \<in> set unsafe_chars then CHR ''_'' else c)"

text \<open>\<open>rnd\<close> are the 12 random bytes used for an empty title.\<close>

definition SanitizeBaseName :: "byte list \<Rightarrow> go_string \<Rightarrow> go_string" where
  "SanitizeBaseName rnd title =
     (let name = map safe_char (trim_space title)
      in if name = [] then GenerateRandomPassword rnd else if 200 < length name then take 200 name else name)"

subsection \<open>Random names are plain and distinct\<close>

lemma hex_digit_code: "d < 16 \<Longrightarrow> (of_char (hex_digit d) :: nat) = (if d < 10 then 48 + d else 87 + d)"
  by (simp add: hex_digit_def)

lemma hex_digit_inj:
  assumes "d < 16" "e < 16" "hex_digit d = hex_digit e"
  shows "d = e"
proof -
  have "(of_char (hex_digit d) :: nat) = of_char (hex_digit e)" using assms(3) by simp
  with assms(1,2) show ?thesis by (simp add: hex_digit_code split: if_splits)
qed

lemma nibbles: "unat b div 16 < 16" "unat b mod 16 < 16" for b :: byte
proof -
  have "unat b < 256" by (rule less_le_trans [OF unsigned_less]) simp
  then show "unat b div 16 < 16" by (simp add: less_mult_imp_div_less)
qed simp

lemma hex_byte_inj: "hex_byte a = hex_byte b \<Longrightarrow> a = b"
proof -
  assume eq: "hex_byte a = hex_byte b"
  have "unat a div 16 = unat b div 16" "unat a mod 16 = unat b mod 16"
    using eq by (auto simp: hex_byte_def nibbles intro: hex_digit_inj)
  then have "unat a = unat b" by (metis div_mult_mod_eq)
  then show ?thesis by (simp add: word_unat_eq_iff)
qed

lemma GenerateRandomPassword_inj: "GenerateRandomPassword xs = GenerateRandomPassword ys \<Longrightarrow> xs = ys"
proof (induction xs arbitrary: ys)
  case Nil
  then show ?case by (cases ys) (auto simp: GenerateRandomPassword_def hex_byte_def)
next
  case (Cons x xs)
  then obtain y ys' where ys: "ys = y # ys'"
    by (cases ys) (auto simp: GenerateRandomPassword_def hex_byte_def)
  with Cons.prems have "hex_byte x = hex_byte y" "GenerateRandomPassword xs = GenerateRandomPassword ys'"
    by (simp_all add: GenerateRandomPassword_def hex_byte_def)
  with Cons.IH ys show ?case by (blast intro: hex_byte_inj)
qed

lemma length_GenerateRandomPassword: "length (GenerateRandomPassword bs) = 2 * length bs"
  by (induction bs) (simp_all add: GenerateRandomPassword_def hex_byte_def)

lemma hex_chars:
  assumes "c \<in> set (GenerateRandomPassword bs)"
  shows "c \<noteq> slash \<and> c \<noteq> CHR ''.'' \<and> \<not> is_space c \<and> c \<notin> set unsafe_chars"
proof -
  from assms obtain b where "c \<in> set (hex_byte b)" by (auto simp: GenerateRandomPassword_def)
  then have "c = hex_digit (unat b div 16) \<or> c = hex_digit (unat b mod 16)" by (auto simp: hex_byte_def)
  then obtain d where d: "d < 16" "c = hex_digit d" using nibbles [of b] by blast
  then have code: "(of_char c :: nat) = (if d < 10 then 48 + d else 87 + d)" by (simp add: hex_digit_code)
  have "(of_char c :: nat) \<notin> {9, 10, 11, 12, 13, 32, 34, 42, 46, 47, 58, 60, 62, 63, 92, 124}"
    using d(1) by (auto simp: code)
  then show ?thesis by (auto simp: slash_def is_space_def unsafe_chars_def)
qed

subsection \<open>The blocklist is what the group says\<close>

lemma block_key_norm_ban: "block_key = norm_ban"
  by (rule ext) (simp add: block_key_def norm_ban_def trim_space_to_lower)

text \<open>
  The extensions the pipeline blocks are those the store accepted: of a non-empty list it makes
  the same normal form as the validation of the group, on a validated list it is exactly that list,
  and an empty list means the built-in one.
\<close>

theorem EffectiveBlocklist_agrees:
  "EffectiveBlocklist exts = (if exts = [] then set DefaultBlockedExtensions else set (clean_bans exts)) \<and>
   EffectiveBlocklist (clean_bans exts) =
     (if clean_bans exts = [] then set DefaultBlockedExtensions else set (clean_bans exts))"
proof -
  have "EffectiveBlocklist xs = (if xs = [] then set DefaultBlockedExtensions else set (clean_bans xs))" for xs
    by (simp add: EffectiveBlocklist_def clean_bans_def block_key_norm_ban)
  with clean_bans_id [OF clean_bans_norm] show ?thesis by metis
qed

text \<open>A list of blanks that skipped the validation would block nothing at all.\<close>

lemma blank_list_blocks_nothing: "EffectiveBlocklist ['' ''] = {}"
  by code_simp

abbreviation clean_walk :: "file_entry list \<Rightarrow> bool" where
  "clean_walk es \<equiv> \<forall>e\<in>set es. fe_err e = None"

lemma remove_walk_exact:
  "clean_walk es \<Longrightarrow> remove_walk bl rm es =
     (filter (\<lambda>e. fe_dir e \<or> \<not> is_blocked bl e \<or> \<not> rm (fe_rel e)) es,
      length (filter (\<lambda>e. \<not> fe_dir e \<and> is_blocked bl e) es))"
  by (induction es) auto

lemma remove_walk_error:
  "fe_err e \<noteq> None \<Longrightarrow> clean_walk es \<Longrightarrow>
     remove_walk bl rm (es @ e # es') =
       (fst (remove_walk bl rm es) @ e # es', snd (remove_walk bl rm es))"
  by (induction es) (auto split: prod.splits)

text \<open>
  Two departures from the comment of the function, which says that errors while walking do not abort
  the pass and that the number of files removed is returned: the pass ends at the first error of the
  walk, and a file that could not be deleted is counted.
\<close>

lemma walk_error_stops_pass:
  "clean_walk es \<Longrightarrow> fe_err e \<noteq> None \<Longrightarrow>
     RemoveBlockedFiles (Some bl) rm (es @ e # es') =
       (fst (RemoveBlockedFiles (Some bl) rm es) @ e # es', snd (RemoveBlockedFiles (Some bl) rm es))"
  by (simp add: RemoveBlockedFiles_def remove_walk_error)

lemma failed_removal_counted:
  "clean_walk es \<Longrightarrow>
     RemoveBlockedFiles (Some bl) (\<lambda>p. False) es = (es, length (filter (\<lambda>e. \<not> fe_dir e \<and> is_blocked bl e) es))"
  by (simp add: RemoveBlockedFiles_def remove_walk_exact)

lemma remove_walk_keeps:
  "subseq (fst (remove_walk bl rm es)) es \<and>
   filter (\<lambda>e. fe_dir e \<or> \<not> is_blocked bl e) (fst (remove_walk bl rm es)) = filter (\<lambda>e. fe_dir e \<or> \<not> is_blocked bl e) es"
  by (induction es) (auto split: prod.splits)

text \<open>
  C36. Enforcing the blocklist. Whatever errors the walk or the deletions meet, nothing but files whose
  extension, in any case, is on the list is deleted: every other entry is still there, in its place.
  If the directory can be walked and its files can be deleted, every such file is deleted, and the
  number returned is the number of them.
\<close>

theorem RemoveBlockedFiles_exact:
  "case RemoveBlockedFiles (Some bl) rm es of (left, n) \<Rightarrow>
     subseq left es \<and>
     filter (\<lambda>e. fe_dir e \<or> to_lower (file_ext e) \<notin> bl) left = filter (\<lambda>e. fe_dir e \<or> to_lower (file_ext e) \<notin> bl) es \<and>
     ((\<forall>e\<in>set es. fe_err e = None \<and> rm (fe_rel e)) \<longrightarrow>
        left = filter (\<lambda>e. fe_dir e \<or> to_lower (file_ext e) \<notin> bl) es \<and>
        n = length (filter (\<lambda>e. \<not> fe_dir e \<and> to_lower (file_ext e) \<in> bl) es))"
proof -
  have "remove_walk bl rm es =
      (filter (\<lambda>e. fe_dir e \<or> \<not> is_blocked bl e) es, length (filter (\<lambda>e. \<not> fe_dir e \<and> is_blocked bl e) es))"
    if ok: "\<forall>e\<in>set es. fe_err e = None \<and> rm (fe_rel e)"
  proof -
    have "remove_walk bl rm es = (filter (\<lambda>e. fe_dir e \<or> \<not> is_blocked bl e \<or> \<not> rm (fe_rel e)) es,
        length (filter (\<lambda>e. \<not> fe_dir e \<and> is_blocked bl e) es))"
      using ok by (intro remove_walk_exact) simp
    also have "filter (\<lambda>e. fe_dir e \<or> \<not> is_blocked bl e \<or> \<not> rm (fe_rel e)) es = filter (\<lambda>e. fe_dir e \<or> \<not> is_blocked bl e) es"
      using ok by (intro filter_cong) auto
    finally show ?thesis .
  qed
  with remove_walk_keeps [of bl rm es] show ?thesis
    unfolding RemoveBlockedFiles_def option.case by (auto simp: is_blocked_def split: prod.split)
qed

definition demo_exe :: file_entry where
  "demo_exe = \<lparr>fe_rel = ''a/Setup.EXE'', fe_err = None, fe_dir = False, fe_data = [1]\<rparr>"

definition demo_mkv :: file_entry where
  "demo_mkv = \<lparr>fe_rel = ''a/b.mkv'', fe_err = None, fe_dir = False, fe_data = [2, 3]\<rparr>"

definition demo_unreadable :: file_entry where
  "demo_unreadable = \<lparr>fe_rel = ''c'', fe_err = Some ''permission denied'', fe_dir = True, fe_data = []\<rparr>"

lemma demo_blocked:
  "to_lower (file_ext demo_exe) \<in> set DefaultBlockedExtensions"
  "to_lower (file_ext demo_mkv) \<notin> set DefaultBlockedExtensions"
  by code_simp+

theorem RemoveBlockedFiles_exact_witness:
  "RemoveBlockedFiles (Some (set DefaultBlockedExtensions)) (\<lambda>_. True) [demo_mkv, demo_exe, demo_mkv] = ([demo_mkv, demo_mkv], 1)"
proof -
  have c: "\<forall>e\<in>set [demo_mkv, demo_exe, demo_mkv]. fe_err e = None" by (simp add: demo_mkv_def demo_exe_def)
  have d: "\<not> fe_dir demo_mkv" "\<not> fe_dir demo_exe" by (simp_all add: demo_mkv_def demo_exe_def)
  from RemoveBlockedFiles_exact [where bl = "set DefaultBlockedExtensions" and rm = "\<lambda>_. True"
      and es = "[demo_mkv, demo_exe, demo_mkv]"]
  show ?thesis using c demo_blocked d by (simp add: split_beta prod_eq_iff)
qed

lemma unreadable_stops_pass:
  "RemoveBlockedFiles (Some (set DefaultBlockedExtensions)) (\<lambda>_. True) [demo_mkv, demo_exe, demo_unreadable, demo_exe] =
     ([demo_mkv, demo_unreadable, demo_exe], 1)"
proof -
  have c: "clean_walk [demo_mkv, demo_exe]" by (simp add: demo_mkv_def demo_exe_def)
  have u: "fe_err demo_unreadable \<noteq> None" by (simp add: demo_unreadable_def)
  have d: "\<not> fe_dir demo_mkv" "\<not> fe_dir demo_exe" by (simp_all add: demo_mkv_def demo_exe_def)
  from walk_error_stops_pass [OF c u, of "set DefaultBlockedExtensions" "\<lambda>_. True" "[demo_exe]"] c d demo_blocked
  show ?thesis by (simp add: RemoveBlockedFiles_def remove_walk_exact is_blocked_def)
qed

subsection \<open>Staging\<close>

definition content_files :: "file_entry list \<Rightarrow> file_entry list" where
  "content_files es = filter (\<lambda>e. \<not> fe_dir e \<and> fe_data e \<noteq> []) es"

lemma copyFile_ok: "copyFile io dat dst st = (None, st') \<longleftrightarrow> io = CopyOk \<and> st' = AList.update dst dat st"
  by (auto simp: copyFile_def split: copy_io.splits)

lemma linkOrCopy_ok:
  "linkOrCopy io dat dst st = (None, st') \<Longrightarrow> st' = AList.update dst dat st"
  by (auto simp: linkOrCopy_def copyFile_ok split: if_splits)

lemma linkOrCopy_succeeds:
  "io_copy io = CopyOk \<Longrightarrow> linkOrCopy io dat dst st = (None, AList.update dst dat st)"
  by (simp add: linkOrCopy_def copyFile_def)

text \<open>A staging walk that ends well has seen no error and no cancellation.\<close>

lemma stage_walk_ok_clean:
  "stage_walk put ctx k es st = (None, st') \<Longrightarrow>
     clean_walk es \<and> (\<forall>e\<in>set (content_files es). \<not> ctx (fe_rel e))"
proof (induction es arbitrary: k st)
  case (Cons e es)
  show ?case
  proof (cases "fe_dir e \<or> fe_data e = []")
    case True
    with Cons show ?thesis by (auto simp: content_files_def split: if_splits)
  next
    case False
    with Cons show ?thesis
      by (auto simp: content_files_def split: if_splits prod.splits option.splits)
  qed
qed (simp add: content_files_def)

lemma stage_walk_files:
  assumes "\<And>k e st r. put k e st = (None, r) \<Longrightarrow> r = AList.update (name k e) (fe_data e) st"
    and "stage_walk put ctx k es st = (None, st')"
    and "distinct (map fst st @ map2 name [k..<k + length (content_files es)] (content_files es))"
  shows "st' = st @ map2 (\<lambda>i e. (name i e, fe_data e)) [k..<k + length (content_files es)] (content_files es)"
  using assms(2,3)
proof (induction es arbitrary: k st)
  case Nil
  then show ?case by (simp add: content_files_def)
next
  case (Cons e es)
  show ?case
  proof (cases "fe_dir e \<or> fe_data e = []")
    case True
    then have "content_files (e # es) = content_files es" by (auto simp: content_files_def)
    with Cons True show ?thesis by (auto split: if_splits)
  next
    case False
    then have c: "content_files (e # es) = e # content_files es" by (simp add: content_files_def)
    from Cons.prems(1) False obtain st1 where p: "put k e st = (None, st1)"
      and rest: "stage_walk put ctx (Suc k) es st1 = (None, st')"
      by (auto split: if_splits prod.splits option.splits)
    let ?n = "length (content_files es)"
    have upt: "[k..<k + length (e # content_files es)] = k # [Suc k..<Suc k + ?n]"
      using upt_conv_Cons [of k "Suc k + ?n"] by simp
    have st1: "st1 = st @ [(name k e, fe_data e)]"
      using assms(1) [OF p] Cons.prems(2) unfolding upt c by (auto simp: update_fresh)
    have "distinct (map fst st1 @ map2 name [Suc k..<Suc k + ?n] (content_files es))"
      using Cons.prems(2) unfolding upt c st1 by auto
    from Cons.IH [OF rest this] show ?thesis unfolding upt c st1 by simp
  qed
qed

lemma map2_const: "length is = length xs \<Longrightarrow> map2 (\<lambda>_ e. f e) is xs = map f xs"
  by (induction "is" xs rule: list_induct2) auto

lemma stage_walk_succeeds:
  assumes "\<And>k e st. e \<in> set (content_files es) \<Longrightarrow> fst (put k e st) = None"
    and "clean_walk es" "\<And>e. e \<in> set (content_files es) \<Longrightarrow> \<not> ctx (fe_rel e)"
  shows "fst (stage_walk put ctx k es st) = None"
  using assms
proof (induction es arbitrary: k st)
  case (Cons e es)
  show ?case
  proof (cases "fe_dir e \<or> fe_data e = []")
    case True
    with Cons show ?thesis by (auto simp: content_files_def)
  next
    case False
    then have e: "e \<in> set (content_files (e # es))" by (simp add: content_files_def)
    have sub: "set (content_files es) \<subseteq> set (content_files (e # es))" by (auto simp: content_files_def)
    obtain st1 where "put k e st = (None, st1)"
      using Cons.prems(1) [OF e, of k st] by (cases "put k e st") auto
    moreover have "fst (stage_walk put ctx (Suc k) es st1) = None"
      using Cons.IH Cons.prems sub by (meson list.set_intros(2) subsetD)
    ultimately show ?thesis using False Cons.prems(2) Cons.prems(3) [OF e] by simp
  qed
qed simp


text \<open>
  C35. Staging by copy. If nothing goes wrong in the file system and the context is not cancelled, the
  copy of a directory succeeds. Whenever it succeeds, the stage holds exactly the non-empty
  files of the source, each under its own path and with its own bytes, in the order of the walk.
\<close>

theorem CopyFiles_exact:
  assumes "distinct (map fe_rel es)"
  shows "(clean_walk es \<and> (\<forall>e\<in>set es. io_copy (io (fe_rel e)) = CopyOk \<and> \<not> ctx (fe_rel e)) \<longrightarrow>
      fst (CopyFiles io ctx (Tree es) st) = None) \<and>
    (\<forall>st'. CopyFiles io ctx (Tree es) [] = (None, st') \<longrightarrow>
      st' = map (\<lambda>e. (fe_rel e, fe_data e)) (content_files es))"
proof (intro conjI allI impI; (elim conjE)?)
  assume c: "clean_walk es" and io: "\<forall>e\<in>set es. io_copy (io (fe_rel e)) = CopyOk \<and> \<not> ctx (fe_rel e)"
  have sub: "set (content_files es) \<subseteq> set es" by (auto simp: content_files_def)
  show "fst (CopyFiles io ctx (Tree es) st) = None"
    using io sub c by (simp add: CopyFiles_def) (rule stage_walk_succeeds; auto simp: linkOrCopy_succeeds)
next
  fix st' assume "CopyFiles io ctx (Tree es) [] = (None, st')"
  then have w: "stage_walk (\<lambda>k e. linkOrCopy (io (fe_rel e)) (fe_data e) (fe_rel e)) ctx 0 es [] = (None, st')"
    by (simp add: CopyFiles_def)
  have "distinct (map fe_rel (content_files es))"
    using assms by (simp add: content_files_def distinct_map_filter)
  with stage_walk_files [where name = "\<lambda>k. fe_rel", OF linkOrCopy_ok w]
  show "st' = map (\<lambda>e. (fe_rel e, fe_data e)) (content_files es)" by (simp add: map2_const)
qed

theorem CopyFiles_exact_witness:
  "CopyFiles (\<lambda>_. \<lparr>io_link = False, io_copy = CopyOk\<rparr>) (\<lambda>_. False) (Tree [demo_mkv, demo_exe]) [] =
     (None, [(''a/b.mkv'', [2, 3]), (''a/Setup.EXE'', [1])])"
proof -
  let ?io = "\<lambda>_. \<lparr>io_link = False, io_copy = CopyOk\<rparr>" and ?es = "[demo_mkv, demo_exe]"
  have d: "distinct (map fe_rel ?es)" by (simp add: demo_mkv_def demo_exe_def)
  note exact = CopyFiles_exact [OF d, of ?io "\<lambda>_. False" "[]"]
  have "clean_walk ?es" by (simp add: demo_mkv_def demo_exe_def)
  then have "fst (CopyFiles ?io (\<lambda>_. False) (Tree ?es) []) = None" using exact by simp
  then obtain st' where s: "CopyFiles ?io (\<lambda>_. False) (Tree ?es) [] = (None, st')"
    by (cases "CopyFiles ?io (\<lambda>_. False) (Tree ?es) []") auto
  with conjunct2 [OF exact, rule_format, OF s] show ?thesis
    by (simp add: content_files_def demo_mkv_def demo_exe_def)
qed

lemma obf_names_distinct:
  assumes "\<And>i j. i < n \<Longrightarrow> j < n \<Longrightarrow> rnd i = rnd j \<Longrightarrow> i = j" "\<And>i. i < n \<Longrightarrow> length (rnd i) = 12"
    and "length xs = n"
  shows "distinct (map2 (\<lambda>k e. obf_name rnd k (file_ext e)) [0..<n] xs)"
proof -
  have eq: "rnd i = rnd j" if "obf_name rnd i e = obf_name rnd j e'" "i < n" "j < n" for i j e e'
  proof -
    have "length (GenerateRandomPassword (rnd i)) = length (GenerateRandomPassword (rnd j))"
      using assms(2) that(2,3) by (simp add: length_GenerateRandomPassword)
    with that(1) show ?thesis by (simp add: obf_name_def GenerateRandomPassword_inj)
  qed
  let ?ys = "map2 (\<lambda>k e. obf_name rnd k (file_ext e)) [0..<n] xs"
  have nth: "?ys ! i = obf_name rnd i (file_ext (xs ! i))" if "i < n" for i
    using that assms(3) by simp
  have "?ys ! i \<noteq> ?ys ! j" if "i < n" "j < n" "i \<noteq> j" for i j
    using that assms(1) eq unfolding nth [OF that(1)] nth [OF that(2)] by blast
  then show ?thesis unfolding distinct_conv_nth using assms(3) by simp
qed

text \<open>
  Staging under random names. When the names drawn are different, a successful run keeps every
  non-empty file with its bytes, in the order of the walk, under a name made of 24 hexadecimal
  digits and the file's extension: no other part of its path is left.
\<close>

theorem ObfuscateFiles_exact:
  assumes "ObfuscateFiles rnd io ctx (Tree es) [] = (None, st)"
    and "\<And>i j. i < length (content_files es) \<Longrightarrow> j < length (content_files es) \<Longrightarrow> rnd i = rnd j \<Longrightarrow> i = j"
    and "\<And>i. i < length (content_files es) \<Longrightarrow> length (rnd i) = 12"
  shows "length st = length (content_files es)" "distinct (map fst st)"
    and "\<forall>i<length st. \<exists>h. st ! i = (h @ file_ext (content_files es ! i), fe_data (content_files es ! i)) \<and>
      length h = 24 \<and> h = GenerateRandomPassword (rnd i)"
proof -
  let ?n = "length (content_files es)"
  from assms(1) have w: "stage_walk (\<lambda>k e. copyFile (io_copy (io (fe_rel e))) (fe_data e) (obf_name rnd k (file_ext e)))
      ctx 0 es [] = (None, st)" by (simp add: ObfuscateFiles_def)
  have d: "distinct (map2 (\<lambda>k e. obf_name rnd k (file_ext e)) [0..<?n] (content_files es))"
    using assms(2,3) by (intro obf_names_distinct) auto
  have st: "st = map2 (\<lambda>i e. (obf_name rnd i (file_ext e), fe_data e)) [0..<?n] (content_files es)"
    using stage_walk_files [where name = "\<lambda>k e. obf_name rnd k (file_ext e)", OF _ w] d
    by (simp add: copyFile_ok)
  then show len: "length st = ?n" by simp
  have "map fst st = map2 (\<lambda>k e. obf_name rnd k (file_ext e)) [0..<?n] (content_files es)"
    unfolding st by (simp add: comp_def split_beta)
  with d show "distinct (map fst st)" by simp
  show "\<forall>i<length st. \<exists>h. st ! i = (h @ file_ext (content_files es ! i), fe_data (content_files es ! i)) \<and>
      length h = 24 \<and> h = GenerateRandomPassword (rnd i)"
    using assms(3) len by (simp add: st obf_name_def length_GenerateRandomPassword)
qed

theorem ObfuscateFiles_exact_witness:
  "\<exists>st. ObfuscateFiles (\<lambda>i. replicate 12 (of_nat i)) (\<lambda>_. \<lparr>io_link = True, io_copy = CopyOk\<rparr>) (\<lambda>_. False)
     (Tree [demo_mkv, demo_exe]) [] = (None, st) \<and> length st = 2 \<and> distinct (map fst st)"
proof -
  let ?rnd = "\<lambda>i. replicate 12 (of_nat i)" and ?io = "\<lambda>_. \<lparr>io_link = True, io_copy = CopyOk\<rparr>"
  have n: "content_files [demo_mkv, demo_exe] = [demo_mkv, demo_exe]"
    by (simp add: content_files_def demo_mkv_def demo_exe_def)
  obtain st where st: "ObfuscateFiles ?rnd ?io (\<lambda>_. False) (Tree [demo_mkv, demo_exe]) [] = (None, st)"
    by (simp add: ObfuscateFiles_def copyFile_def demo_mkv_def demo_exe_def)
  have "i = j" if "i < length [demo_mkv, demo_exe]" "j < length [demo_mkv, demo_exe]"
      "(replicate 12 (of_nat i) :: byte list) = replicate 12 (of_nat j)" for i j :: nat
    using that by (auto simp: less_Suc_eq)
  note ok = ObfuscateFiles_exact [OF st, unfolded n, OF this]
  have "length st = 2" "distinct (map fst st)" using ok(1,2) by simp_all
  with st show ?thesis by blast
qed

subsection \<open>Base names stay inside their directory\<close>

lemma safe_char_safe [simp]: "safe_char c \<notin> set unsafe_chars"
  by (simp add: safe_char_def) (simp add: unsafe_chars_def slash_def)

lemma slash_unsafe: "slash \<in> set unsafe_chars"
  by (simp add: unsafe_chars_def)

lemma safe_char_eq: "safe_char c = CHR ''.'' \<longleftrightarrow> c = CHR ''.''"
  by (auto simp: safe_char_def unsafe_chars_def slash_def)

lemma map_safe_dots:
  "map safe_char s = ''.'' \<longleftrightarrow> s = ''.''" "map safe_char s = ''..'' \<longleftrightarrow> s = ''..''"
  by (auto simp: map_eq_Cons_conv safe_char_eq)

lemma take_eq_short: "length d < n \<Longrightarrow> take n xs = d \<longleftrightarrow> xs = d"
  by (cases "length xs \<le> n") auto

lemma SanitizeBaseName_unsafe: "set (SanitizeBaseName rnd title) \<inter> set unsafe_chars = {}"
proof (cases "map safe_char (trim_space title) = []")
  case True
  then show ?thesis using hex_chars [of _ rnd] by (auto simp: SanitizeBaseName_def Let_def)
next
  case False
  have "set (take 200 (map safe_char (trim_space title))) \<subseteq> safe_char ` set (trim_space title)"
    using set_take_subset [of 200 "map safe_char (trim_space title)"] by simp
  with False show ?thesis using safe_char_safe by (auto simp: SanitizeBaseName_def Let_def)
qed

lemma SanitizeBaseName_facts:
  assumes "length rnd = 12"
  shows "SanitizeBaseName rnd title \<noteq> []" "length (SanitizeBaseName rnd title) \<le> 200"
    and "set (SanitizeBaseName rnd title) \<inter> set unsafe_chars = {}"
    and "plain_name (SanitizeBaseName rnd title) \<longleftrightarrow> trim_space title \<noteq> ''.'' \<and> trim_space title \<noteq> ''..''"
proof -
  let ?n = "map safe_char (trim_space title)" and ?r = "SanitizeBaseName rnd title"
  have g: "length (GenerateRandomPassword rnd) = 24" using assms by (simp add: length_GenerateRandomPassword)
  have r: "?r = (if ?n = [] then GenerateRandomPassword rnd else take 200 ?n)"
    by (simp add: SanitizeBaseName_def Let_def)
  show ne: "?r \<noteq> []" using g by (auto simp: r)
  show "length ?r \<le> 200" using g by (simp add: r)
  show un: "set ?r \<inter> set unsafe_chars = {}" by (rule SanitizeBaseName_unsafe)
  have dots: "(?r = d) = (trim_space title = d)"
    if d: "d \<noteq> []" "length d < 3" "map safe_char (trim_space title) = d \<longleftrightarrow> trim_space title = d" for d
  proof (cases "?n = []")
    case True
    have "?r \<noteq> d" using True d(2) g by (auto simp: r)
    with True d(1) show ?thesis by auto
  next
    case False
    have "take 200 ?n = d \<longleftrightarrow> ?n = d" using d(2) by (intro take_eq_short) simp
    with False d(3) show ?thesis by (simp add: r)
  qed
  have "?r = ''.'' \<longleftrightarrow> trim_space title = ''.''" "?r = ''..'' \<longleftrightarrow> trim_space title = ''..''"
    by (intro dots; simp add: map_safe_dots)+
  moreover have "slash \<notin> set ?r" using un slash_unsafe by blast
  ultimately show "plain_name ?r \<longleftrightarrow> trim_space title \<noteq> ''.'' \<and> trim_space title \<noteq> ''..''"
    using ne unfolding plain_name_def by blast
qed

text \<open>
  Names made from titles. The result is never empty, never longer than 200 bytes, contains none of
  the characters that are special to a file system, in particular no slash, and is a plain
  element of a path except for the titles \<open>.\<close> and \<open>..\<close>, which pass through unchanged.
\<close>

theorem SanitizeBaseName_safe:
  assumes "length rnd = 12"
  shows "SanitizeBaseName rnd title \<noteq> []" "length (SanitizeBaseName rnd title) \<le> 200"
    and "set (SanitizeBaseName rnd title) \<inter> set unsafe_chars = {}"
    and "plain_name (SanitizeBaseName rnd title) \<longleftrightarrow> trim_space title \<noteq> ''.'' \<and> trim_space title \<noteq> ''..''"
  using SanitizeBaseName_facts [OF assms] by blast+

theorem SanitizeBaseName_safe_witness:
  "plain_name (SanitizeBaseName (replicate 12 0) ''a/b: c?'')"
  by (subst SanitizeBaseName_safe(4)) (simp_all, code_simp+)

end
