(* ===== verification/Media_Samples.thy ===== *)
theory Media_Samples
  imports File_Staging Go_Format
begin

text \<open>
  Previews of a release: \<open>src/services/video_scan.go\<close>, \<open>src/services/screenshots.go\<close>,
  \<open>src/services/manga_screenshots.go\<close> and \<open>src/services/audio_samples.go\<close>. Which files are sampled,
  at which positions, with which command lines, and what comes back. Whether a run of \<open>ffmpeg\<close> left
  a non-empty file and what a ZIP entry holds are arguments. \<open>sort.Slice\<close> leaves the order of equal
  elements open; here they keep the order of the walk.
\<close>

subsection \<open>Finding the files\<close>

definition VideoExtensions :: "go_string list" where
  "VideoExtensions = [''.mkv'', ''.mp4'', ''.avi'', ''.m2ts'', ''.ts'', ''.wmv'', ''.flv'', ''.webm'', ''.mov'']"

definition AudioExtensions :: "go_string list" where
  "AudioExtensions = [''.mp3'', ''.flac'', ''.m4a'', ''.aac'', ''.ogg'', ''.opus'', ''.wav'']"

definition mangaArchiveExts :: "go_string list" where
  "mangaArchiveExts = [''.cbz'', ''.epub'']"

definition mangaImageExts :: "go_string list" where
  "mangaImageExts = [''.jpg'', ''.jpeg'', ''.png'']"

definition normaliseExt :: "go_string \<Rightarrow> go_string" where
  "normaliseExt ext =
     map (\<lambda>c. if 65 \<le> (of_char c :: nat) \<and> (of_char c :: nat) \<le> 90 then char_of ((of_char c :: nat) + 32) else c) ext"

text \<open>The walk of both searches ends at the first error.\<close>

fun matching :: "(file_entry \<Rightarrow> bool) \<Rightarrow> file_entry list \<Rightarrow> file_entry list" where
  "matching p [] = []"
| "matching p (e # es) =
     (if fe_err e \<noteq> None then []
      else if \<not> fe_dir e \<and> p e then e # matching p es else matching p es)"

definition by_size :: "file_entry list \<Rightarrow> go_string list" where
  "by_size es = map fe_rel (sort_key (\<lambda>e. - int (length (fe_data e))) es)"

definition FindVideoFiles :: "file_entry list \<Rightarrow> go_string list" where
  "FindVideoFiles es = by_size (matching (\<lambda>e. to_lower (file_ext e) \<in> set VideoExtensions) es)"

definition FindAudioFiles :: "file_entry list \<Rightarrow> go_string list" where
  "FindAudioFiles es = by_size (matching (\<lambda>e. normaliseExt (file_ext e) \<in> set AudioExtensions) es)"

text \<open>\<open>FindMangaArchive\<close> goes on after an error and ends at the first archive.\<close>

definition FindMangaArchive :: "file_entry list \<Rightarrow> go_string" where
  "FindMangaArchive es =
     (case find (\<lambda>e. fe_err e = None \<and> \<not> fe_dir e \<and> to_lower (file_ext e) \<in> set mangaArchiveExts) es of
        None \<Rightarrow> [] | Some e \<Rightarrow> fe_rel e)"

subsection \<open>Command lines\<close>

definition formatTimestamp :: "float64 \<Rightarrow> go_string" where
  "formatTimestamp seconds =
     (let h = int_of_float seconds div 3600;
          m = int_of_float seconds mod 3600 div 60;
          s = fsub seconds (float_of_int (h * 3600 + m * 60))
      in fmt_02d h @ '':'' @ fmt_02d m @ '':'' @ pad_left 6 CHR ''0'' (fmt_fixed 3 s))"

definition escapeDrawtext :: "go_string \<Rightarrow> go_string" where
  "escapeDrawtext s = concat (map (\<lambda>c. if c \<in> {CHR 0x5C, CHR '':'', CHR 0x27} then [CHR 0x5C, c] else [c]) s)"

definition drawtext_filter :: "go_string \<Rightarrow> go_string" where
  "drawtext_filter watermark =
     ''drawtext=text='' @ [CHR 0x27] @ escapeDrawtext watermark @ [CHR 0x27] @
     '':fontcolor=white:fontsize=24:box=1:boxcolor=black@0.5:boxborderw=6:x=w-tw-12:y=h-th-12''"

text \<open>The first position and the length of the part that is sampled: the middle nine tenths.\<close>

definition sampled_part :: "float64 \<Rightarrow> float64 \<times> float64" where
  "sampled_part duration =
     (let start = fmul duration (fround (1 / 20)); stop = fmul duration (fround (19 / 20));
          len = fsub stop start
      in if len \<le> 0 then (0, duration) else (start, len))"

definition sample_time :: "float64 \<Rightarrow> int \<Rightarrow> nat \<Rightarrow> float64" where
  "sample_time duration count i =
     (case sampled_part duration of (start, len) \<Rightarrow>
        fadd start (fdiv (fmul len (float_of_int (int i))) (float_of_int count)))"

definition screen_path :: "go_string \<Rightarrow> nat \<Rightarrow> go_string" where
  "screen_path outputDir i = path_join [outputDir, ''screen_'' @ fmt_02d (int i + 1) @ ''.png'']"

definition screenshot_args :: "go_string \<Rightarrow> go_string \<Rightarrow> float64 \<Rightarrow> int \<Rightarrow> go_string \<Rightarrow> nat \<Rightarrow> go_string list" where
  "screenshot_args videoPath outputDir duration count watermark i =
     [''-ss'', formatTimestamp (sample_time duration count i), ''-i'', videoPath, ''-vframes'', ''1''] @
     (if watermark \<noteq> [] then [''-vf'', drawtext_filter watermark] else []) @
     [''-c:v'', ''png'', ''-y'', screen_path outputDir i]"

definition default_count :: "int \<Rightarrow> int" where
  "default_count count = (if count \<le> 0 then 6 else count)"

text \<open>
  The captures run in parallel, at most three at a time, and append their index when \<open>ffmpeg\<close> left a
  non-empty file: \<open>arrived\<close> are these indices in the order of arrival, for the list of command lines
  that were started. The result is in index order.
\<close>

definition collect_samples :: "(nat \<Rightarrow> go_string) \<Rightarrow> go_string \<Rightarrow> nat list \<Rightarrow> go_string + go_string list" where
  "collect_samples path none_msg arrived =
     (if arrived = [] then Inl none_msg else Inr (map path (sort arrived)))"

definition GenerateScreenshotsWatermarked ::
  "go_string option \<Rightarrow> (go_string list list \<Rightarrow> nat list) \<Rightarrow> go_string \<Rightarrow> go_string \<Rightarrow> float64 \<Rightarrow> int \<Rightarrow> go_string \<Rightarrow>
     go_string + go_string list" where
  "GenerateScreenshotsWatermarked mkdir_err arrive videoPath outputDir duration count0 watermark =
     (let count = default_count count0
      in if duration \<le> 0 then Inl (''invalid duration: '' @ fmt_fixed 1 duration)
         else case mkdir_err of
           Some err \<Rightarrow> Inl (''mkdir: '' @ err)
         | None \<Rightarrow>
             collect_samples (screen_path outputDir) ''no screenshots generated''
               (arrive (map (screenshot_args videoPath outputDir duration count watermark) [0..<nat count])))"

definition GenerateScreenshots ::
  "go_string option \<Rightarrow> (go_string list list \<Rightarrow> nat list) \<Rightarrow> go_string \<Rightarrow> go_string \<Rightarrow> float64 \<Rightarrow> int \<Rightarrow>
     go_string + go_string list" where
  "GenerateScreenshots mkdir_err arrive videoPath outputDir duration count =
     GenerateScreenshotsWatermarked mkdir_err arrive videoPath outputDir duration count []"

subsection \<open>Audio clips\<close>

definition DefaultSampleSeconds :: int where
  "DefaultSampleSeconds = 5"

definition clip_path :: "go_string \<Rightarrow> nat \<Rightarrow> go_string" where
  "clip_path outputDir i = path_join [outputDir, ''sample_'' @ fmt_02d (int i + 1) @ ''.mp3'']"

definition clip_args :: "go_string \<Rightarrow> go_string \<Rightarrow> float64 \<Rightarrow> int \<Rightarrow> int \<Rightarrow> nat \<Rightarrow> go_string list" where
  "clip_args audioPath outputDir duration count seconds i =
     [''-ss'', formatTimestamp (sample_time duration count i), ''-i'', audioPath, ''-t'', int_str seconds, ''-vn'',
      ''-c:a'', ''libmp3lame'', ''-q:a'', ''4'', ''-y'', clip_path outputDir i]"

text \<open>The number of clips, shrunk to what fits into the track.\<close>

definition clip_count :: "float64 \<Rightarrow> int \<Rightarrow> int \<Rightarrow> int" where
  "clip_count duration count seconds =
     (if duration < fmul (float_of_int seconds) (float_of_int count)
      then int_of_float (fdiv duration (float_of_int seconds)) else count)"

definition GenerateAudioSamples ::
  "go_string option \<Rightarrow> (go_string list list \<Rightarrow> nat list) \<Rightarrow> go_string \<Rightarrow> go_string \<Rightarrow> float64 \<Rightarrow> int \<Rightarrow> int \<Rightarrow>
     go_string + go_string list" where
  "GenerateAudioSamples mkdir_err arrive audioPath outputDir duration count0 seconds0 =
     (let seconds = (if seconds0 \<le> 0 then DefaultSampleSeconds else seconds0);
          count = clip_count duration (default_count count0) seconds
      in if duration \<le> 0 then Inl (''invalid duration: '' @ fmt_fixed 1 duration)
         else if count \<le> 0 then
           Inl (''track too short ('' @ fmt_fixed 1 duration @ ''s) for even one '' @ int_str seconds @ ''s sample'')
         else case mkdir_err of
           Some err \<Rightarrow> Inl (''mkdir: '' @ err)
         | None \<Rightarrow>
             collect_samples (clip_path outputDir) ''no audio samples generated''
               (arrive (map (clip_args audioPath outputDir duration count seconds) [0..<nat count])))"

subsection \<open>Pages of an archive\<close>

text \<open>
  An entry of the archive: its name, whether it is a directory, whether it can be opened and its
  target created, the bytes it decompresses to, and whether reading them fails.
\<close>

record zip_entry =
  ze_name :: go_string
  ze_dir :: bool
  ze_open :: bool
  ze_create :: bool
  ze_bytes :: "byte list"
  ze_broken :: bool

definition manga_pages :: "zip_entry list \<Rightarrow> zip_entry list" where
  "manga_pages zs =
     sort_key ze_name (filter (\<lambda>z. \<not> ze_dir z \<and> to_lower (path_ext (ze_name z)) \<in> set mangaImageExts) zs)"

definition add_pick :: "nat \<Rightarrow> nat \<Rightarrow> nat list \<Rightarrow> nat list" where
  "add_pick n idx picks = (if n \<le> idx \<or> idx \<in> set picks then picks else picks @ [idx])"

text \<open>The first interior page and the length of the interior.\<close>

definition interior_part :: "nat \<Rightarrow> nat \<Rightarrow> nat \<times> nat" where
  "interior_part n interior =
     (let start = n * 5 div 100; stop = n - n * 5 div 100;
          (start, stop) = (if stop - start < interior then (1, n) else (start, stop));
          len = stop - start
      in if len = 0 then (0, n) else (start, len))"

definition interior_picks :: "nat \<Rightarrow> nat \<Rightarrow> nat list" where
  "interior_picks n interior =
     (case interior_part n interior of (start, len) \<Rightarrow>
        map (\<lambda>i. start + len * i div interior) [0..<interior])"

definition manga_picks :: "nat \<Rightarrow> nat \<Rightarrow> nat list" where
  "manga_picks n count = fold (add_pick n) (interior_picks n (count - 1)) (add_pick n 0 [])"

definition page_cap :: nat where
  "page_cap = 20 * 2 ^ 20"

text \<open>
  One page: nothing if it cannot be opened, created or read to the end (or to the cap), and nothing
  counted if the file is empty.
\<close>

definition extract_page :: "go_string \<Rightarrow> nat \<Rightarrow> zip_entry \<Rightarrow> (go_string \<times> byte list) option" where
  "extract_page outputDir i z =
     (let dat = take page_cap (ze_bytes z);
          outPath = path_join [outputDir, ''screen_'' @ fmt_02d (int i + 1) @ to_lower (path_ext (ze_name z))]
      in if \<not> ze_open z \<or> \<not> ze_create z \<or> ze_broken z \<and> length (ze_bytes z) < page_cap \<or> dat = [] then None
         else Some (outPath, dat))"

text \<open>\<open>ctx i\<close>: the context is found cancelled before the \<open>i\<close>-th page.\<close>

fun extract_pages ::
  "(nat \<Rightarrow> bool) \<Rightarrow> go_string \<Rightarrow> zip_entry list \<Rightarrow> nat \<Rightarrow> nat list \<Rightarrow> (go_string \<times> byte list) list"
where
  "extract_pages ctx outputDir pages i [] = []"
| "extract_pages ctx outputDir pages i (p # ps) =
     (if ctx i then []
      else case extract_page outputDir i (pages ! p) of
             None \<Rightarrow> extract_pages ctx outputDir pages (Suc i) ps
           | Some f \<Rightarrow> f # extract_pages ctx outputDir pages (Suc i) ps)"

definition GenerateMangaScreenshots ::
  "go_string option \<Rightarrow> (nat \<Rightarrow> bool) \<Rightarrow> go_string + zip_entry list \<Rightarrow> go_string \<Rightarrow> go_string \<Rightarrow> int \<Rightarrow>
     go_string + (go_string \<times> byte list) list" where
  "GenerateMangaScreenshots mkdir_err ctx zr archivePath outputDir count0 =
     (case mkdir_err of
        Some err \<Rightarrow> Inl (''mkdir: '' @ err)
      | None \<Rightarrow>
          (case zr of
             Inl err \<Rightarrow> Inl (''open archive: '' @ err)
           | Inr zs \<Rightarrow>
               (let pages = manga_pages zs;
                    paths = extract_pages ctx outputDir pages 0
                      (manga_picks (length pages) (nat (default_count count0)))
                in if pages = [] then Inl (''no image pages found in '' @ path_base archivePath)
                   else if paths = [] then Inl ''no pages extracted'' else Inr paths)))"

subsection \<open>Which files are sampled\<close>

lemma normaliseExt_lower: "normaliseExt = to_lower"
  by (rule ext) (simp add: normaliseExt_def to_lower_def lower_char_def is_upper_def)

lemma matching_clean: "clean_walk es \<Longrightarrow> matching p es = filter (\<lambda>e. \<not> fe_dir e \<and> p e) es"
  by (induction es) auto

lemma hd_by_size:
  assumes "es \<noteq> []"
  shows "\<exists>e\<in>set es. hd (by_size es) = fe_rel e \<and> (\<forall>x\<in>set es. length (fe_data x) \<le> length (fe_data e))"
proof -
  let ?k = "\<lambda>e. - int (length (fe_data e))"
  let ?s = "sort_key ?k es"
  have ne: "?s \<noteq> []" using assms by (metis set_empty set_sort)
  then have e: "hd ?s \<in> set es" using hd_in_set [OF ne] by simp
  have "sorted (map ?k ?s)" by simp
  then have "\<forall>x\<in>set (map ?k (tl ?s)). ?k (hd ?s) \<le> x"
    using ne by (cases ?s) auto
  then have "?k (hd ?s) \<le> ?k x" if "x \<in> set es" for x
    using that ne by (cases ?s) (auto simp flip: set_sort [of ?k es])
  then have "\<forall>x\<in>set es. length (fe_data x) \<le> length (fe_data (hd ?s))" by fastforce
  moreover have "hd (by_size es) = fe_rel (hd ?s)" using ne by (simp add: by_size_def hd_map)
  ultimately show ?thesis using e by blast
qed

text \<open>
  The file that is probed. On a directory that can be walked, the first result of the
  two searches is a largest file of the kind sought, they list every such file and no other, and
  both compare extensions without regard to case.
\<close>

theorem media_search_exact:
  assumes "clean_walk es"
  shows "set (FindVideoFiles es) = fe_rel ` {e \<in> set es. \<not> fe_dir e \<and> to_lower (file_ext e) \<in> set VideoExtensions}"
    and "set (FindAudioFiles es) = fe_rel ` {e \<in> set es. \<not> fe_dir e \<and> to_lower (file_ext e) \<in> set AudioExtensions}"
    and "FindVideoFiles es \<noteq> [] \<Longrightarrow> \<exists>e\<in>set es. hd (FindVideoFiles es) = fe_rel e \<and> \<not> fe_dir e \<and>
      (\<forall>x\<in>set es. \<not> fe_dir x \<and> to_lower (file_ext x) \<in> set VideoExtensions \<longrightarrow>
         length (fe_data x) \<le> length (fe_data e))"
proof -
  let ?v = "filter (\<lambda>e. \<not> fe_dir e \<and> to_lower (file_ext e) \<in> set VideoExtensions) es"
  have v: "FindVideoFiles es = by_size ?v" by (simp add: FindVideoFiles_def matching_clean [OF assms])
  show "set (FindVideoFiles es) = fe_rel ` {e \<in> set es. \<not> fe_dir e \<and> to_lower (file_ext e) \<in> set VideoExtensions}"
    unfolding v by (simp add: by_size_def)
  show "set (FindAudioFiles es) = fe_rel ` {e \<in> set es. \<not> fe_dir e \<and> to_lower (file_ext e) \<in> set AudioExtensions}"
    by (simp add: FindAudioFiles_def matching_clean [OF assms] by_size_def normaliseExt_lower)
  assume "FindVideoFiles es \<noteq> []"
  then have "?v \<noteq> []" unfolding v by (auto simp: by_size_def)
  from hd_by_size [OF this] show "\<exists>e\<in>set es. hd (FindVideoFiles es) = fe_rel e \<and> \<not> fe_dir e \<and>
      (\<forall>x\<in>set es. \<not> fe_dir x \<and> to_lower (file_ext x) \<in> set VideoExtensions \<longrightarrow>
         length (fe_data x) \<le> length (fe_data e))"
    unfolding v by auto
qed

subsection \<open>The order of arrival does not matter\<close>

lemma collect_samples_order:
  assumes "distinct a" "distinct b" "set a = set b"
  shows "collect_samples path m a = collect_samples path m b"
proof -
  have "sort a = sort b" using assms by (intro sorted_distinct_set_unique) simp_all
  moreover have "a = [] \<longleftrightarrow> b = []" using assms(3) by (metis set_empty)
  ultimately show ?thesis by (simp add: collect_samples_def)
qed

subsection \<open>Evenly spaced pages\<close>

lemma spaced_strict:
  assumes "0 < k" "k \<le> (n :: nat)" "i < j"
  shows "n * i div k < n * j div k"
proof -
  have "n * i + k \<le> n * Suc i" using assms(2) by simp
  also have "\<dots> \<le> n * j" using assms(3) by (intro mult_le_mono2) simp
  finally have "(n * i + k) div k \<le> n * j div k" by (rule div_le_mono)
  then show ?thesis using assms(1) by simp
qed

lemma spaced_below: "i < k \<Longrightarrow> 0 < n \<Longrightarrow> n * i div k < (n :: nat)"
  by (simp add: div_less_iff_less_mult)

lemma spaced_onto:
  assumes "0 < k" "n \<le> k" "y < (n :: nat)"
  shows "\<exists>i<k. n * i div k = y"
proof -
  let ?i = "(y * k + (n - 1)) div n"
  have n: "0 < n" using assms(3) by simp
  have le: "n * ?i \<le> y * k + (n - 1)" by simp
  have "y * k + (n - 1) < n * ?i + n"
    using div_mult_mod_eq [of "y * k + (n - 1)" n] mod_less_divisor [OF n, of "y * k + (n - 1)"]
    by (metis add_less_cancel_left mult.commute)
  then have ge: "y * k \<le> n * ?i" using n by linarith
  have "n * ?i < y * k + k" using le assms(2) n by linarith
  then have "n * ?i div k < Suc y" using assms(1) by (simp add: div_less_iff_less_mult)
  moreover have "y \<le> n * ?i div k" using ge assms(1) by (simp add: less_eq_div_iff_mult_less_eq)
  moreover have "?i < k"
  proof -
    have "y * k + k \<le> n * k" using assms(3) by (metis Suc_leI add.commute mult_Suc mult_le_mono1)
    with \<open>n * ?i < y * k + k\<close> have "n * ?i < n * k" by linarith
    then show ?thesis by (simp only: mult_less_cancel1)
  qed
  ultimately show ?thesis by (intro exI [of _ ?i]) simp
qed

lemma add_pick_new: "idx < n \<Longrightarrow> idx \<notin> set picks \<Longrightarrow> add_pick n idx picks = picks @ [idx]"
  by (simp add: add_pick_def)

lemma fold_add_pick_distinct:
  "distinct (picks @ xs) \<Longrightarrow> \<forall>x\<in>set xs. x < n \<Longrightarrow> fold (add_pick n) xs picks = picks @ xs"
  by (induction xs arbitrary: picks) (auto simp: add_pick_new)

lemma fold_add_pick_set: "set (fold (add_pick n) xs picks) = set picks \<union> {x \<in> set xs. x < n}"
  by (induction xs arbitrary: picks) (auto simp: add_pick_def)

lemma fold_add_pick_props:
  "distinct picks \<Longrightarrow> distinct (fold (add_pick n) xs picks) \<and> prefix picks (fold (add_pick n) xs picks)"
proof (induction xs arbitrary: picks)
  case (Cons x xs)
  have "distinct (add_pick n x picks)" "prefix picks (add_pick n x picks)" using Cons.prems by (auto simp: add_pick_def)
  with Cons.IH show ?case by (auto intro: prefix_order.trans)
qed simp

lemma interior_sorted:
  assumes "interior \<le> len" "0 < len"
  shows "distinct (map (\<lambda>i. s + len * i div interior) [0..<interior])"
    and "\<forall>x\<in>set (map (\<lambda>i. s + len * i div interior) [0..<interior]). s \<le> x \<and> x < s + len"
proof -
  have "len * i div interior \<noteq> len * j div interior" if "i < j" "j < interior" for i j
    using spaced_strict [of interior len i j] that assms(1) by simp
  then have "inj_on (\<lambda>i. s + len * i div interior) {0..<interior}"
    by (intro inj_onI) (metis add_left_cancel atLeastLessThan_iff linorder_neq_iff)
  then show "distinct (map (\<lambda>i. s + len * i div interior) [0..<interior])" by (simp add: distinct_map)
  show "\<forall>x\<in>set (map (\<lambda>i. s + len * i div interior) [0..<interior]). s \<le> x \<and> x < s + len"
    using spaced_below assms(2) by auto
qed

lemma cover_pick: "0 < n \<Longrightarrow> add_pick n 0 [] = [0]"
  by (simp add: add_pick_def)

lemma onto_interior:
  assumes "0 < interior" "len \<le> interior"
  shows "{s..<s + len} \<subseteq> set (map (\<lambda>i. s + len * i div interior) [0..<interior])"
proof
  fix x assume "x \<in> {s..<s + len}"
  then have "x - s < len" by auto
  then obtain i where "i < interior" "len * i div interior = x - s"
    using spaced_onto [OF assms] by blast
  with \<open>x \<in> {s..<s + len}\<close> show "x \<in> set (map (\<lambda>i. s + len * i div interior) [0..<interior])"
    by (auto intro!: image_eqI [of _ _ i])
qed

lemma picks_all:
  assumes "0 < n" "{1..<n} \<subseteq> set xs"
  shows "length (fold (add_pick n) xs [0]) = n"
proof -
  let ?ps = "fold (add_pick n) xs [0]"
  have "set ?ps = {0..<n}" using assms by (auto simp: fold_add_pick_set)
  moreover have "distinct ?ps" using fold_add_pick_props [of "[0]"] by simp
  ultimately show ?thesis using distinct_card [of ?ps] by simp
qed

lemma picks_interior:
  assumes "0 < n" "0 < interior" "interior \<le> len" "1 \<le> s" "s + len \<le> n"
  shows "length (fold (add_pick n) (map (\<lambda>i. s + len * i div interior) [0..<interior]) [0]) = Suc interior"
proof -
  let ?xs = "map (\<lambda>i. s + len * i div interior) [0..<interior]"
  have len: "0 < len" using assms by simp
  note xs = interior_sorted [OF assms(3) len, of s]
  have "distinct ([0] @ ?xs)" using xs assms(4) by fastforce
  moreover have "\<forall>x\<in>set ?xs. x < n" using xs(2) assms(5) by auto
  ultimately show ?thesis by (subst fold_add_pick_distinct) simp_all
qed

text \<open>When the interior starts at the cover, its first page is the cover again.\<close>

lemma picks_from_cover:
  assumes "0 < n" "0 < interior" "interior \<le> n"
  shows "length (fold (add_pick n) (map (\<lambda>i. 0 + n * i div interior) [0..<interior]) [0]) = interior"
proof -
  let ?f = "\<lambda>i. 0 + n * i div interior"
  obtain k where k: "interior = Suc k" using assms(2) by (cases interior) auto
  have split: "map ?f [0..<interior] = 0 # map ?f [1..<interior]"
    unfolding k by (simp add: upt_conv_Cons del: upt_Suc)
  note xs = interior_sorted [OF assms(3,1), of 0]
  have d: "distinct ([0] @ map ?f [1..<interior])" using xs(1) unfolding split by simp
  have b: "\<forall>x\<in>set (map ?f [1..<interior]). x < n" using xs(2) unfolding split by simp
  have "fold (add_pick n) (map ?f [0..<interior]) [0] = [0] @ map ?f [1..<interior]"
    unfolding split using fold_add_pick_distinct [OF d b] by (simp add: add_pick_def)
  then show ?thesis using k by simp
qed

lemma manga_picks_length:
  assumes "0 < n" "0 < count"
  shows "length (manga_picks n count) =
    (if n < count then n else if 20 \<le> n \<or> count = 1 then count else count - 1)"
proof (cases "count = 1")
  case True
  then show ?thesis
    using assms by (auto simp: manga_picks_def interior_picks_def cover_pick split: prod.splits)
next
  case False
  define interior where "interior = count - 1"
  have k: "0 < interior" "count = Suc interior" using False assms(2) by (simp_all add: interior_def)
  let ?s = "n * 5 div 100"
  have s: "20 \<le> n \<Longrightarrow> 1 \<le> ?s" "n < 20 \<Longrightarrow> ?s = 0" "2 * ?s < n" using assms(1) by linarith+
  have picks: "manga_picks n count =
      fold (add_pick n) (map (\<lambda>i. fst (interior_part n interior) + snd (interior_part n interior) * i div interior)
        [0..<interior]) [0]"
    using assms(1) by (simp add: manga_picks_def interior_picks_def interior_def cover_pick split_beta)
  show ?thesis
  proof (cases "n - ?s - ?s < interior")
    case few: True
    show ?thesis
    proof (cases "n = 1")
      case True
      then have "interior_part n interior = (0, 1)" using few k by (simp add: interior_part_def)
      with True picks k show ?thesis by (simp add: picks_all)
    next
      case False
      then have part: "interior_part n interior = (1, n - 1)" using few assms(1) by (simp add: interior_part_def)
      show ?thesis
      proof (cases "n - 1 < interior")
        case True
        then have "{1..<n} \<subseteq> set (map (\<lambda>i. 1 + (n - 1) * i div interior) [0..<interior])"
          using onto_interior [OF k(1), of "n - 1" 1] assms(1) by simp
        then have "length (manga_picks n count) = n" using picks_all [OF assms(1)] picks part by simp
        moreover have "n < count" using True k(2) by simp
        ultimately show ?thesis by simp
      next
        case enough: False
        then have "length (manga_picks n count) = Suc interior"
          using picks part picks_interior [OF assms(1) k(1), of "n - 1" 1] assms(1) by simp
        moreover have "20 \<le> n" using enough few s False by linarith
        ultimately show ?thesis using enough k(2) assms(1) by auto
      qed
    qed
  next
    case many: False
    then have part: "interior_part n interior = (?s, n - ?s - ?s)"
      using k(1) by (simp add: interior_part_def Let_def)
    show ?thesis
    proof (cases "20 \<le> n")
      case True
      have "length (manga_picks n count) = Suc interior"
        unfolding picks part fst_conv snd_conv
        using many s True by (intro picks_interior) (use assms k in auto)
      then show ?thesis using True many k(2) s(1) by auto
    next
      case False
      then have "?s = 0" using s(2) by simp
      then have "length (manga_picks n count) = interior"
        using picks_from_cover [OF assms(1) k(1)] many unfolding picks part by simp
      then show ?thesis using False many k \<open>?s = 0\<close> by auto
    qed
  qed
qed

lemma fold_add_pick_ascending:
  "sorted xs \<Longrightarrow> sorted_wrt (<) picks \<Longrightarrow> \<forall>p\<in>set picks. \<forall>x\<in>set xs. p \<le> x \<Longrightarrow>
     sorted_wrt (<) (fold (add_pick n) xs picks)"
proof (induction xs arbitrary: picks)
  case (Cons x xs)
  have "sorted_wrt (<) (add_pick n x picks)"
    using Cons.prems(2,3) by (auto simp: add_pick_def sorted_wrt_append le_less)
  moreover have "\<forall>p\<in>set (add_pick n x picks). \<forall>y\<in>set xs. p \<le> y"
    using Cons.prems(1,3) by (auto simp: add_pick_def)
  ultimately show ?case using Cons.IH [of "add_pick n x picks"] Cons.prems(1) by simp
qed simp

lemma interior_picks_ascending: "sorted (interior_picks n k)"
  by (auto simp: interior_picks_def sorted_iff_nth_mono split_beta intro!: div_le_mono)

lemma manga_picks_ascending: "0 < n \<Longrightarrow> sorted_wrt (<) (manga_picks n count)"
  using fold_add_pick_ascending [OF interior_picks_ascending, of "[0]"] by (simp add: manga_picks_def cover_pick)

lemma ascending_full: "sorted_wrt (<) xs \<Longrightarrow> set xs \<subseteq> {0..<n} \<Longrightarrow> length xs = n \<Longrightarrow> xs = [0..<n]"
proof -
  assume xs: "sorted_wrt (<) xs" "set xs \<subseteq> {0..<n}" "length xs = n"
  then have d: "sorted xs" "distinct xs" by (simp_all add: strict_sorted_iff)
  then have "card (set xs) = card {0..<n}" using xs(3) by (simp add: distinct_card)
  then have "set xs = {0..<n}" using card_subset_eq [OF _ xs(2)] by simp
  then show ?thesis using sorted_distinct_set_unique [of xs "[0..<n]"] d by simp
qed

lemma manga_picks_middle:
  assumes "20 \<le> n" "count - 1 \<le> n - 2 * (n * 5 div 100)"
  shows "manga_picks n count =
    0 # map (\<lambda>i. n * 5 div 100 + (n - 2 * (n * 5 div 100)) * i div (count - 1)) [0..<count - 1]"
proof (cases "count - 1 = 0")
  case True
  then show ?thesis using assms(1) by (simp add: manga_picks_def interior_picks_def cover_pick split_beta)
next
  case False
  define s where "s = n * 5 div 100"
  define len where "len = n - 2 * s"
  let ?k = "count - 1"
  have s: "1 \<le> s" "s + len \<le> n" "?k \<le> len" "0 < len" "n - s - s = len"
    using assms unfolding s_def len_def by linarith+
  have part: "interior_part n ?k = (s, len)"
    using s unfolding interior_part_def s_def [symmetric] Let_def by simp
  let ?xs = "map (\<lambda>i. s + len * i div ?k) [0..<?k]"
  note xs = interior_sorted [OF s(3,4), of s]
  have d: "distinct ([0] @ ?xs)" using xs s(1) by fastforce
  have below: "\<forall>x\<in>set ?xs. x < n" using xs(2) s(2) by auto
  have "interior_picks n ?k = ?xs" by (simp only: interior_picks_def part prod.case)
  then have "manga_picks n count = fold (add_pick n) ?xs [0]"
    using assms(1) by (simp add: manga_picks_def cover_pick)
  also have "\<dots> = [0] @ ?xs" by (rule fold_add_pick_distinct [OF d below])
  finally show ?thesis unfolding s_def [symmetric] len_def [symmetric] by simp
qed

text \<open>
  C39. The pages of a preview. The cover comes first, the pages are in ascending order, none is shown
  twice and every one exists. An archive with fewer pages than asked for is shown in full, and one
  of at least twenty pages yields as many as asked for. If the middle nine tenths of such an
  archive have enough pages, the others are exactly the evenly spaced ones of that part.
\<close>

theorem manga_picks_exact:
  assumes "0 < n" "0 < count"
  shows "hd (manga_picks n count) = 0 \<and> sorted_wrt (<) (manga_picks n count) \<and> set (manga_picks n count) \<subseteq> {0..<n} \<and>
    (n < count \<longrightarrow> manga_picks n count = [0..<n]) \<and>
    (20 \<le> n \<and> count \<le> n \<longrightarrow> length (manga_picks n count) = count) \<and>
    (20 \<le> n \<and> count - 1 \<le> n - 2 * (n * 5 div 100) \<longrightarrow>
       manga_picks n count =
         0 # map (\<lambda>i. n * 5 div 100 + (n - 2 * (n * 5 div 100)) * i div (count - 1)) [0..<count - 1])"
proof -
  note props = fold_add_pick_props [of "[0]" n "interior_picks n (count - 1)"]
  have eq: "manga_picks n count = fold (add_pick n) (interior_picks n (count - 1)) [0]"
    using assms(1) by (simp add: manga_picks_def cover_pick)
  have "prefix [0] (manga_picks n count)" using props by (simp add: eq)
  then have hd: "hd (manga_picks n count) = 0" by (auto simp: prefix_def)
  have sub: "set (manga_picks n count) \<subseteq> {0..<n}" unfolding eq fold_add_pick_set using assms(1) by auto
  have asc: "sorted_wrt (<) (manga_picks n count)" using assms(1) by (rule manga_picks_ascending)
  have "manga_picks n count = [0..<n]" if "n < count"
    using ascending_full [OF asc sub] manga_picks_length [OF assms] that by simp
  moreover have "length (manga_picks n count) = count" if "20 \<le> n" "count \<le> n"
    using manga_picks_length [OF assms] that by simp
  ultimately show ?thesis using hd asc sub manga_picks_middle by blast
qed

theorem manga_picks_exact_witness: "length (manga_picks 200 6) = 6 \<and> hd (manga_picks 200 6) = 0"
  using manga_picks_exact [of 200 6] by simp

text \<open>
  A smaller archive yields one page less than asked for: its interior starts at the cover, which is
  then picked a second time and dropped.
\<close>

lemma small_archive_one_less:
  "n < 20 \<Longrightarrow> 1 < count \<Longrightarrow> count \<le> n \<Longrightarrow> length (manga_picks n count) = count - 1"
  using manga_picks_length [of n count] by simp

subsection \<open>Sample positions lie inside the recording\<close>

definition ulp :: rat where
  "ulp = 1 / 2 ^ 53"

lemma ulp_small: "0 < ulp" "ulp < 1" "0 < 1 - ulp"
  by (simp_all add: ulp_def)

lemma fround_grow: "0 \<le> x \<Longrightarrow> x \<le> y \<Longrightarrow> fround x \<le> y * (1 + ulp)"
  using order_trans [OF fround_upper [of x, folded ulp_def] mult_right_mono [of x y "1 + ulp"]] ulp_small by simp

lemma fround_shrink: "0 \<le> y \<Longrightarrow> y \<le> x \<Longrightarrow> y * (1 - ulp) \<le> fround x"
  using order_trans [OF mult_right_mono [of y x "1 - ulp"] fround_lower [of x, folded ulp_def]] ulp_small by simp

lemma sampled_part_bounds:
  assumes "0 < d" "sampled_part d = (start, len)"
  shows "0 < start" "0 < len" "start + len \<le> d * (19 / 20 * (1 + ulp) ^ 3)"
proof -
  let ?u = "1 + ulp" and ?l = "1 - ulp"
  let ?a = "fmul d (fround (1 / 20))" and ?b = "fmul d (fround (19 / 20))"
  have c1: "fround (1 / 20) \<le> 1 / 20 * ?u" and c2: "19 / 20 * ?l \<le> fround (19 / 20)"
    and c3: "fround (19 / 20) \<le> 19 / 20 * ?u" and c0: "0 < fround (1 / 20)"
    by (rule fround_grow fround_shrink fround_pos; simp)+
  have a0: "0 < ?a" unfolding fmul_def using assms(1) c0 by (intro fround_pos) simp
  have a: "?a \<le> d * (1 / 20 * ?u) * ?u"
    unfolding fmul_def using assms(1) c0 c1 by (intro fround_grow mult_left_mono) simp_all
  have b: "d * (19 / 20 * ?l) * ?l \<le> ?b"
    unfolding fmul_def using assms(1) c2 ulp_small by (intro fround_shrink mult_left_mono mult_nonneg_nonneg) simp_all
  have b': "?b \<le> d * (19 / 20 * ?u) * ?u"
    unfolding fmul_def using assms(1) c2 c3
    by (intro fround_grow mult_left_mono mult_nonneg_nonneg fround_nonneg) simp_all
  have "d * (1 / 20 * ?u * ?u) < d * (19 / 20 * ?l * ?l)"
    using assms(1) by (intro mult_strict_left_mono) (simp_all add: ulp_def)
  then have "d * (1 / 20 * ?u) * ?u < d * (19 / 20 * ?l) * ?l" by (simp only: mult.assoc)
  with a b have ab: "?a < ?b" by linarith
  then have len: "0 < fsub ?b ?a" unfolding fsub_def by (intro fround_pos) simp
  with assms(2) have se: "start = ?a" "len = fsub ?b ?a" by (auto simp: sampled_part_def Let_def split: if_splits)
  then show "0 < start" "0 < len" using a0 len by simp_all
  have "len \<le> (?b - ?a) * ?u" unfolding se fsub_def using ab by (intro fround_grow) simp_all
  then have "start + len \<le> ?a + (?b - ?a) * ?u" using se by simp
  also have "\<dots> = ?b * ?u - ?a * ulp" by (simp add: algebra_simps)
  also have "\<dots> \<le> ?b * ?u" using a0 ulp_small by simp
  also have "\<dots> \<le> (d * (19 / 20 * ?u) * ?u) * ?u" using b' ulp_small by (intro mult_right_mono) simp_all
  finally show "start + len \<le> d * (19 / 20 * ?u ^ 3)" by (simp only: power3_eq_cube mult.assoc)
qed

lemma ratio_bound:
  assumes "0 < c" "int i < c"
  shows "0 \<le> float_of_int (int i) / float_of_int c" "float_of_int (int i) / float_of_int c \<le> (1 + ulp) / (1 - ulp)"
    "0 < float_of_int c"
proof -
  have c: "of_int c * (1 - ulp) \<le> float_of_int c" unfolding float_of_int_def using assms(1) by (intro fround_shrink) simp_all
  have c0: "0 < of_int c * (1 - ulp)" using assms(1) ulp_small by simp
  with c show pos: "0 < float_of_int c" by linarith
  have i0: "0 \<le> float_of_int (int i)" unfolding float_of_int_def by (intro fround_nonneg) simp
  with pos show "0 \<le> float_of_int (int i) / float_of_int c" by simp
  have "float_of_int (int i) \<le> of_int (int i) * (1 + ulp)" unfolding float_of_int_def by (intro fround_grow) simp_all
  also have "\<dots> \<le> of_int c * (1 + ulp)" using assms(2) ulp_small by (intro mult_right_mono) simp_all
  finally have "float_of_int (int i) / float_of_int c \<le> (of_int c * (1 + ulp)) / (of_int c * (1 - ulp))"
    using c c0 assms(1) ulp_small by (intro frac_le) simp_all
  also have "\<dots> = (1 + ulp) / (1 - ulp)" using assms(1) by simp
  finally show "float_of_int (int i) / float_of_int c \<le> (1 + ulp) / (1 - ulp)" .
qed

text \<open>
  C40. Previews are taken from inside the recording. Whatever its length and the number of samples, and
  with every rounding of the floating-point computation, each position lies after the start and
  before the end.
\<close>

theorem sample_time_inside:
  assumes "0 < duration" "0 < count" "int i < count"
  shows "0 < sample_time duration count i \<and> sample_time duration count i < duration"
proof -
  obtain start len where part: "sampled_part duration = (start, len)" by (cases "sampled_part duration")
  note b = sampled_part_bounds [OF assms(1) part] and r = ratio_bound [OF assms(2,3)]
  let ?fi = "float_of_int (int i)" and ?fc = "float_of_int count"
  let ?x = "fmul len ?fi" and ?u = "1 + ulp" and ?k = "(1 + ulp) ^ 3 / (1 - ulp)"
  have fi: "0 \<le> ?fi" using r(1,3) by (simp add: zero_le_divide_iff)
  have x: "0 \<le> ?x" "?x \<le> len * ?fi * ?u"
    unfolding fmul_def using b(2) fi by (auto intro: fround_nonneg fround_grow)
  have "fdiv ?x ?fc \<le> (len * ?fi * ?u) / ?fc * ?u"
    unfolding fdiv_def using x r(3) by (intro fround_grow divide_right_mono) simp_all
  also have "\<dots> = len * (?fi / ?fc) * (?u * ?u)" by simp
  also have "\<dots> \<le> len * (?u / (1 - ulp)) * (?u * ?u)"
    using b(2) r(2) ulp_small by (intro mult_right_mono mult_left_mono) simp_all
  also have "\<dots> = len * ?k" by (simp add: power3_eq_cube)
  finally have y: "fdiv ?x ?fc \<le> len * ?k" .
  have y0: "0 \<le> fdiv ?x ?fc" unfolding fdiv_def using x(1) r(3) by (intro fround_nonneg) simp
  have t: "sample_time duration count i = fround (start + fdiv ?x ?fc)"
    by (simp add: sample_time_def part fadd_def)
  have k1: "1 \<le> ?k" by (simp add: ulp_def power3_eq_cube)
  have "start + fdiv ?x ?fc \<le> (start + len) * ?k"
    using add_mono [OF _ y, of start "start * ?k"] b(1) k1 mult_left_mono [of 1 ?k start]
    by (simp only: distrib_right mult_1_right less_imp_le)
  also have "\<dots> \<le> duration * (19 / 20 * ?u ^ 3) * ?k" using b(3) k1 by (intro mult_right_mono) simp_all
  finally have le: "start + fdiv ?x ?fc \<le> duration * (19 / 20 * ?u ^ 3 * ?k)" by (simp add: mult.assoc)
  have "sample_time duration count i \<le> duration * (19 / 20 * ?u ^ 3 * ?k) * ?u"
    unfolding t using le b(1) y0 by (intro fround_grow) simp_all
  also have "\<dots> = duration * (19 / 20 * ?u ^ 3 * ?k * ?u)" by simp
  also have "\<dots> < duration * 1" using assms(1) by (intro mult_strict_left_mono) (simp_all add: ulp_def power3_eq_cube)
  finally have "sample_time duration count i < duration" by simp
  moreover have "0 < sample_time duration count i" unfolding t using b(1) y0 by (intro fround_pos) simp
  ultimately show ?thesis by simp
qed

theorem sample_time_inside_witness: "0 < sample_time 1440 6 5 \<and> sample_time 1440 6 5 < 1440"
  using sample_time_inside [of 1440 6 5] by simp

text \<open>The seconds of a timestamp are rounded after the minutes were split off, and can read sixty.\<close>

lemma seconds_field_sixty: "pad_left 6 CHR ''0'' (fmt_fixed 3 (122879 / 2048)) = ''60.000''"
proof -
  have "\<lfloor>122879 / 2048 * 10 ^ 3 :: rat\<rfloor> = 59999" by (simp add: floor_eq_iff)
  then have r: "round_even (\<bar>122879 / 2048\<bar> * 10 ^ 3) = 60000" by (simp add: round_even_def)
  have "nat_str (nat 60000) = ''60000''"
    by (simp add: nat_str.simps [of 60000] nat_str.simps [of 6000] nat_str.simps [of 600] nat_str.simps [of 60]
        nat_str.simps [of 6] digit_char_def) code_simp
  then show ?thesis unfolding fmt_fixed_def r Let_def by (simp add: pad_left_def)
qed

end
