(* ===== verification/Media_Info.thy ===== *)
theory Media_Info
  imports Go_Format "HOL-Library.AList"
begin

text \<open>
  The description of a recording: \<open>src/services/mediainfo.go\<close>. What \<open>ffprobe\<close> reports of the container
  and of its streams (the fields the code reads) is an argument.
\<close>

subsection \<open>Numbers\<close>

text \<open>
  \<open>v, _ := strconv.ParseInt(s, 10, 64)\<close> and \<open>Atoi\<close>: the value is zero on a syntax error, and the nearest
  bound when the number is out of range.
\<close>

definition int_value :: "go_string \<Rightarrow> int option" where
  "int_value s =
     (let (neg, ds) = (case s of
          [] \<Rightarrow> (False, [])
        | c # cs \<Rightarrow> if c = CHR ''-'' then (True, cs) else if c = CHR ''+'' then (False, cs)
                   else (False, s))
      in if ds = [] then None
         else map_option (\<lambda>n. if neg then - int n else int n) (digits_val 0 ds))"

definition parseInt64 :: "go_string \<Rightarrow> int" where
  "parseInt64 s =
     (case int_value s of
        None \<Rightarrow> 0
      | Some v \<Rightarrow> if 2 ^ 63 \<le> v then 2 ^ 63 - 1 else if v < - (2 ^ 63) then - (2 ^ 63) else v)"

definition parseInt :: "go_string \<Rightarrow> int" where
  "parseInt s = parseInt64 s"

text \<open>\<open>math.Round\<close>: halves away from zero.\<close>

definition math_round :: "float64 \<Rightarrow> float64" where
  "math_round x = of_int (if 0 \<le> x then \<lfloor>x + 1 / 2\<rfloor> else \<lceil>x - 1 / 2\<rceil>)"

text \<open>
  \<open>FormatFloat(x, 'f', -1, 64)\<close>: the fewest decimals that give the value back, for magnitudes below
  \<open>2\<^sup>5\<^sup>3\<close>; 1074 decimals always do.
\<close>

definition format_shortest :: "float64 \<Rightarrow> go_string" where
  "format_shortest x =
     (case find (\<lambda>n. fround (of_int (round_even (x * 10 ^ n)) / 10 ^ n) = x) [0..<1075] of
        None \<Rightarrow> fmt_fixed 1074 x | Some n \<Rightarrow> fmt_fixed n x)"

definition simplifyFrameRate :: "go_string \<Rightarrow> go_string" where
  "simplifyFrameRate rfr =
     (case split_char slash rfr of
        [a, b] \<Rightarrow>
          (case (parse_float a, parse_float b) of
             (Some num, Some den) \<Rightarrow>
               (if den = 0 then rfr
                else format_shortest (fdiv (math_round (fmul (fdiv num den) 1000)) 1000))
           | _ \<Rightarrow> rfr)
      | _ \<Rightarrow> rfr)"

subsection \<open>What ffprobe reports\<close>

record probe_stream =
  CodecType :: go_string
  CodecName :: go_string
  Profile :: go_string
  s_Width :: int
  s_Height :: int
  PixFmt :: go_string
  BitRate :: go_string
  DisplayAspectRatio :: go_string
  RFrameRate :: go_string
  BitsPerRawSample :: go_string
  FieldOrder :: go_string
  s_ColorSpace :: go_string
  s_ColorTransfer :: go_string
  s_ColorPrimaries :: go_string
  SideDataTypes :: "go_string list"
  TagLanguage :: go_string
  TagTitle :: go_string
  s_Channels :: int
  ChannelLayout :: go_string
  s_SampleRate :: go_string
  DispDefault :: int
  DispForced :: int

record probe_data =
  FormatName :: go_string
  FormatSize :: go_string
  DurationSeconds :: float64
  FormatBitRate :: go_string
  FormatTags :: "(go_string \<times> go_string) list"
  Streams :: "probe_stream list"
  ProbeChapters :: "(float64 \<times> float64 \<times> go_string) list"

subsection \<open>The description\<close>

record audio_track =
  at_Codec :: go_string
  at_Profile :: go_string
  at_Language :: go_string
  at_Channels :: int
  at_Layout :: go_string
  at_Bitrate :: int
  at_SampleRate :: int
  at_Title :: go_string
  at_Default :: bool

record sub_track =
  st_Codec :: go_string
  st_Language :: go_string
  st_Title :: go_string
  st_Default :: bool
  st_Forced :: bool

record video_info =
  FileName :: go_string
  Format :: go_string
  Duration :: float64
  Size :: int
  Bitrate :: int
  WritingApp :: go_string
  EncodedDate :: go_string
  VideoCodec :: go_string
  VideoProfile :: go_string
  Width :: int
  Height :: int
  DisplayAspect :: go_string
  FrameRate :: go_string
  PixelFormat :: go_string
  BitDepth :: int
  ChromaSub :: go_string
  ScanType :: go_string
  ColorSpace :: go_string
  ColorTransfer :: go_string
  ColorPrimaries :: go_string
  HDR :: go_string
  VideoBitrate :: int
  AudioTracks :: "audio_track list"
  SubtitleTracks :: "sub_track list"
  Chapters :: "(float64 \<times> float64 \<times> go_string) list"

definition bitDepthFromPixFmt :: "go_string \<Rightarrow> int" where
  "bitDepthFromPixFmt pf =
     (if contains pf ''10le'' \<or> contains pf ''10be'' \<or> contains pf ''p10'' then 10
      else if contains pf ''12le'' \<or> contains pf ''12be'' \<or> contains pf ''p12'' then 12 else 8)"

definition chromaSubFromPixFmt :: "go_string \<Rightarrow> go_string" where
  "chromaSubFromPixFmt pf0 =
     (let pf = to_lower pf0
      in if contains pf ''444'' then ''4:4:4'' else if contains pf ''422'' then ''4:2:2''
         else if contains pf ''420'' then ''4:2:0'' else if contains pf ''411'' then ''4:1:1''
         else if contains pf ''410'' then ''4:1:0'' else [])"

definition detectHDR :: "probe_stream \<Rightarrow> go_string" where
  "detectHDR s =
     (let ct = to_lower (s_ColorTransfer s); cp = to_lower (s_ColorPrimaries s)
      in if list_ex (\<lambda>sd. contains (to_lower sd) ''dolby vision'') (SideDataTypes s) then ''Dolby Vision''
         else if ct = ''smpte2084'' \<and> cp = ''bt2020'' then ''HDR10''
         else if ct = ''arib-std-b67'' then ''HLG'' else if cp = ''bt2020'' then ''HDR'' else [])"

definition scan_type :: "go_string \<Rightarrow> go_string" where
  "scan_type field_order =
     (let f = to_lower field_order
      in if f = ''progressive'' \<or> f = [] then ''Progressive''
         else if f = ''tt'' \<or> f = ''bb'' then ''Interlaced''
         else if f = ''tb'' \<or> f = ''bt'' then ''MBAFF'' else field_order)"

definition bit_depth :: "probe_stream \<Rightarrow> int" where
  "bit_depth s =
     (case parse_int (BitsPerRawSample s) of
        None \<Rightarrow> bitDepthFromPixFmt (PixFmt s)
      | Some v \<Rightarrow> if 0 < v then v else bitDepthFromPixFmt (PixFmt s))"

definition lang_or_und :: "go_string \<Rightarrow> go_string" where
  "lang_or_und l = (if l = [] then ''und'' else l)"

definition audio_of :: "probe_stream \<Rightarrow> audio_track" where
  "audio_of s =
     \<lparr>at_Codec = CodecName s, at_Profile = Profile s, at_Language = lang_or_und (TagLanguage s),
      at_Channels = s_Channels s, at_Layout = ChannelLayout s, at_Bitrate = parseInt64 (BitRate s),
      at_SampleRate = parseInt (s_SampleRate s), at_Title = TagTitle s, at_Default = (DispDefault s = 1)\<rparr>"

definition sub_of :: "probe_stream \<Rightarrow> sub_track" where
  "sub_of s =
     \<lparr>st_Codec = CodecName s, st_Language = lang_or_und (TagLanguage s), st_Title = TagTitle s,
      st_Default = (DispDefault s = 1), st_Forced = (DispForced s = 1)\<rparr>"

definition set_video :: "probe_stream \<Rightarrow> video_info \<Rightarrow> video_info" where
  "set_video s info =
     info\<lparr>VideoCodec := CodecName s, VideoProfile := Profile s, Width := s_Width s, Height := s_Height s,
          PixelFormat := PixFmt s, VideoBitrate := parseInt64 (BitRate s), DisplayAspect := DisplayAspectRatio s,
          FrameRate := (if RFrameRate s \<noteq> [] then simplifyFrameRate (RFrameRate s) else FrameRate info),
          BitDepth := bit_depth s, ChromaSub := chromaSubFromPixFmt (PixFmt s), ScanType := scan_type (FieldOrder s),
          ColorSpace := s_ColorSpace s, ColorTransfer := s_ColorTransfer s, ColorPrimaries := s_ColorPrimaries s,
          HDR := detectHDR s\<rparr>"

definition add_stream :: "probe_stream \<Rightarrow> video_info \<Rightarrow> video_info" where
  "add_stream s info =
     (if CodecType s = ''video'' then (if VideoCodec info \<noteq> [] then info else set_video s info)
      else if CodecType s = ''audio'' then info\<lparr>AudioTracks := AudioTracks info @ [audio_of s]\<rparr>
      else if CodecType s = ''subtitle'' then info\<lparr>SubtitleTracks := SubtitleTracks info @ [sub_of s]\<rparr>
      else info)"

definition container_info :: "go_string \<Rightarrow> probe_data \<Rightarrow> video_info" where
  "container_info filePath d =
     (let tag = (\<lambda>k. case map_of (FormatTags d) k of None \<Rightarrow> [] | Some v \<Rightarrow> v)
      in \<lparr>FileName = path_base filePath, Format = FormatName d, Duration = DurationSeconds d,
          Size = parseInt64 (FormatSize d), Bitrate = parseInt64 (FormatBitRate d), WritingApp = tag ''encoder'',
          EncodedDate = tag ''creation_time'', VideoCodec = [], VideoProfile = [], Width = 0, Height = 0,
          DisplayAspect = [], FrameRate = [], PixelFormat = [], BitDepth = 0, ChromaSub = [], ScanType = [],
          ColorSpace = [], ColorTransfer = [], ColorPrimaries = [], HDR = [], VideoBitrate = 0, AudioTracks = [],
          SubtitleTracks = [], Chapters = []\<rparr>)"

definition ProbeVideo :: "go_string + probe_data \<Rightarrow> go_string \<Rightarrow> go_string + video_info" where
  "ProbeVideo probe filePath =
     (case probe of
        Inl err \<Rightarrow> Inl (''ffprobe: '' @ err)
      | Inr d \<Rightarrow> Inr ((fold add_stream (Streams d) (container_info filePath d))\<lparr>Chapters := ProbeChapters d\<rparr>))"

subsection \<open>Labels\<close>

definition DurationStr :: "video_info \<Rightarrow> go_string" where
  "DurationStr v =
     (let d = int_of_float (Duration v); h = d div 3600; m = d mod 3600 div 60; s = d mod 60
      in if 0 < h then int_str h @ ''h '' @ fmt_02d m @ ''m '' @ fmt_02d s @ ''s''
         else int_str m @ ''m '' @ fmt_02d s @ ''s'')"

definition ResolutionLabel :: "video_info \<Rightarrow> go_string" where
  "ResolutionLabel v =
     (if 2160 \<le> Height v then ''4K'' else if 1080 \<le> Height v then ''1080p''
      else if 720 \<le> Height v then ''720p'' else if 576 \<le> Height v then ''576p''
      else if 480 \<le> Height v then ''480p'' else int_str (Height v) @ ''p'')"

subsection \<open>Facts\<close>

lemma parseInt64_range: "- (2 ^ 63) \<le> parseInt64 s \<and> parseInt64 s < 2 ^ 63"
  by (auto simp: parseInt64_def split: option.splits)

lemma parseInt64_int_str:
  assumes "- (2 ^ 63) \<le> i" "i < 2 ^ 63"
  shows "parseInt64 (int_str i) = i"
proof (cases "i < 0")
  case True
  with assms show ?thesis by (simp add: parseInt64_def int_value_def int_str_def digits_val_nat_str)
next
  case False
  obtain c cs where "nat_str (nat i) = c # cs" "c \<noteq> CHR ''-''" "c \<noteq> CHR ''+''" by (rule nat_str_head)
  with False assms show ?thesis
    using digits_val_nat_str [of "nat i"] by (simp add: parseInt64_def int_value_def int_str_def)
qed

lemma set_video_other [simp]:
  "AudioTracks (set_video s i) = AudioTracks i" "SubtitleTracks (set_video s i) = SubtitleTracks i"
  "FileName (set_video s i) = FileName i" "Format (set_video s i) = Format i" "Duration (set_video s i) = Duration i"
  "VideoCodec (set_video s i) = CodecName s" "Height (set_video s i) = s_Height s" "HDR (set_video s i) = detectHDR s"
  by (simp_all add: set_video_def)

lemma video_fields_other [simp]:
  "set_video s (i\<lparr>AudioTracks := a\<rparr>) = (set_video s i)\<lparr>AudioTracks := a\<rparr>"
  "set_video s (i\<lparr>SubtitleTracks := b\<rparr>) = (set_video s i)\<lparr>SubtitleTracks := b\<rparr>"
  by (simp_all add: set_video_def)

lemma fold_tracks:
  "AudioTracks (fold add_stream ss i) = AudioTracks i @ map audio_of (filter (\<lambda>s. CodecType s = ''audio'') ss)"
  "SubtitleTracks (fold add_stream ss i) = SubtitleTracks i @ map sub_of (filter (\<lambda>s. CodecType s = ''subtitle'') ss)"
  "Duration (fold add_stream ss i) = Duration i"
  by (induction ss arbitrary: i) (simp_all add: add_stream_def)

text \<open>The streams up to the first video stream that names its codec.\<close>

definition first_video :: "probe_stream list \<Rightarrow> probe_stream option" where
  "first_video ss = find (\<lambda>s. CodecType s = ''video'' \<and> CodecName s \<noteq> []) ss"

lemma fold_video_set: "VideoCodec i \<noteq> [] \<Longrightarrow>
    VideoCodec (fold add_stream ss i) = VideoCodec i \<and> Height (fold add_stream ss i) = Height i \<and>
    HDR (fold add_stream ss i) = HDR i"
  by (induction ss arbitrary: i) (simp_all add: add_stream_def)

lemma fold_video:
  "VideoCodec i = [] \<Longrightarrow> first_video ss = Some s \<Longrightarrow>
     VideoCodec (fold add_stream ss i) = CodecName s \<and> Height (fold add_stream ss i) = s_Height s \<and>
     HDR (fold add_stream ss i) = detectHDR s"
proof (induction ss arbitrary: i)
  case (Cons x xs)
  show ?case
  proof (cases "CodecType x = ''video'' \<and> CodecName x \<noteq> []")
    case True
    with Cons.prems have "s = x" by (simp add: first_video_def)
    moreover have "add_stream x i = set_video x i" using True Cons.prems(1) by (simp add: add_stream_def)
    ultimately show ?thesis using True fold_video_set [of "set_video x i" xs] by simp
  next
    case False
    then have "first_video xs = Some s" using Cons.prems(2) by (auto simp: first_video_def)
    moreover have "VideoCodec (add_stream x i) = []" using False Cons.prems(1) by (auto simp: add_stream_def)
    ultimately show ?thesis using Cons.IH by simp
  qed
qed (simp add: first_video_def)

text \<open>
  The description follows the streams. Every audio and every subtitle stream is one track, in
  their order; the picture is described by the first video stream that names a codec, and a
  container without one has no codec; the duration is the container's.
\<close>

theorem ProbeVideo_follows_streams:
  assumes "ProbeVideo (Inr d) path = Inr info"
  shows "AudioTracks info = map audio_of (filter (\<lambda>s. CodecType s = ''audio'') (Streams d))"
    and "SubtitleTracks info = map sub_of (filter (\<lambda>s. CodecType s = ''subtitle'') (Streams d))"
    and "Duration info = DurationSeconds d"
    and "first_video (Streams d) = Some s \<Longrightarrow>
      VideoCodec info = CodecName s \<and> Height info = s_Height s \<and> HDR info = detectHDR s"
proof -
  let ?i = "container_info path d"
  have i: "AudioTracks ?i = []" "SubtitleTracks ?i = []" "Duration ?i = DurationSeconds d" "VideoCodec ?i = []"
    by (simp_all add: container_info_def Let_def)
  have info: "info = (fold add_stream (Streams d) ?i)\<lparr>Chapters := ProbeChapters d\<rparr>"
    using assms by (simp add: ProbeVideo_def)
  show "AudioTracks info = map audio_of (filter (\<lambda>s. CodecType s = ''audio'') (Streams d))"
    "SubtitleTracks info = map sub_of (filter (\<lambda>s. CodecType s = ''subtitle'') (Streams d))"
    "Duration info = DurationSeconds d"
    by (simp_all add: info fold_tracks i)
  show "first_video (Streams d) = Some s \<Longrightarrow>
      VideoCodec info = CodecName s \<and> Height info = s_Height s \<and> HDR info = detectHDR s"
    using fold_video [OF i(4)] by (simp add: info)
qed

end
