(* ===== verification/Par2_Tool.thy ===== *)
theory Par2_Tool
  imports File_Staging Go_Format
begin

text \<open>
  Recovery files: \<open>src/services/par2.go\<close>. The choice of the tool, its command lines, the reading of its
  output, which mixes carriage returns and newlines, and the progress it reports. What the tool
  writes, how \<open>bufio.Scanner\<close> cuts its output into reads, and whether the tool succeeds are arguments.
\<close>

subsection \<open>The tool and its command line\<close>

datatype par2_binary = Parpar | Par2create

definition detectPAR2Binary :: "(go_string \<Rightarrow> bool) \<Rightarrow> par2_binary" where
  "detectPAR2Binary in_path =
     (if in_path ''parpar'' then Parpar else if in_path ''par2create'' then Par2create else Par2create)"

record par2_options =
  Redundancy :: int
  BlockSize :: int
  Threads :: int
  MemoryMB :: int

record command =
  cmd_Name :: go_string
  cmd_Args :: "go_string list"
  cmd_Dir :: go_string

definition buildPar2createCmd :: "go_string \<Rightarrow> go_string \<Rightarrow> int \<Rightarrow> int \<Rightarrow> go_string list \<Rightarrow> command" where
  "buildPar2createCmd dir baseName redundancy blockSize fs =
     \<lparr>cmd_Name = ''par2create'',
      cmd_Args = [''-r'' @ int_str redundancy, ''-s'' @ int_str blockSize, baseName @ ''.par2''] @ fs,
      cmd_Dir = dir\<rparr>"

definition buildParparCmd :: "go_string \<Rightarrow> go_string \<Rightarrow> par2_options \<Rightarrow> go_string list \<Rightarrow> command" where
  "buildParparCmd dir baseName opts fs =
     \<lparr>cmd_Name = ''parpar'',
      cmd_Args =
        [''-s'', int_str (BlockSize opts) @ ''B'', ''-r'', int_str (Redundancy opts) @ ''%'', ''-o'', baseName @ ''.par2'', ''-O''] @
        (if 0 < Threads opts then [''-t'', int_str (Threads opts)] else []) @
        (if 0 < MemoryMB opts then [''-m'', int_str (MemoryMB opts) @ ''M''] else []) @ [''--''] @ fs,
      cmd_Dir = dir\<rparr>"

definition default_options :: "par2_options \<Rightarrow> par2_options" where
  "default_options o0 =
     (let o1 = (if Redundancy o0 \<le> 0 then o0\<lparr>Redundancy := 5\<rparr> else o0)
      in if BlockSize o1 \<le> 0 then o1\<lparr>BlockSize := 700 * 1024\<rparr> else o1)"

definition is_par2_name :: "go_string \<Rightarrow> bool" where
  "is_par2_name p \<longleftrightarrow> has_suffix (to_lower p) ''.par2''"

text \<open>The files to protect: every file of the directory, empty ones too, but for recovery files.\<close>

fun protected_files :: "file_entry list \<Rightarrow> go_string + go_string list" where
  "protected_files [] = Inr []"
| "protected_files (e # es) =
     (case fe_err e of
        Some err \<Rightarrow> Inl err
      | None \<Rightarrow>
          if fe_dir e \<or> is_par2_name (fe_rel e) then protected_files es
          else case protected_files es of Inl err \<Rightarrow> Inl err | Inr fs \<Rightarrow> Inr (fe_rel e # fs))"

definition par2_command :: "par2_binary \<Rightarrow> go_string \<Rightarrow> go_string \<Rightarrow> par2_options \<Rightarrow> go_string list \<Rightarrow> command" where
  "par2_command bin dir baseName opts fs =
     (case bin of
        Parpar \<Rightarrow> buildParparCmd dir baseName opts fs
      | Par2create \<Rightarrow> buildPar2createCmd dir baseName (Redundancy opts) (BlockSize opts) fs)"

text \<open>
  \<open>GeneratePAR2\<close>: \<open>tool\<close> runs a command and says how it ended (an error of the pipe or of the start, with
  its text, or of the run) or which names the directory holds then.
\<close>

definition GeneratePAR2 ::
  "(command \<Rightarrow> go_string + go_string list) \<Rightarrow> par2_binary \<Rightarrow> go_string \<Rightarrow> file_entry list \<Rightarrow> go_string \<Rightarrow>
     par2_options \<Rightarrow> go_string + go_string list" where
  "GeneratePAR2 tool bin dir es baseName opts0 =
     (let opts = default_options opts0
      in case protected_files es of
           Inl err \<Rightarrow> Inl (''walk dir: '' @ err)
         | Inr fs \<Rightarrow>
             if fs = [] then Inl (''no files found in '' @ dir)
             else case tool (par2_command bin dir baseName opts fs) of
                    Inl err \<Rightarrow> Inl err
                  | Inr names \<Rightarrow> Inr (map (\<lambda>n. path_join [dir, n]) (filter is_par2_name names)))"

subsection \<open>Lines that end in a carriage return or a newline\<close>

definition CR :: char where "CR = CHR 0x0D"
definition LF :: char where "LF = CHR 0x0A"

text \<open>
  \<open>scanLinesOrCR\<close>: the number of bytes consumed and the token, if there is one.
\<close>

definition scanLinesOrCR :: "go_string \<Rightarrow> bool \<Rightarrow> nat \<times> go_string option" where
  "scanLinesOrCR dat atEOF =
     (if atEOF \<and> dat = [] then (0, None)
      else let tok = takeWhile (\<lambda>c. c \<noteq> LF \<and> c \<noteq> CR) dat;
               rest = dropWhile (\<lambda>c. c \<noteq> LF \<and> c \<noteq> CR) dat
           in case rest of
                [] \<Rightarrow> if atEOF then (length dat, Some dat) else (0, None)
              | c # cs \<Rightarrow>
                  if c = CR \<and> cs \<noteq> [] \<and> hd cs = LF then (length tok + 2, Some tok)
                  else (length tok + 1, Some tok))"

text \<open>
  The scanner: it asks for a token of the bytes it holds and, when there is none, for the next read.
  (The limit of 64 KiB on a line is not reached by the progress output.)
\<close>

function scan_held :: "go_string \<Rightarrow> bool \<Rightarrow> go_string list \<times> go_string" where
  "scan_held held atEOF =
     (case scanLinesOrCR held atEOF of
        (n, Some tok) \<Rightarrow>
          (if n = 0 then ([], held)
           else case scan_held (drop n held) atEOF of (ts, left) \<Rightarrow> (tok # ts, left))
      | (n, None) \<Rightarrow> ([], held))"
  by pat_completeness auto

lemma scanLinesOrCR_consumes: "scanLinesOrCR dat eof = (n, Some tok) \<Longrightarrow> 0 < n \<and> dat \<noteq> []"
  by (cases dat) (auto simp: scanLinesOrCR_def Let_def split: list.splits if_splits)

termination scan_held
  by (relation "measure (\<lambda>(held, eof). length held)") (auto dest!: scanLinesOrCR_consumes [OF sym])

declare scan_held.simps [simp del]

fun scan_reads :: "go_string \<Rightarrow> go_string list \<Rightarrow> go_string list" where
  "scan_reads held [] = fst (scan_held held True)"
| "scan_reads held (r # rs) =
     (case scan_held (held @ r) False of (ts, left) \<Rightarrow> ts @ scan_reads left rs)"

subsection \<open>Progress\<close>

text \<open>
  \<open>^(.+?):\\s+([\\d.]+)%\<close>: the shortest non-empty prefix (of a line without newline) that is followed by a
  colon, white space, digits or points, and a percent sign.
\<close>

definition re_space :: "char \<Rightarrow> bool" where
  "re_space c \<longleftrightarrow> c \<in> {CHR 0x09, CHR 0x0A, CHR 0x0C, CHR 0x0D, CHR '' ''}"

definition number_char :: "char \<Rightarrow> bool" where
  "number_char c \<longleftrightarrow> c = CHR ''.'' \<or> char_digit c \<noteq> None"

definition match_number :: "go_string \<Rightarrow> go_string option" where
  "match_number s =
     (let sp = takeWhile re_space s; r = dropWhile re_space s;
          num = takeWhile number_char r; q = dropWhile number_char r
      in if sp \<noteq> [] \<and> num \<noteq> [] \<and> q \<noteq> [] \<and> hd q = CHR ''%'' then Some num else None)"

fun match_pct :: "go_string \<Rightarrow> go_string \<Rightarrow> (go_string \<times> go_string) option" where
  "match_pct acc [] = None"
| "match_pct acc (c # s) =
     (if acc \<noteq> [] \<and> c = CHR '':'' \<and> match_number s \<noteq> None then Some (rev acc, the (match_number s))
      else match_pct (c # acc) s)"

text \<open>
  One line with the time at which it was read: the text kept for error reports, and the reports made.
  \<open>None\<close> is the zero time before the first report.
\<close>

definition report_due :: "time option \<Rightarrow> time \<Rightarrow> float64 \<Rightarrow> bool" where
  "report_due lastCallback now pct \<longleftrightarrow>
     (case lastCallback of None \<Rightarrow> True | Some t \<Rightarrow> 2 * second \<le> time_sub now t) \<or> fround (999 / 10) \<le> pct"

fun parsePAR2Progress ::
  "bool \<Rightarrow> time option \<Rightarrow> (time \<times> go_string) list \<Rightarrow> go_string \<times> (time \<times> go_string \<times> float64) list"
where
  "parsePAR2Progress has_fn lc [] = ([], [])"
| "parsePAR2Progress has_fn lc ((now, raw) # ls) =
     (let line = trim_space raw
      in if line = [] then parsePAR2Progress has_fn lc ls
         else
           (case (if has_fn then match_pct [] line else None) of
              None \<Rightarrow>
                (case parsePAR2Progress has_fn lc ls of (out, cbs) \<Rightarrow> (line @ [LF] @ out, cbs))
            | Some (phase, num) \<Rightarrow>
                (case parse_float num of
                   None \<Rightarrow>
                     (case parsePAR2Progress has_fn lc ls of (out, cbs) \<Rightarrow> (line @ [LF] @ out, cbs))
                 | Some pct \<Rightarrow>
                     if report_due lc now pct then
                       (case parsePAR2Progress has_fn (Some now) ls of
                          (out, cbs) \<Rightarrow> (line @ [LF] @ out, (now, trim_space phase, pct) # cbs))
                     else
                       (case parsePAR2Progress has_fn lc ls of (out, cbs) \<Rightarrow> (line @ [LF] @ out, cbs)))))"

subsection \<open>No line of the output is lost\<close>

abbreviation line_end :: "char \<Rightarrow> bool" where
  "line_end c \<equiv> c = LF \<or> c = CR"

lemma fields_token:
  assumes "\<forall>c\<in>set tok. \<not> p c" "p d"
  shows "fields_func p (tok @ d # s) = (if tok = [] then [] else [tok]) @ fields_func p s"
  using fields_aux_word [OF assms(1), of "[]" "d # s"] assms(2) by (simp add: fields_func_def)

lemma fields_skip: "p d \<Longrightarrow> fields_func p (d # s) = fields_func p s"
  using fields_token [of "[]" p d s] by simp

text \<open>A token and what ends it.\<close>

lemma scanLinesOrCR_append:
  assumes "\<forall>x\<in>set t. \<not> line_end x" "line_end c"
  shows "scanLinesOrCR (t @ c # cs) eof =
    (if c = CR \<and> cs \<noteq> [] \<and> hd cs = LF then (length t + 2, Some t) else (length t + 1, Some t))"
proof -
  have w: "takeWhile (\<lambda>c. c \<noteq> LF \<and> c \<noteq> CR) (t @ c # cs) = t" "dropWhile (\<lambda>c. c \<noteq> LF \<and> c \<noteq> CR) (t @ c # cs) = c # cs"
    using assms by (auto simp: takeWhile_append dropWhile_append takeWhile_eq_all_conv dropWhile_eq_Nil_conv)
  show ?thesis unfolding scanLinesOrCR_def Let_def w by simp
qed

lemma scanLinesOrCR_plain:
  assumes "\<forall>x\<in>set dat. \<not> line_end x"
  shows "scanLinesOrCR dat eof = (if eof \<and> dat \<noteq> [] then (length dat, Some dat) else (0, None))"
proof -
  have d: "dropWhile (\<lambda>c. c \<noteq> LF \<and> c \<noteq> CR) dat = []" using assms by (simp add: dropWhile_eq_Nil_conv)
  show ?thesis unfolding scanLinesOrCR_def Let_def d by simp
qed

lemma scanLinesOrCR_cases:
  assumes "scanLinesOrCR dat eof = (n, Some tok)"
  obtains (ended) "\<And>s. fields_func line_end (dat @ s) = (if tok = [] then [] else [tok]) @ fields_func line_end (drop n dat @ s)"
  | (open_end) "eof" "tok = dat" "n = length dat" "\<forall>c\<in>set dat. \<not> line_end c" "dat \<noteq> []"
proof (cases "\<exists>x\<in>set dat. line_end x")
  case False
  then have plain: "\<forall>x\<in>set dat. \<not> line_end x" by blast
  show ?thesis using assms scanLinesOrCR_plain [OF plain, of eof] plain by (intro open_end) (auto split: if_splits)
next
  case True
  then obtain t c cs where dat: "dat = t @ c # cs" and c: "line_end c" and t: "\<forall>x\<in>set t. \<not> line_end x"
    using split_list_first_prop [of dat line_end] by blast
  have f: "fields_func line_end (dat @ s) = (if t = [] then [] else [t]) @ fields_func line_end (cs @ s)" for s
    using fields_token [of t line_end c "cs @ s", OF t c] dat by simp
  show ?thesis
  proof (cases "c = CR \<and> cs \<noteq> [] \<and> hd cs = LF")
    case True
    then obtain cs' where cs: "cs = LF # cs'" by (cases cs) auto
    have nt: "n = length t + 2" "tok = t" using assms scanLinesOrCR_append [OF t c, of cs eof] True dat by auto
    have "drop n dat = cs'" by (simp add: nt dat cs)
    moreover have "fields_func line_end (cs @ s) = fields_func line_end (cs' @ s)" for s
      using fields_skip [of line_end LF "cs' @ s"] by (simp add: cs)
    ultimately show ?thesis using f nt(2) by (intro ended) simp
  next
    case False
    have nt: "n = length t + 1" "tok = t" using assms scanLinesOrCR_append [OF t c, of cs eof] False dat by auto
    have "drop n dat = cs" by (simp add: nt dat)
    then show ?thesis using f nt(2) by (intro ended) simp
  qed
qed

lemma scan_held_more:
  "scan_held held False = (ts, left) \<Longrightarrow>
     fields_func line_end (held @ s) = filter (\<lambda>x. x \<noteq> []) ts @ fields_func line_end (left @ s)"
proof (induction "length held" arbitrary: held ts rule: less_induct)
  case less
  show ?case
  proof (cases "scanLinesOrCR held False")
    case (Pair n t)
    show ?thesis
    proof (cases t)
      case None
      with less.prems Pair show ?thesis by (simp add: scan_held.simps [of held])
    next
      case (Some tok)
      with Pair have sc: "scanLinesOrCR held False = (n, Some tok)" by simp
      note pos = scanLinesOrCR_consumes [OF sc]
      obtain us where us: "scan_held (drop n held) False = (us, left)" "ts = tok # us"
        using less.prems sc pos by (auto simp: scan_held.simps [of held] split: prod.splits)
      have "length (drop n held) < length held" using pos by (cases held) auto
      from less.hyps [OF this us(1)] us(2) show ?thesis
        by (cases rule: scanLinesOrCR_cases [OF sc]) auto
    qed
  qed
qed

lemma scan_held_last:
  "filter (\<lambda>x. x \<noteq> []) (fst (scan_held held True)) = fields_func line_end held"
proof (induction "length held" arbitrary: held rule: less_induct)
  case less
  show ?case
  proof (cases "held = []")
    case True
    have "scan_held [] True = ([], [])" by (subst scan_held.simps) (simp add: scanLinesOrCR_def)
    with True show ?thesis by (simp add: fields_func_def)
  next
    case False
    obtain n tok where sc: "scanLinesOrCR held True = (n, Some tok)"
    proof (cases "\<exists>x\<in>set held. line_end x")
      case True
      then obtain t c cs where "held = t @ c # cs" "line_end c" "\<forall>x\<in>set t. \<not> line_end x"
        using split_list_first_prop [of held line_end] by blast
      with scanLinesOrCR_append [of t c cs True] that show ?thesis by (auto split: if_splits)
    next
      case no_end: False
      with False scanLinesOrCR_plain [of held True] that show ?thesis by auto
    qed
    note pos = scanLinesOrCR_consumes [OF sc]
    have s: "fst (scan_held held True) = tok # fst (scan_held (drop n held) True)"
      using sc pos by (simp add: scan_held.simps [of held] split: prod.splits)
    have "length (drop n held) < length held" using pos by (cases held) auto
    note IH = less.hyps [OF this]
    from sc show ?thesis
    proof (cases rule: scanLinesOrCR_cases)
      case ended
      from ended [of "[]"] show ?thesis using s IH by simp
    next
      case open_end
      moreover have "fields_func line_end held = [held]"
        using open_end by (intro fields_func_no_sep) auto
      moreover have "fields_func line_end [] = []" by (simp add: fields_func_def)
      ultimately show ?thesis using s IH by simp
    qed
  qed
qed

text \<open>
  C37. Reading the tool's output. However the pipe cuts the output into reads, even between a carriage
  return and its newline, the non-empty lines that are read are exactly the stretches of the
  output between carriage returns and newlines, in order.
\<close>

theorem scan_reads_lines:
  "filter (\<lambda>x. x \<noteq> []) (scan_reads held rs) = fields_func (\<lambda>c. c = LF \<or> c = CR) (held @ concat rs)"
proof (induction rs arbitrary: held)
  case Nil
  then show ?case by (simp add: scan_held_last)
next
  case (Cons r rs)
  obtain ts left where h: "scan_held (held @ r) False = (ts, left)" by (cases "scan_held (held @ r) False")
  with scan_held_more [OF h, of "concat rs"] Cons.IH [of left] show ?case by simp
qed

subsection \<open>Progress reports\<close>

text \<open>Every non-empty line is kept for the error report.\<close>

lemma parse_keeps_output:
  "fst (parsePAR2Progress f lc ls) =
     concat (map (\<lambda>l. l @ [LF]) (filter (\<lambda>l. l \<noteq> []) (map (\<lambda>(t, raw). trim_space raw) ls)))"
  by (induction f lc ls rule: parsePAR2Progress.induct)
    (auto simp: Let_def split: option.splits prod.splits)

fun spaced :: "time option \<Rightarrow> (time \<times> go_string \<times> float64) list \<Rightarrow> bool" where
  "spaced lc [] = True"
| "spaced lc ((t, phase, pct) # cbs) = (report_due lc t pct \<and> spaced (Some t) cbs)"

lemma parse_spaced: "spaced lc (snd (parsePAR2Progress f lc ls))"
  by (induction f lc ls rule: parsePAR2Progress.induct)
    (auto simp: Let_def split: option.splits prod.splits)

lemma spaced_nth:
  "spaced lc cbs \<Longrightarrow> Suc i < length cbs \<Longrightarrow> cbs ! i = (t, ph, p) \<Longrightarrow> cbs ! Suc i = (t', ph', p') \<Longrightarrow>
     report_due (Some t) t' p'"
proof (induction lc cbs arbitrary: i rule: spaced.induct)
  case (2 lc a b c cbs)
  show ?case
  proof (cases i)
    case 0
    with 2 show ?thesis by (cases cbs) auto
  next
    case (Suc j)
    with 2 show ?thesis by simp
  qed
qed simp

text \<open>
  Reports of one run are at least two seconds apart, unless the later one says the
  phase is practically complete; every non-empty line is kept for the error report.
\<close>

theorem progress_throttled:
  assumes "snd (parsePAR2Progress f None ls) = cbs" "Suc i < length cbs"
    and "cbs ! i = (t, ph, p)" "cbs ! Suc i = (t', ph', p')" "p' < fround (999 / 10)"
  shows "2 * second \<le> time_sub t' t"
proof -
  have "spaced None cbs" using parse_spaced assms(1) by blast
  from spaced_nth [OF this assms(2-4)] assms(5) show ?thesis by (auto simp: report_due_def)
qed

subsection \<open>What is protected\<close>

lemma protected_files_ok:
  "protected_files es = Inr fs \<Longrightarrow>
     clean_walk es \<and> fs = map fe_rel (filter (\<lambda>e. \<not> fe_dir e \<and> \<not> is_par2_name (fe_rel e)) es)"
  by (induction es arbitrary: fs) (auto split: option.splits if_splits sum.splits)

text \<open>
  A run that succeeds has given the tool a command, in the staged directory, that ends
  with every file there that is not itself a recovery file, with a positive redundancy and block
  size whatever the settings were, and returns the recovery files found afterwards.
\<close>

theorem GeneratePAR2_protects_all:
  assumes "GeneratePAR2 tool bin dir es baseName opts = Inr out"
  shows "\<exists>cmd names pre. tool cmd = Inr names \<and> cmd_Dir cmd = dir \<and>
    cmd_Args cmd = pre @ map fe_rel (filter (\<lambda>e. \<not> fe_dir e \<and> \<not> is_par2_name (fe_rel e)) es) \<and>
    out = map (\<lambda>n. path_join [dir, n]) (filter is_par2_name names) \<and>
    0 < Redundancy (default_options opts) \<and> 0 < BlockSize (default_options opts)"
proof -
  from assms obtain fs names where fs: "protected_files es = Inr fs"
    and run: "tool (par2_command bin dir baseName (default_options opts) fs) = Inr names"
    and out: "out = map (\<lambda>n. path_join [dir, n]) (filter is_par2_name names)"
    by (auto simp: GeneratePAR2_def Let_def split: sum.splits if_splits)
  let ?cmd = "par2_command bin dir baseName (default_options opts) fs"
  have "cmd_Dir ?cmd = dir" "\<exists>pre. cmd_Args ?cmd = pre @ fs"
    by (cases bin; simp add: par2_command_def buildParparCmd_def buildPar2createCmd_def)+
  moreover have "0 < Redundancy (default_options opts)" "0 < BlockSize (default_options opts)"
    by (simp_all add: default_options_def Let_def)
  ultimately show ?thesis using run out protected_files_ok [OF fs] by blast
qed

end
