(* ===== verification/Go_Utf8.thy ===== *)
theory Go_Utf8
  imports Go_Strings
begin

text \<open>
  Go's view of a string as UTF-8: \<open>utf8.DecodeRune\<close>, the runes of a string with the bytes each was
  read from, and the replacement of invalid bytes by U+FFFD that the encoders of \<open>encoding/xml\<close> and
  \<open>encoding/json\<close> make.
\<close>

subsection \<open>Decoding\<close>

definition RuneError :: int where
  "RuneError = 0xFFFD"

definition fffd :: go_string where
  "fffd = [CHR 0xEF, CHR 0xBF, CHR 0xBD]"

text \<open>What a first byte asks for: how many bytes follow, the range of the second, and its own bits.\<close>

definition utf8_lead :: "int \<Rightarrow> (nat \<times> int \<times> int \<times> int) option" where
  "utf8_lead b =
     (if 0xC2 \<le> b \<and> b \<le> 0xDF then Some (1, 0x80, 0xBF, b - 0xC0)
      else if b = 0xE0 then Some (2, 0xA0, 0xBF, b - 0xE0)
      else if b = 0xED then Some (2, 0x80, 0x9F, b - 0xE0)
      else if 0xE1 \<le> b \<and> b \<le> 0xEF then Some (2, 0x80, 0xBF, b - 0xE0)
      else if b = 0xF0 then Some (3, 0x90, 0xBF, b - 0xF0)
      else if b = 0xF4 then Some (3, 0x80, 0x8F, b - 0xF0)
      else if 0xF1 \<le> b \<and> b \<le> 0xF3 then Some (3, 0x80, 0xBF, b - 0xF0)
      else None)"

definition utf8_tail :: "nat \<Rightarrow> int \<Rightarrow> int \<Rightarrow> int list \<Rightarrow> bool" where
  "utf8_tail k lo hi t \<longleftrightarrow>
     length t = k \<and> lo \<le> hd t \<and> hd t \<le> hi \<and> list_all (\<lambda>x. 0x80 \<le> x \<and> x \<le> 0xBF) (tl t)"

text \<open>The rune at the start of a non-empty string, and its width; an invalid byte is one \<open>RuneError\<close> of width 1.\<close>

fun DecodeRune :: "go_string \<Rightarrow> int \<times> nat" where
  "DecodeRune [] = (RuneError, 0)"
| "DecodeRune (c # s) =
     (let b = of_char c in
      if b < 0x80 then (b, 1)
      else case utf8_lead b of
             None \<Rightarrow> (RuneError, 1)
           | Some (k, lo, hi, r) \<Rightarrow>
               (let t = map of_char (take k s)
                in if utf8_tail k lo hi t then (foldl (\<lambda>a x. a * 64 + (x - 0x80)) r t, Suc k) else (RuneError, 1)))"

text \<open>A loop \<open>for len(s) > 0 { r, w := utf8.DecodeRune(s); s = s[w:] }\<close>: each rune with its bytes.\<close>

function runes :: "go_string \<Rightarrow> (int \<times> go_string) list" where
  "runes [] = []"
| "runes (c # s) =
     (case DecodeRune (c # s) of (r, w) \<Rightarrow> (r, take w (c # s)) # runes (drop w (c # s)))"
  by pat_completeness auto

lemma DecodeRune_width: "DecodeRune (c # s) = (r, w) \<Longrightarrow> 1 \<le> w \<and> w \<le> Suc (length s)"
  by (auto simp: Let_def utf8_tail_def split: option.splits if_splits prod.splits)

termination runes
  by (relation "measure length") (auto simp del: DecodeRune.simps dest!: DecodeRune_width [OF sym])

text \<open>A byte that decodes as no rune: \<open>r == utf8.RuneError && width == 1\<close>.\<close>

definition bad_rune :: "int \<times> go_string \<Rightarrow> bool" where
  "bad_rune x \<longleftrightarrow> fst x = RuneError \<and> length (snd x) = 1"

definition valid_utf8 :: "go_string \<Rightarrow> bool" where
  "valid_utf8 s \<longleftrightarrow> list_all (\<lambda>x. \<not> bad_rune x) (runes s)"

text \<open>What an encoder that replaces bad bytes makes of a string.\<close>

definition to_valid_utf8 :: "go_string \<Rightarrow> go_string" where
  "to_valid_utf8 s = concat (map (\<lambda>x. if bad_rune x then fffd else snd x) (runes s))"

subsection \<open>Laws\<close>

lemma runes_bytes: "concat (map snd (runes s)) = s"
proof (induction s rule: runes.induct)
  case (2 c s)
  obtain r w where "DecodeRune (c # s) = (r, w)" by fastforce
  with 2 [OF this [symmetric]] show ?case by (simp del: DecodeRune.simps)
qed simp

lemma to_valid_utf8_id: "valid_utf8 s \<Longrightarrow> to_valid_utf8 s = s"
proof -
  assume "valid_utf8 s"
  then have "map (\<lambda>x. if bad_rune x then fffd else snd x) (runes s) = map snd (runes s)"
    by (auto simp: valid_utf8_def list_all_iff)
  then show ?thesis using runes_bytes [of s] by (simp only: to_valid_utf8_def)
qed

lemma runes_ascii [simp]: "(of_char c :: int) < 0x80 \<Longrightarrow> runes (c # s) = (of_char c, [c]) # runes s"
  by simp

lemma valid_ascii: "\<forall>c\<in>set s. (of_char c :: int) < 0x80 \<Longrightarrow> valid_utf8 s"
  by (induction s) (simp_all add: valid_utf8_def bad_rune_def RuneError_def del: runes.simps(2))

text \<open>The bytes of a rune: one ASCII byte, or bytes that are all above.\<close>

lemma rune_bytes:
  assumes "x \<in> set (runes s)"
  shows "(\<exists>c. (of_char c :: int) < 0x80 \<and> x = (of_char c, [c])) \<or>
    snd x \<noteq> [] \<and> (\<forall>c\<in>set (snd x). 0x80 \<le> (of_char c :: int))"
  using assms
proof (induction s rule: runes.induct)
  case (2 c s)
  obtain r w where d: "DecodeRune (c # s) = (r, w)" by fastforce
  have head: "(\<exists>c'. (of_char c' :: int) < 0x80 \<and> (r, take w (c # s)) = (of_char c', [c'])) \<or>
      take w (c # s) \<noteq> [] \<and> (\<forall>c'\<in>set (take w (c # s)). 0x80 \<le> (of_char c' :: int))"
  proof (cases "(of_char c :: int) < 0x80")
    case True
    with d show ?thesis by auto
  next
    case False
    then have c: "0x80 \<le> (of_char c :: int)" by simp
    consider "w = 1" | k lo hi r0 where "utf8_lead (of_char c) = Some (k, lo, hi, r0)"
        "utf8_tail k lo hi (map of_char (take k s))" "w = Suc k"
      using d False by (auto simp: Let_def split: option.splits if_splits prod.splits)
    then show ?thesis
    proof cases
      case 2
      have "0x80 \<le> lo" "0 < k" using 2(1) by (auto simp: utf8_lead_def split: if_splits)
      then have "\<forall>c'\<in>set (take k s). 0x80 \<le> (of_char c' :: int)"
        using 2(2) by (cases "take k s") (auto simp: utf8_tail_def list_all_iff)
      with c 2(3) show ?thesis by simp
    qed (use c in simp)
  qed
  with 2 d show ?case by (auto simp del: DecodeRune.simps)
qed simp

lemma utf8_value: "utf8_lead b = Some (k, lo, hi, r) \<Longrightarrow> utf8_tail k lo hi t \<Longrightarrow> 0x80 \<le> foldl (\<lambda>a x. a * 64 + (x - 0x80)) r t"
proof -
  assume l: "utf8_lead b = Some (k, lo, hi, r)" and t: "utf8_tail k lo hi t"
  obtain x ys where ys: "t = x # ys" using l t by (cases t) (auto simp: utf8_lead_def utf8_tail_def split: if_splits)
  have grow: "a \<le> foldl (\<lambda>a x. a * 64 + (x - 0x80)) a zs" if "0 \<le> a" "\<forall>z\<in>set zs. 0x80 \<le> z" for a :: int and zs
    using that
  proof (induction zs arbitrary: a)
    case (Cons z zs)
    then have "a \<le> a * 64 + (z - 0x80)" "0 \<le> a * 64 + (z - 0x80)" by auto
    with Cons.IH [of "a * 64 + (z - 0x80)"] Cons.prems show ?case by fastforce
  qed simp
  let ?a = "r * 64 + (x - 0x80)"
  have "0x80 \<le> ?a \<or> ys \<noteq> [] \<and> 2 \<le> ?a"
    using l t ys by (auto simp: utf8_lead_def utf8_tail_def split: if_splits)
  then show ?thesis
  proof (elim disjE conjE)
    assume "0x80 \<le> ?a"
    with grow [of ?a ys] t ys show ?thesis by (auto simp: utf8_tail_def list_all_iff)
  next
    assume "ys \<noteq> []" "2 \<le> ?a"
    then obtain y zs where yz: "ys = y # zs" by (cases ys) auto
    then have "0x80 \<le> ?a * 64 + (y - 0x80)" "\<forall>z\<in>set zs. 0x80 \<le> z"
      using t ys \<open>2 \<le> ?a\<close> by (auto simp: utf8_tail_def list_all_iff)
    with grow [of "?a * 64 + (y - 0x80)" zs] ys yz show ?thesis by simp
  qed
qed

lemma rune_value:
  assumes "x \<in> set (runes s)" "\<forall>c\<in>set (snd x). 0x80 \<le> (of_char c :: int)" "snd x \<noteq> []"
  shows "0x80 \<le> fst x"
  using assms
proof (induction s rule: runes.induct)
  case (2 c s)
  obtain r w where d: "DecodeRune (c # s) = (r, w)" by fastforce
  have "0x80 \<le> r" if "x = (r, take w (c # s))"
  proof -
    have "c \<in> set (snd x)" using 2(4) that by (cases w) auto
    then have c: "\<not> (of_char c :: int) < 0x80" using 2(3) by auto
    with d show ?thesis using utf8_value by (auto simp: Let_def RuneError_def split: option.splits if_splits prod.splits)
  qed
  with 2 d show ?case by (auto simp del: DecodeRune.simps)
qed simp

text \<open>The runes of a valid string are not changed by what follows.\<close>

lemma DecodeRune_append:
  "DecodeRune (c # s) = (r, w) \<Longrightarrow> \<not> (r = RuneError \<and> w = 1) \<Longrightarrow> DecodeRune (c # s @ t) = (r, w)"
proof -
  assume d: "DecodeRune (c # s) = (r, w)" and ok: "\<not> (r = RuneError \<and> w = 1)"
  show ?thesis
  proof (cases "(of_char c :: int) < 0x80")
    case True
    with d show ?thesis by simp
  next
    case False
    obtain k lo hi r0 where l: "utf8_lead (of_char c) = Some (k, lo, hi, r0)"
      and t: "utf8_tail k lo hi (map of_char (take k s))"
      using d ok False by (auto simp: Let_def split: option.splits if_splits prod.splits)
    then have "length (take k s) = k" by (simp add: utf8_tail_def)
    then have "take k (s @ t) = take k s" by auto
    with d l False show ?thesis by (simp only: DecodeRune.simps Let_def if_False option.case prod.case)
  qed
qed

lemma runes_append:
  "valid_utf8 s \<Longrightarrow> runes (s @ t) = runes s @ runes t"
proof (induction s rule: runes.induct)
  case (2 c s)
  obtain r w where d: "DecodeRune (c # s) = (r, w)" by fastforce
  have w: "w \<le> length (c # s)" "1 \<le> w" using DecodeRune_width [OF d] by auto
  have rs: "runes (c # s) = (r, take w (c # s)) # runes (drop w (c # s))" using d by (simp del: DecodeRune.simps)
  have v: "\<not> bad_rune (r, take w (c # s))" "valid_utf8 (drop w (c # s))"
    using 2(2) by (simp_all add: valid_utf8_def rs del: runes.simps)
  have "length (take w (c # s)) = w" using w by simp
  then have "\<not> (r = RuneError \<and> w = 1)" using v(1) by (auto simp: bad_rune_def)
  from DecodeRune_append [OF d this]
  have "runes ((c # s) @ t) = (r, take w ((c # s) @ t)) # runes (drop w ((c # s) @ t))"
    by (simp del: DecodeRune.simps)
  also have "\<dots> = (r, take w (c # s)) # runes (drop w (c # s) @ t)"
    unfolding take_append drop_append using w(1) by (simp only: diff_is_0_eq' take_0 drop_0 append_Nil2)
  also have "runes (drop w (c # s) @ t) = runes (drop w (c # s)) @ runes t"
    using 2(1) [OF d [symmetric] v(2)] .
  finally show ?case by (simp only: rs append_Cons)
qed simp

lemma valid_append: "valid_utf8 s \<Longrightarrow> valid_utf8 t \<Longrightarrow> valid_utf8 (s @ t)"
  by (simp add: valid_utf8_def runes_append [unfolded valid_utf8_def])

end
