(* ===== verification/Nzb_File.thy ===== *)
theory Nzb_File
  imports Nntp_Upload Layered_Config Go_Utf8
begin

text \<open>
  The NZB that describes an upload: \<open>src/services/nzb.go\<close>, with the part of \<open>encoding/xml\<close> it uses (an
  indented document of elements with attributes and text). The encoder works on the runes of a text:
  what is no valid UTF-8, and what is no character of XML, becomes U+FFFD. It writes to a buffer
  and has no failing case on these types, so the functions return the document itself. A reader
  for such documents shows that nothing of the upload is lost when its texts can be carried.
\<close>

subsection \<open>Documents\<close>

datatype xml =
    Elem go_string "(go_string \<times> go_string) list" "xml list"
  | Leaf go_string "(go_string \<times> go_string) list" go_string

text \<open>\<open>isInCharacterRange\<close> and \<open>escapeText\<close>, on the runes with the bytes they were read from.\<close>

definition xml_range :: "int \<Rightarrow> bool" where
  "xml_range r \<longleftrightarrow> r = 0x09 \<or> r = 0x0A \<or> r = 0x0D \<or> 0x20 \<le> r \<and> r \<le> 0xD7FF \<or> 0xE000 \<le> r \<and> r \<le> 0xFFFD \<or>
     0x10000 \<le> r \<and> r \<le> 0x10FFFF"

definition esc_rune :: "int \<times> go_string \<Rightarrow> go_string" where
  "esc_rune x =
     (let r = fst x in
      if r = 0x22 then ''&#34;'' else if r = 0x27 then ''&#39;'' else if r = 0x26 then ''&amp;''
      else if r = 0x3C then ''&lt;'' else if r = 0x3E then ''&gt;'' else if r = 0x09 then ''&#x9;''
      else if r = 0x0A then ''&#xA;'' else if r = 0x0D then ''&#xD;''
      else if \<not> xml_range r \<or> bad_rune x then fffd else snd x)"

definition escape :: "go_string \<Rightarrow> go_string" where
  "escape s = concat (map esc_rune (runes s))"

definition attr_text :: "go_string \<times> go_string \<Rightarrow> go_string" where
  "attr_text kv = '' '' @ fst kv @ ''='' @ [CHR 0x22] @ escape (snd kv) @ [CHR 0x22]"

definition open_tag :: "go_string \<Rightarrow> (go_string \<times> go_string) list \<Rightarrow> go_string" where
  "open_tag n as = n @ concat (map attr_text as)"

definition nl_indent :: "nat \<Rightarrow> go_string" where
  "nl_indent d = CHR 0x0A # concat (replicate d ''  '')"

text \<open>\<open>Indent("", "  ")\<close>: an element that only holds text, or nothing, stays on one line.\<close>

fun print_xml :: "nat \<Rightarrow> xml \<Rightarrow> go_string" where
  "print_xml d (Leaf n as t) = ''<'' @ open_tag n as @ ''>'' @ escape t @ ''</'' @ n @ ''>''"
| "print_xml d (Elem n as xs) =
     ''<'' @ open_tag n as @ ''>'' @
     (if xs = [] then [] else concat (map (\<lambda>x. nl_indent (Suc d) @ print_xml (Suc d) x) xs) @ nl_indent d) @
     ''</'' @ n @ ''>''"

subsection \<open>The NZB\<close>

definition group_sep :: "char \<Rightarrow> bool" where
  "group_sep c \<longleftrightarrow> c \<in> {CHR '','', CHR '' '', CHR 0x09, CHR 0x0A, CHR 0x0D}"

definition splitNNTPGroups :: "go_string \<Rightarrow> go_string list" where
  "splitNNTPGroups s =
     (let out = filter (\<lambda>p. p \<noteq> []) (map trim_space (fields_func group_sep s))
      in if out = [] then [s] else out)"

record nzb_meta =
  meta_Type :: go_string
  meta_Value :: go_string

record nzb_file =
  nf_Poster :: go_string
  nf_Date :: int
  nf_Subject :: go_string
  nf_Groups :: "go_string list"
  nf_Segments :: "nzb_segment list"

record nzb =
  Xmlns :: go_string
  Head :: "nzb_meta list"
  Files :: "nzb_file list"

record nzb_meta_info =
  mi_Title :: go_string
  mi_RequestID :: int

definition segment_xml :: "nzb_segment \<Rightarrow> xml" where
  "segment_xml g =
     Leaf ''segment'' [(''bytes'', int_str (Bytes g)), (''number'', int_str (seg_Number g))] (MessageID g)"

definition file_xml :: "nzb_file \<Rightarrow> xml" where
  "file_xml f =
     Elem ''file'' [(''poster'', nf_Poster f), (''date'', int_str (nf_Date f)), (''subject'', nf_Subject f)]
       [Elem ''groups'' [] (map (Leaf ''group'' []) (nf_Groups f)),
        Elem ''segments'' [] (map segment_xml (nf_Segments f))]"

text \<open>\<open>head>meta,omitempty\<close>: no \<open>head\<close> element for an empty list.\<close>

definition nzb_xml :: "nzb \<Rightarrow> xml" where
  "nzb_xml z =
     Elem ''nzb'' [(''xmlns'', Xmlns z)]
       ((if Head z = [] then []
         else [Elem ''head'' [] (map (\<lambda>m. Leaf ''meta'' [(''type'', meta_Type m)] (meta_Value m)) (Head z))]) @
        map file_xml (Files z))"

definition nzb_head :: "agent_config \<Rightarrow> go_string \<Rightarrow> nzb_meta_info \<Rightarrow> nzb_meta list" where
  "nzb_head cfg password mi =
     [\<lparr>meta_Type = ''x-generator'', meta_Value = GeneratorName cfg\<rparr>] @
     (if mi_Title mi \<noteq> [] then [\<lparr>meta_Type = ''title'', meta_Value = mi_Title mi\<rparr>] else []) @
     (if 0 < mi_RequestID mi \<and> SiteURL cfg \<noteq> [] then
        [\<lparr>meta_Type = ''x-info-url'', meta_Value = SiteURL cfg @ ''/release/'' @ int_str (mi_RequestID mi)\<rparr>]
      else []) @
     (if password \<noteq> [] then [\<lparr>meta_Type = ''password'', meta_Value = password\<rparr>] else [])"

definition nzb_of ::
  "agent_config \<Rightarrow> int \<Rightarrow> file_segments list \<Rightarrow> go_string \<Rightarrow> nzb_meta_info \<Rightarrow> nzb" where
  "nzb_of cfg now fs password mi =
     \<lparr>Xmlns = ''http://www.newzbin.com/DTD/2003/nzb'', Head = nzb_head cfg password mi,
      Files = map (\<lambda>f. \<lparr>nf_Poster = c_NNTPPoster cfg, nf_Date = now, nf_Subject = fs_FileName f,
                        nf_Groups = splitNNTPGroups (c_NNTPGroup cfg), nf_Segments = fs_Segments f\<rparr>) fs\<rparr>"

definition xml_header :: go_string where
  "xml_header =
     ''<?xml version='' @ [CHR 0x22] @ ''1.0'' @ [CHR 0x22] @ '' encoding='' @ [CHR 0x22] @ ''UTF-8'' @
     [CHR 0x22] @ ''?>'' @ [CHR 0x0A]"

text \<open>The comment holds the generator's name as it is. \<open>now\<close> is the time in seconds.\<close>

definition CreateMultiFileNZBBytes ::
  "agent_config \<Rightarrow> int \<Rightarrow> file_segments list \<Rightarrow> go_string \<Rightarrow> nzb_meta_info \<Rightarrow> go_string" where
  "CreateMultiFileNZBBytes cfg now fs password mi =
     xml_header @ ''<!-- NZB Generated by '' @ GeneratorName cfg @ '' -->'' @ [CHR 0x0A] @
     print_xml 0 (nzb_xml (nzb_of cfg now fs password mi))"

definition CreateNZBBytes :: "agent_config \<Rightarrow> int \<Rightarrow> go_string \<Rightarrow> nzb_segment list \<Rightarrow> go_string" where
  "CreateNZBBytes cfg now subject segs =
     CreateMultiFileNZBBytes cfg now [\<lparr>fs_FileName = subject, fs_Segments = segs\<rparr>] []
       \<lparr>mi_Title = [], mi_RequestID = 0\<rparr>"

text \<open>\<open>write\<close> is what \<open>os.WriteFile\<close> answers; the file holds the document when it succeeds.\<close>

definition CreateNZB ::
  "(go_string \<Rightarrow> go_string \<Rightarrow> go_string option) \<Rightarrow> agent_config \<Rightarrow> int \<Rightarrow> go_string \<Rightarrow> go_string \<Rightarrow>
     nzb_segment list \<Rightarrow> go_string option" where
  "CreateNZB write cfg now nzbPath subject segs = write nzbPath (CreateNZBBytes cfg now subject segs)"

subsection \<open>A reader\<close>

datatype tok = Tag go_string | Txt go_string

definition text_tok :: "go_string \<Rightarrow> tok list" where
  "text_tok t = (if t = [] then [] else [Txt t])"

fun lex_xml :: "bool \<Rightarrow> go_string \<Rightarrow> go_string \<Rightarrow> tok list" where
  "lex_xml b acc [] = text_tok (rev acc)"
| "lex_xml False acc (c # s) = (if c = CHR ''<'' then text_tok (rev acc) @ lex_xml True [] s else lex_xml False (c # acc) s)"
| "lex_xml True acc (c # s) = (if c = CHR ''>'' then Tag (rev acc) # lex_xml False [] s else lex_xml True (c # acc) s)"

definition entity :: "go_string \<Rightarrow> go_string" where
  "entity e =
     (if e = ''#34'' then [CHR 0x22] else if e = ''#39'' then [CHR 0x27] else if e = ''amp'' then ''&''
      else if e = ''lt'' then ''<'' else if e = ''gt'' then ''>'' else if e = ''#x9'' then [CHR 0x09]
      else if e = ''#xA'' then [CHR 0x0A] else if e = ''#xD'' then [CHR 0x0D] else ''&'' @ e @ '';'')"

fun unesc :: "go_string option \<Rightarrow> go_string \<Rightarrow> go_string" where
  "unesc a [] = []"
| "unesc None (c # s) = (if c = CHR ''&'' then unesc (Some []) s else c # unesc None s)"
| "unesc (Some e) (c # s) = (if c = CHR '';'' then entity (rev e) @ unesc None s else unesc (Some (c # e)) s)"

abbreviation unescape :: "go_string \<Rightarrow> go_string" where
  "unescape \<equiv> unesc None"

type_synonym element = "go_string \<times> (go_string \<times> go_string) list \<times> go_string"

text \<open>A tag cut at its quotation marks: the name and first key, a value, the next key, and so on.\<close>

fun read_attrs :: "go_string list \<Rightarrow> (go_string \<times> go_string) list" where
  "read_attrs (k # v # ps) =
     (case cut_at (CHR '' '') k of None \<Rightarrow> k | Some (a, b) \<Rightarrow> trim_suffix b ''='', unescape v) # read_attrs ps"
| "read_attrs ps = []"

definition read_tag :: "go_string \<Rightarrow> go_string \<times> (go_string \<times> go_string) list" where
  "read_tag t = (takeWhile (\<lambda>c. c \<noteq> CHR '' '') t, read_attrs (split_char (CHR 0x22) t))"

text \<open>The text that directly follows an opening tag, unless it is indentation.\<close>

fun read_text :: "tok list \<Rightarrow> go_string" where
  "read_text (Txt t # ts) = (if has_prefix t [CHR 0x0A] then [] else unescape t)"
| "read_text ts = []"

definition opens :: "go_string \<Rightarrow> bool" where
  "opens t \<longleftrightarrow> t \<noteq> [] \<and> hd t \<notin> {slash, CHR ''?'', CHR ''!''}"

fun elements :: "tok list \<Rightarrow> element list" where
  "elements [] = []"
| "elements (Txt t # ts) = elements ts"
| "elements (Tag t # ts) =
     (if opens t then (fst (read_tag t), snd (read_tag t), read_text ts) # elements ts else elements ts)"

definition attr_of :: "go_string \<Rightarrow> element \<Rightarrow> go_string" where
  "attr_of k e = (case map_of (fst (snd e)) k of None \<Rightarrow> [] | Some v \<Rightarrow> v)"

definition read_segment :: "element \<Rightarrow> nzb_segment option" where
  "read_segment e =
     (case (parse_int (attr_of ''bytes'' e), parse_int (attr_of ''number'' e)) of
        (Some b, Some n) \<Rightarrow> Some \<lparr>Bytes = b, seg_Number = n, MessageID = snd (snd e)\<rparr>
      | _ \<Rightarrow> None)"

text \<open>Per file: the subject, the groups, and the segments that can be read.\<close>

type_synonym nzb_entry = "go_string \<times> go_string list \<times> nzb_segment list"

fun read_files :: "element list \<Rightarrow> nzb_entry list" where
  "read_files [] = []"
| "read_files (e # es) =
     (if fst e = ''file'' then
        (let own = takeWhile (\<lambda>x. fst x \<noteq> ''file'') es
         in (attr_of ''subject'' e, map (snd \<circ> snd) (filter (\<lambda>x. fst x = ''group'') own),
             List.map_filter read_segment (filter (\<lambda>x. fst x = ''segment'') own))) # read_files es
      else read_files es)"

definition read_password :: "element list \<Rightarrow> go_string option" where
  "read_password es =
     map_option (snd \<circ> snd) (find (\<lambda>e. fst e = ''meta'' \<and> attr_of ''type'' e = ''password'') es)"

definition read_nzb :: "go_string \<Rightarrow> go_string option \<times> nzb_entry list" where
  "read_nzb doc = (let es = elements (lex_xml False [] doc) in (read_password es, read_files es))"

subsection \<open>Escaping is invertible\<close>

text \<open>The texts that come back as they were: valid UTF-8 of characters that XML has.\<close>

definition xml_text :: "go_string \<Rightarrow> bool" where
  "xml_text s \<longleftrightarrow> valid_utf8 s \<and> list_all (\<lambda>x. xml_range (fst x)) (runes s)"

definition plain_char :: "char \<Rightarrow> bool" where
  "plain_char c \<longleftrightarrow> 32 \<le> (of_char c :: int) \<and> (of_char c :: int) < 0x80"

lemma xml_text_append: "xml_text s \<Longrightarrow> xml_text t \<Longrightarrow> xml_text (s @ t)"
  by (simp add: xml_text_def valid_append runes_append)

lemma xml_text_plain: "\<forall>c\<in>set s. plain_char c \<Longrightarrow> xml_text s"
  by (induction s) (auto simp: xml_text_def valid_utf8_def plain_char_def bad_rune_def RuneError_def xml_range_def
      simp del: runes.simps(2))

lemma of_char_specials:
  "(of_char c :: int) = 0x22 \<longleftrightarrow> c = CHR 0x22" "(of_char c :: int) = 0x27 \<longleftrightarrow> c = CHR 0x27"
  "(of_char c :: int) = 0x26 \<longleftrightarrow> c = CHR ''&''" "(of_char c :: int) = 0x3C \<longleftrightarrow> c = CHR ''<''"
  "(of_char c :: int) = 0x3E \<longleftrightarrow> c = CHR ''>''" "(of_char c :: int) = 0x09 \<longleftrightarrow> c = CHR 0x09"
  "(of_char c :: int) = 0x0A \<longleftrightarrow> c = CHR 0x0A" "(of_char c :: int) = 0x0D \<longleftrightarrow> c = CHR 0x0D"
  using of_char_eq_iff [where ?'a = int, of c "CHR 0x22"] of_char_eq_iff [where ?'a = int, of c "CHR 0x27"]
    of_char_eq_iff [where ?'a = int, of c "CHR ''&''"] of_char_eq_iff [where ?'a = int, of c "CHR ''<''"]
    of_char_eq_iff [where ?'a = int, of c "CHR ''>''"] of_char_eq_iff [where ?'a = int, of c "CHR 0x09"]
    of_char_eq_iff [where ?'a = int, of c "CHR 0x0A"] of_char_eq_iff [where ?'a = int, of c "CHR 0x0D"]
  by simp_all

text \<open>The value of a rune of several bytes is none of the escaped ones.\<close>

lemma esc_high_rune:
  assumes "x \<in> set (runes s)" "\<forall>c\<in>set (snd x). 0x80 \<le> (of_char c :: int)" "snd x \<noteq> []"
  shows "esc_rune x = (if \<not> xml_range (fst x) \<or> bad_rune x then fffd else snd x)"
proof -
  have "0x80 \<le> fst x" using assms by (rule rune_value)
  then show ?thesis by (simp add: esc_rune_def)
qed

lemma unesc_plain: "CHR ''&'' \<notin> set t \<Longrightarrow> unescape (t @ s) = t @ unescape s"
  by (induction t) auto

lemma unesc_esc_rune:
  assumes "x \<in> set (runes s)" "xml_range (fst x)" "\<not> bad_rune x"
  shows "unescape (esc_rune x @ t) = snd x @ unescape t"
proof -
  consider (low) c where "(of_char c :: int) < 0x80" "x = (of_char c, [c])"
    | (high) "snd x \<noteq> []" "\<forall>c\<in>set (snd x). 0x80 \<le> (of_char c :: int)"
    using rune_bytes [OF assms(1)] by blast
  then show ?thesis
  proof cases
    case low
    with assms(2,3) show ?thesis by (simp add: esc_rune_def Let_def entity_def of_char_specials)
  next
    case high
    then have "CHR ''&'' \<notin> set (snd x)" by (auto dest: bspec [of _ _ "CHR ''&''"])
    with assms high show ?thesis by (simp add: esc_high_rune unesc_plain)
  qed
qed

lemma unescape_escape:
  assumes "xml_text s"
  shows "unescape (escape s) = s"
proof -
  have "unescape (concat (map esc_rune xs)) = concat (map snd xs)" if "set xs \<subseteq> set (runes s)" for xs
    using that assms
  proof (induction xs)
    case (Cons x xs)
    then have "x \<in> set (runes s)" "xml_range (fst x)" "\<not> bad_rune x"
      by (auto simp: xml_text_def valid_utf8_def list_all_iff)
    with Cons show ?case by (simp add: unesc_esc_rune)
  qed simp
  from this [OF subset_refl] show ?thesis by (simp add: escape_def runes_bytes)
qed

definition plain_output :: "char \<Rightarrow> bool" where
  "plain_output c \<longleftrightarrow> c \<noteq> CHR ''<'' \<and> c \<noteq> CHR ''>'' \<and> c \<noteq> CHR 0x22 \<and> c \<noteq> CHR 0x0A"

lemma esc_low_plain: "list_all plain_output (esc_rune (of_char c, [c]))"
  by (simp add: esc_rune_def Let_def of_char_specials plain_output_def fffd_def)

lemma high_plain: "0x80 \<le> (of_char c :: int) \<Longrightarrow> plain_output c"
  by (auto simp: plain_output_def)

lemma escape_plain:
  assumes "c \<in> set (escape s)"
  shows "c \<noteq> CHR ''<'' \<and> c \<noteq> CHR ''>'' \<and> c \<noteq> CHR 0x22 \<and> c \<noteq> CHR 0x0A"
proof -
  obtain x where x: "x \<in> set (runes s)" "c \<in> set (esc_rune x)" using assms by (auto simp: escape_def)
  have "list_all plain_output (esc_rune x)"
  proof (cases "\<exists>d. x = (of_char d, [d])")
    case True
    then show ?thesis using esc_low_plain by auto
  next
    case False
    then have h: "snd x \<noteq> []" "\<forall>d\<in>set (snd x). 0x80 \<le> (of_char d :: int)" using rune_bytes [OF x(1)] by auto
    then have "list_all plain_output (snd x)" using high_plain by (auto simp: list_all_iff)
    moreover have "list_all plain_output fffd" by (simp add: fffd_def plain_output_def)
    ultimately show ?thesis using esc_high_rune [OF x(1) h(2,1)] by simp
  qed
  with x(2) show ?thesis by (simp add: list_all_iff plain_output_def)
qed

lemma escape_no_newline: "\<not> has_prefix (escape s) [CHR 0x0A]"
proof
  assume "has_prefix (escape s) [CHR 0x0A]"
  then have "CHR 0x0A \<in> set (escape s)" by (auto simp: has_prefix_iff)
  then show False using escape_plain by blast
qed

subsection \<open>Tokens of a printed document\<close>

lemma lex_tag: "CHR ''>'' \<notin> set t \<Longrightarrow> lex_xml True acc (t @ CHR ''>'' # s) = Tag (rev acc @ t) # lex_xml False [] s"
  by (induction t arbitrary: acc) auto

lemma lex_text_aux:
  "CHR ''<'' \<notin> set t \<Longrightarrow> lex_xml False acc (t @ CHR ''<'' # s) = text_tok (rev acc @ t) @ lex_xml True [] s"
  by (induction t arbitrary: acc) auto

lemma lex_text:
  "CHR ''<'' \<notin> set t \<Longrightarrow> lex_xml False [] (t @ CHR ''<'' # s) = text_tok t @ lex_xml False [] (CHR ''<'' # s)"
  by (simp add: lex_text_aux text_tok_def)

fun xml_toks :: "nat \<Rightarrow> xml \<Rightarrow> tok list" where
  "xml_toks d (Leaf n as t) = Tag (open_tag n as) # text_tok (escape t) @ [Tag (slash # n)]"
| "xml_toks d (Elem n as xs) =
     Tag (open_tag n as) #
     (if xs = [] then [] else concat (map (\<lambda>x. Txt (nl_indent (Suc d)) # xml_toks (Suc d) x) xs) @ [Txt (nl_indent d)]) @
     [Tag (slash # n)]"

text \<open>Names that need no care: letters and dashes.\<close>

definition xml_name :: "go_string \<Rightarrow> bool" where
  "xml_name n \<longleftrightarrow> n \<noteq> [] \<and>
     (\<forall>c\<in>set n. c \<notin> {CHR ''<'', CHR ''>'', CHR 0x22, CHR '' '', CHR ''='', CHR ''?'', CHR ''!'', slash})"

fun named :: "xml \<Rightarrow> bool" where
  "named (Leaf n as t) \<longleftrightarrow> xml_name n \<and> (\<forall>kv\<in>set as. xml_name (fst kv) \<and> xml_text (snd kv)) \<and> xml_text t"
| "named (Elem n as xs) \<longleftrightarrow>
     xml_name n \<and> (\<forall>kv\<in>set as. xml_name (fst kv) \<and> xml_text (snd kv)) \<and> (\<forall>x\<in>set xs. named x)"

lemma open_tag_plain:
  "xml_name n \<Longrightarrow> \<forall>kv\<in>set as. xml_name (fst kv) \<Longrightarrow> CHR ''>'' \<notin> set (open_tag n as)"
proof -
  assume n: "xml_name n" and as: "\<forall>kv\<in>set as. xml_name (fst kv)"
  have "CHR ''>'' \<notin> set (attr_text kv)" if "kv \<in> set as" for kv
    using escape_plain [of "CHR ''>''" "snd kv"] as that by (auto simp: attr_text_def xml_name_def)
  with n show ?thesis by (auto simp: open_tag_def xml_name_def)
qed

lemma nl_indent_plain: "CHR ''<'' \<notin> set (nl_indent d)" "nl_indent d \<noteq> []"
  by (auto simp: nl_indent_def)

lemma lex_open:
  "xml_name n \<Longrightarrow> \<forall>kv\<in>set as. xml_name (fst kv) \<Longrightarrow>
     lex_xml False [] (CHR ''<'' # open_tag n as @ CHR ''>'' # s) = Tag (open_tag n as) # lex_xml False [] s"
  using lex_tag [OF open_tag_plain, of n as "[]" s] by (simp add: text_tok_def)

lemma lex_close:
  "xml_name n \<Longrightarrow> lex_xml False [] (CHR ''<'' # slash # n @ CHR ''>'' # s) = Tag (slash # n) # lex_xml False [] s"
  using lex_tag [of "slash # n" "[]" s] by (auto simp: text_tok_def xml_name_def slash_def)

lemma print_xml_hd: "\<exists>s. print_xml d x = CHR ''<'' # s"
  by (cases x) auto

lemma lex_indented:
  "lex_xml False [] (nl_indent d @ print_xml d' x @ s) = Txt (nl_indent d) # lex_xml False [] (print_xml d' x @ s)"
proof -
  obtain r where "print_xml d' x = CHR ''<'' # r" using print_xml_hd by blast
  with lex_text [OF nl_indent_plain(1), of d "r @ s"] show ?thesis
    by (simp add: text_tok_def nl_indent_plain)
qed

lemma lex_print: "named x \<Longrightarrow> lex_xml False [] (print_xml d x @ s) = xml_toks d x @ lex_xml False [] s"
proof (induction d x arbitrary: s rule: print_xml.induct)
  case (1 d n as t)
  then have n: "xml_name n" "\<forall>kv\<in>set as. xml_name (fst kv)" by auto
  have "CHR ''<'' \<notin> set (escape t)" using escape_plain by blast
  then show ?case
    using lex_open [OF n] lex_text lex_close [OF n(1)] by (simp add: slash_def)
next
  case (2 d n as xs)
  then have n: "xml_name n" "\<forall>kv\<in>set as. xml_name (fst kv)" and xs: "\<forall>x\<in>set xs. named x" by auto
  note IH = "2.IH"
  have kids: "lex_xml False [] (concat (map (\<lambda>x. nl_indent (Suc d) @ print_xml (Suc d) x) ys) @ r) =
      concat (map (\<lambda>x. Txt (nl_indent (Suc d)) # xml_toks (Suc d) x) ys) @ lex_xml False [] r"
    if "set ys \<subseteq> set xs" "xs \<noteq> []" for ys r
    using that
  proof (induction ys)
    case (Cons y ys)
    then have "y \<in> set xs" by simp
    with IH [OF that(2) this] xs Cons show ?case by (simp add: lex_indented)
  qed simp
  have close: "lex_xml False [] (nl_indent d @ CHR ''<'' # slash # n @ CHR ''>'' # s) =
      Txt (nl_indent d) # Tag (slash # n) # lex_xml False [] s"
    using lex_text [OF nl_indent_plain(1), of d "slash # n @ CHR ''>'' # s"] lex_close [OF n(1)]
    by (simp add: text_tok_def nl_indent_plain)
  show ?case
  proof (cases "xs = []")
    case True
    then show ?thesis using lex_open [OF n] lex_close [OF n(1)] by (simp add: slash_def)
  next
    case False
    then show ?thesis
      using lex_open [OF n] kids [OF subset_refl False] close by (simp add: slash_def)
  qed
qed

subsection \<open>Elements of a printed document\<close>

fun flat :: "xml \<Rightarrow> element list" where
  "flat (Leaf n as t) = [(n, as, t)]"
| "flat (Elem n as xs) = (n, as, []) # concat (map flat xs)"

lemma cut_space: "xml_name n \<Longrightarrow> cut_at (CHR '' '') (n @ CHR '' '' # s) = Some (n, s)"
  by (rule cut_at_append) (auto simp: xml_name_def)

lemma split_attr:
  "CHR 0x22 \<notin> set k \<Longrightarrow>
     split_char (CHR 0x22) (k @ attr_text kv @ s) =
       (k @ '' '' @ fst kv @ ''='') # escape (snd kv) # split_char (CHR 0x22) s"
  if "xml_name (fst kv)"
proof -
  assume k: "CHR 0x22 \<notin> set k"
  let ?q = "CHR 0x22" and ?p = "k @ '' '' @ fst kv @ ''=''"
  have p: "?q \<notin> set ?p" using k that by (auto simp: xml_name_def)
  have v: "?q \<notin> set (escape (snd kv))" using escape_plain by blast
  have "k @ attr_text kv @ s = ?p @ ?q # escape (snd kv) @ ?q # s" by (simp add: attr_text_def)
  with split_aux_append [of ?q "[]" ?p] split_aux_append [of ?q "[]" "escape (snd kv)" s]
    split_aux_plain [OF p, of "[]"] split_aux_plain [OF v, of "[]"]
  show ?thesis by (simp add: split_char_def)
qed

lemma read_attrs_tag:
  "\<forall>kv\<in>set as. xml_name (fst kv) \<and> xml_text (snd kv) \<Longrightarrow> n = [] \<or> xml_name n \<Longrightarrow>
     read_attrs (split_char (CHR 0x22) (n @ concat (map attr_text as))) = as"
proof (induction as arbitrary: n)
  case Nil
  then have "CHR 0x22 \<notin> set n" by (auto simp: xml_name_def)
  then show ?case by (simp add: split_char_def split_aux_plain)
next
  case (Cons kv as)
  have n: "CHR 0x22 \<notin> set n" "CHR '' '' \<notin> set n" using Cons.prems(2) by (auto simp: xml_name_def)
  have kv: "xml_name (fst kv)" "xml_text (snd kv)" using Cons.prems(1) by auto
  have "split_char (CHR 0x22) (n @ concat (map attr_text (kv # as))) =
      (n @ '' '' @ fst kv @ ''='') # escape (snd kv) # split_char (CHR 0x22) (concat (map attr_text as))"
    using split_attr [OF kv(1) n(1), of "concat (map attr_text as)"] by simp
  moreover have "cut_at (CHR '' '') (n @ '' '' @ fst kv @ ''='') = Some (n, fst kv @ ''='')"
    using cut_at_append [OF n(2), of "fst kv @ ''=''"] by simp
  moreover have "read_attrs (split_char (CHR 0x22) (concat (map attr_text as))) = as"
    using Cons.IH [of "[]"] Cons.prems(1) by simp
  ultimately show ?case
    by (simp only: read_attrs.simps option.case prod.case trim_suffix_append unescape_escape [OF kv(2)]
        prod.collapse)
qed

lemma read_tag_open:
  assumes "xml_name n" "\<forall>kv\<in>set as. xml_name (fst kv) \<and> xml_text (snd kv)"
  shows "read_tag (open_tag n as) = (n, as)" "opens (open_tag n as)"
proof -
  have sp: "\<forall>c\<in>set n. c \<noteq> CHR '' ''" using assms(1) by (auto simp: xml_name_def)
  have "takeWhile (\<lambda>c. c \<noteq> CHR '' '') (open_tag n as) = n"
  proof (cases as)
    case Nil
    with sp show ?thesis by (simp add: open_tag_def takeWhile_eq_all_conv)
  next
    case (Cons kv as')
    have "open_tag n as = n @ CHR '' '' # drop 1 (concat (map attr_text as))"
      by (simp add: Cons open_tag_def attr_text_def)
    with sp show ?thesis by (simp add: takeWhile_tail)
  qed
  then show "read_tag (open_tag n as) = (n, as)"
    using read_attrs_tag [OF assms(2)] assms(1) by (simp add: read_tag_def open_tag_def)
  obtain c n' where "n = c # n'" using assms(1) by (cases n) (auto simp: xml_name_def)
  with assms(1) show "opens (open_tag n as)" by (simp add: opens_def open_tag_def xml_name_def)
qed

lemma opens_slash [simp]: "\<not> opens (slash # n)"
  by (simp add: opens_def)

lemma elements_text_tok [simp]: "elements (text_tok t @ ts) = elements ts"
  by (simp add: text_tok_def)

lemma read_text_leaf: "xml_text t \<Longrightarrow> read_text (text_tok (escape t) @ Tag n # ts) = t"
  using escape_no_newline [of t] unescape_escape [of t] by (cases "t = []") (auto simp: text_tok_def)

lemma elements_print: "named x \<Longrightarrow> elements (xml_toks d x @ ts) = flat x @ elements ts"
proof (induction d x arbitrary: ts rule: xml_toks.induct)
  case (1 d n as t)
  then show ?case by (simp add: read_tag_open read_text_leaf)
next
  case (2 d n as xs)
  then have n: "xml_name n" "\<forall>kv\<in>set as. xml_name (fst kv) \<and> xml_text (snd kv)" and xs: "\<forall>x\<in>set xs. named x" by auto
  note IH = "2.IH"
  have kids: "elements (concat (map (\<lambda>x. Txt (nl_indent (Suc d)) # xml_toks (Suc d) x) ys) @ ts) =
      concat (map flat ys) @ elements ts"
    if "set ys \<subseteq> set xs" "xs \<noteq> []" for ys ts
    using that
  proof (induction ys)
    case (Cons y ys)
    then have "y \<in> set xs" by simp
    with IH [OF that(2) this] xs Cons show ?case by simp
  qed simp
  have nl: "has_prefix (nl_indent k) [CHR 0x0A]" for k by (simp add: nl_indent_def has_prefix_def)
  show ?case
  proof (cases "xs = []")
    case False
    then obtain y ys where "xs = y # ys" by (cases xs) auto
    then have "read_text (concat (map (\<lambda>x. Txt (nl_indent (Suc d)) # xml_toks (Suc d) x) xs) @ r) = []" for r
      using nl by simp
    with False kids [OF subset_refl False] show ?thesis by (simp add: read_tag_open [OF n])
  qed (simp add: read_tag_open [OF n])
qed

subsection \<open>The NZB can be read back\<close>

lemma fields_aux_sub: "x \<in> set (fields_aux p acc s) \<Longrightarrow> set x \<subseteq> set acc \<union> set s"
  by (induction s arbitrary: acc) (fastforce split: if_splits)+

lemma splitNNTPGroups_sub:
  assumes "x \<in> set (splitNNTPGroups s)"
  shows "set x \<subseteq> set s"
proof (cases "x = s")
  case False
  then obtain y where y: "y \<in> set (fields_func group_sep s)" "x = trim_space y"
    using assms by (auto simp: splitNNTPGroups_def Let_def split: if_splits)
  have "set y \<subseteq> set s" using y(1) fields_aux_sub [of y group_sep "[]" s] by (simp add: fields_func_def)
  with y(2) set_trim_func [of is_space y] show ?thesis by (auto simp: trim_space_def)
qed simp

text \<open>
  The newsgroups of a group, joined with commas for the article header, come apart again as they
  were; there is always at least one.
\<close>

lemma splitNNTPGroups_join:
  assumes "ngs \<noteq> []" "\<forall>x\<in>set ngs. x \<noteq> [] \<and> (\<forall>c\<in>set x. \<not> group_sep c \<and> \<not> is_space c)"
  shows "splitNNTPGroups (join '','' ngs) = ngs"
proof -
  have f: "fields_func group_sep (join '','' ngs) = ngs"
    using assms(2) by (intro fields_func_join) (auto simp: group_sep_def)
  have "trim_space x = x" if "x \<in> set ngs" for x
    using assms(2) that by (intro trim_space_id) (auto simp: trimmed_by_def dest: hd_in_set last_in_set)
  then have "map trim_space ngs = ngs" by (simp add: map_idI)
  moreover have "filter (\<lambda>p. p \<noteq> []) ngs = ngs" using assms(2) by (simp add: filter_id_conv)
  ultimately show ?thesis using assms(1) by (simp add: splitNNTPGroups_def f)
qed

lemma splitNNTPGroups_nonempty: "splitNNTPGroups s \<noteq> []"
  by (simp add: splitNNTPGroups_def Let_def)

lemma int_str_text: "xml_text (int_str i)"
proof -
  have d: "plain_char (digit_char k)" if "k < 10" for k
  proof -
    have "(of_char (digit_char k) :: nat) = 48 + k" using that by (simp add: digit_char_def)
    then have "int (of_char (digit_char k)) = 48 + int k" by simp
    then have "(of_char (digit_char k) :: int) = 48 + int k" by (simp only: of_nat_of_char)
    with that show ?thesis by (simp add: plain_char_def)
  qed
  have "\<forall>c\<in>set (nat_str n). plain_char c" for n using nat_str_digits d by blast
  then have "\<forall>c\<in>set (int_str i). plain_char c" by (auto simp: int_str_def plain_char_def)
  then show ?thesis by (rule xml_text_plain)
qed

definition seg_element :: "nzb_segment \<Rightarrow> element" where
  "seg_element g =
     (''segment'', [(''bytes'', int_str (Bytes g)), (''number'', int_str (seg_Number g))], MessageID g)"

lemma read_seg_element:
  assumes "- (2 ^ 63) \<le> Bytes g" "Bytes g < 2 ^ 63" "- (2 ^ 63) \<le> seg_Number g" "seg_Number g < 2 ^ 63"
  shows "read_segment (seg_element g) = Some g"
  using assms by (simp add: read_segment_def seg_element_def attr_of_def parse_int_int_str)

definition own_elements :: "nzb_file \<Rightarrow> element list" where
  "own_elements f =
     (''groups'', [], []) # map (\<lambda>g. (''group'', [], g)) (nf_Groups f) @
     (''segments'', [], []) # map seg_element (nf_Segments f)"

lemma flat_file_xml:
  "flat (file_xml f) =
     (''file'', [(''poster'', nf_Poster f), (''date'', int_str (nf_Date f)), (''subject'', nf_Subject f)], []) #
     own_elements f"
  by (simp add: file_xml_def own_elements_def segment_xml_def seg_element_def comp_def)

lemma read_files_skip: "\<forall>x\<in>set xs. fst x \<noteq> ''file'' \<Longrightarrow> read_files (xs @ es) = read_files es"
  by (induction xs) auto

lemma map_filter_all: "(\<And>x. x \<in> set xs \<Longrightarrow> f (g x) = Some x) \<Longrightarrow> List.map_filter f (map g xs) = xs"
  by (induction xs) (simp_all add: map_filter_simps)

definition seg_ok :: "nzb_segment \<Rightarrow> bool" where
  "seg_ok g \<longleftrightarrow> - (2 ^ 63) \<le> Bytes g \<and> Bytes g < 2 ^ 63 \<and> - (2 ^ 63) \<le> seg_Number g \<and> seg_Number g < 2 ^ 63 \<and>
     xml_text (MessageID g)"

lemma read_one_file:
  assumes "es = [] \<or> fst (hd es) = ''file''" "\<forall>g\<in>set (nf_Segments f). seg_ok g"
  shows "read_files (flat (file_xml f) @ es) = (nf_Subject f, nf_Groups f, nf_Segments f) # read_files es"
proof -
  have own: "\<forall>x\<in>set (own_elements f). fst x \<noteq> ''file''" by (auto simp: own_elements_def seg_element_def)
  have "takeWhile (\<lambda>x. fst x \<noteq> ''file'') es = []" using assms(1) by (cases es) auto
  with own have tw: "takeWhile (\<lambda>x. fst x \<noteq> ''file'') (own_elements f @ es) = own_elements f" by simp
  have gs: "map (snd \<circ> snd) (filter (\<lambda>x. fst x = ''group'') (own_elements f)) = nf_Groups f"
    by (simp add: own_elements_def seg_element_def filter_map comp_def)
  have "filter (\<lambda>x. fst x = ''segment'') (own_elements f) = map seg_element (nf_Segments f)"
    by (simp add: own_elements_def seg_element_def filter_map comp_def)
  then have "List.map_filter read_segment (filter (\<lambda>x. fst x = ''segment'') (own_elements f)) = nf_Segments f"
    using assms(2) by (simp add: map_filter_all read_seg_element seg_ok_def)
  with tw gs read_files_skip [OF own] show ?thesis by (simp add: flat_file_xml attr_of_def)
qed

lemma read_file_list:
  "\<forall>f\<in>set fs. \<forall>g\<in>set (nf_Segments f). seg_ok g \<Longrightarrow>
     read_files (concat (map (flat \<circ> file_xml) fs)) = map (\<lambda>f. (nf_Subject f, nf_Groups f, nf_Segments f)) fs"
proof (induction fs)
  case (Cons f fs)
  have "concat (map (flat \<circ> file_xml) fs) = [] \<or> fst (hd (concat (map (flat \<circ> file_xml) fs))) = ''file''"
    by (cases fs) (simp_all add: flat_file_xml)
  from read_one_file [OF this, of f] Cons show ?case by (simp add: comp_def)
qed simp

definition meta_element :: "nzb_meta \<Rightarrow> element" where
  "meta_element m = (''meta'', [(''type'', meta_Type m)], meta_Value m)"

lemma flat_nzb_xml:
  "flat (nzb_xml z) =
     (''nzb'', [(''xmlns'', Xmlns z)], []) #
     (if Head z = [] then [] else (''head'', [], []) # map meta_element (Head z)) @
     concat (map (flat \<circ> file_xml) (Files z))"
  by (simp add: nzb_xml_def meta_element_def comp_def)

lemma find_skip: "\<forall>x\<in>set xs. \<not> P x \<Longrightarrow> find P (xs @ ys) = find P ys"
  by (induction xs) auto

lemma no_meta_in_files: "x \<in> set (concat (map (flat \<circ> file_xml) fs)) \<Longrightarrow> fst x \<noteq> ''meta''"
  by (auto simp: flat_file_xml own_elements_def seg_element_def)

lemma read_password_head:
  assumes "\<forall>x\<in>set es. fst x \<noteq> ''meta''"
  shows "read_password (map meta_element (nzb_head cfg pw mi) @ es) = (if pw = [] then None else Some pw)"
proof -
  have "find (\<lambda>e. fst e = ''meta'' \<and> attr_of ''type'' e = ''password'') es = None"
    using assms by (auto simp: find_None_iff)
  then show ?thesis
    by (simp add: read_password_def nzb_head_def meta_element_def attr_of_def)
qed

text \<open>What the texts of an upload must satisfy for an XML document to carry them; newsgroup names are ASCII.\<close>

definition nzb_texts_ok :: "agent_config \<Rightarrow> file_segments list \<Rightarrow> go_string \<Rightarrow> nzb_meta_info \<Rightarrow> bool" where
  "nzb_texts_ok cfg fs pw mi \<longleftrightarrow>
     xml_text (GeneratorName cfg) \<and> CHR ''>'' \<notin> set (GeneratorName cfg) \<and> xml_text (SiteURL cfg) \<and>
     xml_text (c_NNTPPoster cfg) \<and> list_all plain_char (c_NNTPGroup cfg) \<and> xml_text (mi_Title mi) \<and> xml_text pw \<and>
     (\<forall>f\<in>set fs. xml_text (fs_FileName f) \<and> (\<forall>g\<in>set (fs_Segments f). seg_ok g))"

lemma nzb_names:
  "xml_name ''nzb''" "xml_name ''xmlns''" "xml_name ''head''" "xml_name ''meta''" "xml_name ''type''"
  "xml_name ''file''" "xml_name ''poster''" "xml_name ''date''" "xml_name ''subject''" "xml_name ''groups''"
  "xml_name ''group''" "xml_name ''segments''" "xml_name ''segment''" "xml_name ''bytes''" "xml_name ''number''"
  by code_simp+

lemma nzb_constants:
  "xml_text ''http://www.newzbin.com/DTD/2003/nzb''" "xml_text ''x-generator''" "xml_text ''title''"
  "xml_text ''x-info-url''" "xml_text ''password''" "xml_text ''/release/''"
  by code_simp+

lemma named_file:
  assumes "nzb_texts_ok cfg fs pw mi" "f \<in> set (Files (nzb_of cfg now fs pw mi))"
  shows "named (file_xml f)"
proof -
  from assms(2) obtain f0 where f0: "f0 \<in> set fs" "nf_Poster f = c_NNTPPoster cfg" "nf_Subject f = fs_FileName f0"
    "nf_Groups f = splitNNTPGroups (c_NNTPGroup cfg)" "nf_Segments f = fs_Segments f0" by (auto simp: nzb_of_def)
  then have t: "xml_text (nf_Poster f)" "xml_text (nf_Subject f)" "\<forall>g\<in>set (nf_Segments f). xml_text (MessageID g)"
    using assms(1) by (simp_all add: nzb_texts_ok_def seg_ok_def)
  have grp: "xml_text x" if "x \<in> set (nf_Groups f)" for x
    using splitNNTPGroups_sub [of x "c_NNTPGroup cfg"] that f0(4) assms(1)
    by (intro xml_text_plain) (auto simp: nzb_texts_ok_def list_all_iff)
  have "named (segment_xml g)" if "g \<in> set (nf_Segments f)" for g
    using t(3) that nzb_names int_str_text by (simp add: segment_xml_def)
  moreover have "named (Leaf ''group'' [] x)" if "x \<in> set (nf_Groups f)" for x using grp [OF that] nzb_names by simp
  ultimately show ?thesis using nzb_names t int_str_text by (simp add: file_xml_def)
qed

lemma nzb_head_texts:
  assumes "nzb_texts_ok cfg fs pw mi" "m \<in> set (nzb_head cfg pw mi)"
  shows "xml_text (meta_Type m) \<and> xml_text (meta_Value m)"
proof -
  have parts: "xml_text (GeneratorName cfg)" "xml_text (mi_Title mi)" "xml_text (SiteURL cfg)" "xml_text pw"
    using assms(1) by (simp_all add: nzb_texts_ok_def)
  have url: "xml_text (SiteURL cfg @ ''/release/'' @ int_str (mi_RequestID mi))"
    by (intro xml_text_append parts nzb_constants int_str_text)
  consider "m = \<lparr>meta_Type = ''x-generator'', meta_Value = GeneratorName cfg\<rparr>"
    | "m = \<lparr>meta_Type = ''title'', meta_Value = mi_Title mi\<rparr>"
    | "m = \<lparr>meta_Type = ''x-info-url'', meta_Value = SiteURL cfg @ ''/release/'' @ int_str (mi_RequestID mi)\<rparr>"
    | "m = \<lparr>meta_Type = ''password'', meta_Value = pw\<rparr>"
    using assms(2) by (auto simp: nzb_head_def split: if_splits)
  then show ?thesis
    by cases (simp_all only: nzb_meta.simps, (intro conjI nzb_constants parts url)+)
qed

lemma named_nzb:
  assumes "nzb_texts_ok cfg fs pw mi"
  shows "named (nzb_xml (nzb_of cfg now fs pw mi))"
proof -
  let ?z = "nzb_of cfg now fs pw mi"
  have z: "Xmlns ?z = ''http://www.newzbin.com/DTD/2003/nzb''" "Head ?z = nzb_head cfg pw mi"
    by (simp_all add: nzb_of_def)
  have ns: "xml_text (Xmlns ?z)" unfolding z(1) by (rule nzb_constants(1))
  have "named (Leaf ''meta'' [(''type'', meta_Type m)] (meta_Value m))" if "m \<in> set (Head ?z)" for m
    using nzb_head_texts [OF assms] that nzb_names z(2) by simp
  with named_file [OF assms, of _ now] nzb_names ns show ?thesis by (simp add: nzb_xml_def)
qed

lemma lex_prolog:
  assumes "CHR ''>'' \<notin> set gen"
  shows "elements (lex_xml False [] (xml_header @ ''<!-- NZB Generated by '' @ gen @ '' -->'' @ [CHR 0x0A] @ print_xml 0 x)) =
    elements (lex_xml False [] (print_xml 0 x))"
proof -
  let ?h = "''?xml version='' @ [CHR 0x22] @ ''1.0'' @ [CHR 0x22] @ '' encoding='' @ [CHR 0x22] @ ''UTF-8'' @
     [CHR 0x22] @ ''?''" and ?c = "''!-- NZB Generated by '' @ gen @ '' --''"
  have h: "CHR ''>'' \<notin> set ?h" and c: "CHR ''>'' \<notin> set ?c" using assms by auto
  have skip: "elements (lex_xml False [] (CHR ''<'' # t @ CHR ''>'' # CHR 0x0A # CHR ''<'' # s)) =
      elements (lex_xml False [] (CHR ''<'' # s))" if "CHR ''>'' \<notin> set t" "\<not> opens t" for t s
    using lex_tag [OF that(1), of "[]" "CHR 0x0A # CHR ''<'' # s"] that(2) by (simp add: text_tok_def)
  obtain r where r: "print_xml 0 x = CHR ''<'' # r" using print_xml_hd by blast
  have "xml_header @ ''<!-- NZB Generated by '' @ gen @ '' -->'' @ [CHR 0x0A] @ print_xml 0 x =
      CHR ''<'' # ?h @ CHR ''>'' # CHR 0x0A # CHR ''<'' # ?c @ CHR ''>'' # CHR 0x0A # CHR ''<'' # r"
    by (simp add: xml_header_def r)
  moreover have "\<not> opens ?h" "\<not> opens ?c" by (simp_all add: opens_def)
  ultimately show ?thesis using skip [OF h] skip [OF c] by (simp only: r not_False_eq_True simp_thms)
qed

text \<open>
  C2. The NZB carries the whole upload, when XML can carry its texts: they are valid UTF-8 without
  control characters or the two non-characters U+FFFE and U+FFFF, newsgroup names are ASCII, and the
  generator's name does not close its comment. Then a reader of the document finds, for every
  uploaded file and in the order of the upload, its subject, one group per newsgroup and every
  segment with its size, number and message id; and the password of an encrypted upload, and none
  otherwise.
\<close>

theorem nzb_roundtrip:
  assumes "nzb_texts_ok cfg fs pw mi"
  shows "read_nzb (CreateMultiFileNZBBytes cfg now fs pw mi) =
    (if pw = [] then None else Some pw,
     map (\<lambda>f. (fs_FileName f, splitNNTPGroups (c_NNTPGroup cfg), fs_Segments f)) fs)"
proof -
  let ?z = "nzb_of cfg now fs pw mi"
  have ne: "Head ?z \<noteq> []" "Head ?z = nzb_head cfg pw mi" by (simp_all add: nzb_of_def nzb_head_def)
  have "elements (lex_xml False [] (CreateMultiFileNZBBytes cfg now fs pw mi)) =
      elements (lex_xml False [] (print_xml 0 (nzb_xml ?z) @ []))"
    using lex_prolog assms by (simp add: CreateMultiFileNZBBytes_def nzb_texts_ok_def)
  also have "\<dots> = flat (nzb_xml ?z)"
    using lex_print [OF named_nzb [OF assms, of now], of 0 "[]"]
      elements_print [OF named_nzb [OF assms, of now], of 0 "[]"]
    by (simp add: text_tok_def)
  finally have es: "elements (lex_xml False [] (CreateMultiFileNZBBytes cfg now fs pw mi)) = flat (nzb_xml ?z)" .
  let ?pre = "[(''nzb'', [(''xmlns'', Xmlns ?z)], []), (''head'', [], [])] :: element list"
  let ?files = "concat (map (flat \<circ> file_xml) (Files ?z))"
  have f: "flat (nzb_xml ?z) = ?pre @ map meta_element (Head ?z) @ ?files" using ne by (simp add: flat_nzb_xml)
  have "read_password (flat (nzb_xml ?z)) = read_password (map meta_element (nzb_head cfg pw mi) @ ?files)"
    unfolding f ne(2) read_password_def by simp
  also have "\<dots> = (if pw = [] then None else Some pw)"
    by (rule read_password_head) (use no_meta_in_files in blast)
  finally have p: "read_password (flat (nzb_xml ?z)) = (if pw = [] then None else Some pw)" .
  have "read_files (flat (nzb_xml ?z)) = read_files ((?pre @ map meta_element (Head ?z)) @ ?files)"
    by (simp only: f append_assoc)
  also have "\<dots> = read_files ?files" by (rule read_files_skip) (auto simp: meta_element_def)
  also have "\<dots> = map (\<lambda>f. (fs_FileName f, splitNNTPGroups (c_NNTPGroup cfg), fs_Segments f)) fs"
    using assms by (subst read_file_list) (auto simp: nzb_of_def nzb_texts_ok_def)
  finally show ?thesis using p by (simp add: read_nzb_def es Let_def)
qed

definition nzb_cfg :: agent_config where
  "nzb_cfg = newConfigFromLayered (\<lambda>k. None) demo_layered"

definition demo_upload :: "file_segments list" where
  "demo_upload = [\<lparr>fs_FileName = ''[1/1] - a & caf'' @ [CHR 0xC3, CHR 0xA9],
     fs_Segments = [\<lparr>Bytes = 10, seg_Number = 1, MessageID = ''<x@y>''\<rparr>]\<rparr>]"

definition demo_info :: nzb_meta_info where
  "demo_info = \<lparr>mi_Title = ''a & b'', mi_RequestID = 7\<rparr>"

lemma demo_texts: "nzb_texts_ok nzb_cfg demo_upload ''pw'' demo_info"
  by code_simp

theorem nzb_roundtrip_witness:
  "read_nzb (CreateMultiFileNZBBytes nzb_cfg 0 demo_upload ''pw'' demo_info) =
     (Some ''pw'', [(''[1/1] - a & caf'' @ [CHR 0xC3, CHR 0xA9], [''alt.binaries.test''],
        [\<lparr>Bytes = 10, seg_Number = 1, MessageID = ''<x@y>''\<rparr>])])"
proof -
  have "splitNNTPGroups (c_NNTPGroup nzb_cfg) = [''alt.binaries.test'']" by code_simp
  with nzb_roundtrip [OF demo_texts, of 0] show ?thesis by (simp add: demo_upload_def)
qed

text \<open>
  The condition on the texts is needed: of a file name in Latin-1 each byte above 127 becomes U+FFFD.
\<close>

lemma latin1_name_replaced: "escape (''caf'' @ [CHR 0xE9] @ ''.mkv'') = ''caf'' @ fffd @ ''.mkv''"
  by code_simp

text \<open>
  The generator's name is not escaped in the comment: a name that closes the comment adds to the
  document, here a file that was never uploaded.
\<close>

lemma generator_name_unescaped:
  "snd (read_nzb (CreateMultiFileNZBBytes (nzb_cfg\<lparr>GeneratorName := ''x--><file><!--''\<rparr>) 0 [] [] demo_info)) =
     [([], [], [])]"
  by code_simp

end
