(* ===== verification/Offline_Pipeline.thy ===== *)
theory Offline_Pipeline
  imports Offline_Watcher Media_Samples Media_Info Par2_Tool Nzb_File Online_Task
begin

text \<open>
  The offline pipeline: \<open>src/services/offline_processor.go\<close>. One job is taken from the queue, its content
  located or downloaded, cleaned of blocked files, sampled, staged, given recovery files,
  optionally encrypted, uploaded, and described by an NZB in the output directory. A deferred
  clean-up is a scope around the rest of the function. Every answer of the file system, of the
  external tools and of the news server is a field of the environment.
\<close>

subsection \<open>State and environment\<close>

text \<open>The uses the pipeline makes of the random source.\<close>

datatype rand_use = ForWrap | ForSamples | ForStage | ForFile nat | ForBase | ForBaseTitle | ForPassword
  | ForArchive | ForEncDir | ForReleaseTitle

text \<open>
  The database, the temporary files and directories that exist, the operator's own directory, the
  text files written to the output directory, the samples moved there, and the upload slot.
\<close>

record off_state =
  os_db :: db
  os_temp :: "go_string list"
  os_source :: "file_entry list"
  os_out :: "(go_string \<times> go_string) list"
  os_samples :: "go_string list"
  os_slot :: bool

record off_env =
  oe_now :: time
  oe_unix :: int
  oe_cfg :: agent_config
  oe_layered :: layered
  oe_environ :: environ
  oe_rand :: "rand_use \<Rightarrow> byte list"
  oe_stat :: "go_string + bool"
  oe_blob :: "go_string option"
  oe_world :: world
  oe_downloaded :: "file_entry list"
  oe_downloaded_dir :: bool
  oe_wrap_mkdir :: "go_string option"
  oe_link :: bool
  oe_file :: "byte list"
  oe_io :: "go_string \<Rightarrow> file_io"
  oe_ctx :: "go_string \<Rightarrow> bool"
  oe_rm :: "go_string \<Rightarrow> bool"
  oe_probe :: "go_string \<Rightarrow> go_string + probe_data"
  oe_shots_mkdir :: "go_string option"
  oe_arrive :: "go_string list list \<Rightarrow> nat list"
  oe_zip :: "go_string \<Rightarrow> go_string + zip_entry list"
  oe_zip_ctx :: "nat \<Rightarrow> bool"
  oe_stage_mkdir :: "go_string option"
  oe_par2_bin :: par2_binary
  oe_par2 :: "command \<Rightarrow> go_string + go_string list"
  oe_par2_progress :: "(go_string \<times> float64) list"
  oe_encrypt :: "go_string option"
  oe_partial :: bool
  oe_enc_mkdir :: "go_string option"
  oe_enc_rename :: "go_string option"
  oe_walk :: "go_string \<Rightarrow> staged \<Rightarrow> go_string + go_string list \<Rightarrow> walk_entry list"
  oe_up_ctx :: "nat \<Rightarrow> bool"
  oe_up :: "nat \<Rightarrow> upload_error + nzb_segment list"
  oe_up_text :: "upload_error \<Rightarrow> go_string"
  oe_out_mkdir :: "go_string option"
  oe_write :: write_outcome
  oe_pw_write :: write_outcome
  oe_samples_mkdir :: bool
  oe_move :: "go_string \<Rightarrow> bool"
  oe_stray :: bool

datatype off_error =
  NoGroup | LoadGroup go_string | NoNewsgroups go_string | StatSource go_string | ReadTorrent go_string
| TorrentDownload go_string | WrapDir go_string | WrapCopy go_string | StageDir go_string | ObfuscateErr go_string
| StageCopy go_string | EncryptErr go_string | EncDir go_string | EncRename go_string | UploadErr go_string
| OutputDir go_string | WriteNzb go_string

definition off_text :: "off_error \<Rightarrow> go_string" where
  "off_text err =
     (case err of
        NoGroup \<Rightarrow> ''job has no group assigned'' | LoadGroup s \<Rightarrow> ''load group: '' @ s
      | NoNewsgroups n \<Rightarrow> ''group '' @ go_quote n @ '' has no newsgroups''
      | StatSource s \<Rightarrow> ''stat source: '' @ s | ReadTorrent s \<Rightarrow> ''read .torrent: '' @ s
      | TorrentDownload s \<Rightarrow> ''torrent download: '' @ s | WrapDir s \<Rightarrow> ''wrap dir: '' @ s
      | WrapCopy s \<Rightarrow> ''wrap copy: '' @ s | StageDir s \<Rightarrow> ''stage dir: '' @ s
      | ObfuscateErr s \<Rightarrow> ''obfuscate: '' @ s | StageCopy s \<Rightarrow> ''stage copy: '' @ s
      | EncryptErr s \<Rightarrow> ''encrypt: '' @ s | EncDir s \<Rightarrow> ''enc dir: '' @ s | EncRename s \<Rightarrow> ''enc rename: '' @ s
      | UploadErr s \<Rightarrow> ''upload: '' @ s | OutputDir s \<Rightarrow> ''output dir: '' @ s | WriteNzb s \<Rightarrow> ''write nzb: '' @ s)"

text \<open>How the pipeline ends; \<open>Pending\<close> is a download that has not ended.\<close>

datatype off_result = Released go_string go_string | Broke off_error | Pending

abbreviation random_name :: "off_env \<Rightarrow> rand_use \<Rightarrow> go_string" where
  "random_name e u \<equiv> GenerateRandomPassword (oe_rand e u)"

definition in_temp :: "off_env \<Rightarrow> go_string \<Rightarrow> go_string" where
  "in_temp e n = path_join [TempDir (oe_cfg e), n]"

definition set_phase :: "offline_job \<Rightarrow> go_string \<Rightarrow> float64 \<Rightarrow> off_state \<Rightarrow> off_state" where
  "set_phase job p pct st = st\<lparr>os_db := UpdateJobPhase (j_ID job) p pct (os_db st)\<rparr>"

definition make_temp :: "go_string \<Rightarrow> off_state \<Rightarrow> off_state" where
  "make_temp p st = st\<lparr>os_temp := p # os_temp st\<rparr>"

definition drop_temp :: "go_string \<Rightarrow> off_state \<Rightarrow> off_state" where
  "drop_temp p st = st\<lparr>os_temp := removeAll p (os_temp st)\<rparr>"

text \<open>A temporary that a deferred call removes when the function returns.\<close>

definition with_temp :: "go_string \<Rightarrow> (off_state \<Rightarrow> off_state \<times> off_result) \<Rightarrow> off_state \<Rightarrow> off_state \<times> off_result" where
  "with_temp p body st = (case body (make_temp p st) of (st', r) \<Rightarrow> (drop_temp p st', r))"

subsection \<open>Names in the output directory\<close>

definition sanitizeDirName :: "go_string \<Rightarrow> go_string" where
  "sanitizeDirName s0 =
     (let s = trim_space s0
      in if s = [] then ''unnamed''
         else map (\<lambda>c. if c \<in> set unsafe_chars \<or> c = CHR '' '' then CHR ''_'' else c) s)"

definition offlineOutputDir :: "off_env \<Rightarrow> go_string" where
  "offlineOutputDir e =
     (case oe_environ e ''OFFLINE_OUTPUT_DIR'' of
        Some p \<Rightarrow> if p \<noteq> [] then p else path_join [path_dir (TempDir (oe_cfg e)), ''offline-output'']
      | None \<Rightarrow> path_join [path_dir (TempDir (oe_cfg e)), ''offline-output''])"

definition safe_title :: "off_env \<Rightarrow> offline_job \<Rightarrow> go_string" where
  "safe_title e job = SanitizeBaseName (oe_rand e ForReleaseTitle) (j_Title job)"

definition release_dir :: "off_env \<Rightarrow> offline_job \<Rightarrow> group \<Rightarrow> go_string" where
  "release_dir e job g = path_join [offlineOutputDir e, sanitizeDirName (g_Name g), safe_title e job]"

definition release_nzb :: "off_env \<Rightarrow> offline_job \<Rightarrow> group \<Rightarrow> go_string" where
  "release_nzb e job g = path_join [release_dir e job g, safe_title e job @ ''.nzb'']"

subsection \<open>Samples\<close>

definition sample_main :: "go_string \<Rightarrow> go_string list \<Rightarrow> go_string" where
  "sample_main contentDir found = path_join [contentDir, hd found]"

text \<open>
  The three kinds of samples end alike: on an error the directory is removed again, otherwise it
  stays for \<open>moveSamplesInto\<close>.
\<close>

definition keep_samples :: "go_string \<Rightarrow> go_string + go_string list \<Rightarrow> off_state \<Rightarrow> off_state \<times> go_string list" where
  "keep_samples outDir res st =
     (case res of
        Inl err \<Rightarrow> (drop_temp outDir (make_temp outDir st), [])
      | Inr paths \<Rightarrow> (make_temp outDir st, paths))"

definition offlineVideoScreenshots ::
  "off_env \<Rightarrow> offline_job \<Rightarrow> go_string \<Rightarrow> file_entry list \<Rightarrow> int \<Rightarrow> go_string \<Rightarrow> off_state \<Rightarrow> off_state \<times> go_string list" where
  "offlineVideoScreenshots e job contentDir es n watermark st0 =
     (let st = set_phase job ''screenshots'' 0 st0;
          videos = FindVideoFiles es;
          main = sample_main contentDir videos;
          outDir = in_temp e (''offline-shots-'' @ random_name e ForSamples)
      in if videos = [] then (st, [])
         else case ProbeVideo (oe_probe e main) main of
           Inl err \<Rightarrow> (st, [])
         | Inr info \<Rightarrow>
             if Duration info < 10 then (st, [])
             else keep_samples outDir
               (GenerateScreenshotsWatermarked (oe_shots_mkdir e) (oe_arrive e) main outDir (Duration info) n watermark) st)"

definition offlineMangaPages ::
  "off_env \<Rightarrow> offline_job \<Rightarrow> go_string \<Rightarrow> file_entry list \<Rightarrow> int \<Rightarrow> off_state \<Rightarrow> off_state \<times> go_string list" where
  "offlineMangaPages e job contentDir es n st0 =
     (let st = set_phase job ''pages'' 0 st0;
          archive = path_join [contentDir, FindMangaArchive es];
          outDir = in_temp e (''offline-pages-'' @ random_name e ForSamples)
      in if FindMangaArchive es = [] then (st, [])
         else keep_samples outDir
           (map_sum id (map fst) (GenerateMangaScreenshots (oe_shots_mkdir e) (oe_zip_ctx e) (oe_zip e archive) archive outDir n)) st)"

definition offlineAudioSamples ::
  "off_env \<Rightarrow> offline_job \<Rightarrow> go_string \<Rightarrow> file_entry list \<Rightarrow> int \<Rightarrow> int \<Rightarrow> off_state \<Rightarrow> off_state \<times> go_string list" where
  "offlineAudioSamples e job contentDir es n seconds st0 =
     (let st = set_phase job ''samples'' 0 st0;
          audio = FindAudioFiles es;
          main = sample_main contentDir audio;
          outDir = in_temp e (''offline-samples-'' @ random_name e ForSamples)
      in if audio = [] then (st, [])
         else case ProbeVideo (oe_probe e main) main of
           Inl err \<Rightarrow> (st, [])
         | Inr info \<Rightarrow>
             if Duration info < float_of_int seconds then (st, [])
             else keep_samples outDir
               (GenerateAudioSamples (oe_shots_mkdir e) (oe_arrive e) main outDir (Duration info) n seconds) st)"

definition generateOfflineSamples ::
  "off_env \<Rightarrow> offline_job \<Rightarrow> go_string \<Rightarrow> file_entry list \<Rightarrow> group \<Rightarrow> int \<Rightarrow> int \<Rightarrow> off_state \<Rightarrow> off_state \<times> go_string list" where
  "generateOfflineSamples e job contentDir es g n seconds st =
     (if g_Type g = ''video'' \<or> g_Type g = [] then offlineVideoScreenshots e job contentDir es n (g_WatermarkText g) st
      else if g_Type g = ''manga'' then offlineMangaPages e job contentDir es n st
      else if g_Type g = ''music'' then offlineAudioSamples e job contentDir es n seconds st
      else (st, []))"

text \<open>
  \<open>oe_move\<close>: a sample could be renamed, or else copied. The temporary directory goes when it is empty
  then; \<open>oe_stray\<close> says that a failed capture left a file in it.
\<close>

definition moveSamplesInto :: "off_env \<Rightarrow> go_string list \<Rightarrow> go_string \<Rightarrow> off_state \<Rightarrow> off_state" where
  "moveSamplesInto e paths dst st =
     (if \<not> oe_samples_mkdir e then st
      else let st1 = st\<lparr>os_samples := os_samples st @ map (\<lambda>p. path_join [dst, path_base p]) (filter (oe_move e) paths)\<rparr>
           in if list_all (oe_move e) paths \<and> \<not> oe_stray e then drop_temp (path_dir (hd paths)) st1 else st1)"

subsection \<open>The pipeline\<close>

text \<open>The settings of the agent with what the group overrides.\<close>

definition job_config :: "agent_config \<Rightarrow> group \<Rightarrow> agent_config" where
  "job_config cfg g =
     cfg\<lparr>c_NNTPGroup := join '','' (g_Newsgroups g),
         PAR2Redundancy := (case g_Par2Redundancy g of None \<Rightarrow> PAR2Redundancy cfg | Some r \<Rightarrow> r),
         Obfuscate := (case g_Obfuscate g of None \<Rightarrow> Obfuscate cfg | Some b \<Rightarrow> b)\<rparr>"

definition sample_count :: "group \<Rightarrow> int" where
  "sample_count g = (case g_Screenshots g of None \<Rightarrow> 6 | Some n \<Rightarrow> n)"

definition sample_seconds :: "group \<Rightarrow> int" where
  "sample_seconds g = (case g_SampleSeconds g of None \<Rightarrow> DefaultSampleSeconds | Some n \<Rightarrow> n)"

definition offline_name :: "offline_job \<Rightarrow> go_string" where
  "offline_name job = ''offline-'' @ int_str (j_ID job)"

definition offline_dl_opts :: "agent_config \<Rightarrow> download_opts" where
  "offline_dl_opts cfg =
     \<lparr>SlowThresholdMBs = SlowSpeedThresholdMBs cfg, SlowTimeoutMins = SlowSpeedTimeoutMins cfg,
      LowPeersThreshold = -1, LowPeersTimeoutMins = 0, IsBoosted = False\<rparr>"

definition is_torrent :: "offline_job \<Rightarrow> bool" where
  "is_torrent job \<longleftrightarrow> equal_fold (path_ext (j_SourcePath job)) ''.torrent''"

text \<open>Content on disk: where it is, what a walk finds, whether it is a directory, and whether it is the operator's.\<close>

record content =
  ct_dir :: go_string
  ct_files :: "file_entry list"
  ct_is_dir :: bool
  ct_in_place :: bool

definition wrapped :: "off_env \<Rightarrow> offline_job \<Rightarrow> go_string \<Rightarrow> content" where
  "wrapped e job wrap =
     \<lparr>ct_dir = wrap,
      ct_files = [\<lparr>fe_rel = ''.'', fe_err = None, fe_dir = True, fe_data = []\<rparr>,
        \<lparr>fe_rel = path_base (j_SourcePath job), fe_err = None, fe_dir = False, fe_data = oe_file e\<rparr>],
      ct_is_dir = True, ct_in_place = False\<rparr>"

definition with_source ::
  "off_env \<Rightarrow> agent_config \<Rightarrow> offline_job \<Rightarrow> (content \<Rightarrow> off_state \<Rightarrow> off_state \<times> off_result) \<Rightarrow> off_state \<Rightarrow>
     off_state \<times> off_result" where
  "with_source e cfg job rest st0 =
     (let st = set_phase job ''source'' 0 st0
      in case oe_stat e of
           Inl err \<Rightarrow> (st, Broke (StatSource err))
         | Inr isdir \<Rightarrow>
             if is_torrent job then
               (let st1 = set_phase job ''downloading'' 0 st
                in case oe_blob e of
                     Some err \<Rightarrow> (st1, Broke (ReadTorrent err))
                   | None \<Rightarrow>
                       (case DownloadPrivateTorrentBytes (oe_world e) cfg (oe_layered e) (offline_name job) (Some (offline_dl_opts cfg)) of
                          FetchFailed err \<Rightarrow> (st1, Broke (TorrentDownload (err_text (torrent_task_err err))))
                        | Fetching \<Rightarrow> (st1, Pending)
                        | Fetched p \<Rightarrow>
                            with_temp p (rest \<lparr>ct_dir = p, ct_files = oe_downloaded e, ct_is_dir = oe_downloaded_dir e,
                              ct_in_place = False\<rparr>) st1))
             else if isdir then
               rest \<lparr>ct_dir = j_SourcePath job, ct_files = os_source st, ct_is_dir = True, ct_in_place = True\<rparr> st
             else
               (let wrap = in_temp e (''wrap-'' @ random_name e ForWrap)
                in case oe_wrap_mkdir e of
                     Some err \<Rightarrow> (st, Broke (WrapDir err))
                   | None \<Rightarrow>
                       (case (if oe_link e then None
                              else fst (CopyFiles (oe_io e) (oe_ctx e) (OneFile (path_base (j_SourcePath job)) (oe_file e)) [])) of
                          Some err \<Rightarrow> (drop_temp wrap (make_temp wrap st), Broke (WrapCopy err))
                        | None \<Rightarrow> with_temp wrap (rest (wrapped e job wrap)) st)))"

text \<open>What \<open>os.Stat\<close> says of the content after the blocklist was enforced.\<close>

definition content_source :: "bool \<Rightarrow> file_entry list \<Rightarrow> source" where
  "content_source isdir es =
     (if isdir then Tree es
      else case es of e # _ \<Rightarrow> OneFile (fe_rel e) (fe_data e) | [] \<Rightarrow> NoSource ''no such file or directory'')"

definition stage_content :: "off_env \<Rightarrow> agent_config \<Rightarrow> source \<Rightarrow> off_error + staged" where
  "stage_content e cfg src =
     (if Obfuscate cfg then
        (case ObfuscateFiles (\<lambda>k. oe_rand e (ForFile k)) (oe_io e) (oe_ctx e) src [] of
           (Some err, _) \<Rightarrow> Inl (ObfuscateErr err) | (None, files) \<Rightarrow> Inr files)
      else
        (case CopyFiles (oe_io e) (oe_ctx e) src [] of
           (Some err, _) \<Rightarrow> Inl (StageCopy err) | (None, files) \<Rightarrow> Inr files))"

definition staged_entries :: "staged \<Rightarrow> file_entry list" where
  "staged_entries files = map (\<lambda>(n, dat). \<lparr>fe_rel = n, fe_err = None, fe_dir = False, fe_data = dat\<rparr>) files"

definition par2_base :: "off_env \<Rightarrow> agent_config \<Rightarrow> offline_job \<Rightarrow> go_string" where
  "par2_base e cfg job =
     (if Obfuscate cfg then random_name e ForBase else SanitizeBaseName (oe_rand e ForBaseTitle) (j_Title job))"

text \<open>A failure of the tool is only logged.\<close>

definition run_par2 :: "off_env \<Rightarrow> agent_config \<Rightarrow> offline_job \<Rightarrow> go_string \<Rightarrow> staged \<Rightarrow> go_string + go_string list" where
  "run_par2 e cfg job stageDir files =
     GeneratePAR2 (oe_par2 e) (oe_par2_bin e) stageDir (staged_entries files) (par2_base e cfg job)
       \<lparr>Redundancy = PAR2Redundancy cfg, BlockSize = int ChunkSize, Threads = PAR2Threads cfg, MemoryMB = PAR2Memory cfg\<rparr>"

definition dir_error_text :: "off_env \<Rightarrow> go_string \<Rightarrow> dir_error \<Rightarrow> go_string" where
  "dir_error_text e dir err =
     (case err of
        NoFiles \<Rightarrow> ''no files to upload in '' @ dir
      | DirCancelled \<Rightarrow> ''context canceled''
      | UploadOf rel u \<Rightarrow> ''upload '' @ rel @ '': '' @ oe_up_text e u)"

definition job_nzb :: "off_env \<Rightarrow> agent_config \<Rightarrow> offline_job \<Rightarrow> go_string \<Rightarrow> file_segments list \<Rightarrow> go_string" where
  "job_nzb e cfg job password fs =
     CreateMultiFileNZBBytes cfg (oe_unix e) fs password \<lparr>mi_Title = j_Title job, mi_RequestID = 0\<rparr>"

text \<open>
  A write to the output directory: \<open>oe_write\<close> is how that of the NZB ends, \<open>oe_pw_write\<close> that of the
  password file, whose error is ignored.
\<close>

definition put_out :: "write_outcome \<Rightarrow> go_string \<Rightarrow> go_string \<Rightarrow> off_state \<Rightarrow> off_state" where
  "put_out w p dat st = st\<lparr>os_out := fst (WriteFile w p dat (os_out st))\<rparr>"

definition save_release ::
  "off_env \<Rightarrow> agent_config \<Rightarrow> offline_job \<Rightarrow> group \<Rightarrow> go_string list \<Rightarrow> go_string \<Rightarrow> file_segments list \<Rightarrow> off_state \<Rightarrow>
     off_state \<times> off_result" where
  "save_release e cfg job g samples password fs st0 =
     (let st = set_phase job ''nzb'' 0 st0;
          dir = release_dir e job g;
          nzbFile = release_nzb e job g
      in case oe_out_mkdir e of
           Some err \<Rightarrow> (st, Broke (OutputDir err))
         | None \<Rightarrow>
             (let nzbData = job_nzb e cfg job password fs;
                  st1 = put_out (oe_write e) nzbFile nzbData st
              in case snd (WriteFile (oe_write e) nzbFile nzbData (os_out st)) of
                Some err \<Rightarrow> (st1, Broke (WriteNzb err))
              | None \<Rightarrow>
                  (let pwFile = path_join [dir, ''password.txt''];
                       st2 = (if password \<noteq> [] then put_out (oe_pw_write e) pwFile (password @ [CHR 0x0A]) st1 else st1);
                       st3 = (if samples \<noteq> [] then moveSamplesInto e samples (path_join [dir, ''samples'']) st2 else st2)
                   in (st3, Released nzbFile password))))"

text \<open>The upload slot is held from the upload to the end of the function.\<close>

definition upload_and_save ::
  "off_env \<Rightarrow> agent_config \<Rightarrow> offline_job \<Rightarrow> group \<Rightarrow> go_string list \<Rightarrow> go_string \<Rightarrow> go_string \<Rightarrow> walk_entry list \<Rightarrow>
     off_state \<Rightarrow> off_state \<times> off_result" where
  "upload_and_save e cfg job g samples password uploadDir walk st0 =
     (let st = set_phase job ''uploading'' 0 ((set_phase job ''queued-upload'' 0 st0)\<lparr>os_slot := True\<rparr>);
          (st', r) = (case UploadDirectory (oe_up_ctx e) (oe_up e) walk of
             Inl err \<Rightarrow> (st, Broke (UploadErr (dir_error_text e uploadDir err)))
           | Inr fs \<Rightarrow> save_release e cfg job g samples password fs st)
      in (st'\<lparr>os_slot := False\<rparr>, r))"

definition encrypt_and_upload ::
  "off_env \<Rightarrow> agent_config \<Rightarrow> offline_job \<Rightarrow> group \<Rightarrow> go_string list \<Rightarrow> go_string \<Rightarrow> staged \<Rightarrow> go_string + go_string list \<Rightarrow>
     off_state \<Rightarrow> off_state \<times> off_result" where
  "encrypt_and_upload e cfg job g samples stageDir files par2 st =
     (if \<not> Encrypt cfg then
        upload_and_save e cfg job g samples [] stageDir (oe_walk e stageDir files par2) st
      else
        (let st1 = set_phase job ''encrypting'' 0 st;
             password = random_name e ForPassword;
             archive = in_temp e (random_name e ForArchive @ ''.7z'');
             encDir = in_temp e (''offline-enc-'' @ random_name e ForEncDir)
         in case oe_encrypt e of
              Some err \<Rightarrow> ((if oe_partial e then make_temp archive st1 else st1), Broke (EncryptErr err))
            | None \<Rightarrow>
                with_temp archive (\<lambda>st2.
                  case oe_enc_mkdir e of
                    Some err \<Rightarrow> (st2, Broke (EncDir err))
                  | None \<Rightarrow>
                      with_temp encDir (\<lambda>st3.
                        case oe_enc_rename e of
                          Some err \<Rightarrow> (st3, Broke (EncRename err))
                        | None \<Rightarrow>
                            upload_and_save e cfg job g samples password encDir (oe_walk e encDir files par2)
                              (drop_temp archive st3)) st2) st1))"

definition stage_and_upload ::
  "off_env \<Rightarrow> agent_config \<Rightarrow> offline_job \<Rightarrow> group \<Rightarrow> go_string list \<Rightarrow> go_string \<Rightarrow> source \<Rightarrow> off_state \<Rightarrow>
     off_state \<times> off_result" where
  "stage_and_upload e cfg job g samples stageDir src st0 =
     (let st = set_phase job ''staging'' 0 st0
      in case stage_content e cfg src of
           Inl err \<Rightarrow> (st, Broke err)
         | Inr files \<Rightarrow>
             (let st1 = set_phase job ''par2'' 0 st;
                  st2 = fold (\<lambda>(p, pct). set_phase job (''par2:'' @ p) pct) (oe_par2_progress e) st1
              in encrypt_and_upload e cfg job g samples stageDir files (run_par2 e cfg job stageDir files) st2))"

definition process_content ::
  "off_env \<Rightarrow> agent_config \<Rightarrow> offline_job \<Rightarrow> group \<Rightarrow> content \<Rightarrow> off_state \<Rightarrow> off_state \<times> off_result" where
  "process_content e cfg job g ct st =
     (let es = fst (RemoveBlockedFiles (Some (EffectiveBlocklist (g_BannedExtensions g))) (oe_rm e) (ct_files ct));
          st1 = (if ct_in_place ct then st\<lparr>os_source := es\<rparr> else st);
          (st2, samples) = generateOfflineSamples e job (ct_dir ct) es g (sample_count g) (sample_seconds g) st1;
          stageDir = in_temp e (''offline-stage-'' @ random_name e ForStage)
      in case oe_stage_mkdir e of
           Some err \<Rightarrow> (st2, Broke (StageDir err))
         | None \<Rightarrow> with_temp stageDir (stage_and_upload e cfg job g samples stageDir (content_source (ct_is_dir ct) es)) st2)"

definition processOfflineJob :: "off_env \<Rightarrow> offline_job \<Rightarrow> off_state \<Rightarrow> off_state \<times> off_result" where
  "processOfflineJob e job st =
     (case j_GroupID job of
        None \<Rightarrow> (st, Broke NoGroup)
      | Some i \<Rightarrow>
          (case GetGroup i (os_db st) of
             Inl err \<Rightarrow> (st, Broke (LoadGroup ''group not found''))
           | Inr g \<Rightarrow>
               if g_Newsgroups g = [] then (st, Broke (NoNewsgroups (g_Name g)))
               else let cfg = job_config (oe_cfg e) g in with_source e cfg job (process_content e cfg job g) st))"

definition runOneOfflineJob :: "off_env \<Rightarrow> offline_job \<Rightarrow> off_state \<Rightarrow> off_state \<times> off_result" where
  "runOneOfflineJob e job st =
     (case processOfflineJob e job st of
        (st1, Broke err) \<Rightarrow> (st1\<lparr>os_db := MarkJobFailed (oe_now e) (j_ID job) (off_text err) (os_db st1)\<rparr>, Broke err)
      | (st1, Released nzb pw) \<Rightarrow>
          (st1\<lparr>os_db := MarkJobCompleted (oe_now e) (j_ID job) nzb pw (os_db st1)\<rparr>, Released nzb pw)
      | (st1, Pending) \<Rightarrow> (st1, Pending))"

text \<open>
  One turn of the loop of \<open>StartOfflineProcessor\<close> at time \<open>clk\<close>: the state, and the outcome of the job
  that was claimed (\<open>None\<close>: the queue was empty, and the loop sleeps).
\<close>

definition processor_turn :: "time \<Rightarrow> off_env \<Rightarrow> off_state \<Rightarrow> off_state \<times> off_result option" where
  "processor_turn clk e st =
     (case ClaimNextJob clk (os_db st) of
        (d, None) \<Rightarrow> (st\<lparr>os_db := d\<rparr>, None)
      | (d, Some job) \<Rightarrow> (case runOneOfflineJob e job (st\<lparr>os_db := d\<rparr>) of (st', r) \<Rightarrow> (st', Some r)))"

text \<open>The loop, for the turns made before the context ends; a job that does not end holds it up.\<close>

fun StartOfflineProcessor :: "off_state option \<Rightarrow> (time \<times> off_env) list \<Rightarrow> off_state option" where
  "StartOfflineProcessor None turns = None"
| "StartOfflineProcessor (Some st) [] = Some st"
| "StartOfflineProcessor (Some st) ((clk, e) # turns) =
     (case processor_turn clk e st of
        (st', Some Pending) \<Rightarrow> Some st'
      | (st', _) \<Rightarrow> StartOfflineProcessor (Some st') turns)"

end
