(* ===== verification/Offline_Jobs.thy ===== *)
theory Offline_Jobs
  imports Offline_Pipeline
begin

text \<open>
  What the offline pipeline guarantees: which rows, files and temporaries a job may change, what a
  completed job has left in the output directory, and that the processor settles the queue in
  order.
\<close>

subsection \<open>What a run may change\<close>

text \<open>During a job only the phase and the progress of its own row change.\<close>

definition phases_only :: "int \<Rightarrow> db \<Rightarrow> db \<Rightarrow> bool" where
  "phases_only i d d' \<longleftrightarrow>
     groups d' = groups d \<and> watches d' = watches d \<and>
     (\<exists>h. (\<forall>j. \<exists>p x. h j = j\<lparr>j_Phase := p, j_Progress := x\<rparr>) \<and>
        jobs_tbl d' = (jobs_tbl d)\<lparr>rows := map (\<lambda>j. if j_ID j = i then h j else j) (rows (jobs_tbl d))\<rparr>)"

lemma phases_only_refl: "phases_only i d d"
proof -
  have "\<forall>j. \<exists>p x. (\<lambda>j :: offline_job. j) j = j\<lparr>j_Phase := p, j_Progress := x\<rparr>"
    by (metis offline_job.surjective offline_job.update_convs(7,8))
  then show ?thesis unfolding phases_only_def by (intro conjI exI [of _ "\<lambda>j. j"]) simp_all
qed

lemma phases_only_trans:
  assumes "phases_only i d d1" "phases_only i d1 d2"
  shows "phases_only i d d2"
proof -
  from assms obtain h h' where h: "\<forall>j. \<exists>p x. h j = j\<lparr>j_Phase := p, j_Progress := x\<rparr>"
      "jobs_tbl d1 = (jobs_tbl d)\<lparr>rows := map (\<lambda>j. if j_ID j = i then h j else j) (rows (jobs_tbl d))\<rparr>"
    and h': "\<forall>j. \<exists>p x. h' j = j\<lparr>j_Phase := p, j_Progress := x\<rparr>"
      "jobs_tbl d2 = (jobs_tbl d1)\<lparr>rows := map (\<lambda>j. if j_ID j = i then h' j else j) (rows (jobs_tbl d1))\<rparr>"
    by (auto simp: phases_only_def)
  have id: "j_ID (h j) = j_ID j" for j using h(1) by (metis offline_job.simps(1) offline_job.update_convs(7,8) offline_job.surjective)
  have "\<exists>p x. h' (h j) = j\<lparr>j_Phase := p, j_Progress := x\<rparr>" for j
  proof -
    obtain p x q y where "h j = j\<lparr>j_Phase := p, j_Progress := x\<rparr>" "h' (h j) = (h j)\<lparr>j_Phase := q, j_Progress := y\<rparr>"
      using h(1) h'(1) by metis
    then have "h' (h j) = j\<lparr>j_Phase := q, j_Progress := y\<rparr>" by simp
    then show ?thesis by blast
  qed
  moreover have "jobs_tbl d2 = (jobs_tbl d)\<lparr>rows := map (\<lambda>j. if j_ID j = i then h' (h j) else j) (rows (jobs_tbl d))\<rparr>"
    unfolding h'(2) h(2) by (simp add: id)
  ultimately show ?thesis
    using assms unfolding phases_only_def by (intro conjI exI [of _ "\<lambda>j. h' (h j)"]) auto
qed

lemma phases_only_step: "phases_only i d (UpdateJobPhase i p x d)"
  unfolding phases_only_def UpdateJobPhase_def upd_jobs_def
  by (intro conjI exI [of _ "\<lambda>j. j\<lparr>j_Phase := p, j_Progress := x\<rparr>"]) auto

text \<open>Temporaries that a run can leave behind.\<close>

definition leftover :: "off_env \<Rightarrow> go_string set" where
  "leftover e =
     {in_temp e (''offline-shots-'' @ random_name e ForSamples), in_temp e (''offline-pages-'' @ random_name e ForSamples),
      in_temp e (''offline-samples-'' @ random_name e ForSamples), in_temp e (random_name e ForArchive @ ''.7z'')}"

text \<open>A prefix of a run: nothing is released, and temporaries are new only if they are among these.\<close>

definition prelude :: "off_env \<Rightarrow> offline_job \<Rightarrow> off_state \<Rightarrow> off_state \<Rightarrow> bool" where
  "prelude e job st st' \<longleftrightarrow>
     phases_only (j_ID job) (os_db st) (os_db st') \<and> set (os_temp st') \<subseteq> set (os_temp st) \<union> leftover e \<and>
     os_out st' = os_out st"

lemma prelude_refl: "prelude e job st st"
  by (simp add: prelude_def phases_only_refl)

lemma prelude_trans: "prelude e job st st1 \<Longrightarrow> prelude e job st1 st2 \<Longrightarrow> prelude e job st st2"
  unfolding prelude_def using phases_only_trans by (metis (no_types, lifting) Un_assoc Un_absorb subset_trans sup.mono sup_mono order_refl le_supI le_sup_iff sup_ge1 sup_ge2)

lemma prelude_phase: "prelude e job st (set_phase job p x st)"
  by (simp add: prelude_def set_phase_def phases_only_step)

lemma prelude_phases: "prelude e job st (fold (\<lambda>(p, x). set_phase job (f p) x) ps st)"
proof (induction ps arbitrary: st)
  case (Cons q ps)
  have "prelude e job st (set_phase job (f (fst q)) (snd q) st)" by (rule prelude_phase)
  from prelude_trans [OF this Cons.IH] show ?case by (simp add: split_beta)
qed (simp add: prelude_refl)

text \<open>The content a job can start from, and the staged form of it once the blocked files are gone.\<close>

definition job_content :: "off_env \<Rightarrow> offline_job \<Rightarrow> off_state \<Rightarrow> content \<Rightarrow> bool" where
  "job_content e job st ct \<longleftrightarrow>
     (if is_torrent job then ct_files ct = oe_downloaded e \<and> ct_is_dir ct = oe_downloaded_dir e
      else if oe_stat e = Inr True then ct_files ct = os_source st \<and> ct_is_dir ct
      else ct_files ct = ct_files (wrapped e job (ct_dir ct)) \<and> ct_is_dir ct)"

definition allowed :: "off_env \<Rightarrow> group \<Rightarrow> content \<Rightarrow> source" where
  "allowed e g ct = content_source (ct_is_dir ct)
     (fst (RemoveBlockedFiles (Some (EffectiveBlocklist (g_BannedExtensions g))) (oe_rm e) (ct_files ct)))"

definition staged_from :: "off_env \<Rightarrow> group \<Rightarrow> (content \<Rightarrow> bool) \<Rightarrow> staged \<Rightarrow> bool" where
  "staged_from e g cts files \<longleftrightarrow>
     (\<exists>ct. cts ct \<and> stage_content e (job_config (oe_cfg e) g) (allowed e g ct) = Inr files)"

text \<open>The files of the release directory that a run writes.\<close>

definition release_files :: "off_env \<Rightarrow> offline_job \<Rightarrow> group \<Rightarrow> go_string set" where
  "release_files e job g = {release_nzb e job g, path_join [release_dir e job g, ''password.txt'']}"

text \<open>The NZB of the files that were staged from the content and uploaded, with the password the row gets.\<close>

definition release_data :: "off_env \<Rightarrow> offline_job \<Rightarrow> group \<Rightarrow> (content \<Rightarrow> bool) \<Rightarrow> go_string \<Rightarrow> go_string \<Rightarrow> bool" where
  "release_data e job g cts pw dat \<longleftrightarrow>
     pw = (if Encrypt (oe_cfg e) then random_name e ForPassword else []) \<and>
     (\<exists>dir files par2 fs. staged_from e g cts files \<and>
        UploadDirectory (oe_up_ctx e) (oe_up e) (oe_walk e dir files par2) = Inr fs \<and>
        dat = job_nzb e (job_config (oe_cfg e) g) job pw fs)"

text \<open>
  What a run has left in the output directory. One that ended well: that NZB, and otherwise no
  change but in the files of the release. One whose write of the NZB failed: at its path what was
  there or the first bytes of the NZB, and no other change. Any other: no change.
\<close>

definition leaves ::
  "off_env \<Rightarrow> offline_job \<Rightarrow> group \<Rightarrow> (content \<Rightarrow> bool) \<Rightarrow> off_result \<Rightarrow>
    (go_string \<times> go_string) list \<Rightarrow> (go_string \<times> go_string) list \<Rightarrow> bool" where
  "leaves e job g cts r out out' \<longleftrightarrow>
     (case r of
        Released nzb pw \<Rightarrow> nzb = release_nzb e job g \<and>
          (\<exists>dat. release_data e job g cts pw dat \<and> map_of out' nzb = Some dat) \<and>
          (\<forall>p. p \<notin> release_files e job g \<longrightarrow> map_of out' p = map_of out p)
      | Broke (WriteNzb err) \<Rightarrow>
          (map_of out' (release_nzb e job g) = map_of out (release_nzb e job g) \<or>
           (\<exists>pw dat n. release_data e job g cts pw dat \<and> map_of out' (release_nzb e job g) = Some (take n dat))) \<and>
          (\<forall>p. p \<noteq> release_nzb e job g \<longrightarrow> map_of out' p = map_of out p)
      | _ \<Rightarrow> out' = out)"

text \<open>Only a run that got as far as writing has touched the output directory.\<close>

definition writes :: "off_result \<Rightarrow> bool" where
  "writes r \<longleftrightarrow> (case r of Released nzb pw \<Rightarrow> True | Broke (WriteNzb err) \<Rightarrow> True | _ \<Rightarrow> False)"

lemma leaves_unwritten: "\<not> writes r \<Longrightarrow> leaves e job g cts r out out' \<longleftrightarrow> out' = out"
  by (simp add: leaves_def writes_def split: off_result.splits off_error.splits)

definition runs_well ::
  "off_env \<Rightarrow> offline_job \<Rightarrow> group \<Rightarrow> (content \<Rightarrow> bool) \<Rightarrow> off_state \<Rightarrow> off_state \<times> off_result \<Rightarrow> bool" where
  "runs_well e job g cts st res \<longleftrightarrow>
     (case res of (st', r) \<Rightarrow>
        phases_only (j_ID job) (os_db st) (os_db st') \<and> set (os_temp st') \<subseteq> set (os_temp st) \<union> leftover e \<and>
        leaves e job g cts r (os_out st) (os_out st'))"

lemma runs_well_pre:
  assumes "prelude e job st st1" "runs_well e job g cts st1 res"
  shows "runs_well e job g cts st res"
proof -
  obtain st' r where res: "res = (st', r)" by (cases res)
  have "phases_only (j_ID job) (os_db st) (os_db st')"
    using assms phases_only_trans by (simp add: prelude_def runs_well_def res) blast
  moreover have "set (os_temp st') \<subseteq> set (os_temp st) \<union> leftover e"
    using assms by (auto simp: prelude_def runs_well_def res)
  ultimately show ?thesis using assms by (simp add: prelude_def runs_well_def res)
qed

lemma runs_well_broke:
  assumes "prelude e job st st'" "\<not> writes (Broke err)"
  shows "runs_well e job g cts st (st', Broke err)"
  using assms by (simp add: runs_well_def prelude_def leaves_unwritten)

lemma runs_well_state:
  assumes "runs_well e job g cts st (st1, r)" "os_db st' = os_db st1" "os_out st' = os_out st1"
    "set (os_temp st') \<subseteq> set (os_temp st1)"
  shows "runs_well e job g cts st (st', r)"
  using assms unfolding runs_well_def by auto

lemma runs_well_with_temp:
  assumes "\<And>st. runs_well e job g cts st (body st)"
  shows "runs_well e job g cts st (with_temp p body st)"
proof -
  obtain st' r where b: "body (make_temp p st) = (st', r)" by (cases "body (make_temp p st)")
  have "runs_well e job g cts (make_temp p st) (st', r)" using assms b by metis
  moreover have "with_temp p body st = (drop_temp p st', r)" by (simp add: with_temp_def b)
  ultimately show ?thesis
    by (auto simp: runs_well_def make_temp_def drop_temp_def)
qed

lemma runs_well_phase: "runs_well e job g cts (set_phase job p x st) res \<Longrightarrow> runs_well e job g cts st res"
  by (rule runs_well_pre [OF prelude_phase])

subsection \<open>Each part of the pipeline\<close>

lemma prelude_keep_samples:
  "outDir \<in> leftover e \<Longrightarrow> keep_samples outDir res st = (st', samples) \<Longrightarrow> prelude e job st st'"
  by (auto simp: keep_samples_def prelude_def make_temp_def drop_temp_def phases_only_refl split: sum.splits)

lemma prelude_samples:
  assumes "generateOfflineSamples e job dir es g n secs st = (st', samples)"
  shows "prelude e job st st'"
proof -
  have left: "in_temp e (''offline-shots-'' @ random_name e ForSamples) \<in> leftover e"
    "in_temp e (''offline-pages-'' @ random_name e ForSamples) \<in> leftover e"
    "in_temp e (''offline-samples-'' @ random_name e ForSamples) \<in> leftover e"
    by (simp_all only: leftover_def insert_iff simp_thms)
  have keep: "prelude e job st st1" if "out \<in> leftover e" "keep_samples out res (set_phase job p x st) = (st1, ss)"
    for out res p x st1 ss
    using prelude_trans [OF prelude_phase prelude_keep_samples [OF that]] .
  have ph: "prelude e job st st1" if "(set_phase job p x st, []) = (st1, ss)" for p x st1 and ss :: "go_string list"
    using that prelude_phase by auto
  note cases = keep [OF left(1)] keep [OF left(2)] keep [OF left(3)] ph
  consider "offlineVideoScreenshots e job dir es n (g_WatermarkText g) st = (st', samples)"
    | "offlineMangaPages e job dir es n st = (st', samples)"
    | "offlineAudioSamples e job dir es n secs st = (st', samples)" | "st' = st"
    using assms by (auto simp: generateOfflineSamples_def split: if_splits)
  then show ?thesis
  proof cases
    case 1
    then show ?thesis
      by (auto simp: offlineVideoScreenshots_def Let_def split: if_splits sum.splits intro: cases)
  next
    case 2
    then show ?thesis by (auto simp: offlineMangaPages_def Let_def split: if_splits intro: cases)
  next
    case 3
    then show ?thesis
      by (auto simp: offlineAudioSamples_def Let_def split: if_splits sum.splits intro: cases)
  qed (simp add: prelude_refl)
qed

text \<open>The NZB of a release and its password file are different files.\<close>

lemma nzb_name_plain: "plain_name (SanitizeBaseName rnd title @ ''.nzb'')"
proof -
  have "slash \<notin> set (SanitizeBaseName rnd title)" using SanitizeBaseName_unsafe slash_unsafe by blast
  moreover have "SanitizeBaseName rnd title @ ''.nzb'' \<noteq> d" if "length d < 4" for d using that by auto
  ultimately show ?thesis by (simp add: plain_name_def slash_def)
qed

lemma nzb_not_password: "path_join [d, SanitizeBaseName rnd title @ ''.nzb''] \<noteq> path_join [d', ''password.txt'']"
proof
  assume eq: "path_join [d, SanitizeBaseName rnd title @ ''.nzb''] = path_join [d', ''password.txt'']"
  have "plain_name ''password.txt''" by (simp add: plain_name_def slash_def)
  with eq have "SanitizeBaseName rnd title @ ''.nzb'' = ''password.txt''"
    using path_base_join [OF nzb_name_plain] path_base_join [of "''password.txt''" d'] by metis
  then have "last (SanitizeBaseName rnd title @ ''.nzb'') = last ''password.txt''" by (rule arg_cong)
  then show False by simp
qed

lemma moveSamplesInto_same:
  "os_db (moveSamplesInto e ps dst st) = os_db st" "os_out (moveSamplesInto e ps dst st) = os_out st"
  "set (os_temp (moveSamplesInto e ps dst st)) \<subseteq> set (os_temp st)"
  by (auto simp: moveSamplesInto_def Let_def drop_temp_def)

lemma put_out_same [simp]: "os_db (put_out w p dat st) = os_db st" "os_temp (put_out w p dat st) = os_temp st"
  by (simp_all add: put_out_def)

lemma put_out_other: "q \<noteq> p \<Longrightarrow> map_of (os_out (put_out w p dat st)) q = map_of (os_out st) q"
  by (simp add: put_out_def WriteFile_other)

lemma save_release_done:
  assumes dat: "release_data e job g cts pw (job_nzb e (job_config (oe_cfg e) g) job pw fs)"
    and mk: "oe_out_mkdir e = None" and wr: "oe_write e = Wrote"
  shows "runs_well e job g cts st (save_release e (job_config (oe_cfg e) g) job g samples pw fs st)"
proof -
  let ?cfg = "job_config (oe_cfg e) g" and ?st = "set_phase job ''nzb'' 0 st"
  let ?nzb = "release_nzb e job g" and ?pwf = "path_join [release_dir e job g, ''password.txt'']"
  define st1 where "st1 = put_out Wrote ?nzb (job_nzb e ?cfg job pw fs) ?st"
  define st2 where "st2 = (if pw \<noteq> [] then put_out (oe_pw_write e) ?pwf (pw @ [CHR 0x0A]) st1 else st1)"
  define st3 where "st3 = (if samples \<noteq> [] then moveSamplesInto e samples
    (path_join [release_dir e job g, ''samples'']) st2 else st2)"
  have r: "save_release e ?cfg job g samples pw fs st = (st3, Released ?nzb pw)"
    using mk wr by (simp add: save_release_def Let_def st1_def st2_def st3_def)
  have ne: "?nzb \<noteq> ?pwf" using nzb_not_password by (simp add: release_nzb_def safe_title_def)
  then have "map_of (os_out st2) ?nzb = map_of (os_out st1) ?nzb" by (simp add: st2_def put_out_other)
  then have out: "map_of (os_out st3) ?nzb = Some (job_nzb e ?cfg job pw fs)"
    by (simp add: st3_def moveSamplesInto_same st1_def put_out_def update_conv')
  have db: "os_db st3 = os_db ?st" by (simp add: st3_def st2_def st1_def moveSamplesInto_same)
  have "os_temp st2 = os_temp st" by (simp add: st2_def st1_def set_phase_def)
  then have temp: "set (os_temp st3) \<subseteq> set (os_temp st)"
    using moveSamplesInto_same(3) [of e samples "path_join [release_dir e job g, ''samples'']" st2] by (simp add: st3_def)
  have other: "map_of (os_out st3) p = map_of (os_out st) p" if "p \<notin> release_files e job g" for p
    using that by (simp add: st3_def moveSamplesInto_same st2_def st1_def put_out_other release_files_def set_phase_def)
  have "phases_only (j_ID job) (os_db st) (os_db st3)" by (simp add: db set_phase_def phases_only_step)
  moreover have "leaves e job g cts (Released ?nzb pw) (os_out st) (os_out st3)"
    unfolding leaves_def using dat out other by auto
  ultimately show ?thesis
    unfolding r runs_well_def using temp by auto
qed

lemma save_release_cut:
  assumes dat: "release_data e job g cts pw (job_nzb e (job_config (oe_cfg e) g) job pw fs)"
    and mk: "oe_out_mkdir e = None"
    and wr: "snd (WriteFile (oe_write e) (release_nzb e job g) (job_nzb e (job_config (oe_cfg e) g) job pw fs) (os_out st)) = Some err"
  shows "runs_well e job g cts st (save_release e (job_config (oe_cfg e) g) job g samples pw fs st)"
proof -
  let ?cfg = "job_config (oe_cfg e) g" and ?st = "set_phase job ''nzb'' 0 st" and ?nzb = "release_nzb e job g"
  let ?st1 = "put_out (oe_write e) ?nzb (job_nzb e ?cfg job pw fs) ?st"
  have out: "os_out ?st = os_out st" by (simp add: set_phase_def)
  have r: "save_release e ?cfg job g samples pw fs st = (?st1, Broke (WriteNzb err))"
    using mk wr by (simp add: save_release_def Let_def out)
  have "os_out ?st1 = fst (WriteFile (oe_write e) ?nzb (job_nzb e ?cfg job pw fs) (os_out st))"
    by (simp add: put_out_def out)
  then have "map_of (os_out ?st1) ?nzb = map_of (os_out st) ?nzb \<or>
      (\<exists>n. map_of (os_out ?st1) ?nzb = Some (take n (job_nzb e ?cfg job pw fs)))"
    using WriteFile_failed [OF wr] by simp
  moreover have "map_of (os_out ?st1) p = map_of (os_out st) p" if "p \<noteq> ?nzb" for p
    using that by (simp add: put_out_other out)
  ultimately have "leaves e job g cts (Broke (WriteNzb err)) (os_out st) (os_out ?st1)"
    using dat unfolding leaves_def by auto
  then show ?thesis unfolding r runs_well_def by (simp add: set_phase_def phases_only_step)
qed

lemma save_release_well:
  assumes "staged_from e g cts files" "UploadDirectory (oe_up_ctx e) (oe_up e) (oe_walk e dir files par2) = Inr fs"
    and "pw = (if Encrypt (oe_cfg e) then random_name e ForPassword else [])"
  shows "runs_well e job g cts st (save_release e (job_config (oe_cfg e) g) job g samples pw fs st)"
proof -
  let ?dat = "job_nzb e (job_config (oe_cfg e) g) job pw fs"
  have dat: "release_data e job g cts pw ?dat" using assms by (auto simp: release_data_def)
  consider (mk) err where "oe_out_mkdir e = Some err"
    | (wr) err where "oe_out_mkdir e = None" "snd (WriteFile (oe_write e) (release_nzb e job g) ?dat (os_out st)) = Some err"
    | (ok) "oe_out_mkdir e = None" "oe_write e = Wrote"
    by (cases "oe_out_mkdir e"; cases "oe_write e") (auto simp: WriteFile_def)
  then show ?thesis
  proof cases
    case mk
    then show ?thesis by (simp add: save_release_def Let_def runs_well_broke prelude_phase writes_def)
  next
    case wr
    then show ?thesis by (rule save_release_cut [OF dat])
  next
    case ok
    then show ?thesis by (rule save_release_done [OF dat])
  qed
qed

lemma upload_and_save_well:
  assumes "staged_from e g cts files" "pw = (if Encrypt (oe_cfg e) then random_name e ForPassword else [])"
  shows "runs_well e job g cts st (upload_and_save e (job_config (oe_cfg e) g) job g samples pw dir (oe_walk e dir files par2) st)"
proof -
  let ?cfg = "job_config (oe_cfg e) g"
  let ?st = "set_phase job ''uploading'' 0 ((set_phase job ''queued-upload'' 0 st)\<lparr>os_slot := True\<rparr>)"
  define res where "res = (case UploadDirectory (oe_up_ctx e) (oe_up e) (oe_walk e dir files par2) of
     Inl err \<Rightarrow> (?st, Broke (UploadErr (dir_error_text e dir err)))
   | Inr fs \<Rightarrow> save_release e ?cfg job g samples pw fs ?st)"
  have slot: "prelude e job s (s\<lparr>os_slot := b\<rparr>)" for s b by (simp add: prelude_def phases_only_refl)
  have pre: "prelude e job st ?st" by (rule prelude_trans [OF prelude_trans [OF prelude_phase slot] prelude_phase])
  have "runs_well e job g cts ?st res"
  proof (cases "UploadDirectory (oe_up_ctx e) (oe_up e) (oe_walk e dir files par2)")
    case (Inl err)
    then show ?thesis by (simp add: res_def runs_well_broke prelude_refl writes_def)
  next
    case (Inr fs)
    from save_release_well [OF assms(1) this assms(2)] show ?thesis by (simp only: res_def Inr sum.case)
  qed
  then have w: "runs_well e job g cts st res" by (rule runs_well_pre [OF pre])
  obtain st' r where res: "res = (st', r)" by (cases res)
  have "upload_and_save e ?cfg job g samples pw dir (oe_walk e dir files par2) st = (st'\<lparr>os_slot := False\<rparr>, r)"
    using res by (simp add: upload_and_save_def Let_def res_def split_beta)
  moreover have "runs_well e job g cts st (st'\<lparr>os_slot := False\<rparr>, r)"
    by (rule runs_well_state [OF w [unfolded res]]) simp_all
  ultimately show ?thesis by simp
qed

lemma encrypt_job_config [simp]: "Encrypt (job_config cfg g) = Encrypt cfg"
  by (simp add: job_config_def)

lemma prelude_drop: "prelude e job st (drop_temp p st)"
  by (auto simp: prelude_def drop_temp_def phases_only_refl)

lemma prelude_make: "p \<in> leftover e \<Longrightarrow> prelude e job st (make_temp p st)"
  by (simp add: prelude_def make_temp_def phases_only_refl)

lemma archive_leftover: "in_temp e (random_name e ForArchive @ ''.7z'') \<in> leftover e"
  unfolding leftover_def by (intro insertI2 insertI1)

lemma encrypted_upload_well:
  assumes "staged_from e g cts files" "Encrypt (oe_cfg e)"
  shows "runs_well e job g cts st
    (case oe_enc_mkdir e of
       Some err \<Rightarrow> (st, Broke (EncDir err))
     | None \<Rightarrow> with_temp d (\<lambda>st3. case oe_enc_rename e of
           Some err \<Rightarrow> (st3, Broke (EncRename err))
         | None \<Rightarrow> upload_and_save e (job_config (oe_cfg e) g) job g samples (random_name e ForPassword) d
             (oe_walk e d files par2) (drop_temp q st3)) st)"
proof (cases "oe_enc_mkdir e")
  case (Some err)
  have "runs_well e job g cts st (st, Broke (EncDir err))"
    by (rule runs_well_broke [OF prelude_refl]) (simp add: writes_def)
  then show ?thesis by (simp only: Some option.case)
next
  case None
  have inner: "runs_well e job g cts s (case oe_enc_rename e of
           Some err \<Rightarrow> (s, Broke (EncRename err))
         | None \<Rightarrow> upload_and_save e (job_config (oe_cfg e) g) job g samples (random_name e ForPassword) d
             (oe_walk e d files par2) (drop_temp q s))" for s
  proof (cases "oe_enc_rename e")
    case (Some err)
    have "runs_well e job g cts s (s, Broke (EncRename err))"
      by (rule runs_well_broke [OF prelude_refl]) (simp add: writes_def)
    then show ?thesis by (simp only: Some option.case)
  next
    case None
    have "random_name e ForPassword = (if Encrypt (oe_cfg e) then random_name e ForPassword else [])" using assms(2) by simp
    from runs_well_pre [OF prelude_drop upload_and_save_well [OF assms(1) this]]
    show ?thesis by (simp only: None option.case)
  qed
  show ?thesis unfolding None option.case by (rule runs_well_with_temp) (rule inner)
qed

lemma encrypt_off:
  assumes "\<not> Encrypt cfg"
  shows "encrypt_and_upload e cfg job g samples dir files par2 st =
      upload_and_save e cfg job g samples [] dir (oe_walk e dir files par2) st"
  unfolding encrypt_and_upload_def using assms by (rule if_P)

lemma encrypt_failed:
  assumes "Encrypt cfg" "oe_encrypt e = Some err"
  shows "encrypt_and_upload e cfg job g samples dir files par2 st =
    (let st1 = set_phase job ''encrypting'' 0 st in
     ((if oe_partial e then make_temp (in_temp e (random_name e ForArchive @ ''.7z'')) st1 else st1), Broke (EncryptErr err)))"
  unfolding encrypt_and_upload_def Let_def assms(2) option.case using assms(1) by simp
lemma encrypt_done:
  assumes "Encrypt cfg" "oe_encrypt e = None"
  shows "encrypt_and_upload e cfg job g samples dir files par2 st =
    with_temp (in_temp e (random_name e ForArchive @ ''.7z'')) (\<lambda>st2.
      case oe_enc_mkdir e of
        Some err \<Rightarrow> (st2, Broke (EncDir err))
      | None \<Rightarrow> with_temp (in_temp e (''offline-enc-'' @ random_name e ForEncDir)) (\<lambda>st3. case oe_enc_rename e of
            Some err \<Rightarrow> (st3, Broke (EncRename err))
          | None \<Rightarrow> upload_and_save e cfg job g samples (random_name e ForPassword) (in_temp e (''offline-enc-'' @ random_name e ForEncDir))
             (oe_walk e (in_temp e (''offline-enc-'' @ random_name e ForEncDir)) files par2)
             (drop_temp (in_temp e (random_name e ForArchive @ ''.7z'')) st3)) st2)
      (set_phase job ''encrypting'' 0 st)"
  unfolding encrypt_and_upload_def Let_def assms(2) option.case using assms(1) by simp

lemma encrypt_failed_well:
  assumes "Encrypt cfg" "oe_encrypt e = Some err"
  shows "runs_well e job g cts st (encrypt_and_upload e cfg job g samples dir files par2 st)"
proof -
  have "prelude e job s (if oe_partial e then make_temp (in_temp e (random_name e ForArchive @ ''.7z'')) s else s)" for s
    using prelude_make [OF archive_leftover] prelude_refl by simp
  from prelude_trans [OF prelude_phase this] show ?thesis
    unfolding encrypt_failed [OF assms] Let_def by (rule runs_well_broke) (simp add: writes_def)
qed

lemma encrypt_done_well:
  assumes "staged_from e g cts files" "Encrypt (oe_cfg e)" "oe_encrypt e = None"
  shows "runs_well e job g cts st (encrypt_and_upload e (job_config (oe_cfg e) g) job g samples dir files par2 st)"
proof -
  have "Encrypt (job_config (oe_cfg e) g)" using assms(2) by simp
  note eq = encrypt_done [OF this assms(3)]
  show ?thesis unfolding eq
    by (rule runs_well_phase, rule runs_well_with_temp, rule encrypted_upload_well [OF assms(1,2)])
qed

lemma encrypt_off_well:
  assumes "staged_from e g cts files" "\<not> Encrypt (oe_cfg e)"
  shows "runs_well e job g cts st (encrypt_and_upload e (job_config (oe_cfg e) g) job g samples dir files par2 st)"
proof -
  have "\<not> Encrypt (job_config (oe_cfg e) g)" using assms(2) by simp
  note eq = encrypt_off [OF this]
  have "[] = (if Encrypt (oe_cfg e) then random_name e ForPassword else [])" using assms(2) by simp
  note w = upload_and_save_well [OF assms(1) this]
  show ?thesis unfolding eq by (rule w)
qed

lemma encrypt_and_upload_well:
  assumes st: "staged_from e g cts files"
  shows "runs_well e job g cts st (encrypt_and_upload e (job_config (oe_cfg e) g) job g samples dir files par2 st)"
proof (cases "Encrypt (oe_cfg e)")
  case True
  then have "Encrypt (job_config (oe_cfg e) g)" by simp
  note failed = encrypt_failed_well [OF this]
  show ?thesis
  proof (cases "oe_encrypt e")
    case None
    then show ?thesis by (rule encrypt_done_well [OF st True])
  next
    case (Some err)
    then show ?thesis by (rule failed)
  qed
next
  case False
  then show ?thesis by (rule encrypt_off_well [OF st])
qed

lemma stage_and_upload_well:
  assumes "cts ct" and src: "src = allowed e g ct"
  shows "runs_well e job g cts st (stage_and_upload e (job_config (oe_cfg e) g) job g samples dir src st)"
proof (cases "stage_content e (job_config (oe_cfg e) g) src")
  case (Inl err)
  then have "\<not> writes (Broke err)"
    by (auto simp: stage_content_def writes_def split: if_splits prod.splits option.splits)
  with Inl show ?thesis by (simp add: stage_and_upload_def Let_def runs_well_broke prelude_phase)
next
  case (Inr files)
  with assms have st: "staged_from e g cts files" by (auto simp: staged_from_def)
  let ?st1 = "set_phase job ''par2'' 0 (set_phase job ''staging'' 0 st)"
  have "prelude e job st (fold (\<lambda>(p, x). set_phase job (''par2:'' @ p) x) (oe_par2_progress e) ?st1)"
    by (rule prelude_trans [OF prelude_trans [OF prelude_phase prelude_phase] prelude_phases])
  from runs_well_pre [OF this encrypt_and_upload_well [OF st]] show ?thesis
    by (simp only: stage_and_upload_def Let_def Inr sum.case)
qed

lemma process_content_well:
  assumes "cts ct"
  shows "runs_well e job g cts st (process_content e (job_config (oe_cfg e) g) job g ct st)"
proof -
  let ?es = "fst (RemoveBlockedFiles (Some (EffectiveBlocklist (g_BannedExtensions g))) (oe_rm e) (ct_files ct))"
  let ?st1 = "if ct_in_place ct then st\<lparr>os_source := ?es\<rparr> else st"
  obtain st2 samples where s: "generateOfflineSamples e job (ct_dir ct) ?es g (sample_count g) (sample_seconds g) ?st1 = (st2, samples)"
    by (cases "generateOfflineSamples e job (ct_dir ct) ?es g (sample_count g) (sample_seconds g) ?st1")
  have "prelude e job st ?st1" by (simp add: prelude_def phases_only_refl)
  then have pre: "prelude e job st st2" by (rule prelude_trans [OF _ prelude_samples [OF s]])
  have eq: "process_content e (job_config (oe_cfg e) g) job g ct st =
    (case oe_stage_mkdir e of
       Some err \<Rightarrow> (st2, Broke (StageDir err))
     | None \<Rightarrow> with_temp (in_temp e (''offline-stage-'' @ random_name e ForStage))
         (stage_and_upload e (job_config (oe_cfg e) g) job g samples (in_temp e (''offline-stage-'' @ random_name e ForStage))
            (allowed e g ct)) st2)"
    unfolding process_content_def Let_def allowed_def by (simp only: s prod.case)
  show ?thesis
  proof (cases "oe_stage_mkdir e")
    case None
    show ?thesis unfolding eq None option.case
      by (rule runs_well_pre [OF pre], rule runs_well_with_temp, rule stage_and_upload_well [where cts = cts, OF assms refl])
  next
    case (Some err)
    show ?thesis unfolding eq Some option.case by (rule runs_well_broke [OF pre]) (simp add: writes_def)
  qed
qed

lemma runs_well_pending: "runs_well e job g cts st (st, Pending)"
  by (simp add: runs_well_def phases_only_refl leaves_def)

lemma fetch_source_well:
  assumes "\<And>ct st. cts ct \<Longrightarrow> runs_well e job g cts st (rest ct st)"
    and "\<And>p. cts \<lparr>ct_dir = p, ct_files = oe_downloaded e, ct_is_dir = oe_downloaded_dir e, ct_in_place = False\<rparr>"
  shows "runs_well e job g cts st
    (case DownloadPrivateTorrentBytes w cfg l n opts of
       FetchFailed err \<Rightarrow> (st, Broke (TorrentDownload (err_text (torrent_task_err err))))
     | Fetching \<Rightarrow> (st, Pending)
     | Fetched p \<Rightarrow> with_temp p (rest \<lparr>ct_dir = p, ct_files = oe_downloaded e, ct_is_dir = oe_downloaded_dir e,
         ct_in_place = False\<rparr>) st)"
proof (cases "DownloadPrivateTorrentBytes w cfg l n opts")
  case (FetchFailed err)
  then show ?thesis by (simp add: runs_well_broke prelude_refl writes_def)
next
  case Fetching
  then show ?thesis by (simp add: runs_well_pending)
next
  case (Fetched p)
  show ?thesis unfolding Fetched fetched.case
    by (rule runs_well_with_temp, rule assms(1), rule assms(2))
qed

lemma wrap_source_well:
  assumes "\<And>ct st. cts ct \<Longrightarrow> runs_well e job g cts st (rest ct st)" and "cts (wrapped e job p)"
  shows "runs_well e job g cts st
    (case oe_wrap_mkdir e of
       Some err \<Rightarrow> (st, Broke (WrapDir err))
     | None \<Rightarrow> (case copied of
         Some err \<Rightarrow> (drop_temp p (make_temp p st), Broke (WrapCopy err))
       | None \<Rightarrow> with_temp p (rest (wrapped e job p)) st))"
proof -
  have "prelude e job st (drop_temp p (make_temp p st))"
    by (auto simp: prelude_def drop_temp_def make_temp_def phases_only_refl)
  moreover have "runs_well e job g cts st (with_temp p (rest (wrapped e job p)) st)"
    by (rule runs_well_with_temp, rule assms(1), rule assms(2))
  ultimately show ?thesis
    by (simp add: runs_well_broke prelude_refl writes_def split: option.split)
qed

lemma with_source_well:
  assumes rest: "\<And>ct st. cts ct \<Longrightarrow> runs_well e job g cts st (rest ct st)"
    and cts: "\<And>ct. job_content e job st ct \<Longrightarrow> cts ct"
  shows "runs_well e job g cts st (with_source e cfg job rest st)"
proof -
  let ?s = "set_phase job ''source'' 0 st"
  consider (bad) err where "oe_stat e = Inl err" | (noread) err b where "oe_stat e = Inr b" "is_torrent job" "oe_blob e = Some err"
    | (torrent) b where "oe_stat e = Inr b" "is_torrent job" "oe_blob e = None"
    | (dir) "oe_stat e = Inr True" "\<not> is_torrent job" | (single) "oe_stat e = Inr False" "\<not> is_torrent job"
    by (metis (full_types) not_Some_eq obj_sumE)
  then show ?thesis
  proof cases
    case bad
    then show ?thesis by (simp add: with_source_def Let_def runs_well_broke prelude_phase writes_def)
  next
    case noread
    then show ?thesis
      by (simp add: with_source_def Let_def runs_well_broke prelude_trans [OF prelude_phase prelude_phase] writes_def)
  next
    case torrent
    have "cts \<lparr>ct_dir = p, ct_files = oe_downloaded e, ct_is_dir = oe_downloaded_dir e, ct_in_place = False\<rparr>" for p
      using torrent by (intro cts) (simp add: job_content_def)
    note w = runs_well_phase [OF runs_well_phase [OF fetch_source_well [OF rest this]]]
    show ?thesis unfolding with_source_def Let_def torrent(1,3) sum.case option.case if_P [OF torrent(2)] by (rule w)
  next
    case dir
    have "cts \<lparr>ct_dir = j_SourcePath job, ct_files = os_source st, ct_is_dir = True, ct_in_place = True\<rparr>"
      using dir by (intro cts) (simp add: job_content_def)
    moreover have "os_source ?s = os_source st" by (simp add: set_phase_def)
    ultimately have "runs_well e job g cts ?s (rest \<lparr>ct_dir = j_SourcePath job, ct_files = os_source ?s, ct_is_dir = True, ct_in_place = True\<rparr> ?s)"
      by (simp add: rest)
    from runs_well_phase [OF this] show ?thesis using dir by (simp add: with_source_def Let_def)
  next
    case single
    have "cts (wrapped e job p)" for p
      using single by (intro cts) (simp add: job_content_def wrapped_def)
    note w = runs_well_phase [OF wrap_source_well [OF rest this]]
    show ?thesis unfolding with_source_def Let_def single(1) sum.case if_not_P [OF single(2)] if_False by (rule w)
  qed
qed

subsection \<open>A job from the claim to its end\<close>

text \<open>The group a job is posted for, as \<open>processOfflineJob\<close> finds it.\<close>

definition group_of :: "offline_job \<Rightarrow> db \<Rightarrow> group option" where
  "group_of job d = (case j_GroupID job of None \<Rightarrow> None
     | Some i \<Rightarrow> (case GetGroup i d of Inl err \<Rightarrow> None | Inr g \<Rightarrow> Some g))"

lemma processOfflineJob_well:
  assumes "processOfflineJob e job st = (st', r)"
  shows "phases_only (j_ID job) (os_db st) (os_db st') \<and> set (os_temp st') \<subseteq> set (os_temp st) \<union> leftover e \<and>
    (if writes r then \<exists>g. group_of job (os_db st) = Some g \<and> runs_well e job g (job_content e job st) st (st', r)
     else os_out st' = os_out st)"
proof -
  have early: ?thesis if "processOfflineJob e job st = (st, Broke err)" "\<not> writes (Broke err)" for err
    using assms that by (auto simp: phases_only_refl)
  consider "j_GroupID job = None" | i err where "j_GroupID job = Some i" "GetGroup i (os_db st) = Inl err"
    | i g where "j_GroupID job = Some i" "GetGroup i (os_db st) = Inr g" "g_Newsgroups g = []"
    | (ok) i g where "j_GroupID job = Some i" "GetGroup i (os_db st) = Inr g" "g_Newsgroups g \<noteq> []"
    by (metis not_Some_eq obj_sumE)
  then show ?thesis
  proof cases
    case ok
    have "runs_well e job g (job_content e job st) st
        (with_source e (job_config (oe_cfg e) g) job (process_content e (job_config (oe_cfg e) g) job g) st)"
      by (rule with_source_well) (rule process_content_well)
    moreover have "processOfflineJob e job st =
        with_source e (job_config (oe_cfg e) g) job (process_content e (job_config (oe_cfg e) g) job g) st"
      using ok by (simp add: processOfflineJob_def Let_def)
    ultimately have w: "runs_well e job g (job_content e job st) st (st', r)" using assms by simp
    with ok show ?thesis by (auto simp: runs_well_def leaves_unwritten group_of_def)
  next
    case 1
    then show ?thesis by (intro early [of NoGroup]) (simp_all add: processOfflineJob_def writes_def)
  next
    case 2
    then show ?thesis
      by (intro early [of "LoadGroup ''group not found''"]) (simp_all add: processOfflineJob_def writes_def)
  next
    case 3
    then show ?thesis
      by (intro early [of "NoNewsgroups (g_Name (the (group_of job (os_db st))))"])
        (simp_all add: processOfflineJob_def writes_def group_of_def)
  qed
qed

text \<open>The row of a job that ended with \<open>r\<close>, and what is then in the output directory.\<close>

definition ended_row :: "time \<Rightarrow> off_result \<Rightarrow> offline_job \<Rightarrow> offline_job \<Rightarrow> bool" where
  "ended_row clk r j j' \<longleftrightarrow>
     (case r of
        Released nzb pw \<Rightarrow> j' = j\<lparr>j_Status := Completed, j_Phase := ''done'', j_Progress := 100,
          j_NzbPath := Some nzb, j_Password := Some pw, j_CompletedAt := Some clk\<rparr>
      | Broke err \<Rightarrow> (\<exists>p x. j' = j\<lparr>j_Phase := p, j_Progress := x, j_Status := Failed,
          j_Error := Some (off_text err), j_CompletedAt := Some clk\<rparr>)
      | Pending \<Rightarrow> (\<exists>p x. j' = j\<lparr>j_Phase := p, j_Progress := x\<rparr>))"

lemma phases_only_job:
  assumes "phases_only i d d'"
  shows "\<exists>h. groups d' = groups d \<and> watches d' = watches d \<and> next_id (jobs_tbl d') = next_id (jobs_tbl d) \<and>
    rows (jobs_tbl d') = map (\<lambda>j. if j_ID j = i then h j else j) (rows (jobs_tbl d)) \<and>
    (\<forall>j. \<exists>p x. h j = j\<lparr>j_Phase := p, j_Progress := x\<rparr>)"
proof -
  from assms obtain h where "\<forall>j. \<exists>p x. h j = j\<lparr>j_Phase := p, j_Progress := x\<rparr>"
    "jobs_tbl d' = (jobs_tbl d)\<lparr>rows := map (\<lambda>j. if j_ID j = i then h j else j) (rows (jobs_tbl d))\<rparr>"
    "groups d' = groups d" "watches d' = watches d"
    unfolding phases_only_def by blast
  then show ?thesis by (intro exI [of _ h]) simp
qed

lemma runOneOfflineJob_rows:
  assumes "runOneOfflineJob e job st = (st', r)"
  shows "\<exists>h. groups (os_db st') = groups (os_db st) \<and> watches (os_db st') = watches (os_db st) \<and>
    next_id (jobs_tbl (os_db st')) = next_id (jobs_tbl (os_db st)) \<and>
    rows (jobs_tbl (os_db st')) = map (\<lambda>j. if j_ID j = j_ID job then h j else j) (rows (jobs_tbl (os_db st))) \<and>
    (\<forall>j. ended_row (oe_now e) r j (h j))"
proof -
  obtain st1 r1 where p: "processOfflineJob e job st = (st1, r1)" by fastforce
  from processOfflineJob_well [OF p] have "phases_only (j_ID job) (os_db st) (os_db st1)" by simp
  from phases_only_job [OF this] obtain h where h: "groups (os_db st1) = groups (os_db st)" "watches (os_db st1) = watches (os_db st)"
      "next_id (jobs_tbl (os_db st1)) = next_id (jobs_tbl (os_db st))"
      "rows (jobs_tbl (os_db st1)) = map (\<lambda>j. if j_ID j = j_ID job then h j else j) (rows (jobs_tbl (os_db st)))"
      "\<forall>j. \<exists>p x. h j = j\<lparr>j_Phase := p, j_Progress := x\<rparr>"
    by blast
  have id: "j_ID (h j) = j_ID j" for j using h(5) [THEN spec, of j] by (elim exE) simp
  have r: "r1 = r" using assms p by (auto simp: runOneOfflineJob_def split: off_result.splits)
  show ?thesis
  proof (cases r)
    case (Released nzb pw)
    let ?f = "\<lambda>j. j\<lparr>j_Status := Completed, j_Phase := ''done'', j_Progress := 100,
          j_NzbPath := Some nzb, j_Password := Some pw, j_CompletedAt := Some (oe_now e)\<rparr>"
    have "ended_row (oe_now e) r j (?f (h j))" for j
      using h(5) [THEN spec, of j] by (elim exE) (simp add: ended_row_def Released)
    then show ?thesis using assms p r Released h(1-4)
      by (intro exI [of _ "\<lambda>j. ?f (h j)"]) (auto simp: runOneOfflineJob_def MarkJobCompleted_def upd_jobs_def id)
  next
    case (Broke err)
    let ?f = "\<lambda>j. j\<lparr>j_Status := Failed, j_Error := Some (off_text err), j_CompletedAt := Some (oe_now e)\<rparr>"
    have "ended_row (oe_now e) r j (?f (h j))" for j
      using h(5) [THEN spec, of j] by (elim exE) (auto simp: ended_row_def Broke)
    then show ?thesis using assms p r Broke h(1-4)
      by (intro exI [of _ "\<lambda>j. ?f (h j)"]) (auto simp: runOneOfflineJob_def MarkJobFailed_def upd_jobs_def id)
  next
    case Pending
    have "ended_row (oe_now e) r j (h j)" for j
      using h(5) [THEN spec, of j] by (simp add: ended_row_def Pending)
    then show ?thesis using assms p r Pending h(1-4)
      by (intro exI [of _ h]) (auto simp: runOneOfflineJob_def)
  qed
qed

lemma runOneOfflineJob_files:
  assumes "runOneOfflineJob e job st = (st', r)"
  shows "set (os_temp st') \<subseteq> set (os_temp st) \<union> leftover e \<and>
    (if writes r then \<exists>g. group_of job (os_db st) = Some g \<and>
       leaves e job g (job_content e job st) r (os_out st) (os_out st')
     else os_out st' = os_out st)"
proof -
  obtain st1 r1 where p: "processOfflineJob e job st = (st1, r1)" by fastforce
  have "r1 = r" "os_temp st' = os_temp st1" "os_out st' = os_out st1"
    using assms p by (auto simp: runOneOfflineJob_def split: off_result.splits)
  with processOfflineJob_well [OF p] show ?thesis by (auto simp: runs_well_def split: if_splits)
qed

lemma claim_facts:
  assumes "db_wf d" "\<forall>j\<in>set (rows (jobs_tbl d)). j_Status j \<noteq> Processing" "oldest_queued d = Some q"
  shows "ClaimNextJob clk d = (upd_jobs (\<lambda>j. j_ID j = j_ID q) (claim_row clk) d, Some (claim_row clk q))"
proof -
  note q = oldest_queued_Some [OF assms(3)]
  let ?d = "upd_jobs (\<lambda>j. j_ID j = j_ID q) (claim_row clk) d"
  have "tbl_wf j_ID j_SourcePath (jobs_tbl d)" using assms(1) by (simp add: db_wf_def)
  note uniq = jt.id_unique [OF this]
  have rows: "x = claim_row clk q \<or> x \<in> set (rows (jobs_tbl d))" if "x \<in> set (rows (jobs_tbl ?d))" for x
    using that uniq [of _ q] q by (auto simp: upd_jobs_def)
  have "latest_started ?d = Some (claim_row clk q)"
  proof (rule latest_started_unique)
    show "claim_row clk q \<in> set (rows (jobs_tbl ?d))" using q by (auto simp: upd_jobs_def)
    show "\<forall>x\<in>set (rows (jobs_tbl ?d)). x \<noteq> claim_row clk q \<and> j_Status x = Processing \<longrightarrow>
        (\<forall>t. j_StartedAt x = Some t \<longrightarrow> t < clk)"
      using rows assms(2) by blast
  qed (simp_all add: claim_row_def)
  with assms(3) show ?thesis by (simp add: ClaimNextJob_def Let_def)
qed

text \<open>The claim changes nothing of a row that the pipeline reads.\<close>

lemma claim_row_names:
  "release_nzb e (claim_row clk q) g = release_nzb e q g" "release_files e (claim_row clk q) g = release_files e q g"
  "release_data e (claim_row clk q) g cts pw dat = release_data e q g cts pw dat"
  by (simp_all add: release_data_def release_files_def release_nzb_def release_dir_def safe_title_def job_nzb_def claim_row_def)

lemma claim_row_reads:
  "leaves e (claim_row clk q) g = leaves e q g" "job_content e (claim_row clk q) st = job_content e q st"
  by (intro ext, simp only: leaves_def claim_row_names)
    (intro ext, simp add: job_content_def claim_row_def is_torrent_def wrapped_def)

lemma group_of_claimed: "groups d' = groups d \<Longrightarrow> group_of (claim_row clk q) d' = group_of q d"
  by (simp add: group_of_def claim_row_def GetGroup_def cong: option.case_cong)

lemma job_content_db: "job_content e q (st\<lparr>os_db := d\<rparr>) = job_content e q st"
  by (intro ext) (simp add: job_content_def)

lemma turn_idle:
  "oldest_queued (os_db st) = None \<Longrightarrow> processor_turn clk e st = (st, None)"
  by (simp add: processor_turn_def ClaimNextJob_def)

lemma turn_runs:
  assumes "db_wf (os_db st)" "\<forall>j\<in>set (rows (jobs_tbl (os_db st))). j_Status j \<noteq> Processing"
    and "oldest_queued (os_db st) = Some q" and turn: "processor_turn clk e st = (st', res)"
  shows "\<exists>r q'. res = Some r \<and> groups (os_db st') = groups (os_db st) \<and> watches (os_db st') = watches (os_db st) \<and>
    next_id (jobs_tbl (os_db st')) = next_id (jobs_tbl (os_db st)) \<and>
    rows (jobs_tbl (os_db st')) = map (\<lambda>x. if x = q then q' else x) (rows (jobs_tbl (os_db st))) \<and>
    ended_row (oe_now e) r (claim_row clk q) q' \<and>
    set (os_temp st') \<subseteq> set (os_temp st) \<union> leftover e \<and>
    (if writes r then \<exists>g. group_of q (os_db st) = Some g \<and>
       leaves e q g (job_content e q st) r (os_out st) (os_out st')
     else os_out st' = os_out st)"
proof -
  note q = oldest_queued_Some [OF assms(3)]
  let ?d = "upd_jobs (\<lambda>j. j_ID j = j_ID q) (claim_row clk) (os_db st)"
  let ?st = "st\<lparr>os_db := ?d\<rparr>" and ?job = "claim_row clk q"
  have same: "j_ID x = j_ID q \<longleftrightarrow> x = q" if "x \<in> set (rows (jobs_tbl (os_db st)))" for x
    using jt.id_unique [OF _ that, of q] q assms(1) by (auto simp: db_wf_def)
  obtain r where run: "runOneOfflineJob e ?job ?st = (st', r)" and res: "res = Some r"
    using turn by (auto simp: processor_turn_def claim_facts [OF assms(1,2,3)] split: prod.splits)
  from runOneOfflineJob_rows [OF run] obtain h where h: "groups (os_db st') = groups ?d" "watches (os_db st') = watches ?d"
    "next_id (jobs_tbl (os_db st')) = next_id (jobs_tbl ?d)"
    "rows (jobs_tbl (os_db st')) = map (\<lambda>j. if j_ID j = j_ID ?job then h j else j) (rows (jobs_tbl ?d))"
    "\<forall>j. ended_row (oe_now e) r j (h j)" by auto
  have rows: "rows (jobs_tbl (os_db st')) = map (\<lambda>x. if x = q then h ?job else x) (rows (jobs_tbl (os_db st)))"
    unfolding h(4) using same by (auto simp: upd_jobs_def claim_row_def)
  have gw: "groups (os_db st') = groups (os_db st)" "watches (os_db st') = watches (os_db st)"
    "next_id (jobs_tbl (os_db st')) = next_id (jobs_tbl (os_db st))"
    using h by (simp_all add: upd_jobs_def)
  have "groups ?d = groups (os_db st)" by (simp add: upd_jobs_def)
  note eqs = claim_row_reads job_content_db group_of_claimed [OF this]
  from runOneOfflineJob_files [OF run] have "set (os_temp st') \<subseteq> set (os_temp st) \<union> leftover e \<and>
      (if writes r then \<exists>g. group_of q (os_db st) = Some g \<and>
       leaves e q g (job_content e q st) r (os_out st) (os_out st')
       else os_out st' = os_out st)"
    by (cases "writes r") (simp_all add: eqs)
  with res gw rows h(5) [THEN spec] show ?thesis by (intro exI [of _ r] exI [of _ "h ?job"] conjI) simp_all
qed

text \<open>
  C9. One turn of the offline processor, when no job is being processed already. If no job is
  queued, nothing changes. Otherwise the oldest queued job is the one that runs; its row alone
  changes in the database, and ends completed with the path of the NZB and the password, or
  failed with the text of the error (or stays in processing while its download does not end). A
  completed job has the NZB of exactly the segments uploaded for its allowed content at that path,
  and only files of that release have changed in the output directory. A job whose write of the NZB
  failed has changed nothing there but that path, which holds what it held or the first bytes of that
  NZB; any other run has changed nothing there. The temporaries that remain are the ones there
  were before, the sample directory and the archive of a failed encryption.
\<close>

theorem processor_turn_settles:
  assumes "db_wf (os_db st)" "\<forall>j\<in>set (rows (jobs_tbl (os_db st))). j_Status j \<noteq> Processing"
    and turn: "processor_turn clk e st = (st', res)"
  shows "case res of
      None \<Rightarrow> st' = st \<and> (\<forall>j\<in>set (rows (jobs_tbl (os_db st))). j_Status j \<noteq> Queued)
    | Some r \<Rightarrow>
        (\<exists>q\<in>set (rows (jobs_tbl (os_db st))). \<exists>q'. j_Status q = Queued \<and>
           (\<forall>x\<in>set (rows (jobs_tbl (os_db st))). j_Status x = Queued \<longrightarrow> j_CreatedAt q \<le> j_CreatedAt x) \<and>
           groups (os_db st') = groups (os_db st) \<and> watches (os_db st') = watches (os_db st) \<and>
           rows (jobs_tbl (os_db st')) = map (\<lambda>x. if x = q then q' else x) (rows (jobs_tbl (os_db st))) \<and>
           ended_row (oe_now e) r (claim_row clk q) q' \<and>
           set (os_temp st') \<subseteq> set (os_temp st) \<union> leftover e \<and>
           (if writes r then \<exists>g. group_of q (os_db st) = Some g \<and>
       leaves e q g (job_content e q st) r (os_out st) (os_out st')
            else os_out st' = os_out st))"
proof (cases "oldest_queued (os_db st)")
  case None
  with turn turn_idle [OF None, of clk e] show ?thesis by (simp add: oldest_queued_None_iff)
next
  case (Some q)
  from turn_runs [OF assms(1,2) Some turn] obtain r where "res = Some r" by blast
  with turn_runs [OF assms(1,2) Some turn] oldest_queued_Some [OF Some] show ?thesis
    by (simp only: option.case option.inject) blast
qed

subsection \<open>A sample run\<close>

text \<open>A single file in the queue, a group that bans only \<open>.exe\<close>, no \<open>ffprobe\<close>, no \<open>par2\<close>, and a server that accepts.\<close>

definition quiet_env :: off_env where
  "quiet_env = \<lparr>oe_now = 20, oe_unix = 20, oe_cfg = nzb_cfg, oe_layered = demo_layered, oe_environ = (\<lambda>k. None),
     oe_rand = (\<lambda>u. [1, 2]), oe_stat = Inr False, oe_blob = None, oe_world = demo_world, oe_downloaded = [],
     oe_downloaded_dir = True, oe_wrap_mkdir = None, oe_link = True, oe_file = [7, 8, 9],
     oe_io = (\<lambda>p. \<lparr>io_link = True, io_copy = CopyOk\<rparr>), oe_ctx = (\<lambda>p. False), oe_rm = (\<lambda>p. True),
     oe_probe = (\<lambda>p. Inl ''not found''), oe_shots_mkdir = None, oe_arrive = (\<lambda>ps. []), oe_zip = (\<lambda>p. Inl []),
     oe_zip_ctx = (\<lambda>k. False), oe_stage_mkdir = None, oe_par2_bin = Par2create, oe_par2 = (\<lambda>c. Inl ''not found''),
     oe_par2_progress = [], oe_encrypt = None, oe_partial = False, oe_enc_mkdir = None, oe_enc_rename = None,
     oe_walk = (\<lambda>d fs p. map (\<lambda>(n, dat). \<lparr>we_rel = n, we_failed = False, we_dir = False, we_size = length dat\<rparr>) fs),
     oe_up_ctx = (\<lambda>k. False), oe_up = (\<lambda>k. Inr [\<lparr>Bytes = 3, seg_Number = 1, MessageID = ''x@y''\<rparr>]), oe_up_text = (\<lambda>u. []),
     oe_out_mkdir = None, oe_write = Wrote, oe_pw_write = Wrote, oe_samples_mkdir = True,
     oe_move = (\<lambda>p. True), oe_stray = False\<rparr>"

definition quiet_state :: off_state where
  "quiet_state = \<lparr>os_db = job_db, os_temp = [], os_source = [], os_out = [], os_samples = [], os_slot = False\<rparr>"

definition quiet_group :: group where
  "quiet_group = \<lparr>g_ID = 1, g_Name = ''anime'', g_Type = ''video'', g_Newsgroups = [''a.b.anime''], g_Screenshots = None,
     g_SampleSeconds = None, g_Par2Redundancy = None, g_Obfuscate = None, g_WatermarkText = [],
     g_BannedExtensions = [''.exe''], g_Source = ''local'', g_Version = 1, g_CreatedAt = 5, g_UpdatedAt = 5\<rparr>"

definition quiet_job :: offline_job where
  "quiet_job = new_anime_job\<lparr>j_ID := 1, j_Status := Queued\<rparr>"

text \<open>The parts of the run that are evaluated.\<close>

lemma quiet_values:
  "(groups job_db = \<lparr>rows = [quiet_group], next_id = 2\<rparr> \<and> jobs_tbl job_db = \<lparr>rows = [quiet_job], next_id = 2\<rparr>) \<and>
   \<not> is_torrent quiet_job \<and> \<not> Obfuscate (job_config nzb_cfg quiet_group) \<and> \<not> Encrypt (job_config nzb_cfg quiet_group) \<and>
   sanitizeDirName (g_Name quiet_group) = ''anime'' \<and> trim_space (j_Title quiet_job) = ''a'' \<and>
   SanitizeBaseName (replicate 12 1) (j_Title quiet_job) = ''a'' \<and>
   (let es = ct_files (wrapped quiet_env quiet_job [])
    in fst (RemoveBlockedFiles (Some (EffectiveBlocklist [''.exe''])) (\<lambda>p. True) es) = es \<and>
      stage_content quiet_env (job_config nzb_cfg quiet_group) (Tree es) = Inr [(''a.mkv'', [7, 8, 9])])"
  by code_simp

lemmas quiet_db = quiet_values [THEN conjunct1]

lemma quiet_facts:
  "oldest_queued job_db = Some quiet_job" "j_GroupID quiet_job = Some 1" "j_SourcePath quiet_job = ''/data/anime/a.mkv''"
  "GetGroup 1 job_db = Inr quiet_group" "g_Newsgroups quiet_group = [''a.b.anime'']" "g_Type quiet_group = ''video''"
  "g_BannedExtensions quiet_group = [''.exe'']"
  by (simp_all add: oldest_queued_def GetGroup_def tbl_find_def quiet_db quiet_job_def quiet_group_def new_anime_job_def)

lemma quiet_config:
  "\<not> is_torrent quiet_job" "\<not> Obfuscate (job_config nzb_cfg quiet_group)" "\<not> Encrypt (job_config nzb_cfg quiet_group)"
  "sanitizeDirName (g_Name quiet_group) = ''anime''" "trim_space (j_Title quiet_job) = ''a''"
  "SanitizeBaseName (replicate 12 1) (j_Title quiet_job) = ''a''"
  using quiet_values by blast+

lemma quiet_env_fields [simp]:
  "oe_stat quiet_env = Inr False" "oe_wrap_mkdir quiet_env = None" "oe_link quiet_env" "oe_stage_mkdir quiet_env = None"
  "oe_out_mkdir quiet_env = None" "oe_write quiet_env = Wrote" "oe_up_ctx quiet_env k \<longleftrightarrow> False"
  "oe_up quiet_env k = Inr [\<lparr>Bytes = 3, seg_Number = 1, MessageID = ''x@y''\<rparr>]" "oe_cfg quiet_env = nzb_cfg"
  "oe_walk quiet_env d fs p = map (\<lambda>(n, dat). \<lparr>we_rel = n, we_failed = False, we_dir = False, we_size = length dat\<rparr>) fs"
  "oe_rm quiet_env = (\<lambda>p. True)" "oe_probe quiet_env = (\<lambda>p. Inl ''not found'')"
  by (simp_all add: quiet_env_def)

lemma quiet_content:
  "fst (RemoveBlockedFiles (Some (EffectiveBlocklist [''.exe''])) (\<lambda>p. True) (ct_files (wrapped quiet_env (claim_row 9 quiet_job) p)))
     = ct_files (wrapped quiet_env (claim_row 9 quiet_job) p)"
  "stage_content quiet_env (job_config nzb_cfg quiet_group) (Tree (ct_files (wrapped quiet_env (claim_row 9 quiet_job) p)))
     = Inr [(''a.mkv'', [7, 8, 9])]"
proof -
  have "ct_files (wrapped quiet_env (claim_row 9 quiet_job) p) = ct_files (wrapped quiet_env quiet_job [])"
    by (simp add: wrapped_def claim_row_def)
  then show "fst (RemoveBlockedFiles (Some (EffectiveBlocklist [''.exe''])) (\<lambda>p. True) (ct_files (wrapped quiet_env (claim_row 9 quiet_job) p)))
     = ct_files (wrapped quiet_env (claim_row 9 quiet_job) p)"
    "stage_content quiet_env (job_config nzb_cfg quiet_group) (Tree (ct_files (wrapped quiet_env (claim_row 9 quiet_job) p)))
     = Inr [(''a.mkv'', [7, 8, 9])]"
    using quiet_values by (simp_all only: Let_def)
qed

lemma sample_upload: 
  assumes "\<not> Encrypt cfg"
  shows "\<exists>nzb. snd (encrypt_and_upload quiet_env cfg job g [] d [(''a.mkv'', [7, 8, 9])] p st) = Released nzb []"
proof -
  have "\<exists>fs. UploadDirectory (oe_up_ctx quiet_env) (oe_up quiet_env) [\<lparr>we_rel = ''a.mkv'', we_failed = False, we_dir = False, we_size = 3\<rparr>] = Inr fs"
    by (simp add: UploadDirectory_def Let_def)
  then obtain fs where "UploadDirectory (oe_up_ctx quiet_env) (oe_up quiet_env) [\<lparr>we_rel = ''a.mkv'', we_failed = False, we_dir = False, we_size = 3\<rparr>] = Inr fs" by blast
  with assms show ?thesis
    by (simp add: encrypt_and_upload_def upload_and_save_def save_release_def Let_def split_beta numeral_3_eq_3)
qed


lemma snd_with_temp: "snd (with_temp p body st) = snd (body (make_temp p st))"
  by (simp add: with_temp_def split_beta)

lemma no_probe: "offlineVideoScreenshots quiet_env job dir es n w st = (set_phase job ''screenshots'' 0 st, [])"
  by (simp add: offlineVideoScreenshots_def Let_def ProbeVideo_def)

lemma quiet_run:
  "\<exists>nzb. snd (processOfflineJob quiet_env (claim_row 9 quiet_job) (quiet_state\<lparr>os_db := upd_jobs p f job_db\<rparr>)) = Released nzb []"
proof -
  have j: "j_GroupID (claim_row 9 quiet_job) = Some 1" "\<not> is_torrent (claim_row 9 quiet_job)"
    using quiet_facts(2) quiet_config(1) by (simp_all add: claim_row_def is_torrent_def)
  have g: "GetGroup 1 (upd_jobs p f job_db) = Inr quiet_group"
    using quiet_facts(4) by (simp add: GetGroup_def upd_jobs_def)
  show ?thesis
    using sample_upload [OF quiet_config(3)]
    by (simp add: processOfflineJob_def j g quiet_facts(5,6,7) quiet_state_def Let_def with_source_def snd_with_temp
        process_content_def quiet_content content_source_def wrapped_def [THEN arg_cong, of ct_is_dir]
        wrapped_def [THEN arg_cong, of ct_in_place] generateOfflineSamples_def no_probe stage_and_upload_def split_beta)
qed

theorem processor_turn_settles_witness:
  "\<exists>st' nzb dat. processor_turn 9 quiet_env quiet_state = (st', Some (Released nzb [])) \<and>
     map_of (os_out st') (release_nzb quiet_env quiet_job quiet_group) = Some dat \<and>
     map j_Status (rows (jobs_tbl (os_db st'))) = [Completed] \<and> set (os_temp st') \<subseteq> leftover quiet_env"
proof -
  have none: "\<forall>j\<in>set (rows (jobs_tbl (os_db quiet_state))). j_Status j \<noteq> Processing"
    by (simp add: quiet_state_def quiet_db quiet_job_def)
  have wf: "db_wf (os_db quiet_state)" by (simp add: quiet_state_def job_db_wf)
  obtain st' res where t: "processor_turn 9 quiet_env quiet_state = (st', res)" by fastforce
  have "oldest_queued (os_db quiet_state) = Some quiet_job" using quiet_facts(1) by (simp add: quiet_state_def)
  note claim = claim_facts [OF wf none this, of 9]
  obtain nzb where nzb: "snd (processOfflineJob quiet_env (claim_row 9 quiet_job)
      (quiet_state\<lparr>os_db := upd_jobs (\<lambda>j. j_ID j = j_ID quiet_job) (claim_row 9) job_db\<rparr>)) = Released nzb []"
    using quiet_run by blast
  have res: "res = Some (Released nzb [])"
    using t nzb by (auto simp: processor_turn_def claim runOneOfflineJob_def split: prod.splits off_result.splits)
      (simp_all add: quiet_state_def)
  have rows: "rows (jobs_tbl (os_db quiet_state)) = [quiet_job]" by (simp add: quiet_state_def quiet_db)
  from processor_turn_settles [OF wf none t] obtain q' g where *:
    "rows (jobs_tbl (os_db st')) = [q']" "ended_row (oe_now quiet_env) (Released nzb []) (claim_row 9 quiet_job) q'"
    "set (os_temp st') \<subseteq> set (os_temp quiet_state) \<union> leftover quiet_env"
    "group_of quiet_job (os_db quiet_state) = Some g"
    "leaves quiet_env quiet_job g (job_content quiet_env quiet_job quiet_state) (Released nzb []) (os_out quiet_state) (os_out st')"
    by (auto simp: res rows writes_def)
  have "g = quiet_group" using *(4) quiet_facts by (simp add: group_of_def quiet_state_def)
  with *(5) obtain dat where "map_of (os_out st') (release_nzb quiet_env quiet_job quiet_group) = Some dat"
    by (auto simp: leaves_def)
  moreover have "os_temp quiet_state = []" by (simp add: quiet_state_def)
  ultimately show ?thesis using t res * by (auto simp: ended_row_def)
qed

subsection \<open>The queue\<close>

lemma ended_row_keys:
  assumes "ended_row clk r j j'"
  shows "j_ID j' = j_ID j \<and> j_SourcePath j' = j_SourcePath j \<and> j_GroupID j' = j_GroupID j"
  using assms by (cases r) (auto simp: ended_row_def)

lemma ended_row_status:
  assumes "ended_row clk r j j'" "r \<noteq> Pending"
  shows "j_Status j' = Completed \<or> j_Status j' = Failed"
  using assms by (cases r) (auto simp: ended_row_def)

lemma turn_wf:
  assumes "db_wf (os_db st)" "\<forall>j\<in>set (rows (jobs_tbl (os_db st))). j_Status j \<noteq> Processing"
    and "processor_turn clk e st = (st', res)"
  shows "db_wf (os_db st')"
proof (cases "oldest_queued (os_db st)")
  case None
  with turn_idle [OF None, of clk e] assms show ?thesis by simp
next
  case (Some q)
  from turn_runs [OF assms(1,2) Some assms(3)] obtain r q' where
    t: "groups (os_db st') = groups (os_db st)" "watches (os_db st') = watches (os_db st)"
    "next_id (jobs_tbl (os_db st')) = next_id (jobs_tbl (os_db st))"
    "rows (jobs_tbl (os_db st')) = map (\<lambda>x. if x = q then q' else x) (rows (jobs_tbl (os_db st)))"
    "ended_row (oe_now e) r (claim_row clk q) q'" by blast
  have "j_ID q' = j_ID q" "j_SourcePath q' = j_SourcePath q" "j_GroupID q' = j_GroupID q"
    using ended_row_keys [OF t(5)] by (simp_all add: claim_row_def)
  note keys = this
  let ?f = "\<lambda>x. if x = q then q' else x"
  have "os_db st' = upd_jobs (\<lambda>x. True) ?f (os_db st)"
    using t by (intro db.equality table.equality) (simp_all add: upd_jobs_def)
  with upd_jobs_wf [OF assms(1), of ?f] keys show ?thesis by simp
qed

text \<open>The job rows after some turns: a queued row has ended, any other is as it was.\<close>

definition drained :: "offline_job list \<Rightarrow> offline_job list \<Rightarrow> bool" where
  "drained js js' \<longleftrightarrow>
     list_all2 (\<lambda>j j'. j_ID j' = j_ID j \<and>
       (if j_Status j = Queued then j_Status j' \<in> {Queued, Completed, Failed} else j' = j)) js js'"

definition waiting :: "off_state \<Rightarrow> nat" where
  "waiting st = CountJobsByStatus (os_db st) Queued"

lemma drained_refl: "drained js js"
  unfolding drained_def by (rule list.rel_refl) simp

lemma drained_trans: "drained xs ys \<Longrightarrow> drained ys zs \<Longrightarrow> drained xs zs"
  unfolding drained_def by (rule list_all2_trans) (auto split: if_splits)

lemma replace_counts:
  assumes "q \<in> set xs" "distinct xs" "P q" "\<not> P q'"
  shows "length (filter P xs) = Suc (length (filter P (map (\<lambda>x. if x = q then q' else x) xs)))"
  using assms
proof (induction xs)
  case (Cons x xs)
  then show ?case
    by (cases "x = q") (auto simp: filter_map intro!: arg_cong [of _ _ length] filter_cong split: if_splits)
qed simp

lemma turn_drains:
  assumes wf: "db_wf (os_db st)" and none: "\<forall>j\<in>set (rows (jobs_tbl (os_db st))). j_Status j \<noteq> Processing"
    and turn: "processor_turn clk e st = (st', res)" and "res \<noteq> Some Pending"
  shows "(\<forall>j\<in>set (rows (jobs_tbl (os_db st'))). j_Status j \<noteq> Processing) \<and>
    drained (rows (jobs_tbl (os_db st))) (rows (jobs_tbl (os_db st'))) \<and> waiting st' = waiting st - 1"
proof (cases "oldest_queued (os_db st)")
  case None
  then have "st' = st" using turn turn_idle by simp
  moreover have "waiting st = 0"
    using None by (simp add: waiting_def CountJobsByStatus_def oldest_queued_None_iff filter_empty_conv)
  ultimately show ?thesis using none by (simp add: drained_refl)
next
  case (Some q)
  note q = oldest_queued_Some [OF Some]
  from turn_runs [OF wf none Some turn] obtain r q' where t: "res = Some r"
    "rows (jobs_tbl (os_db st')) = map (\<lambda>x. if x = q then q' else x) (rows (jobs_tbl (os_db st)))"
    "ended_row (oe_now e) r (claim_row clk q) q'" by blast
  from ended_row_status [OF t(3)] t(1) assms(4) have st: "j_Status q' = Completed \<or> j_Status q' = Failed" by blast
  have id: "j_ID q' = j_ID q" using ended_row_keys [OF t(3)] by (simp add: claim_row_def)
  have "distinct (rows (jobs_tbl (os_db st)))" using wf by (auto simp: db_wf_def tbl_wf_def distinct_map)
  from replace_counts [OF _ this, of q "\<lambda>j. j_Status j = Queued" q'] q st
  have "waiting st' = waiting st - 1" by (auto simp: waiting_def CountJobsByStatus_def t(2))
  moreover have "drained (rows (jobs_tbl (os_db st))) (rows (jobs_tbl (os_db st')))"
    unfolding t(2) drained_def list.rel_map by (rule list.rel_refl_strong) (use q st id in auto)
  ultimately show ?thesis using none st t(2) by auto
qed

text \<open>Only a download that does not end keeps a job pending.\<close>

definition downloads_end :: "off_env \<Rightarrow> bool" where
  "downloads_end e \<longleftrightarrow> (\<forall>cfg n opts. DownloadPrivateTorrentBytes (oe_world e) cfg (oe_layered e) n opts \<noteq> Fetching)"

lemma upload_not_pending: "snd (upload_and_save e cfg job g samples pw dir walk st) \<noteq> Pending"
  by (simp add: upload_and_save_def save_release_def Let_def split_beta split: sum.split option.split prod.split)

lemma encrypt_not_pending: "snd (encrypt_and_upload e cfg job g samples dir files par2 st) \<noteq> Pending"
proof (cases "Encrypt cfg")
  case True
  then show ?thesis
    by (cases "oe_encrypt e")
      (simp_all add: encrypt_failed encrypt_done Let_def snd_with_temp upload_not_pending split: option.split)
qed (simp add: encrypt_off upload_not_pending)

lemma process_not_pending: "snd (process_content e cfg job g ct st) \<noteq> Pending"
  by (simp add: process_content_def stage_and_upload_def Let_def split_beta snd_with_temp encrypt_not_pending
      split: option.split sum.split)

lemma turn_not_pending:
  assumes "downloads_end e"
  shows "snd (processor_turn clk e st) \<noteq> Some Pending"
proof -
  have src: "snd (with_source e cfg job rest st) \<noteq> Pending" if "\<And>ct st. snd (rest ct st) \<noteq> Pending" for cfg job rest st
    using assms that
    by (simp add: with_source_def Let_def snd_with_temp downloads_end_def split: sum.split option.split fetched.split)
  have "snd (processOfflineJob e job st) \<noteq> Pending" for job st
    by (simp add: processOfflineJob_def Let_def src process_not_pending split: option.split sum.split)
  then have "snd (runOneOfflineJob e job st) \<noteq> Pending" for job st
    by (simp add: runOneOfflineJob_def split_beta split: off_result.split)
  then show ?thesis by (simp add: processor_turn_def split_beta split: option.split)
qed

text \<open>
  C10. The offline processor drains its queue. If no job is being processed at the start and no
  download hangs, then after as many turns as there are queued jobs none is queued or being
  processed: every job that was queued has completed or failed, every other row is as it was,
  and the database is well-formed.
\<close>

theorem StartOfflineProcessor_drains:
  assumes "db_wf (os_db st)" "\<forall>j\<in>set (rows (jobs_tbl (os_db st))). j_Status j \<noteq> Processing"
    and "\<forall>(clk, e)\<in>set turns. downloads_end e"
    and "waiting st \<le> length turns"
  shows "\<exists>st'. StartOfflineProcessor (Some st) turns = Some st' \<and> db_wf (os_db st') \<and>
    list_all2 (\<lambda>j j'. j_ID j' = j_ID j \<and>
        (if j_Status j = Queued then j_Status j' \<in> {Completed, Failed} else j' = j))
      (rows (jobs_tbl (os_db st))) (rows (jobs_tbl (os_db st')))"
proof -
  have "\<exists>st'. StartOfflineProcessor (Some st) turns = Some st' \<and> db_wf (os_db st') \<and> waiting st' = 0 \<and>
      drained (rows (jobs_tbl (os_db st))) (rows (jobs_tbl (os_db st')))"
    using assms
  proof (induction turns arbitrary: st)
    case Nil
    then show ?case by (simp add: drained_refl)
  next
    case (Cons t turns)
    obtain clk e where t: "t = (clk, e)" by (cases t)
    obtain st1 res where turn: "processor_turn clk e st = (st1, res)" by fastforce
    have np: "res \<noteq> Some Pending" using Cons.prems(3) turn turn_not_pending [of e clk st] by (simp add: t)
    note d = turn_drains [OF Cons.prems(1,2) turn np]
    have "\<exists>st'. StartOfflineProcessor (Some st1) turns = Some st' \<and> db_wf (os_db st') \<and> waiting st' = 0 \<and>
        drained (rows (jobs_tbl (os_db st1))) (rows (jobs_tbl (os_db st')))"
      using Cons.prems(3,4) d turn_wf [OF Cons.prems(1,2) turn] by (intro Cons.IH) auto
    moreover have "StartOfflineProcessor (Some st) (t # turns) = StartOfflineProcessor (Some st1) turns"
      using np by (auto simp: t turn split: option.splits off_result.splits)
    ultimately obtain st' where "StartOfflineProcessor (Some st) (t # turns) = Some st'" "db_wf (os_db st')" "waiting st' = 0"
        "drained (rows (jobs_tbl (os_db st1))) (rows (jobs_tbl (os_db st')))" by auto
    with drained_trans [OF conjunct1 [OF conjunct2 [OF d]] this(4)] show ?case by blast
  qed
  then obtain st' where st': "StartOfflineProcessor (Some st) turns = Some st'" "db_wf (os_db st')" "waiting st' = 0"
      "drained (rows (jobs_tbl (os_db st))) (rows (jobs_tbl (os_db st')))" by blast
  have "j_Status j \<noteq> Queued" if "j \<in> set (rows (jobs_tbl (os_db st')))" for j
    using st'(3) that by (simp add: waiting_def CountJobsByStatus_def filter_empty_conv)
  then have "list_all2 (\<lambda>j j'. j_ID j' = j_ID j \<and>
        (if j_Status j = Queued then j_Status j' \<in> {Completed, Failed} else j' = j))
      (rows (jobs_tbl (os_db st))) (rows (jobs_tbl (os_db st')))"
    by (intro list.rel_mono_strong [OF st'(4) [unfolded drained_def]]) (auto split: if_splits)
  with st' show ?thesis by blast
qed

text \<open>The sample run drains the queue in one turn.\<close>

definition local_env :: off_env where
  "local_env = quiet_env\<lparr>oe_world := demo_world\<lparr>stage_err := Some ''disk full''\<rparr>\<rparr>"

theorem StartOfflineProcessor_drains_witness:
  "\<exists>st'. StartOfflineProcessor (Some quiet_state) [(9, local_env)] = Some st' \<and> db_wf (os_db st') \<and>
     list_all2 (\<lambda>j j'. j_ID j' = j_ID j \<and>
         (if j_Status j = Queued then j_Status j' \<in> {Completed, Failed} else j' = j))
       [quiet_job] (rows (jobs_tbl (os_db st')))"
proof -
  have rows: "rows (jobs_tbl (os_db quiet_state)) = [quiet_job]" by (simp add: quiet_state_def quiet_db)
  have q: "j_Status quiet_job = Queued" by (simp add: quiet_job_def)
  have "downloads_end local_env"
    by (simp add: downloads_end_def local_env_def DownloadPrivateTorrentBytes_def stage_torrent_def demo_world_def)
  moreover have "waiting quiet_state \<le> length [(9, local_env)]" by (simp add: waiting_def CountJobsByStatus_def rows)
  moreover have "db_wf (os_db quiet_state)" by (simp add: quiet_state_def job_db_wf)
  ultimately show ?thesis
    using StartOfflineProcessor_drains [of quiet_state "[(9, local_env)]"] by (simp only: rows) (simp add: q)
qed

subsection \<open>Where a release is written\<close>

lemma offlineOutputDir_nonempty: "offlineOutputDir e \<noteq> []"
proof -
  have "path_join [d, ''offline-output''] \<noteq> []" for d
    using path_join_last [of "''offline-output''" d] by (auto simp: plain_name_def slash_def)
  then show ?thesis by (auto simp: offlineOutputDir_def split: option.splits)
qed

lemma sanitizeDirName_plain:
  "plain_name (sanitizeDirName s) \<longleftrightarrow> sanitizeDirName s \<noteq> ''.'' \<and> sanitizeDirName s \<noteq> ''..''"
proof -
  have "slash \<notin> set (sanitizeDirName s)" "sanitizeDirName s \<noteq> []"
    using slash_unsafe by (auto simp: sanitizeDirName_def Let_def slash_def)
  then show ?thesis by (simp add: plain_name_def)
qed

text \<open>
  C29. Where a release is written. Unless the group's or the title's name comes out as a dot or
  dot-dot, the NZB lies exactly three levels below the output directory: the directory of the
  group, the directory of the title, and in it the file named after the title. No character of a
  group name or a title can take it anywhere else.
\<close>

theorem release_inside_output:
  assumes "sanitizeDirName (g_Name g) \<notin> {''.'', ''..''}" "trim_space (j_Title job) \<notin> {''.'', ''..''}"
    and "length (oe_rand e ForReleaseTitle) = 12"
  shows "is_abs (release_nzb e job g) = is_abs (offlineOutputDir e) \<and>
    path_elems (release_nzb e job g) =
      path_elems (offlineOutputDir e) @ [sanitizeDirName (g_Name g), safe_title e job, safe_title e job @ ''.nzb'']"
proof -
  have g: "plain_name (sanitizeDirName (g_Name g))" using assms(1) by (simp add: sanitizeDirName_plain)
  have t: "plain_name (safe_title e job)"
    using SanitizeBaseName_facts(4) [OF assms(3), of "j_Title job"] assms(2) by (simp add: safe_title_def)
  have n: "plain_name (safe_title e job @ ''.nzb'')" by (simp add: safe_title_def nzb_name_plain)
  have ne: "offlineOutputDir e @ slash # sanitizeDirName (g_Name g) \<noteq> []" by simp
  have rel: "release_dir e job g = path_clean ((offlineOutputDir e @ slash # sanitizeDirName (g_Name g)) @ slash # safe_title e job)"
    using g t offlineOutputDir_nonempty by (simp add: release_dir_def path_join_def plain_name_def)
  have "path_elems (release_dir e job g) = path_elems (offlineOutputDir e) @ [sanitizeDirName (g_Name g), safe_title e job] \<and>
      is_abs (release_dir e job g) = is_abs (offlineOutputDir e)"
    unfolding rel path_elems_clean using path_elems_child [OF ne t] path_elems_child [OF offlineOutputDir_nonempty g, of e]
    by (simp add: path_elems_clean)
  moreover have "release_dir e job g \<noteq> []" unfolding rel by (auto simp: path_clean_def Let_def)
  ultimately show ?thesis using path_elems_join [OF _ n, of "release_dir e job g"] by (simp add: release_nzb_def)
qed

definition rand_env :: off_env where
  "rand_env = quiet_env\<lparr>oe_rand := (\<lambda>u. replicate 12 1)\<rparr>"

theorem release_inside_output_witness:
  "path_elems (release_nzb rand_env quiet_job quiet_group) =
     path_elems (offlineOutputDir rand_env) @ [''anime'', ''a'', ''a.nzb'']"
proof -
  have "safe_title rand_env quiet_job = ''a''" using quiet_config(6) by (simp add: safe_title_def rand_env_def)
  moreover note quiet_config(4,5)
  moreover have "length (oe_rand rand_env ForReleaseTitle) = 12" by (simp add: rand_env_def)
  ultimately show ?thesis using release_inside_output [of quiet_group quiet_job rand_env] by simp
qed

text \<open>
  The exceptions are real: a file named space, dot, dot, dot, \<open>mkv\<close> gets a title that comes out as
  dot-dot, and with a group of that name the release directory is above the output directory.
\<close>

lemma dots_escape:
  "SanitizeBaseName rnd (titleFromEntry '' ...mkv'' False) = ''..'' \<and>
   path_join [''/data/out'', sanitizeDirName ''..'', SanitizeBaseName rnd (titleFromEntry '' ...mkv'' False)] = ''/''"
proof -
  have "map safe_char (trim_space (titleFromEntry '' ...mkv'' False)) = ''..'' \<and>
      path_join [''/data/out'', sanitizeDirName ''..'', ''..''] = ''/''" by code_simp
  moreover from this have "SanitizeBaseName rnd (titleFromEntry '' ...mkv'' False) = ''..''"
    by (simp add: SanitizeBaseName_def)
  ultimately show ?thesis by simp
qed

end
