(* ===== verification/Secrets_Store.thy ===== *)
theory Secrets_Store
  imports Flat_Store
begin

text \<open>
  The passkey store: \<open>src/services/secrets.go\<close>. The state is the map in memory and the contents
  of \<open>secrets.yml\<close>, which every change rewrites.
\<close>

record secrets =
  items :: "(go_string \<times> go_string) list"
  disk :: "go_string option"

text \<open>One line of the file as \<open>reload\<close> reads it; entries with an empty host or key are dropped.\<close>

definition secret_line :: "go_string \<Rightarrow> (go_string \<times> go_string) option" where
  "secret_line l =
     (case cut_line l of
        None \<Rightarrow> None
      | Some (host, v) \<Rightarrow>
          (let key = trim_quotes v in if host \<noteq> [] \<and> key \<noteq> [] then Some (host, key) else None))"

definition reload :: "secrets \<Rightarrow> secrets" where
  "reload s = (case disk s of None \<Rightarrow> s | Some text \<Rightarrow> s\<lparr>items := read_entries secret_line text\<rparr>)"

definition LoadSecrets :: "go_string option \<Rightarrow> secrets" where
  "LoadSecrets f = reload \<lparr>items = [], disk = f\<rparr>"

definition Has :: "secrets \<Rightarrow> bool" where
  "Has s \<longleftrightarrow> 0 < length (items s)"

definition ListHosts :: "secrets \<Rightarrow> go_string list" where
  "ListHosts s = sort (map fst (items s))"

definition Get :: "go_string \<Rightarrow> secrets \<Rightarrow> go_string" where
  "Get host s = (case map_of (items s) (to_lower host) of Some k \<Rightarrow> k | None \<Rightarrow> [])"

definition secrets_header :: "go_string list" where
  "secrets_header =
     [''# Agent-local secrets (passkeys). Never transmitted to the site.'',
      ''# Format: one entry per line, \"host: passkey\".'', []]"

definition secret_entry :: "go_string \<Rightarrow> go_string \<Rightarrow> go_string" where
  "secret_entry k v = k @ '': '' @ v"

text \<open>\<open>persistLocked\<close>: \<open>write_ok\<close> says whether the write and the rename succeed.\<close>

definition persistLocked :: "bool \<Rightarrow> secrets \<Rightarrow> bool \<times> secrets" where
  "persistLocked write_ok s =
     (if write_ok
      then (True, s\<lparr>disk := Some (concat (map (\<lambda>l. l @ [newline]) secrets_header) @
                                 render_entries secret_entry (items s))\<rparr>)
      else (False, s))"

text \<open>\<open>Set\<close>: the result says whether an error is returned (\<open>False\<close>) or not.\<close>

definition SetSecret :: "bool \<Rightarrow> go_string \<Rightarrow> go_string \<Rightarrow> secrets \<Rightarrow> bool \<times> secrets" where
  "SetSecret write_ok host0 key s =
     (let host = to_lower (trim_space host0)
      in if host = [] then (True, s)
         else persistLocked write_ok
                (s\<lparr>items := (if key = [] then AList.delete host (items s)
                             else AList.update host key (items s))\<rparr>))"

subsection \<open>Round trip\<close>

text \<open>Keys that a line of the file can carry.\<close>

definition good_key :: "go_string \<Rightarrow> bool" where
  "good_key v \<longleftrightarrow> v \<noteq> [] \<and> trim_space v = v \<and> trim_quotes v = v \<and> newline \<notin> set v"

interpretation secret_format: flat_format secret_line secret_entry "\<lambda>k v. good_host k \<and> good_key v"
proof
  fix k v
  assume g: "good_host k \<and> good_key v"
  then have "cut_line (k @ '': '' @ v) = Some (k, v)"
    using cut_line_entry [of k v] by (simp add: good_host_def good_key_def)
  with g show "secret_line (secret_entry k v) = Some (k, v)"
    by (simp add: secret_line_def secret_entry_def good_host_def good_key_def)
  from g show "newline \<notin> set (secret_entry k v)"
    by (simp add: secret_entry_def good_host_def good_key_def newline_def)
qed

definition secrets_ok :: "secrets \<Rightarrow> bool" where
  "secrets_ok s \<longleftrightarrow>
     distinct (map fst (items s)) \<and> (\<forall>(k, v)\<in>set (items s). good_host k \<and> good_key v)"

lemma secrets_header_ok: "\<forall>h\<in>set secrets_header. newline \<notin> set h \<and> secret_line h = None"
proof -
  have "list_all (\<lambda>h. newline \<notin> set h \<and> secret_line h = None) secrets_header" by code_simp
  then show ?thesis by (simp add: list_all_iff)
qed

lemma SetSecret_ok [inv_intros]:
  assumes "secrets_ok s" "good_host (to_lower (trim_space host))" "key = [] \<or> good_key key"
    and "SetSecret ok host key s = (r, s')"
  shows "secrets_ok s'"
proof -
  let ?h = "to_lower (trim_space host)"
  have "secrets_ok (s\<lparr>items := (if key = [] then AList.delete ?h (items s)
      else AList.update ?h key (items s))\<rparr>)"
    using assms(1-3) set_delete_subset [of ?h "items s"] set_update_subset [of ?h key "items s"]
    by (auto simp: secrets_ok_def AList.distinct_delete AList.distinct_update)
  with assms show ?thesis
    by (auto simp: SetSecret_def persistLocked_def Let_def secrets_ok_def split: if_splits)
qed

text \<open>
  Secrets survive a restart. If the hosts and keys fit on a line (see \<open>good_host\<close> and
  \<open>good_key\<close>), then after a successful \<open>Set\<close> an agent that loads the written file answers every
  \<open>Get\<close> as the running agent does, and that is the new key for the host that was set (nothing,
  if it was deleted) and the old answer for every other host.
\<close>

theorem SetSecret_survives_restart:
  assumes "secrets_ok s" "good_host (to_lower (trim_space host))" "key = [] \<or> good_key key"
    and "SetSecret True host key s = (r, s')"
  shows "r \<and> Get h (LoadSecrets (disk s')) = Get h s' \<and>
    Get h s' = (if to_lower h = to_lower (trim_space host) then key else Get h s)"
proof -
  let ?k = "to_lower (trim_space host)"
  let ?m = "if key = [] then AList.delete ?k (items s) else AList.update ?k key (items s)"
  have ok: "secrets_ok s'" using assms by (rule SetSecret_ok)
  from assms(2,4) have s': "items s' = ?m" "r" "disk s' = Some (concat (map (\<lambda>l. l @ [newline])
      secrets_header) @ render_entries secret_entry ?m)"
    by (auto simp: SetSecret_def persistLocked_def Let_def good_host_def)
  have "map_of (items (LoadSecrets (disk s'))) = map_of ?m"
    using secret_format.read_rendered_map [of ?m secrets_header] ok secrets_header_ok s'(1)
    by (simp add: LoadSecrets_def reload_def s'(3) secrets_ok_def)
  moreover have "Get h s' = (if to_lower h = ?k then key else Get h s)"
    using s'(1) by (auto simp: Get_def AList.delete_conv AList.update_conv)
  ultimately show ?thesis using s' by (simp add: Get_def)
qed

definition demo_secrets :: secrets where
  "demo_secrets = \<lparr>items = [(''a.to'', ''k1'')], disk = None\<rparr>"

theorem SetSecret_survives_restart_witness:
  "Get ''NEKO.to'' (LoadSecrets (disk (snd (SetSecret True '' neko.TO '' ''k2'' demo_secrets)))) = ''k2''"
proof -
  let ?p = "SetSecret True '' neko.TO '' ''k2'' demo_secrets"
  have 1: "secrets_ok demo_secrets" by code_simp
  have 2: "good_host (to_lower (trim_space '' neko.TO ''))" by code_simp
  have 3: "''k2'' = [] \<or> good_key ''k2''" by code_simp
  have 4: "to_lower ''NEKO.to'' = to_lower (trim_space '' neko.TO '')" by code_simp
  from SetSecret_survives_restart [OF 1 2 3 prod.collapse [symmetric], of "''NEKO.to''"] 4
  show ?thesis by simp
qed

text \<open>
  A key with a line break is not confined to its entry: the next start reads the rest of it as an
  entry of its own, here a passkey for another host.
\<close>

lemma newline_in_key_injects:
  "Get ''b.to'' (snd (SetSecret True ''a.to'' (''x'' @ [newline] @ ''b.to: stolen'') (LoadSecrets None))) = [] \<and>
   Get ''b.to'' (LoadSecrets (disk (snd (SetSecret True ''a.to'' (''x'' @ [newline] @ ''b.to: stolen'')
     (LoadSecrets None))))) = ''stolen''"
  by code_simp

end
