(* ===== verification/Local_Ui.thy ===== *)
theory Local_Ui
  imports Secrets_Store Job_Store Agent_Guards
begin

text \<open>
  The local web interface: the handlers of \<open>src/services/localui.go\<close> with \<open>baseData\<close> of
  \<open>localui_templates.go\<close> and the asset handlers of \<open>localui_assets.go\<close>. A request is its method, path,
  query and urlencoded form; a response is a status, a redirect, a JSON value, a stylesheet or a page,
  a page being the data its template is executed with. The HTML of the templates and the
  contents of the stylesheets are not modelled.
\<close>

subsection \<open>Requests and responses\<close>

text \<open>
  \<open>rq_form_err\<close> is the error of \<open>ParseForm\<close>; the pairs before the error are in \<open>rq_form\<close> all the same.
\<close>

record ui_request =
  rq_method :: go_string
  rq_path :: go_string
  rq_query :: "(go_string \<times> go_string) list"
  rq_form :: "(go_string \<times> go_string) list"
  rq_form_err :: "go_string option"

definition form_value :: "ui_request \<Rightarrow> go_string \<Rightarrow> go_string" where
  "form_value r k = (case map_of (rq_form r) k of Some v \<Rightarrow> v | None \<Rightarrow> [])"

definition query_value :: "ui_request \<Rightarrow> go_string \<Rightarrow> go_string" where
  "query_value r k = (case map_of (rq_query r) k of Some v \<Rightarrow> v | None \<Rightarrow> [])"

record base_data =
  bd_CurrentPage :: go_string
  bd_Flash :: go_string
  bd_Err :: go_string
  bd_BindAddr :: go_string
  bd_VPNStatus :: go_string
  bd_PublicIP :: go_string
  bd_SiteURL :: go_string

record config_row =
  cr_Key :: go_string
  cr_Value :: go_string
  cr_Source :: go_string

datatype page =
  ConfigPage base_data bool "config_row list" "go_string list" "(go_string \<times> go_string) list" bool
| GroupsPage base_data "group list"
| WatchesPage base_data "(watch_folder \<times> go_string) list" "group list"
| JobsPage base_data "offline_job list"

datatype ui_response = Status int go_string | SeeOther go_string | Json json | Html page | Css go_string

record ui =
  ui_cfg :: agent_config
  ui_layered :: layered
  ui_secrets :: secrets
  ui_db :: "db option"
  ui_site :: "site_client option"
  ui_port :: int
  ui_bindAddr :: go_string

text \<open>
  What a request meets: the time, the environment, the site, the state of the network, whether
  the files could be written (\<open>None\<close>) or with which error not, what SQLite says of a violated
  constraint, and the embedded stylesheets.
\<close>

record ui_env =
  ue_now :: time
  ue_environ :: environ
  ue_net :: network
  ue_vpn :: "go_string \<times> go_string"
  ue_yml :: "go_string option"
  ue_yml_path :: go_string
  ue_secret :: "go_string option"
  ue_sql :: "db_error \<Rightarrow> go_string"
  ue_css :: "go_string \<Rightarrow> go_string"

definition db_text :: "ui_env \<Rightarrow> go_string \<Rightarrow> db_error \<Rightarrow> go_string" where
  "db_text e missing err =
     (case err of
        NameRequired \<Rightarrow> ''name is required'' | NewsgroupRequired \<Rightarrow> ''at least one newsgroup is required''
      | InvalidSource s \<Rightarrow> ''invalid source '' @ go_quote s | IdRequired \<Rightarrow> ''update: id is required''
      | NotFound \<Rightarrow> missing | PathRequired \<Rightarrow> ''path is required''
      | PathRelative p \<Rightarrow> ''path must be absolute ('' @ go_quote p @ '' is relative)''
      | UniqueViolation \<Rightarrow> ue_sql e err | ForeignKeyViolation \<Rightarrow> ue_sql e err)"

subsection \<open>Escaping\<close>

text \<open>\<open>url.QueryEscape\<close>, byte by byte.\<close>

definition url_plain :: "char \<Rightarrow> bool" where
  "url_plain c \<longleftrightarrow>
     (let n = of_char c :: nat
      in (48 \<le> n \<and> n \<le> 57) \<or> (65 \<le> n \<and> n \<le> 90) \<or> (97 \<le> n \<and> n \<le> 122) \<or> c \<in> set ''-_.~'')"

definition upper_hex :: "nat \<Rightarrow> char" where
  "upper_hex d = (if d < 10 then char_of (48 + d) else char_of (55 + d))"

definition query_escape_char :: "char \<Rightarrow> go_string" where
  "query_escape_char c =
     (if url_plain c then [c] else if c = CHR '' '' then ''+''
      else let n = of_char c :: nat in [CHR ''%'', upper_hex (n div 16), upper_hex (n mod 16)])"

definition URLQueryEscaper :: "go_string \<Rightarrow> go_string" where
  "URLQueryEscaper s = concat (map query_escape_char s)"

definition redirectWithFlash :: "go_string \<Rightarrow> go_string \<Rightarrow> go_string \<Rightarrow> ui_response" where
  "redirectWithFlash path msg errMsg =
     SeeOther (path @ (if msg \<noteq> [] then ''?msg='' @ URLQueryEscaper msg
                       else if errMsg \<noteq> [] then ''?err='' @ URLQueryEscaper errMsg else []))"

definition redirectGroups :: "go_string \<Rightarrow> go_string \<Rightarrow> ui_response" where
  "redirectGroups = redirectWithFlash ''/groups''"

definition redirectWatches :: "go_string \<Rightarrow> go_string \<Rightarrow> ui_response" where
  "redirectWatches = redirectWithFlash ''/watches''"

definition redirectJobs :: "go_string \<Rightarrow> go_string \<Rightarrow> ui_response" where
  "redirectJobs = redirectWithFlash ''/jobs''"

subsection \<open>Start\<close>

text \<open>The value \<open>strconv.Atoi\<close> returns when its error is ignored: out of range, it is clamped.\<close>

definition int_sign :: "go_string \<Rightarrow> bool \<times> go_string" where
  "int_sign s =
     (case s of
        [] \<Rightarrow> (False, [])
      | c # cs \<Rightarrow> if c = CHR ''-'' then (True, cs) else if c = CHR ''+'' then (False, cs) else (False, s))"

definition int_syntax :: "go_string \<Rightarrow> bool" where
  "int_syntax s \<longleftrightarrow> snd (int_sign s) \<noteq> [] \<and> digits_val 0 (snd (int_sign s)) \<noteq> None"

definition atoi_value :: "go_string \<Rightarrow> int" where
  "atoi_value s =
     (case parse_int s of
        Some i \<Rightarrow> i
      | None \<Rightarrow> if \<not> int_syntax s then 0 else if fst (int_sign s) then - (2 ^ 63) else 2 ^ 63 - 1)"

definition StartLocalUI :: "environ \<Rightarrow> agent_config \<Rightarrow> layered \<Rightarrow> secrets \<Rightarrow> db option \<Rightarrow> ui option" where
  "StartLocalUI ev cfg l s d =
     (let port = atoi_value (case ev ''LOCAL_UI_PORT'' of Some v \<Rightarrow> v | None \<Rightarrow> []);
          bind = (case ev ''LOCAL_UI_BIND'' of Some v \<Rightarrow> v | None \<Rightarrow> [])
      in if port \<le> 0 then None
         else Some \<lparr>ui_cfg = cfg, ui_layered = l, ui_secrets = s, ui_db = d, ui_site = None, ui_port = port,
                    ui_bindAddr = (if bind = [] then ''127.0.0.1'' else bind)\<rparr>)"

definition SetSite :: "site_client \<Rightarrow> ui \<Rightarrow> ui" where
  "SetSite c u = u\<lparr>ui_site := Some c\<rparr>"

definition URL :: "ui option \<Rightarrow> go_string" where
  "URL uo =
     (case uo of
        None \<Rightarrow> []
      | Some u \<Rightarrow>
          (let host = (if ui_bindAddr u = ''0.0.0.0'' then ''localhost'' else ui_bindAddr u)
           in ''http://'' @ host @ '':'' @ int_str (ui_port u) @ ''/''))"

subsection \<open>Configuration and secrets\<close>

definition em_dash :: go_string where
  "em_dash = [CHR 0xE2, CHR 0x80, CHR 0x94]"

definition baseData :: "ui_env \<Rightarrow> ui \<Rightarrow> go_string \<Rightarrow> go_string \<Rightarrow> go_string \<Rightarrow> base_data" where
  "baseData e u currentPage flash errMsg =
     (let (vpn, ip) = ue_vpn e
      in \<lparr>bd_CurrentPage = currentPage, bd_Flash = flash, bd_Err = errMsg, bd_BindAddr = ui_bindAddr u,
          bd_VPNStatus = (if vpn \<noteq> [] then vpn else ''Unknown''),
          bd_PublicIP = (if vpn \<noteq> [] \<and> ip \<noteq> [] then ip else em_dash), bd_SiteURL = SiteURL (ui_cfg u)\<rparr>)"

definition page_base :: "ui_env \<Rightarrow> ui \<Rightarrow> ui_request \<Rightarrow> go_string \<Rightarrow> base_data" where
  "page_base e u r name = baseData e u name (query_value r ''msg'') (query_value r ''err'')"

definition sourceFor :: "layered \<Rightarrow> go_string \<Rightarrow> go_string" where
  "sourceFor l key = (case map_of (LocalSnapshot l) key of Some v \<Rightarrow> lv_Source v | None \<Rightarrow> ''default'')"

definition config_rows :: "layered \<Rightarrow> config_row list" where
  "config_rows l = map (\<lambda>k. \<lparr>cr_Key = k, cr_Value = Effective l k, cr_Source = sourceFor l k\<rparr>) ConfigYmlKeys"

definition handleStatus :: "ui \<Rightarrow> ui_response" where
  "handleStatus u =
     Json (JObj
       [(''config'', JArr (map (\<lambda>c. JObj [(''Key'', JStr (cr_Key c)), (''Value'', JStr (cr_Value c)),
           (''Source'', JStr (cr_Source c))]) (config_rows (ui_layered u)))),
        (''config_writable'', JBool (writable (ui_layered u))),
        (''has_secrets'', JBool (Has (ui_secrets u))),
        (''secrets_hosts'', JArr (map JStr (ListHosts (ui_secrets u))))])"

definition config_updates :: "ui_request \<Rightarrow> (go_string \<times> go_string) list" where
  "config_updates r =
     List.map_filter (\<lambda>k. map_option (\<lambda>v. (k, trim_space v)) (map_of (rq_form r) k)) ConfigYmlKeys"

definition handleConfig :: "ui_env \<Rightarrow> ui_request \<Rightarrow> ui \<Rightarrow> ui_response \<times> ui" where
  "handleConfig e r u =
     (if rq_method r \<noteq> ''POST'' then (Status 405 [], u)
      else case rq_form_err r of
        Some err \<Rightarrow> (Status 400 err, u)
      | None \<Rightarrow>
          (case WriteYml (ue_yml e = None) (config_updates r) (ui_layered u) of
             (None, l') \<Rightarrow>
               (Status 500 (if \<not> writable (ui_layered u) then ''config.yml is not writable ('' @ ue_yml_path e @ '')''
                            else case ue_yml e of Some err \<Rightarrow> err | None \<Rightarrow> []), u\<lparr>ui_layered := l'\<rparr>)
           | (Some written, l') \<Rightarrow>
               (Json (JObj [(''ok'', JBool True), (''written'', JArr (map JStr written))]),
                u\<lparr>ui_layered := l', ui_cfg := Refresh (ue_environ e) l' (ui_cfg u)\<rparr>)))"

text \<open>The site's overrides are read back after they were written; a nil map clears the tier.\<close>

definition reread_web :: "ui_env \<Rightarrow> site_client \<Rightarrow> ui \<Rightarrow> ui" where
  "reread_web e c u =
     (case GetConfig (ue_net e) (ue_now e) c of
        (Inl err, c') \<Rightarrow> u\<lparr>ui_site := Some c'\<rparr>
      | (Inr rc, c') \<Rightarrow>
          u\<lparr>ui_site := Some c',
            ui_layered := ApplyWeb (case WebOverrides rc of Some m \<Rightarrow> m | None \<Rightarrow> []) (ui_layered u)\<rparr>)"

definition handleWebOverride :: "ui_env \<Rightarrow> ui_request \<Rightarrow> ui \<Rightarrow> ui_response \<times> ui" where
  "handleWebOverride e r u =
     (if rq_method r \<noteq> ''POST'' then (Status 405 [], u)
      else case ui_site u of
        None \<Rightarrow> (Status 503 ''site client not configured'', u)
      | Some c \<Rightarrow>
          (case rq_form_err r of
             Some err \<Rightarrow> (Status 400 err, u)
           | None \<Rightarrow>
               (let key = trim_space (form_value r ''key''); v = trim_space (form_value r ''value'');
                    returnTo = (if form_value r ''return_to'' = [] then ''/'' else form_value r ''return_to'')
                in if key = [] then (redirectWithFlash returnTo [] ''key is required'', u)
                   else case PutWebConfig (ue_net e) (ue_now e) c key v of
                     (Some err, c') \<Rightarrow> (redirectWithFlash returnTo [] (site_error_text err), u\<lparr>ui_site := Some c'\<rparr>)
                   | (None, c') \<Rightarrow>
                       (redirectWithFlash returnTo ((if v = [] then ''cleared '' else ''set '') @ key) [], reread_web e c' u))))"

definition handleSecrets :: "ui_env \<Rightarrow> ui_request \<Rightarrow> ui \<Rightarrow> ui_response \<times> ui" where
  "handleSecrets e r u =
     (if rq_method r \<noteq> ''POST'' then (Status 405 [], u)
      else case rq_form_err r of
        Some err \<Rightarrow> (Status 400 err, u)
      | None \<Rightarrow>
          (let host = form_value r ''host''; key = form_value r ''key''
           in if host = [] then (Status 400 ''missing host'', u)
              else case SetSecret (ue_secret e = None) host key (ui_secrets u) of
                (True, s) \<Rightarrow> (Json (JObj [(''ok'', JBool True)]), u\<lparr>ui_secrets := s\<rparr>)
              | (False, s) \<Rightarrow> (Status 500 (case ue_secret e of Some err \<Rightarrow> err | None \<Rightarrow> []), u\<lparr>ui_secrets := s\<rparr>)))"

definition handleIndex :: "ui_env \<Rightarrow> ui_request \<Rightarrow> ui \<Rightarrow> ui_response" where
  "handleIndex e r u =
     (if rq_path r \<noteq> ''/'' then Status 404 ''404 page not found''
      else Html (ConfigPage (page_base e u r ''config'') (writable (ui_layered u)) (config_rows (ui_layered u))
        (ListHosts (ui_secrets u)) (WebSnapshot (ui_layered u)) (ui_site u \<noteq> None)))"

subsection \<open>Forms\<close>

definition form_sep :: "char \<Rightarrow> bool" where
  "form_sep c \<longleftrightarrow> c \<in> {CHR 0x0A, CHR 0x0D, CHR '','', CHR '' '', CHR 0x09}"

definition parseOptInt :: "go_string \<Rightarrow> int option" where
  "parseOptInt s0 = (let s = trim_space s0 in if s = [] then None else parse_int s)"

text \<open>The text of the error of \<open>strconv.ParseInt\<close>.\<close>

definition parse_int_error :: "go_string \<Rightarrow> go_string" where
  "parse_int_error s =
     ''strconv.ParseInt: parsing '' @ go_quote s @ (if int_syntax s then '': value out of range'' else '': invalid syntax'')"

definition form_id :: "ui_request \<Rightarrow> go_string + int" where
  "form_id r =
     (let s = form_value r ''id''
      in if s = [] then Inr 0
         else case parse_int s of None \<Rightarrow> Inl (''invalid id: '' @ parse_int_error s) | Some i \<Rightarrow> Inr i)"

definition form_bool :: "go_string \<Rightarrow> bool option" where
  "form_bool v = (if v = [] then None else Some (v = ''1'' \<or> equal_fold v ''true'' \<or> equal_fold v ''yes''))"

definition groupFromForm :: "ui_request \<Rightarrow> go_string + group" where
  "groupFromForm r =
     (case rq_form_err r of
        Some err \<Rightarrow> Inl err
      | None \<Rightarrow>
          (case form_id r of
             Inl err \<Rightarrow> Inl err
           | Inr i \<Rightarrow>
               Inr \<lparr>g_ID = i, g_Name = form_value r ''name'', g_Type = trim_space (form_value r ''type''),
                    g_Newsgroups = fields_func form_sep (form_value r ''newsgroups''),
                    g_Screenshots = parseOptInt (form_value r ''screenshots''),
                    g_SampleSeconds = parseOptInt (form_value r ''sample_seconds''),
                    g_Par2Redundancy = parseOptInt (form_value r ''par2_redundancy''),
                    g_Obfuscate = form_bool (form_value r ''obfuscate''),
                    g_WatermarkText = trim_space (form_value r ''watermark_text''),
                    g_BannedExtensions = fields_func form_sep (form_value r ''banned_extensions''),
                    g_Source = ''local'', g_Version = 0, g_CreatedAt = zero_time, g_UpdatedAt = zero_time\<rparr>))"

definition watchFromForm :: "ui_request \<Rightarrow> go_string + watch_folder" where
  "watchFromForm r =
     (case rq_form_err r of
        Some err \<Rightarrow> Inl err
      | None \<Rightarrow>
          (case form_id r of
             Inl err \<Rightarrow> Inl err
           | Inr i \<Rightarrow>
               (let s = trim_space (form_value r ''group_id'');
                    en = (if form_value r ''enabled_present'' \<noteq> [] then form_value r ''enabled'' = ''1'' else True);
                    mk = (\<lambda>g. \<lparr>w_ID = i, w_Path = form_value r ''path'', w_GroupID = g, w_Enabled = en,
                               w_CreatedAt = zero_time, w_UpdatedAt = zero_time\<rparr>)
                in if s = [] then Inr (mk None)
                   else case parse_int s of
                     None \<Rightarrow> Inl (''invalid group id: '' @ parse_int_error s) | Some g \<Rightarrow> Inr (mk (Some g)))))"

subsection \<open>The stores\<close>

text \<open>The guards the write handlers of the stores begin with.\<close>

definition db_post :: "ui_request \<Rightarrow> ui \<Rightarrow> (db \<Rightarrow> ui_response \<times> db) \<Rightarrow> ui_response \<times> ui" where
  "db_post r u act =
     (case ui_db u of
        None \<Rightarrow> (Status 503 ''database not initialised'', u)
      | Some d \<Rightarrow>
          if rq_method r \<noteq> ''POST'' then (Status 405 [], u)
          else case act d of (resp, d') \<Rightarrow> (resp, u\<lparr>ui_db := Some d'\<rparr>))"

definition db_page :: "ui \<Rightarrow> (db \<Rightarrow> page) \<Rightarrow> ui_response" where
  "db_page u f = (case ui_db u of None \<Rightarrow> Status 503 ''database not initialised'' | Some d \<Rightarrow> Html (f d))"

text \<open>The delete and retry handlers: the id, then one statement.\<close>

definition posted_id :: "ui_request \<Rightarrow> int option" where
  "posted_id r = (case parse_int (form_value r ''id'') of Some i \<Rightarrow> if i \<le> 0 then None else Some i | None \<Rightarrow> None)"

definition handleGroups :: "ui_env \<Rightarrow> ui_request \<Rightarrow> ui \<Rightarrow> ui_response" where
  "handleGroups e r u = db_page u (\<lambda>d. GroupsPage (page_base e u r ''groups'') (ListGroups d))"

definition handleGroupCreate :: "ui_env \<Rightarrow> ui_request \<Rightarrow> ui \<Rightarrow> ui_response \<times> ui" where
  "handleGroupCreate e r u =
     db_post r u (\<lambda>d. case groupFromForm r of
        Inl err \<Rightarrow> (redirectGroups [] err, d)
      | Inr g \<Rightarrow>
          (case CreateGroup (ue_now e) g d of
             Inl err \<Rightarrow> (redirectGroups [] (db_text e ''group not found'' err), d)
           | Inr (d', g') \<Rightarrow> (redirectGroups (''created '' @ g_Name g') [], d')))"

definition handleGroupUpdate :: "ui_env \<Rightarrow> ui_request \<Rightarrow> ui \<Rightarrow> ui_response \<times> ui" where
  "handleGroupUpdate e r u =
     db_post r u (\<lambda>d. case groupFromForm r of
        Inl err \<Rightarrow> (redirectGroups [] err, d)
      | Inr g \<Rightarrow>
          (case UpdateGroup (ue_now e) g d of
             Inl err \<Rightarrow> (redirectGroups [] (db_text e ''group not found'' err), d)
           | Inr (d', g') \<Rightarrow> (redirectGroups (''updated '' @ g_Name g') [], d')))"

definition handleGroupDelete :: "ui_env \<Rightarrow> ui_request \<Rightarrow> ui \<Rightarrow> ui_response \<times> ui" where
  "handleGroupDelete e r u =
     db_post r u (\<lambda>d. case posted_id r of
        None \<Rightarrow> (redirectGroups [] ''invalid id'', d)
      | Some i \<Rightarrow>
          (case DeleteGroup i d of
             Inl err \<Rightarrow> (redirectGroups [] (db_text e ''group not found'' err), d)
           | Inr d' \<Rightarrow> (redirectGroups ''deleted'' [], d')))"

definition handleWatches :: "ui_env \<Rightarrow> ui_request \<Rightarrow> ui \<Rightarrow> ui_response" where
  "handleWatches e r u =
     db_page u (\<lambda>d. WatchesPage (page_base e u r ''watches'') (ListWatches d) (ListGroups d))"

definition handleWatchCreate :: "ui_env \<Rightarrow> ui_request \<Rightarrow> ui \<Rightarrow> ui_response \<times> ui" where
  "handleWatchCreate e r u =
     db_post r u (\<lambda>d. case watchFromForm r of
        Inl err \<Rightarrow> (redirectWatches [] err, d)
      | Inr w \<Rightarrow>
          (case CreateWatch (ue_now e) w d of
             Inl err \<Rightarrow> (redirectWatches [] (db_text e ''watch folder not found'' err), d)
           | Inr (d', w') \<Rightarrow> (redirectWatches (''added '' @ w_Path w') [], d')))"

definition handleWatchUpdate :: "ui_env \<Rightarrow> ui_request \<Rightarrow> ui \<Rightarrow> ui_response \<times> ui" where
  "handleWatchUpdate e r u =
     db_post r u (\<lambda>d. case watchFromForm r of
        Inl err \<Rightarrow> (redirectWatches [] err, d)
      | Inr w \<Rightarrow>
          (case UpdateWatch (ue_now e) w d of
             Inl err \<Rightarrow> (redirectWatches [] (db_text e ''watch folder not found'' err), d)
           | Inr (d', w') \<Rightarrow> (redirectWatches (''updated '' @ w_Path w') [], d')))"

definition handleWatchDelete :: "ui_env \<Rightarrow> ui_request \<Rightarrow> ui \<Rightarrow> ui_response \<times> ui" where
  "handleWatchDelete e r u =
     db_post r u (\<lambda>d. case posted_id r of
        None \<Rightarrow> (redirectWatches [] ''invalid id'', d)
      | Some i \<Rightarrow>
          (case DeleteWatch i d of
             Inl err \<Rightarrow> (redirectWatches [] (db_text e ''watch folder not found'' err), d)
           | Inr d' \<Rightarrow> (redirectWatches ''deleted'' [], d')))"

definition handleJobs :: "ui_env \<Rightarrow> ui_request \<Rightarrow> ui \<Rightarrow> ui_response" where
  "handleJobs e r u = db_page u (\<lambda>d. JobsPage (page_base e u r ''jobs'') (ListOfflineJobs 100 d))"

definition handleJobRetry :: "ui_env \<Rightarrow> ui_request \<Rightarrow> ui \<Rightarrow> ui_response \<times> ui" where
  "handleJobRetry e r u =
     db_post r u (\<lambda>d. case posted_id r of
        None \<Rightarrow> (redirectJobs [] ''invalid id'', d)
      | Some i \<Rightarrow>
          (case ResetQueuedJob i d of
             Inl err \<Rightarrow> (redirectJobs [] (db_text e ''offline job not found'' err), d)
           | Inr d' \<Rightarrow> (redirectJobs ''requeued'' [], d')))"

definition handleJobDelete :: "ui_env \<Rightarrow> ui_request \<Rightarrow> ui \<Rightarrow> ui_response \<times> ui" where
  "handleJobDelete e r u =
     db_post r u (\<lambda>d. case posted_id r of
        None \<Rightarrow> (redirectJobs [] ''invalid id'', d)
      | Some i \<Rightarrow>
          (case DeleteJob i d of
             Inl err \<Rightarrow> (redirectJobs [] (db_text e ''offline job not found'' err), d)
           | Inr d' \<Rightarrow> (redirectJobs ''deleted'' [], d')))"

subsection \<open>Live events\<close>

definition status_text :: "job_status \<Rightarrow> go_string" where
  "status_text s =
     (case s of Queued \<Rightarrow> ''queued'' | Processing \<Rightarrow> ''processing'' | Completed \<Rightarrow> ''completed''
      | Failed \<Rightarrow> ''failed'' | CancelledJob \<Rightarrow> ''cancelled'')"

definition job_counts :: "db \<Rightarrow> json" where
  "job_counts d =
     JObj (map (\<lambda>s. (status_text s, JNum (int_str (int (CountJobsByStatus d s)))))
       (filter (\<lambda>s. 0 < CountJobsByStatus d s) [CancelledJob, Completed, Failed, Processing, Queued]))"

definition event_payload :: "db option \<Rightarrow> live_snapshot \<Rightarrow> json" where
  "event_payload dbo snap =
     JObj ([(''phase'', JStr (sn_Phase snap)), (''task_title'', JStr (sn_TaskTitle snap)),
            (''download_mbps'', JFloat (sn_DownloadMBps snap)), (''upload_mbps'', JFloat (sn_UploadMBps snap)),
            (''vpn_status'', JStr (sn_VPNStatus snap)), (''public_ip'', JStr (sn_PublicIP snap)),
            (''disk_free_gb'', JFloat (sn_DiskFreeGB snap)), (''disk_reserved_gb'', JFloat (sn_DiskReservedGB snap)),
            (''disk_total_gb'', JFloat (sn_DiskTotalGB snap))] @
           (case dbo of None \<Rightarrow> [] | Some d \<Rightarrow> [(''jobs'', job_counts d)]))"

text \<open>
  What the loop meets: a tick with the snapshot, the database (\<open>None\<close>: there is none, or the count
  failed) and whether the write and the flush worked, or the end of the request.
\<close>

datatype sse_event = Tick live_snapshot "db option" bool bool | ClientGone

text \<open>\<open>writeEvent\<close>: the event, if it was written, and whether to go on.\<close>

definition writeEvent :: "live_snapshot \<Rightarrow> db option \<Rightarrow> bool \<Rightarrow> bool \<Rightarrow> json list \<times> bool" where
  "writeEvent snap dbo write_ok flush_ok =
     (if \<not> write_ok then ([], False) else ([event_payload dbo snap], flush_ok))"

fun event_loop :: "sse_event list \<Rightarrow> json list" where
  "event_loop [] = []"
| "event_loop (ClientGone # evs) = []"
| "event_loop (Tick snap dbo w f # evs) =
     (case writeEvent snap dbo w f of (out, go) \<Rightarrow> out @ (if go then event_loop evs else []))"

definition handleEvents :: "live_snapshot \<Rightarrow> db option \<Rightarrow> bool \<Rightarrow> bool \<Rightarrow> sse_event list \<Rightarrow> json list" where
  "handleEvents snap dbo w f evs =
     (case writeEvent snap dbo w f of (out, go) \<Rightarrow> out @ (if go then event_loop evs else []))"

subsection \<open>Routes\<close>

definition read_only :: "ui \<Rightarrow> ui_response \<Rightarrow> ui_response \<times> ui" where
  "read_only u resp = (resp, u)"

text \<open>
  The routes that answer at once (\<open>/events\<close> is a stream). A path no other pattern matches goes to \<open>handleIndex\<close>.
\<close>

definition serve :: "ui_env \<Rightarrow> ui_request \<Rightarrow> ui \<Rightarrow> ui_response \<times> ui" where
  "serve e r u =
     (let p = rq_path r
      in if p \<in> {''/_shared/tokens.css'', ''/_shared/components.css'', ''/_shared/agent-shell.css'', ''/static/localui.css''}
         then read_only u (Css (ue_css e p))
         else if p = ''/config'' then handleConfig e r u
         else if p = ''/config/web-override'' then handleWebOverride e r u
         else if p = ''/secrets'' then handleSecrets e r u
         else if p = ''/status'' then read_only u (handleStatus u)
         else if p = ''/groups'' then read_only u (handleGroups e r u)
         else if p = ''/groups/create'' then handleGroupCreate e r u
         else if p = ''/groups/update'' then handleGroupUpdate e r u
         else if p = ''/groups/delete'' then handleGroupDelete e r u
         else if p = ''/watches'' then read_only u (handleWatches e r u)
         else if p = ''/watches/create'' then handleWatchCreate e r u
         else if p = ''/watches/update'' then handleWatchUpdate e r u
         else if p = ''/watches/delete'' then handleWatchDelete e r u
         else if p = ''/jobs'' then read_only u (handleJobs e r u)
         else if p = ''/jobs/retry'' then handleJobRetry e r u
         else if p = ''/jobs/delete'' then handleJobDelete e r u
         else read_only u (handleIndex e r u))"

fun session :: "(ui_env \<times> ui_request) list \<Rightarrow> ui \<Rightarrow> ui_response list \<times> ui" where
  "session [] u = ([], u)"
| "session ((e, r) # rs) u =
     (case serve e r u of (resp, u') \<Rightarrow> (case session rs u' of (resps, u'') \<Rightarrow> (resp # resps, u'')))"

end
