(* ===== verification/Ui_Facts.thy ===== *)
theory Ui_Facts
  imports Local_Ui
begin

text \<open>
  What the local web interface guarantees: reading changes nothing, no response depends on a
  passkey, no request breaks the database, messages survive the redirect, and what saving the
  configuration form does.
\<close>

subsection \<open>Only a POST changes anything\<close>

lemma not_post_keeps:
  assumes "rq_method r \<noteq> ''POST''"
  shows "snd (db_post r u act) = u" "snd (handleConfig e r u) = u" "snd (handleWebOverride e r u) = u"
    "snd (handleSecrets e r u) = u"
  using assms by (simp_all add: db_post_def handleConfig_def handleWebOverride_def handleSecrets_def split: option.split)

lemmas store_handlers = handleGroupCreate_def handleGroupUpdate_def handleGroupDelete_def handleWatchCreate_def
  handleWatchUpdate_def handleWatchDelete_def handleJobRetry_def handleJobDelete_def

text \<open>A property of the chain of routes is a property of each of them.\<close>

definition unchanged :: "ui \<Rightarrow> ui_response \<times> ui \<Rightarrow> bool" where
  "unchanged u x \<longleftrightarrow> snd x = u"

lemma unchanged_if: "unchanged u x \<Longrightarrow> unchanged u y \<Longrightarrow> unchanged u (if c then x else y)"
  by simp

lemma unchanged_read_only: "unchanged u (read_only u resp)"
  by (simp add: unchanged_def read_only_def)

text \<open>
  Reading is safe: a request with any method but \<open>POST\<close>, whatever its path, query and form, leaves
  the configuration, the secrets, the database and the site's overrides as they were.
\<close>

theorem serve_reads_safely:
  assumes "rq_method r \<noteq> ''POST''"
  shows "snd (serve e r u) = u"
proof -
  have "unchanged u (serve e r u)"
    unfolding serve_def Let_def store_handlers
    by (intro unchanged_if unchanged_read_only) (simp_all only: unchanged_def not_post_keeps [OF assms])
  then show ?thesis by (simp add: unchanged_def)
qed

subsection \<open>Secrets are never shown\<close>

text \<open>Two states that agree on everything but the passkeys, for the same hosts.\<close>

definition keys_differ :: "ui \<Rightarrow> ui \<Rightarrow> bool" where
  "keys_differ u v \<longleftrightarrow> v = u\<lparr>ui_secrets := ui_secrets v\<rparr> \<and> map fst (items (ui_secrets u)) = map fst (items (ui_secrets v))"

lemma map_fst_update: "map fst xs = map fst ys \<Longrightarrow> map fst (AList.update k v xs) = map fst (AList.update k v ys)"
proof (induction xs arbitrary: ys)
  case (Cons x xs)
  then show ?case by (cases ys) auto
qed simp

lemma map_fst_delete: "map fst xs = map fst ys \<Longrightarrow> map fst (AList.delete k xs) = map fst (AList.delete k ys)"
proof (induction xs arbitrary: ys)
  case (Cons x xs)
  then show ?case by (cases ys) (auto simp: AList.delete_eq)
qed simp

lemma same_hosts_shown:
  assumes "map fst (items s) = map fst (items s')"
  shows "Has s = Has s'" "ListHosts s = ListHosts s'"
proof -
  have "length (items s) = length (items s')" using assms by (metis length_map)
  then show "Has s = Has s'" by (simp add: Has_def)
  show "ListHosts s = ListHosts s'" using assms by (simp add: ListHosts_def)
qed

lemma SetSecret_hosts:
  assumes "map fst (items s) = map fst (items s')"
  shows "fst (SetSecret ok host key s) = fst (SetSecret ok host key s') \<and>
    map fst (items (snd (SetSecret ok host key s))) = map fst (items (snd (SetSecret ok host key s')))"
  using map_fst_update [OF assms] map_fst_delete [OF assms] assms
  by (simp add: SetSecret_def persistLocked_def Let_def)

text \<open>Every other handler neither reads nor writes the secrets.\<close>

lemma handlers_ignore_secrets:
  "handleConfig e r (u\<lparr>ui_secrets := s\<rparr>) = (case handleConfig e r u of (resp, u') \<Rightarrow> (resp, u'\<lparr>ui_secrets := s\<rparr>))"
  "handleWebOverride e r (u\<lparr>ui_secrets := s\<rparr>) = (case handleWebOverride e r u of (resp, u') \<Rightarrow> (resp, u'\<lparr>ui_secrets := s\<rparr>))"
  "db_post r (u\<lparr>ui_secrets := s\<rparr>) act = (case db_post r u act of (resp, u') \<Rightarrow> (resp, u'\<lparr>ui_secrets := s\<rparr>))"
  "page_base e (u\<lparr>ui_secrets := s\<rparr>) r n = page_base e u r n" "db_page (u\<lparr>ui_secrets := s\<rparr>) f = db_page u f"
  by (simp_all add: handleConfig_def handleWebOverride_def db_post_def reread_web_def Let_def page_base_def baseData_def db_page_def
      split: option.split prod.split sum.split)

lemma config_keeps_secrets: "ui_secrets (snd (handleConfig e r u)) = ui_secrets u"
  by (simp add: handleConfig_def split: option.split prod.split)

lemma web_keeps_secrets: "ui_secrets (snd (handleWebOverride e r u)) = ui_secrets u"
  by (simp add: handleWebOverride_def reread_web_def Let_def split: option.split prod.split sum.split)

lemma post_keeps_secrets: "ui_secrets (snd (db_post r u act)) = ui_secrets u"
  by (simp add: db_post_def split: option.split prod.split)

lemma keys_differI: "map fst (items (ui_secrets u)) = map fst (items s) \<Longrightarrow> keys_differ u (u\<lparr>ui_secrets := s\<rparr>)"
  by (simp add: keys_differ_def)


definition agree :: "ui_response \<times> ui \<Rightarrow> ui_response \<times> ui \<Rightarrow> bool" where
  "agree x y \<longleftrightarrow> fst x = fst y \<and> keys_differ (snd x) (snd y)"

lemma agree_if: "agree x x' \<Longrightarrow> agree y y' \<Longrightarrow> agree (if c then x else y) (if c then x' else y')"
  by simp

lemma agree_read_only: "keys_differ u v \<Longrightarrow> resp = resp' \<Longrightarrow> agree (read_only u resp) (read_only v resp')"
  by (simp add: agree_def read_only_def)

lemma agree_ignored:
  assumes "x' = (case x of (resp, u') \<Rightarrow> (resp, u'\<lparr>ui_secrets := s\<rparr>))" "map fst (items (ui_secrets (snd x))) = map fst (items s)"
  shows "agree x x'"
  using assms by (cases x) (simp add: agree_def keys_differI)

lemma agree_secrets:
  assumes "map fst (items (ui_secrets u)) = map fst (items s)"
  shows "agree (handleSecrets e r u) (handleSecrets e r (u\<lparr>ui_secrets := s\<rparr>))"
proof -
  have kd: "keys_differ u (u\<lparr>ui_secrets := s\<rparr>)" using assms by (rule keys_differI)
  let ?k = "SetSecret (ue_secret e = None) (form_value r ''host'') (form_value r ''key'')"
  obtain b s1 where 1: "?k (ui_secrets u) = (b, s1)" by fastforce
  obtain b' s2 where 2: "?k s = (b', s2)" by fastforce
  have "b = b'" "map fst (items s1) = map fst (items s2)"
    using SetSecret_hosts [OF assms, of "ue_secret e = None" "form_value r ''host''" "form_value r ''key''"] 1 2 by simp_all
  moreover have "keys_differ (u\<lparr>ui_secrets := s1\<rparr>) (u\<lparr>ui_secrets := s2\<rparr>)" if "map fst (items s1) = map fst (items s2)"
    using that by (simp add: keys_differ_def)
  ultimately show ?thesis
    using kd by (simp add: handleSecrets_def Let_def 1 2 agree_def split: option.split bool.split)
qed

lemma serve_agrees:
  assumes "map fst (items (ui_secrets u)) = map fst (items s)"
  shows "agree (serve e r u) (serve e r (u\<lparr>ui_secrets := s\<rparr>))"
proof -
  note kd = keys_differI [OF assms]
  have ro: "agree (read_only u resp) (read_only (u\<lparr>ui_secrets := s\<rparr>) resp')" if "resp = resp'" for resp resp'
    using agree_read_only [OF kd that] .
  have post: "agree (db_post r u act) (db_post r (u\<lparr>ui_secrets := s\<rparr>) act)" for act
    by (rule agree_ignored [OF handlers_ignore_secrets(3)]) (simp add: post_keeps_secrets assms)
  have cfg: "agree (handleConfig e r u) (handleConfig e r (u\<lparr>ui_secrets := s\<rparr>))"
    by (rule agree_ignored [OF handlers_ignore_secrets(1)]) (simp add: config_keeps_secrets assms)
  have web: "agree (handleWebOverride e r u) (handleWebOverride e r (u\<lparr>ui_secrets := s\<rparr>))"
    by (rule agree_ignored [OF handlers_ignore_secrets(2)]) (simp add: web_keeps_secrets assms)
  note hosts = same_hosts_shown [OF assms]
  have pages: "handleStatus u = handleStatus (u\<lparr>ui_secrets := s\<rparr>)" "handleIndex e r u = handleIndex e r (u\<lparr>ui_secrets := s\<rparr>)"
    "handleGroups e r u = handleGroups e r (u\<lparr>ui_secrets := s\<rparr>)" "handleWatches e r u = handleWatches e r (u\<lparr>ui_secrets := s\<rparr>)"
    "handleJobs e r u = handleJobs e r (u\<lparr>ui_secrets := s\<rparr>)"
    by (simp_all add: handleStatus_def handleIndex_def handleGroups_def handleWatches_def handleJobs_def hosts handlers_ignore_secrets)
  show ?thesis
    unfolding serve_def Let_def store_handlers
    by (intro agree_if ro post cfg web agree_secrets assms pages refl)
qed

text \<open>
  C28. Passkeys stay inside. Run any session of requests on two agents that differ only in the
  passkeys stored for the same tracker hosts: every response is the same, so nothing the interface
  ever answers depends on a passkey, and at the end the agents still differ in nothing else.
\<close>

theorem session_hides_passkeys:
  assumes "keys_differ u v"
  shows "fst (session rs u) = fst (session rs v) \<and> keys_differ (snd (session rs u)) (snd (session rs v))"
  using assms
proof (induction rs arbitrary: u v)
  case (Cons er rs)
  obtain e r where er: "er = (e, r)" by (cases er)
  have v: "v = u\<lparr>ui_secrets := ui_secrets v\<rparr>" and h: "map fst (items (ui_secrets u)) = map fst (items (ui_secrets v))"
    using Cons.prems by (simp_all only: keys_differ_def)
  have "agree (serve e r u) (serve e r v)" using serve_agrees [OF h] v by metis
  then have a: "fst (serve e r u) = fst (serve e r v)" "keys_differ (snd (serve e r u)) (snd (serve e r v))"
    by (simp_all add: agree_def)
  from Cons.IH [OF a(2)] a(1) show ?case by (simp add: er split_beta)
qed simp


subsection \<open>The database stays well-formed\<close>

definition ui_wf :: "ui \<Rightarrow> bool" where
  "ui_wf u \<longleftrightarrow> (case ui_db u of None \<Rightarrow> True | Some d \<Rightarrow> db_wf d)"

definition stays_wf :: "ui_response \<times> ui \<Rightarrow> bool" where
  "stays_wf x \<longleftrightarrow> ui_wf (snd x)"

lemma stays_wf_if: "stays_wf x \<Longrightarrow> stays_wf y \<Longrightarrow> stays_wf (if c then x else y)"
  by simp

lemma stays_wf_post:
  assumes "ui_wf u" "\<And>d. db_wf d \<Longrightarrow> db_wf (snd (act d))"
  shows "stays_wf (db_post r u act)"
  using assms by (cases "ui_db u") (auto simp: stays_wf_def ui_wf_def db_post_def split_beta)

lemma stays_wf_db: "ui_wf u \<Longrightarrow> ui_db (snd x) = ui_db u \<Longrightarrow> stays_wf x"
  by (simp add: stays_wf_def ui_wf_def)

lemma other_handlers_db:
  "ui_db (snd (handleConfig e r u)) = ui_db u" "ui_db (snd (handleWebOverride e r u)) = ui_db u"
  "ui_db (snd (handleSecrets e r u)) = ui_db u" "ui_db (snd (read_only u resp)) = ui_db u"
  by (simp_all add: handleConfig_def handleWebOverride_def handleSecrets_def reread_web_def read_only_def Let_def
      split: option.split prod.split sum.split bool.split)

lemma serve_keeps_wf:
  assumes "ui_wf u"
  shows "ui_wf (snd (serve e r u))"
proof -
  have "stays_wf (serve e r u)"
    unfolding serve_def Let_def store_handlers
    by (intro stays_wf_if stays_wf_post stays_wf_db [OF assms] other_handlers_db assms)
      (auto split: sum.split option.split prod.split
        intro: CreateGroup_wf UpdateGroup_wf DeleteGroup_wf CreateWatch_wf UpdateWatch_wf DeleteWatch_wf DeleteJob_wf job_updates_wf(6))
  then show ?thesis by (simp add: stays_wf_def)
qed

text \<open>
  C21. No request can break the database: after any session its keys are unique, every row is
  valid and every reference to a group resolves, whatever the forms held.
\<close>

theorem session_keeps_db_wf:
  assumes "ui_wf u"
  shows "ui_wf (snd (session rs u))"
  using assms
proof (induction rs arbitrary: u)
  case (Cons er rs)
  obtain e r where er: "er = (e, r)" by (cases er)
  from Cons.IH [OF serve_keeps_wf [OF Cons.prems]] show ?case by (simp add: er split_beta)
qed simp

subsection \<open>Flash messages\<close>

text \<open>What the browser sends back: the query of the redirect, as \<open>url.ParseQuery\<close> reads it.\<close>

definition unhex :: "char \<Rightarrow> nat option" where
  "unhex c =
     (let n = of_char c :: nat
      in if 48 \<le> n \<and> n \<le> 57 then Some (n - 48) else if 97 \<le> n \<and> n \<le> 102 then Some (n - 87)
         else if 65 \<le> n \<and> n \<le> 70 then Some (n - 55) else None)"

fun query_unescape :: "go_string \<Rightarrow> go_string option" where
  "query_unescape [] = Some []"
| "query_unescape (c # s) =
     (if c = CHR ''%'' then
        (case s of
           a # b # t \<Rightarrow>
             (case (unhex a, unhex b, query_unescape t) of
                (Some x, Some y, Some r) \<Rightarrow> Some (char_of (16 * x + y) # r) | _ \<Rightarrow> None)
         | _ \<Rightarrow> None)
      else map_option (Cons (if c = CHR ''+'' then CHR '' '' else c)) (query_unescape s))"

definition query_pair :: "go_string \<Rightarrow> (go_string \<times> go_string) option" where
  "query_pair kv =
     (let k = takeWhile (\<lambda>c. c \<noteq> CHR ''='') kv; v = drop (Suc (length k)) kv
      in case (query_unescape k, query_unescape v) of (Some a, Some b) \<Rightarrow> Some (a, b) | _ \<Rightarrow> None)"

definition parse_query :: "go_string \<Rightarrow> (go_string \<times> go_string) list" where
  "parse_query url =
     List.map_filter query_pair
       (filter (\<lambda>kv. kv \<noteq> []) (split_char (CHR ''&'') (drop 1 (dropWhile (\<lambda>c. c \<noteq> CHR ''?'') url))))"


lemma unhex_upper_hex:
  assumes "d < 16"
  shows "unhex (upper_hex d) = Some d \<and> url_plain (upper_hex d)"
proof -
  have n: "of_char (upper_hex d) = (if d < 10 then 48 + d else 55 + d)" using assms by (simp add: upper_hex_def)
  show ?thesis unfolding unhex_def url_plain_def Let_def n using assms by auto
qed

lemma char_halves_less: "of_char c div 16 < (16 :: nat)" "of_char c mod 16 < (16 :: nat)"
proof -
  have "of_char c < (16 * 16 :: nat)" using nat_of_char_less_256 [of c] by simp
  then show "of_char c div 16 < (16 :: nat)" by (rule less_mult_imp_div_less)
qed simp

lemma url_plain_not: "\<not> url_plain (CHR ''%'')" "\<not> url_plain (CHR ''+'')" "\<not> url_plain (CHR ''&'')"
  by code_simp+

lemma char_halves: "char_of (16 * (of_char c div 16) + of_char c mod 16 :: nat) = (c :: char)"
  by simp

lemma unescape_char: "query_unescape (query_escape_char c @ s) = map_option (Cons c) (query_unescape s)"
proof -
  let ?n = "of_char c :: nat"
  note d = char_halves_less [of c]
  show ?thesis
  proof (cases "url_plain c \<or> c = CHR '' ''")
    case True
    then show ?thesis using url_plain_not by (auto simp: query_escape_char_def)
  next
    case False
    then have e: "query_escape_char c = [CHR ''%'', upper_hex (?n div 16), upper_hex (?n mod 16)]"
      by (simp add: query_escape_char_def Let_def)
    show ?thesis
      unfolding e using unhex_upper_hex [OF d(1)] unhex_upper_hex [OF d(2)] char_halves [of c]
      by (simp split: option.split)
  qed
qed

lemma query_unescape_escape: "query_unescape (URLQueryEscaper s) = Some s"
  by (induction s) (simp_all add: URLQueryEscaper_def unescape_char)

lemma escape_no_amp: "CHR ''&'' \<notin> set (URLQueryEscaper s)"
proof -
  have "CHR ''&'' \<notin> set (query_escape_char c)" for c
    using unhex_upper_hex [OF char_halves_less(1), of c] unhex_upper_hex [OF char_halves_less(2), of c] url_plain_not(3)
    by (auto simp: query_escape_char_def Let_def)
  then show ?thesis by (auto simp: URLQueryEscaper_def)
qed

lemma flash_query:
  assumes "CHR ''?'' \<notin> set path" "k = ''msg'' \<or> k = ''err''"
  shows "parse_query (path @ ''?'' @ k @ ''='' @ URLQueryEscaper v) = [(k, v)]"
proof -
  let ?kv = "k @ ''='' @ URLQueryEscaper v"
  have d: "drop 1 (dropWhile (\<lambda>c. c \<noteq> CHR ''?'') (path @ ''?'' @ ?kv)) = ?kv"
    using assms(1) by (subst dropWhile_append2) auto
  have "CHR ''&'' \<notin> set ?kv" using assms(2) escape_no_amp by auto
  then have s: "split_char (CHR ''&'') ?kv = [?kv]" by (simp add: split_char_def split_aux_plain)
  have k: "takeWhile (\<lambda>c. c \<noteq> CHR ''='') ?kv = k" "query_unescape k = Some k" using assms(2) by auto
  have "drop (Suc (length k)) ?kv = URLQueryEscaper v" by simp
  then have "query_pair ?kv = Some (k, v)" by (simp only: query_pair_def Let_def k query_unescape_escape) simp
  moreover have "?kv \<noteq> []" by simp
  ultimately show ?thesis unfolding parse_query_def d s by (simp add: List.map_filter_simps)
qed

text \<open>
  Flash messages arrive unchanged. The redirect of a handler carries one message, the success
  message if there is one, else the error; the query the browser sends back is read as exactly
  that message, whatever bytes it holds.
\<close>

theorem flash_roundtrip:
  assumes "CHR ''?'' \<notin> set path" "redirectWithFlash path msg errMsg = SeeOther url"
  shows "parse_query url = (if msg \<noteq> [] then [(''msg'', msg)] else if errMsg \<noteq> [] then [(''err'', errMsg)] else [])"
proof (cases "msg = [] \<and> errMsg = []")
  case True
  with assms have d: "dropWhile (\<lambda>c. c \<noteq> CHR ''?'') url = []" by (auto simp: redirectWithFlash_def dropWhile_eq_Nil_conv)
  have "parse_query url = []" unfolding parse_query_def d by (simp add: split_char_def List.map_filter_simps)
  with True show ?thesis by simp
next
  case False
  with assms(2) have "url = path @ ''?'' @ (if msg \<noteq> [] then ''msg'' else ''err'') @ ''='' @ URLQueryEscaper (if msg \<noteq> [] then msg else errMsg)"
    by (auto simp: redirectWithFlash_def)
  then show ?thesis using flash_query [OF assms(1)] False by auto
qed

theorem flash_roundtrip_witness:
  "\<exists>url. redirectGroups ''created a&b=c? 100%'' [] = SeeOther url \<and> parse_query url = [(''msg'', ''created a&b=c? 100%'')]"
  using flash_roundtrip [of "''/groups''" "''created a&b=c? 100%''" "[]"]
  by (auto simp: redirectGroups_def redirectWithFlash_def)


subsection \<open>Configuration\<close>

lemma config_keys_allowed: "\<forall>k\<in>set ConfigYmlKeys. to_lower k = k \<and> k \<notin> set EnvOnlyKeys"
  by code_simp

lemma map_filter_keys: "map_of (List.map_filter (\<lambda>k. map_option (\<lambda>v. (k, f v)) (m k)) ks) k =
    (if k \<in> set ks then map_option f (m k) else None)"
  by (induction ks) (auto simp: List.map_filter_simps split: option.split)

lemma config_updates_allowed: "allowed_updates (config_updates r) = config_updates r"
proof -
  have "fst kv \<in> set ConfigYmlKeys" if "kv \<in> set (config_updates r)" for kv
    using that by (auto simp: config_updates_def List.map_filter_def)
  then have k: "to_lower (fst kv) = fst kv \<and> fst kv \<notin> set EnvOnlyKeys" if "kv \<in> set (config_updates r)" for kv
    using that config_keys_allowed by blast
  then have "map (\<lambda>(k, v). (to_lower k, v)) (config_updates r) = config_updates r"
    by (intro map_idI) (auto split: prod.split)
  then show ?thesis using k unfolding allowed_updates_def by (auto simp: filter_id_conv)
qed

lemma fold_updates: "distinct (map fst ups) \<Longrightarrow>
    map_of (fold (\<lambda>(k, v) y. AList.update k v y) ups m) k = (case map_of ups k of Some v \<Rightarrow> Some v | None \<Rightarrow> map_of m k)"
proof (induction ups arbitrary: m)
  case (Cons u ups)
  then have "map_of ups (fst u) = None" by (simp add: map_of_eq_None_iff)
  with Cons show ?case by (auto simp: update_conv' split: option.split prod.split)
qed simp

lemma config_updates_distinct: "distinct (map fst (config_updates r))"
proof -
  have "distinct (map fst (List.map_filter (\<lambda>k. map_option (\<lambda>v. (k, f v)) (m k)) ks))" if "distinct ks" for f m ks
    using that by (induction ks) (auto simp: List.map_filter_simps List.map_filter_def split: option.split)
  moreover have "distinct ConfigYmlKeys" by code_simp
  ultimately show ?thesis by (simp add: config_updates_def)
qed

text \<open>
  Saving the configuration form. Only keys of the list that may be kept in \<open>config.yml\<close> can change,
  and only those that the form holds: they get the trimmed value, every other entry of the file's
  tier stays, and the tiers of the environment and of the site are untouched. If the file was
  written, the running configuration is the one a restart with the new settings would give.
\<close>

theorem handleConfig_exact:
  assumes "handleConfig e r u = (resp, u')" "ui_cfg u = newConfigFromLayered (ue_environ e) l0"
    and "rq_method r = ''POST''" "rq_form_err r = None" "writable (ui_layered u)"
  shows "map_of (yml (ui_layered u')) k =
      (if k \<in> set ConfigYmlKeys \<and> map_of (rq_form r) k \<noteq> None then map_option trim_space (map_of (rq_form r) k)
       else map_of (yml (ui_layered u)) k) \<and>
    env (ui_layered u') = env (ui_layered u) \<and> web (ui_layered u') = web (ui_layered u) \<and>
    ui_secrets u' = ui_secrets u \<and> ui_db u' = ui_db u \<and>
    (ue_yml e = None \<longrightarrow> ui_cfg u' = newConfigFromLayered (ue_environ e) (ui_layered u'))"
proof -
  let ?m = "fold (\<lambda>(k, v) y. AList.update k v y) (config_updates r) (yml (ui_layered u))"
  have yml: "yml (ui_layered u') = ?m" "env (ui_layered u') = env (ui_layered u)" "web (ui_layered u') = web (ui_layered u)"
    "ui_secrets u' = ui_secrets u" "ui_db u' = ui_db u"
    "ue_yml e = None \<Longrightarrow> ui_cfg u' = Refresh (ue_environ e) (ui_layered u') (ui_cfg u)"
    using assms by (auto simp: handleConfig_def WriteYml_def Let_def config_updates_allowed split: if_splits)
  have "map_of ?m k = (case map_of (config_updates r) k of Some v \<Rightarrow> Some v | None \<Rightarrow> map_of (yml (ui_layered u)) k)"
    by (rule fold_updates [OF config_updates_distinct])
  moreover have "map_of (config_updates r) k = (if k \<in> set ConfigYmlKeys then map_option trim_space (map_of (rq_form r) k) else None)"
    unfolding config_updates_def by (rule map_filter_keys)
  ultimately have "map_of (yml (ui_layered u')) k =
      (if k \<in> set ConfigYmlKeys \<and> map_of (rq_form r) k \<noteq> None then map_option trim_space (map_of (rq_form r) k)
       else map_of (yml (ui_layered u)) k)"
    by (cases "map_of (rq_form r) k") (auto simp: yml(1))
  moreover have "ui_cfg u' = newConfigFromLayered (ue_environ e) (ui_layered u')" if "ue_yml e = None"
    using yml(6) [OF that] assms(2) by (simp add: Refresh_def newConfigFromLayered_def Let_def)
  ultimately show ?thesis using yml by blast
qed

subsection \<open>Sample sessions\<close>

definition demo_ui :: ui where
  "demo_ui = \<lparr>ui_cfg = newConfigFromLayered (\<lambda>k. None) demo_layered, ui_layered = demo_layered,
     ui_secrets = demo_secrets, ui_db = Some job_db, ui_site = None, ui_port = 8080, ui_bindAddr = ''127.0.0.1''\<rparr>"

definition demo_ue :: ui_env where
  "demo_ue = \<lparr>ue_now = 9, ue_environ = (\<lambda>k. None), ue_net = busy_site, ue_vpn = ([], []), ue_yml = None,
     ue_yml_path = ''config.yml'', ue_secret = None, ue_sql = (\<lambda>err. ''constraint failed''), ue_css = (\<lambda>p. [])\<rparr>"

definition rq :: "go_string \<Rightarrow> go_string \<Rightarrow> (go_string \<times> go_string) list \<Rightarrow> ui_request" where
  "rq m p form = \<lparr>rq_method = m, rq_path = p, rq_query = [], rq_form = form, rq_form_err = None\<rparr>"

theorem serve_reads_safely_witness: "snd (serve demo_ue (rq ''GET'' ''/jobs/delete'' [(''id'', ''1'')]) demo_ui) = demo_ui"
  by (rule serve_reads_safely) (simp add: rq_def)

theorem session_hides_passkeys_witness:
  "fst (session [(demo_ue, rq ''POST'' ''/secrets'' [(''host'', ''b.to''), (''key'', ''k'')]), (demo_ue, rq ''GET'' ''/status'' [])] demo_ui) =
   fst (session [(demo_ue, rq ''POST'' ''/secrets'' [(''host'', ''b.to''), (''key'', ''k'')]), (demo_ue, rq ''GET'' ''/status'' [])]
     (demo_ui\<lparr>ui_secrets := \<lparr>items = [(''a.to'', ''other'')], disk = None\<rparr>\<rparr>))"
proof -
  have "keys_differ demo_ui (demo_ui\<lparr>ui_secrets := \<lparr>items = [(''a.to'', ''other'')], disk = None\<rparr>\<rparr>)"
    by (simp add: keys_differ_def demo_ui_def demo_secrets_def)
  from session_hides_passkeys [OF this] show ?thesis by blast
qed

theorem session_keeps_db_wf_witness:
  "ui_wf (snd (session [(demo_ue, rq ''POST'' ''/groups/delete'' [(''id'', ''1'')])] demo_ui))"
  by (rule session_keeps_db_wf) (simp add: ui_wf_def demo_ui_def job_db_wf)

theorem handleConfig_exact_witness:
  "\<exists>resp u'. handleConfig demo_ue (rq ''POST'' ''/config'' [(''torrent_port'', '' 7000 ''), (''nntp_pass'', ''x'')]) demo_ui = (resp, u') \<and>
     map_of (yml (ui_layered u')) ''torrent_port'' = Some ''7000''"
proof -
  let ?r = "rq ''POST'' ''/config'' [(''torrent_port'', '' 7000 ''), (''nntp_pass'', ''x'')]"
  obtain resp u' where h: "handleConfig demo_ue ?r demo_ui = (resp, u')" by fastforce
  have "ui_cfg demo_ui = newConfigFromLayered (ue_environ demo_ue) demo_layered" by (simp add: demo_ui_def demo_ue_def)
  from handleConfig_exact [OF h this, of "''torrent_port''"]
  have "map_of (yml (ui_layered u')) ''torrent_port'' = Some (trim_space '' 7000 '')"
    by (simp add: rq_def demo_ui_def demo_layered_def ConfigYmlKeys_def)
  moreover have "trim_space '' 7000 '' = ''7000''" by code_simp
  ultimately show ?thesis using h by auto
qed

subsection \<open>Where the interface falls short\<close>

text \<open>
  The tier shown beside a value is never the site's: a value that the site has overridden is shown
  with the tier below it. A passkey with a line break writes a second entry into the secrets file.
  The target of the redirect after an override is whatever the form asked for.
\<close>

lemma sourceFor_never_web: "sourceFor l k \<in> {''env'', ''yml'', ''default''}"
proof -
  have "lv_Source v \<in> {''env'', ''yml''}"
    if "\<forall>v\<in>ran (map_of m). lv_Source v \<in> {''env'', ''yml''}" "map_of (fold (\<lambda>(k, v) m. AList.update k \<lparr>lv_Value = v, lv_Source = t\<rparr> m) kvs m) k = Some v"
      "t \<in> {''env'', ''yml''}" for m kvs t v k
    using that
  proof (induction kvs arbitrary: m)
    case (Cons kv kvs)
    obtain a b where kv: "kv = (a, b)" by (cases kv)
    have "\<forall>v\<in>ran (map_of (AList.update a \<lparr>lv_Value = b, lv_Source = t\<rparr> m)). lv_Source v \<in> {''env'', ''yml''}"
      using Cons.prems(1,3) by (auto simp: ran_def update_conv' split: if_splits)
    with Cons show ?case by (simp add: kv)
  qed (auto simp: ran_def)
  note step = this
  show ?thesis
  proof (cases "map_of (LocalSnapshot l) k")
    case (Some v)
    let ?m = "fold (\<lambda>(k, v) m. AList.update k \<lparr>lv_Value = v, lv_Source = ''yml''\<rparr> m) (yml l) []"
    have "\<forall>v\<in>ran (map_of ?m). lv_Source v \<in> {''env'', ''yml''}"
      using step [of "[]" "''yml''" "yml l"] by (force simp: ran_def)
    with step [of ?m "''env''" "env l"] Some show ?thesis by (auto simp: sourceFor_def LocalSnapshot_def)
  qed (simp add: sourceFor_def)
qed

lemma passkey_injects_entry:
  "ListHosts (LoadSecrets (disk (ui_secrets (snd (handleSecrets demo_ue
      (rq ''POST'' ''/secrets'' [(''host'', ''b.to''), (''key'', ''k'' @ [newline] @ ''c.to: z'')]) demo_ui))))) =
    [''a.to'', ''b.to'', ''c.to'']"
proof -
  have "ListHosts (LoadSecrets (disk (snd (SetSecret True ''b.to'' (''k'' @ [newline] @ ''c.to: z'') demo_secrets)))) =
      [''a.to'', ''b.to'', ''c.to'']" by code_simp
  moreover have "ui_secrets (snd (handleSecrets demo_ue (rq ''POST'' ''/secrets'' [(''host'', ''b.to''), (''key'', ''k'' @ [newline] @ ''c.to: z'')]) demo_ui))
      = snd (SetSecret True ''b.to'' (''k'' @ [newline] @ ''c.to: z'') demo_secrets)"
    by (simp add: handleSecrets_def rq_def form_value_def demo_ue_def demo_ui_def Let_def split_beta split: bool.split)
  ultimately show ?thesis by simp
qed

lemma override_redirects_anywhere:
  assumes "ui_site u = Some c" "trim_space k = []"
  shows "fst (handleWebOverride e (rq ''POST'' ''/config/web-override'' [(''key'', k), (''return_to'', ''https://evil.example/'')]) u) =
    SeeOther (''https://evil.example/?err='' @ URLQueryEscaper ''key is required'')"
  using assms by (simp add: handleWebOverride_def rq_def form_value_def redirectWithFlash_def Let_def)

end
