(* ===== verification/Offline_System.thy ===== *)
theory Offline_System
  imports Offline_Jobs Ui_Facts Site_Sync
begin

text \<open>
  The offline side of the agent as one system: the watcher, the local web interface, the group
  sync and the processor, started side by side in \<open>main\<close> (\<open>src/main.go\<close>), share the database of
  \<open>src/storage\<close>. An event is one operation of one of them; every interleaving is a sequence of
  events. The system refines a board of job cards, on which the life of a job is stated.
\<close>

subsection \<open>What the stores do to the jobs\<close>

text \<open>Changes that leave the jobs alone, but for the group they refer to.\<close>

definition regrouped :: "db \<Rightarrow> db \<Rightarrow> bool" where
  "regrouped d d' \<longleftrightarrow> next_id (jobs_tbl d') = next_id (jobs_tbl d) \<and>
     (\<exists>h. rows (jobs_tbl d') = map (\<lambda>j. j\<lparr>j_GroupID := h j\<rparr>) (rows (jobs_tbl d)))"

lemma regrouped_same: "jobs_tbl d' = jobs_tbl d \<Longrightarrow> regrouped d d'"
proof -
  assume "jobs_tbl d' = jobs_tbl d"
  moreover have "rows (jobs_tbl d) = map (\<lambda>j. j\<lparr>j_GroupID := j_GroupID j\<rparr>) (rows (jobs_tbl d))" by simp
  ultimately show ?thesis unfolding regrouped_def by metis
qed

lemma regrouped_drop: "regrouped d (fst (drop_group i d))"
proof -
  have "rows (jobs_tbl (fst (drop_group i d))) = map (\<lambda>j. j\<lparr>j_GroupID := unref i (j_GroupID j)\<rparr>) (rows (jobs_tbl d))"
    "next_id (jobs_tbl (fst (drop_group i d))) = next_id (jobs_tbl d)"
    by (simp_all add: drop_group_def split_beta)
  then show ?thesis unfolding regrouped_def by (intro conjI exI [of _ "\<lambda>j. unref i (j_GroupID j)"])
qed

lemma group_ops_regroup:
  "CreateGroup tm g d = Inr (d', g') \<Longrightarrow> regrouped d d'" "UpdateGroup tm g d = Inr (d', g') \<Longrightarrow> regrouped d d'"
  "DeleteGroup i d = Inr d' \<Longrightarrow> regrouped d d'" "UpsertSiteGroup tm g d = Inr (d', u, g') \<Longrightarrow> regrouped d d'"
proof -
  show "CreateGroup tm g d = Inr (d', g') \<Longrightarrow> regrouped d d'"
    by (rule regrouped_same) (auto simp: CreateGroup_def Let_def split: sum.splits option.splits if_splits)
  show "UpdateGroup tm g d = Inr (d', g') \<Longrightarrow> regrouped d d'"
    by (rule regrouped_same) (auto simp: UpdateGroup_def Let_def split: sum.splits option.splits if_splits)
  show "DeleteGroup i d = Inr d' \<Longrightarrow> regrouped d d'"
    using regrouped_drop [of d i] by (auto simp: DeleteGroup_def split: prod.splits if_splits)
  show "UpsertSiteGroup tm g d = Inr (d', u, g') \<Longrightarrow> regrouped d d'"
    by (rule regrouped_same) (auto simp: UpsertSiteGroup_def Let_def split: sum.splits option.splits if_splits)
qed

lemma watch_ops_regroup:
  "CreateWatch tm w d = Inr (d', w') \<Longrightarrow> regrouped d d'" "UpdateWatch tm w d = Inr (d', w') \<Longrightarrow> regrouped d d'"
  "DeleteWatch i d = Inr d' \<Longrightarrow> regrouped d d'"
proof -
  show "CreateWatch tm w d = Inr (d', w') \<Longrightarrow> regrouped d d'"
    by (rule regrouped_same) (auto simp: CreateWatch_def Let_def split: sum.splits option.splits if_splits)
  show "UpdateWatch tm w d = Inr (d', w') \<Longrightarrow> regrouped d d'"
    by (rule regrouped_same) (auto simp: UpdateWatch_def Let_def split: sum.splits option.splits if_splits)
  show "DeleteWatch i d = Inr d' \<Longrightarrow> regrouped d d'"
    by (rule regrouped_same) (auto simp: DeleteWatch_def Let_def split: sum.splits option.splits if_splits prod.splits)
qed

lemmas store_ops_regroup = group_ops_regroup watch_ops_regroup

text \<open>The job a request retries or deletes.\<close>

definition retry_of :: "ui_request \<Rightarrow> int option" where
  "retry_of r = (if rq_method r = ''POST'' \<and> rq_path r = ''/jobs/retry'' then posted_id r else None)"

definition delete_of :: "ui_request \<Rightarrow> int option" where
  "delete_of r = (if rq_method r = ''POST'' \<and> rq_path r = ''/jobs/delete'' then posted_id r else None)"

definition request_effect :: "ui_request \<Rightarrow> db \<Rightarrow> db \<Rightarrow> bool" where
  "request_effect r d d' \<longleftrightarrow> regrouped d d' \<or>
     (\<exists>i. retry_of r = Some i \<and> ResetQueuedJob i d = Inr d') \<or> (\<exists>i. delete_of r = Some i \<and> DeleteJob i d = Inr d')"

definition effective :: "ui_request \<Rightarrow> db \<Rightarrow> ui_response \<times> ui \<Rightarrow> bool" where
  "effective r d x \<longleftrightarrow> (\<exists>d'. ui_db (snd x) = Some d' \<and> request_effect r d d')"

lemma effective_if: "(c \<Longrightarrow> effective r d x) \<Longrightarrow> (\<not> c \<Longrightarrow> effective r d y) \<Longrightarrow> effective r d (if c then x else y)"
  by simp

lemma effective_same: "ui_db u = Some d \<Longrightarrow> ui_db (snd x) = ui_db u \<Longrightarrow> effective r d x"
  by (simp add: effective_def request_effect_def regrouped_same)

lemma effective_post:
  assumes "ui_db u = Some d" "rq_method r = ''POST'' \<Longrightarrow> request_effect r d (snd (act d))"
  shows "effective r d (db_post r u act)"
  using assms regrouped_same [of d d] by (auto simp: effective_def db_post_def split_beta request_effect_def)

lemma regrouped_effect: "regrouped d d' \<Longrightarrow> request_effect r d d'"
  by (simp add: request_effect_def)

lemma retry_effective:
  "ui_db u = Some d \<Longrightarrow> rq_path r = ''/jobs/retry'' \<Longrightarrow> effective r d (handleJobRetry e r u)"
  unfolding handleJobRetry_def
  by (rule effective_post)
    (auto simp: request_effect_def retry_of_def regrouped_same split: option.split sum.split)

lemma delete_effective:
  "ui_db u = Some d \<Longrightarrow> rq_path r = ''/jobs/delete'' \<Longrightarrow> effective r d (handleJobDelete e r u)"
  unfolding handleJobDelete_def
  by (rule effective_post)
    (auto simp: request_effect_def delete_of_def regrouped_same split: option.split sum.split)

lemmas regrouping_handlers = handleGroupCreate_def handleGroupUpdate_def handleGroupDelete_def handleWatchCreate_def
  handleWatchUpdate_def handleWatchDelete_def

lemma serve_effect:
  assumes "ui_db u = Some d"
  shows "effective r d (serve e r u)"
  unfolding serve_def Let_def regrouping_handlers
  by (intro effective_if effective_post retry_effective delete_effective assms; (rule effective_same [OF assms other_handlers_db(1)] effective_same [OF assms other_handlers_db(2)]
     effective_same [OF assms other_handlers_db(3)] effective_same [OF assms other_handlers_db(4)])?)
    (auto split: sum.split option.split prod.split intro!: regrouped_effect intro: regrouped_same store_ops_regroup)


subsection \<open>The system\<close>

text \<open>
  One entry a scan looks at, one request with whatever state the interface has but for the
  database, one upsert and one delete of the sync, the claim, a phase report and the end of the
  processor's job (an error, or the NZB and its password), and a crash with the start that follows it.
\<close>

datatype sys_event =
    Scanned watch_folder go_string dir_entry
  | Requested ui ui_env ui_request
  | Upserted time group
  | Reconciled int
  | Claimed time
  | Advanced go_string rat
  | Ended time "go_string + go_string \<times> go_string"
  | Restarted

record offline_sys =
  sy_db :: db
  sy_worker :: "int option"

text \<open>\<open>sy_worker\<close> is the job the processor is at.\<close>

definition request_db :: "ui \<Rightarrow> ui_env \<Rightarrow> ui_request \<Rightarrow> db \<Rightarrow> db" where
  "request_db u e r d = (case ui_db (snd (serve e r (u\<lparr>ui_db := Some d\<rparr>))) of Some d' \<Rightarrow> d' | None \<Rightarrow> d)"

definition end_job :: "time \<Rightarrow> go_string + go_string \<times> go_string \<Rightarrow> int \<Rightarrow> db \<Rightarrow> db" where
  "end_job clk res i d = (case res of Inl err \<Rightarrow> MarkJobFailed clk i err d | Inr (nzb, pw) \<Rightarrow> MarkJobCompleted clk i nzb pw d)"

fun sys_step :: "sys_event \<Rightarrow> offline_sys \<Rightarrow> offline_sys option" where
  "sys_step (Scanned w gname e) s = Some (s\<lparr>sy_db := scan_entry w gname e (sy_db s)\<rparr>)"
| "sys_step (Requested u e r) s = Some (s\<lparr>sy_db := request_db u e r (sy_db s)\<rparr>)"
| "sys_step (Upserted clk g) s =
     (case UpsertSiteGroup clk g (sy_db s) of
        Inl err \<Rightarrow> Some s | Inr (d', u, g') \<Rightarrow> Some (s\<lparr>sy_db := d'\<rparr>))"
| "sys_step (Reconciled i) s = Some (s\<lparr>sy_db := fst (drop_group i (sy_db s))\<rparr>)"
| "sys_step (Claimed clk) s =
     (case sy_worker s of
        Some i \<Rightarrow> None
      | None \<Rightarrow> (case ClaimNextJob clk (sy_db s) of
          (d', job) \<Rightarrow> Some \<lparr>sy_db = d', sy_worker = map_option j_ID job\<rparr>))"
| "sys_step (Advanced phase pct) s =
     (case sy_worker s of None \<Rightarrow> None | Some i \<Rightarrow> Some (s\<lparr>sy_db := UpdateJobPhase i phase pct (sy_db s)\<rparr>))"
| "sys_step (Ended clk res) s =
     (case sy_worker s of None \<Rightarrow> None | Some i \<Rightarrow> Some \<lparr>sy_db = end_job clk res i (sy_db s), sy_worker = None\<rparr>)"
| "sys_step Restarted s = Some \<lparr>sy_db = fst (RequeueStuckJobs (sy_db s)), sy_worker = None\<rparr>"

fun sys_run :: "sys_event list \<Rightarrow> offline_sys \<Rightarrow> offline_sys option" where
  "sys_run [] s = Some s"
| "sys_run (ev # evs) s = (case sys_step ev s of None \<Rightarrow> None | Some s' \<Rightarrow> sys_run evs s')"

subsection \<open>The specification: a board of jobs\<close>

text \<open>
  Each ticket carries a source path and a status. Tickets are numbered and never reused; at most
  one worker exists; a retry is open at any time, also while the job is being worked on.
\<close>

record board =
  bd_jobs :: "int \<rightharpoonup> go_string \<times> job_status"
  bd_next :: int
  bd_worker :: "int option"

inductive board_step :: "board \<Rightarrow> board \<Rightarrow> bool" where
  submit: "p \<notin> fst ` ran (bd_jobs b) \<Longrightarrow>
    board_step b (b\<lparr>bd_jobs := (bd_jobs b)(bd_next b \<mapsto> (p, Queued)), bd_next := bd_next b + 1\<rparr>)"
| start: "bd_worker b = None \<Longrightarrow> bd_jobs b i = Some (p, Queued) \<Longrightarrow>
    board_step b (b\<lparr>bd_jobs := (bd_jobs b)(i \<mapsto> (p, Processing)), bd_worker := Some i\<rparr>)"
| finish: "bd_worker b = Some i \<Longrightarrow> st \<in> {Completed, Failed} \<Longrightarrow>
    board_step b (b\<lparr>bd_jobs := (bd_jobs b)(i := map_option (apsnd (\<lambda>_. st)) (bd_jobs b i)), bd_worker := None\<rparr>)"
| retry: "bd_jobs b i = Some (p, st) \<Longrightarrow> board_step b (b\<lparr>bd_jobs := (bd_jobs b)(i \<mapsto> (p, Queued))\<rparr>)"
| withdraw: "i \<in> dom (bd_jobs b) \<Longrightarrow> board_step b (b\<lparr>bd_jobs := (bd_jobs b)(i := None)\<rparr>)"
| restart: "board_step b (b\<lparr>bd_jobs := (\<lambda>i. map_option (apsnd (\<lambda>st. if st = Processing then Queued else st)) (bd_jobs b i)),
    bd_worker := None\<rparr>)"

definition job_card :: "offline_job \<Rightarrow> int \<times> go_string \<times> job_status" where
  "job_card j = (j_ID j, j_SourcePath j, j_Status j)"

definition cards :: "db \<Rightarrow> int \<rightharpoonup> go_string \<times> job_status" where
  "cards d = map_of (map job_card (rows (jobs_tbl d)))"

definition board_of :: "offline_sys \<Rightarrow> board" where
  "board_of s = \<lparr>bd_jobs = cards (sy_db s), bd_next = next_id (jobs_tbl (sy_db s)), bd_worker = sy_worker s\<rparr>"

lemma job_card_regroup [simp]: "job_card (j\<lparr>j_GroupID := g\<rparr>) = job_card j"
  by (simp add: job_card_def)

lemma cards_regrouped: "regrouped d d' \<Longrightarrow> cards d' = cards d"
  by (auto simp: regrouped_def cards_def comp_def)

lemma map_of_cards_upd:
  assumes "\<And>j. j_ID (f j) = j_ID j \<and> j_SourcePath (f j) = j_SourcePath j \<and> j_Status (f j) = g (j_Status j)"
  shows "map_of (map job_card (map (\<lambda>j. if j_ID j = i then f j else j) js)) =
    (map_of (map job_card js))(i := map_option (apsnd g) (map_of (map job_card js) i))"
  using assms by (induction js) (auto simp: job_card_def fun_eq_iff)

lemma cards_upd_id:
  assumes "\<And>j. j_ID (f j) = j_ID j \<and> j_SourcePath (f j) = j_SourcePath j \<and> j_Status (f j) = g (j_Status j)"
  shows "cards (upd_jobs (\<lambda>j. j_ID j = i) f d) = (cards d)(i := map_option (apsnd g) (cards d i))"
  using map_of_cards_upd [OF assms] by (simp add: cards_def upd_jobs_def)

lemma map_of_cards_requeue:
  "map_of (map job_card (map (\<lambda>j. if j_Status j = Processing then requeue_row j else j) js)) =
    (\<lambda>i. map_option (apsnd (\<lambda>st. if st = Processing then Queued else st)) (map_of (map job_card js) i))"
  by (induction js) (auto simp: job_card_def requeue_row_def fun_eq_iff)

lemma cards_requeue:
  "cards (fst (RequeueStuckJobs d)) = (\<lambda>i. map_option (apsnd (\<lambda>st. if st = Processing then Queued else st)) (cards d i))"
  using map_of_cards_requeue by (simp add: cards_def RequeueStuckJobs_def upd_jobs_def)

lemma next_id_requeue [simp]: "next_id (jobs_tbl (fst (RequeueStuckJobs d))) = next_id (jobs_tbl d)"
  by (simp add: RequeueStuckJobs_def upd_jobs_def)

lemma map_of_cards_delete:
  "map_of (map job_card (filter (\<lambda>j. j_ID j \<noteq> i) js)) = (map_of (map job_card js))(i := None)"
  by (induction js) (auto simp: job_card_def fun_eq_iff)

lemma cards_delete: "DeleteJob i d = Inr d' \<Longrightarrow> cards d' = (cards d)(i := None)"
  using map_of_cards_delete by (auto simp: DeleteJob_def tbl_delete_def cards_def split: if_splits)

lemma cards_Some:
  assumes "db_wf d"
  shows "cards d i = Some (p, st) \<longleftrightarrow> (\<exists>j\<in>set (rows (jobs_tbl d)). j_ID j = i \<and> j_SourcePath j = p \<and> j_Status j = st)"
proof -
  have "distinct (map fst (map job_card (rows (jobs_tbl d))))"
    using assms by (simp add: db_wf_def tbl_wf_def job_card_def comp_def)
  then show ?thesis by (auto simp: cards_def map_of_eq_Some_iff job_card_def image_iff)
qed

lemma cards_None: "cards d i = None \<longleftrightarrow> i \<notin> j_ID ` set (rows (jobs_tbl d))"
  by (auto simp: cards_def map_of_eq_None_iff job_card_def image_image)


lemma cards_create:
  assumes "db_wf d" "CreateOfflineJob tm None j0 d = Inr (d', j)"
  shows "cards d' = (cards d)(next_id (jobs_tbl d) \<mapsto> (j_SourcePath j0, Queued))"
    "next_id (jobs_tbl d') = next_id (jobs_tbl d) + 1" "j_SourcePath j0 \<notin> fst ` ran (cards d)"
proof -
  let ?r = "inserted_row (new_job tm None j0)"
  from assms(2) obtain t i where ins: "tbl_insert j_SourcePath (\<lambda>i. j_with_id i ?r) (jobs_tbl d) = Some (t, i)"
    and d': "d' = d\<lparr>jobs_tbl := t\<rparr>"
    by (auto simp: CreateOfflineJob_def Let_def split: option.splits if_splits)
  have r: "j_SourcePath ?r = j_SourcePath j0" "j_Status ?r = Queued" by (simp_all add: inserted_row_def new_job_def)
  from ins have i: "i = next_id (jobs_tbl d)" and p: "j_SourcePath j0 \<notin> j_SourcePath ` set (rows (jobs_tbl d))"
    and t: "t = (jobs_tbl d)\<lparr>rows := rows (jobs_tbl d) @ [j_with_id i ?r], next_id := i + 1\<rparr>"
    by (auto simp: tbl_insert_Some_iff r)
  have "tbl_wf j_ID j_SourcePath (jobs_tbl d)" using assms(1) by (simp add: db_wf_def)
  then have fresh: "cards d i = None" using i by (auto simp: cards_None tbl_wf_def)
  have card: "job_card (j_with_id i ?r) = (i, j_SourcePath j0, Queued)" by (simp add: job_card_def r)
  have "cards d' = [i \<mapsto> (j_SourcePath j0, Queued)] ++ cards d" by (simp add: d' t cards_def card)
  then show "cards d' = (cards d)(next_id (jobs_tbl d) \<mapsto> (j_SourcePath j0, Queued))"
    using fresh i by (auto simp: fun_eq_iff map_add_def split: option.splits)
  show "next_id (jobs_tbl d') = next_id (jobs_tbl d) + 1" by (simp add: d' t i)
  show "j_SourcePath j0 \<notin> fst ` ran (cards d)"
  proof
    assume "j_SourcePath j0 \<in> fst ` ran (cards d)"
    then obtain k st where "cards d k = Some (j_SourcePath j0, st)" by (auto simp: ran_def)
    with p show False by (auto simp: cards_Some [OF assms(1)]) (metis imageI)
  qed
qed

subsection \<open>The invariant\<close>

definition board_inv :: "board \<Rightarrow> bool" where
  "board_inv b \<longleftrightarrow> (\<forall>i p st. bd_jobs b i = Some (p, st) \<longrightarrow>
     (st = Processing \<longrightarrow> bd_worker b = Some i) \<and> (bd_worker b = Some i \<longrightarrow> st \<in> {Processing, Queued}) \<and>
     st \<noteq> CancelledJob)"

inductive_cases board_stepE: "board_step b b'"

lemma board_step_inv: "board_inv b \<Longrightarrow> board_step b b' \<Longrightarrow> board_inv b'"
  by (erule board_stepE) (auto simp: board_inv_def split: if_splits)

definition sys_inv :: "offline_sys \<Rightarrow> bool" where
  "sys_inv s \<longleftrightarrow> db_wf (sy_db s) \<and> board_inv (board_of s)"

lemma row_inv:
  assumes "sys_inv s" "j \<in> set (rows (jobs_tbl (sy_db s)))"
  shows "(j_Status j = Processing \<longrightarrow> sy_worker s = Some (j_ID j)) \<and>
    (sy_worker s = Some (j_ID j) \<longrightarrow> j_Status j \<in> {Processing, Queued}) \<and> j_Status j \<noteq> CancelledJob"
proof -
  have "bd_jobs (board_of s) (j_ID j) = Some (j_SourcePath j, j_Status j)"
    using assms by (auto simp: sys_inv_def cards_Some board_of_def)
  moreover have "board_inv (board_of s)" "bd_worker (board_of s) = sy_worker s"
    using assms(1) by (simp_all add: sys_inv_def board_of_def)
  ultimately show ?thesis unfolding board_inv_def by metis
qed

lemma idle_none_processing:
  assumes "sys_inv s" "sy_worker s = None"
  shows "\<forall>j\<in>set (rows (jobs_tbl (sy_db s))). j_Status j \<noteq> Processing"
  using row_inv [OF assms(1)] assms(2) by auto

lemma next_id_upd [simp]: "next_id (jobs_tbl (upd_jobs p f d)) = next_id (jobs_tbl d)"
  by (simp add: upd_jobs_def)

lemma claim_board:
  assumes "sys_inv s" "sys_step (Claimed clk) s = Some s'"
  shows "board_step\<^sup>=\<^sup>= (board_of s) (board_of s')"
proof -
  have w: "sy_worker s = None" using assms(2) by (auto split: option.splits)
  then have s': "s' = \<lparr>sy_db = fst (ClaimNextJob clk (sy_db s)), sy_worker = map_option j_ID (snd (ClaimNextJob clk (sy_db s)))\<rparr>"
    using assms(2) by (simp add: split_beta)
  have wf: "db_wf (sy_db s)" using assms(1) by (simp add: sys_inv_def)
  show ?thesis
  proof (cases "oldest_queued (sy_db s)")
    case None
    then show ?thesis using s' w by (simp add: ClaimNextJob_def board_of_def)
  next
    case (Some q)
    note c = claim_facts [OF wf idle_none_processing [OF assms(1) w] Some, of clk]
    have q: "cards (sy_db s) (j_ID q) = Some (j_SourcePath q, Queued)"
      using oldest_queued_Some [OF Some] wf by (auto simp: cards_Some)
    have "cards (fst (ClaimNextJob clk (sy_db s))) = (cards (sy_db s))(j_ID q \<mapsto> (j_SourcePath q, Processing))"
      using cards_upd_id [of "claim_row clk" "\<lambda>_. Processing" "j_ID q" "sy_db s"] q by (simp add: c claim_row_def)
    then have "board_of s' = (board_of s)\<lparr>bd_jobs := (bd_jobs (board_of s))(j_ID q \<mapsto> (j_SourcePath q, Processing)),
        bd_worker := Some (j_ID q)\<rparr>"
      using s' c by (simp add: board_of_def claim_row_def)
    moreover have "board_step (board_of s) \<dots>" by (rule board_step.start) (simp_all add: board_of_def q w)
    ultimately show ?thesis by simp
  qed
qed


subsection \<open>Every event is a move on the board\<close>

lemma request_db_effect: "request_effect r d (request_db u e r d)"
proof -
  have "effective r d (serve e r (u\<lparr>ui_db := Some d\<rparr>))" by (rule serve_effect) simp
  then show ?thesis by (auto simp: effective_def request_db_def)
qed

lemma same_board: "cards d' = cards (sy_db s) \<Longrightarrow> next_id (jobs_tbl d') = next_id (jobs_tbl (sy_db s)) \<Longrightarrow>
    board_of (s\<lparr>sy_db := d'\<rparr>) = board_of s"
  by (simp add: board_of_def)

lemma regrouped_board: "regrouped (sy_db s) d' \<Longrightarrow> board_of (s\<lparr>sy_db := d'\<rparr>) = board_of s"
  by (rule same_board) (simp_all add: cards_regrouped, simp add: regrouped_def)

lemma DeleteJob_found:
  assumes "DeleteJob i d = Inr d'"
  shows "i \<in> j_ID ` set (rows (jobs_tbl d))" "next_id (jobs_tbl d') = next_id (jobs_tbl d)"
    "rows (jobs_tbl d') = filter (\<lambda>j. j_ID j \<noteq> i) (rows (jobs_tbl d))"
  using assms by (auto simp: DeleteJob_def tbl_delete_def filter_empty_conv split: if_splits)

lemma request_board: "board_step\<^sup>=\<^sup>= (board_of s) (board_of (s\<lparr>sy_db := request_db u e r (sy_db s)\<rparr>))"
proof -
  let ?d = "sy_db s" and ?d' = "request_db u e r (sy_db s)"
  from request_db_effect [of r ?d u e] consider "regrouped ?d ?d'" | i where "ResetQueuedJob i ?d = Inr ?d'"
    | i where "DeleteJob i ?d = Inr ?d'"
    by (auto simp: request_effect_def)
  then show ?thesis
  proof cases
    case 1
    then show ?thesis by (simp add: regrouped_board)
  next
    case (2 i)
    then have i: "i \<in> j_ID ` set (rows (jobs_tbl ?d))" and d': "?d' = upd_jobs (\<lambda>j. j_ID j = i) reset_row ?d"
      by (auto simp: ResetQueuedJob_def split: if_splits)
    from i obtain p st where c: "cards ?d i = Some (p, st)" by (metis cards_None option.exhaust surj_pair)
    have "cards ?d' = (cards ?d)(i \<mapsto> (p, Queued))"
      using cards_upd_id [of reset_row "\<lambda>_. Queued" i ?d] c by (simp add: d' reset_row_def)
    then have "board_of (s\<lparr>sy_db := ?d'\<rparr>) = (board_of s)\<lparr>bd_jobs := (bd_jobs (board_of s))(i \<mapsto> (p, Queued))\<rparr>"
      by (simp add: board_of_def d')
    moreover have "board_step (board_of s) \<dots>" by (rule board_step.retry [of _ _ _ st]) (simp add: board_of_def c)
    ultimately show ?thesis by simp
  next
    case (3 i)
    note i = DeleteJob_found(1) [OF 3] and n = DeleteJob_found(2) [OF 3]
    have "board_of (s\<lparr>sy_db := ?d'\<rparr>) = (board_of s)\<lparr>bd_jobs := (bd_jobs (board_of s))(i := None)\<rparr>"
      using cards_delete [OF 3] n by (simp add: board_of_def)
    moreover have "board_step (board_of s) \<dots>"
      by (rule board_step.withdraw) (use i in \<open>simp add: board_of_def domIff cards_None\<close>)
    ultimately show ?thesis by simp
  qed
qed

lemma scan_entry_cases:
  "scan_entry w g e d = d \<or>
    (\<exists>j. CreateOfflineJob (de_seen e) None (watch_job w g e) d = Inr (scan_entry w g e d, j))"
  by (cases "CreateOfflineJob (de_seen e) None (watch_job w g e) d") (auto simp: scan_entry_def)

lemma scan_board:
  assumes "db_wf (sy_db s)"
  shows "board_step\<^sup>=\<^sup>= (board_of s) (board_of (s\<lparr>sy_db := scan_entry w g e (sy_db s)\<rparr>))"
proof -
  consider "scan_entry w g e (sy_db s) = sy_db s"
    | j where "CreateOfflineJob (de_seen e) None (watch_job w g e) (sy_db s) = Inr (scan_entry w g e (sy_db s), j)"
    using scan_entry_cases by blast
  then show ?thesis
  proof cases
    case (2 j)
    note c = cards_create [OF assms 2]
    have "board_of (s\<lparr>sy_db := scan_entry w g e (sy_db s)\<rparr>) =
        (board_of s)\<lparr>bd_jobs := (bd_jobs (board_of s))(bd_next (board_of s) \<mapsto> (j_SourcePath (watch_job w g e), Queued)),
          bd_next := bd_next (board_of s) + 1\<rparr>"
      using c by (simp add: board_of_def)
    moreover have "board_step (board_of s) \<dots>" by (rule board_step.submit) (use c(3) in \<open>simp add: board_of_def\<close>)
    ultimately show ?thesis by simp
  qed simp
qed

lemma end_board:
  assumes "sy_worker s = Some i"
  shows "board_step (board_of s) (board_of \<lparr>sy_db = end_job clk res i (sy_db s), sy_worker = None\<rparr>)"
proof -
  let ?st = "case res of Inl err \<Rightarrow> Failed | Inr x \<Rightarrow> Completed"
  have "cards (end_job clk res i (sy_db s)) = (cards (sy_db s))(i := map_option (apsnd (\<lambda>_. ?st)) (cards (sy_db s) i))"
    unfolding end_job_def MarkJobFailed_def MarkJobCompleted_def
    by (cases res; simp add: split_beta; rule cards_upd_id; simp)
  moreover have "next_id (jobs_tbl (end_job clk res i (sy_db s))) = next_id (jobs_tbl (sy_db s))"
    by (simp add: end_job_def MarkJobFailed_def MarkJobCompleted_def split: sum.split)
  ultimately have "board_of \<lparr>sy_db = end_job clk res i (sy_db s), sy_worker = None\<rparr> =
      (board_of s)\<lparr>bd_jobs := (bd_jobs (board_of s))(i := map_option (apsnd (\<lambda>_. ?st)) (bd_jobs (board_of s) i)), bd_worker := None\<rparr>"
    by (simp add: board_of_def)
  moreover have "board_step (board_of s) \<dots>"
    by (rule board_step.finish) (use assms in \<open>simp_all add: board_of_def split: sum.split\<close>)
  ultimately show ?thesis by simp
qed

lemma sys_step_simulates:
  assumes "sys_inv s" "sys_step ev s = Some s'"
  shows "board_step\<^sup>=\<^sup>= (board_of s) (board_of s')"
proof (cases ev)
  case (Scanned w g e)
  with assms scan_board show ?thesis by (auto simp: sys_inv_def)
next
  case (Requested u e r)
  with assms(2) request_board [of s u e r] show ?thesis by auto
next
  case (Upserted clk g)
  with assms(2) show ?thesis by (auto split: sum.splits simp: regrouped_board store_ops_regroup)
next
  case (Reconciled i)
  with assms(2) regrouped_board [OF regrouped_drop [of "sy_db s" i]] show ?thesis by auto
next
  case (Claimed clk)
  with assms claim_board show ?thesis by blast
next
  case (Advanced ph pct)
  with assms(2) obtain i where s': "s' = s\<lparr>sy_db := UpdateJobPhase i ph pct (sy_db s)\<rparr>" by (auto split: option.splits)
  have same: "apsnd (\<lambda>st. st) = (id :: go_string \<times> job_status \<Rightarrow> _)" by (auto simp: fun_eq_iff)
  have "cards (UpdateJobPhase i ph pct (sy_db s)) = cards (sy_db s)"
    unfolding UpdateJobPhase_def by (subst cards_upd_id [where g = "\<lambda>st. st"]) (simp_all add: same option.map_id)
  then show ?thesis unfolding s' by (subst same_board) (simp_all add: UpdateJobPhase_def)
next
  case (Ended clk res)
  with assms(2) end_board show ?thesis by (auto split: option.splits)
next
  case Restarted
  with assms(2) have "board_of s' = (board_of s)\<lparr>bd_jobs := (\<lambda>i. map_option (apsnd (\<lambda>st. if st = Processing then Queued else st))
      (bd_jobs (board_of s) i)), bd_worker := None\<rparr>"
    by (auto simp: board_of_def cards_requeue)
  with board_step.restart [of "board_of s"] show ?thesis by simp
qed

lemma regrouped_step_wf:
  assumes "db_wf (sy_db s)" "sys_step ev s = Some s'"
  shows "db_wf (sy_db s')"
proof (cases ev)
  case (Requested u e r)
  have "ui_wf (snd (serve e r (u\<lparr>ui_db := Some (sy_db s)\<rparr>)))"
    by (rule serve_keeps_wf) (simp add: ui_wf_def assms(1))
  then show ?thesis using assms Requested by (auto simp: request_db_def ui_wf_def split_beta split: option.splits)
next
  case (Claimed clk)
  with assms job_updates_wf(1) [OF assms(1), of clk] show ?thesis by (auto split: option.splits prod.splits)
next
  case (Ended clk res)
  with assms job_updates_wf [OF assms(1)] show ?thesis by (auto simp: end_job_def split: option.splits sum.splits)
qed (use assms in \<open>auto simp: scan_entry_wf job_updates_wf drop_group_wf split: option.splits sum.splits intro: UpsertSiteGroup_wf\<close>)


lemma sys_step_inv:
  assumes "sys_inv s" "sys_step ev s = Some s'"
  shows "sys_inv s'"
proof -
  have "board_inv (board_of s')"
    using sys_step_simulates [OF assms] assms(1) board_step_inv by (auto simp: sys_inv_def)
  with assms regrouped_step_wf show ?thesis by (auto simp: sys_inv_def)
qed

definition sys_moves :: "offline_sys \<Rightarrow> offline_sys \<Rightarrow> bool" where
  "sys_moves s s' \<longleftrightarrow> (\<exists>ev. sys_step ev s = Some s')"

interpretation offline: step_simulation sys_moves sys_inv board_step board_of
proof unfold_locales
  show "sys_inv s \<Longrightarrow> sys_moves s s' \<Longrightarrow> sys_inv s'" for s s' by (auto simp: sys_moves_def intro: sys_step_inv)
  show "sys_inv s \<Longrightarrow> sys_moves s s' \<Longrightarrow> board_step\<^sup>=\<^sup>= (board_of s) (board_of s')" for s s'
    using sys_step_simulates unfolding sys_moves_def by blast
qed

lemma sys_run_moves: "sys_run evs s = Some s' \<Longrightarrow> sys_moves\<^sup>*\<^sup>* s s'"
proof (induction evs arbitrary: s)
  case (Cons ev evs)
  then obtain s1 where "sys_step ev s = Some s1" "sys_run evs s1 = Some s'" by (auto split: option.splits)
  with Cons.IH show ?case by (auto simp: sys_moves_def intro: converse_rtranclp_into_rtranclp)
qed simp

definition start_sys :: offline_sys where
  "start_sys = \<lparr>sy_db = empty_db, sy_worker = None\<rparr>"

lemma start_sys_inv: "sys_inv start_sys"
  by (simp add: sys_inv_def start_sys_def empty_db_wf board_inv_def board_of_def cards_def)
    (simp add: empty_db_def empty_table_def)

text \<open>
  C13. The offline side refines the board of jobs. Take any interleaving of folder scans, requests to
  the web interface, catalog syncs, crashes with restarts and the work of the processor: seen as
  ticket numbers with path and status, every event is one legal move on the board or none. So a
  job is queued once per path, is taken only from the queue and by the one worker, ends as
  completed or failed only by that worker, and a ticket number is never given out twice.
\<close>

theorem offline_refines_board:
  assumes "sys_inv s" "sys_run evs s = Some s'"
  shows "board_step\<^sup>*\<^sup>* (board_of s) (board_of s') \<and> sys_inv s'"
  using offline.sim_reach [OF sys_run_moves [OF assms(2)] assms(1)] offline.inv_reach [OF sys_run_moves [OF assms(2)] assms(1)]
  by blast

subsection \<open>Settled jobs\<close>

definition touches :: "int \<Rightarrow> sys_event \<Rightarrow> bool" where
  "touches i ev \<longleftrightarrow> (case ev of Requested u e r \<Rightarrow> retry_of r = Some i \<or> delete_of r = Some i | _ \<Rightarrow> False)"

definition keeps_row :: "offline_job \<Rightarrow> db \<Rightarrow> bool" where
  "keeps_row j d \<longleftrightarrow> (\<exists>g. j\<lparr>j_GroupID := g\<rparr> \<in> set (rows (jobs_tbl d)))"

lemma keeps_row_in: "j \<in> set (rows (jobs_tbl d)) \<Longrightarrow> keeps_row j d"
  unfolding keeps_row_def by (rule exI [of _ "j_GroupID j"]) simp

lemma regrouped_keeps: "regrouped d d' \<Longrightarrow> j \<in> set (rows (jobs_tbl d)) \<Longrightarrow> keeps_row j d'"
proof -
  assume "regrouped d d'" and j: "j \<in> set (rows (jobs_tbl d))"
  then obtain h where "rows (jobs_tbl d') = map (\<lambda>j. j\<lparr>j_GroupID := h j\<rparr>) (rows (jobs_tbl d))"
    by (auto simp: regrouped_def)
  with j have "j\<lparr>j_GroupID := h j\<rparr> \<in> set (rows (jobs_tbl d'))" by simp
  then show ?thesis unfolding keeps_row_def by blast
qed

lemma upd_keeps: "j \<in> set (rows (jobs_tbl d)) \<Longrightarrow> \<not> p j \<Longrightarrow> keeps_row j (upd_jobs p f d)"
  by (rule keeps_row_in) (auto simp: upd_jobs_def image_iff intro: bexI [of _ j])

lemma request_keeps:
  assumes "j \<in> set (rows (jobs_tbl d))" "retry_of r \<noteq> Some (j_ID j)" "delete_of r \<noteq> Some (j_ID j)"
  shows "keeps_row j (request_db u e r d)"
  using request_db_effect [of r d u e] unfolding request_effect_def
proof (elim disjE exE conjE)
  assume "regrouped d (request_db u e r d)"
  then show ?thesis using assms(1) by (rule regrouped_keeps)
next
  fix i assume "retry_of r = Some i" "ResetQueuedJob i d = Inr (request_db u e r d)"
  with assms upd_keeps [of j d "\<lambda>j. j_ID j = i" reset_row] show ?thesis
    by (auto simp: ResetQueuedJob_def split: if_splits)
next
  fix i assume "delete_of r = Some i" "DeleteJob i d = Inr (request_db u e r d)"
  with assms DeleteJob_found(3) show ?thesis by (auto intro!: keeps_row_in)
qed

lemma settled_not_worker:
  assumes "sys_inv s" "j \<in> set (rows (jobs_tbl (sy_db s)))" "j_Status j \<in> {Completed, Failed}"
  shows "sy_worker s \<noteq> Some (j_ID j)"
  using row_inv [OF assms(1,2)] assms(3) by auto

lemma claim_keeps:
  assumes "j \<in> set (rows (jobs_tbl d))" "j_Status j \<noteq> Queued" "db_wf d"
  shows "keeps_row j (fst (ClaimNextJob clk d))"
proof (cases "oldest_queued d")
  case (Some q)
  have "tbl_wf j_ID j_SourcePath (jobs_tbl d)" using assms(3) by (simp add: db_wf_def)
  then have "j_ID j \<noteq> j_ID q" using jt.id_unique [of "jobs_tbl d" j q] oldest_queued_Some [OF Some] assms by auto
  then show ?thesis using Some assms(1) by (simp add: ClaimNextJob_def Let_def upd_keeps)
qed (use assms in \<open>simp add: ClaimNextJob_def keeps_row_in\<close>)

lemma sys_step_keeps:
  assumes "sys_inv s" "sys_step ev s = Some s'" "\<not> touches (j_ID j) ev"
    and j: "j \<in> set (rows (jobs_tbl (sy_db s)))" "j_Status j \<in> {Completed, Failed}"
  shows "keeps_row j (sy_db s')"
proof (cases ev)
  case (Scanned w g e)
  have "keeps_row j (scan_entry w g e (sy_db s))"
    using scan_entry_appends [of w e "sy_db s" g] j(1) by (intro keeps_row_in) (auto simp: appends_def)
  with Scanned assms(2) show ?thesis by auto
next
  case (Requested u e r)
  with assms request_keeps [OF j(1)] show ?thesis by (auto simp: touches_def)
next
  case (Upserted clk g)
  with assms(2) j(1) show ?thesis
    by (auto split: sum.splits intro: keeps_row_in regrouped_keeps [OF store_ops_regroup(4)])
next
  case (Reconciled i)
  with assms(2) regrouped_keeps [OF regrouped_drop j(1)] show ?thesis by auto
next
  case (Claimed clk)
  have "keeps_row j (fst (ClaimNextJob clk (sy_db s)))"
    using j assms(1) by (intro claim_keeps) (auto simp: sys_inv_def)
  with assms(2) Claimed show ?thesis by (auto split: option.splits prod.splits)
next
  case (Advanced ph pct)
  with assms(2) settled_not_worker [OF assms(1) j] upd_keeps [OF j(1)] show ?thesis
    by (auto simp: UpdateJobPhase_def split: option.splits)
next
  case (Ended clk res)
  with assms(2) settled_not_worker [OF assms(1) j] upd_keeps [OF j(1)] show ?thesis
    by (auto simp: end_job_def MarkJobFailed_def MarkJobCompleted_def split: option.splits sum.splits)
next
  case Restarted
  with assms(2) j upd_keeps [OF j(1)] show ?thesis by (auto simp: RequeueStuckJobs_def)
qed

text \<open>
  C14. A settled job stays settled. Once a job is completed or failed, no scan, sync, restart, or work
  on other jobs changes its row, but for the group reference when the group is deleted; only a
  request to retry or delete this very job does. In particular a release is never overwritten by
  a second run nobody asked for.
\<close>

theorem settled_job_stays:
  assumes "sys_inv s" "sys_run evs s = Some s'" "\<forall>ev\<in>set evs. \<not> touches (j_ID j) ev"
    and "j \<in> set (rows (jobs_tbl (sy_db s)))" "j_Status j \<in> {Completed, Failed}"
  shows "\<exists>g. j\<lparr>j_GroupID := g\<rparr> \<in> set (rows (jobs_tbl (sy_db s')))"
  using assms
proof (induction evs arbitrary: s j)
  case (Cons ev evs)
  from Cons.prems(2) obtain s1 where s1: "sys_step ev s = Some s1" "sys_run evs s1 = Some s'" by (auto split: option.splits)
  from sys_step_keeps [OF Cons.prems(1) s1(1)] Cons.prems(3-5)
  obtain g where "j\<lparr>j_GroupID := g\<rparr> \<in> set (rows (jobs_tbl (sy_db s1)))" by (auto simp: keeps_row_def)
  from Cons.IH [OF sys_step_inv [OF Cons.prems(1) s1(1)] s1(2) _ this] Cons.prems(3,5) show ?case by auto
qed (auto simp: keeps_row_in [unfolded keeps_row_def])


subsection \<open>The components move the system\<close>

lemma sys_run_append: "sys_run (xs @ ys) s = (case sys_run xs s of None \<Rightarrow> None | Some s' \<Rightarrow> sys_run ys s')"
  by (induction xs arbitrary: s) (auto split: option.splits)

definition runs_to :: "offline_sys \<Rightarrow> offline_sys \<Rightarrow> bool" where
  "runs_to s s' \<longleftrightarrow> (\<exists>evs. sys_run evs s = Some s')"

lemma runs_to_refl: "runs_to s s"
  unfolding runs_to_def by (rule exI [of _ "[]"]) simp

lemma runs_to_trans: "runs_to s s1 \<Longrightarrow> runs_to s1 s2 \<Longrightarrow> runs_to s s2"
proof -
  assume "runs_to s s1" "runs_to s1 s2"
  then obtain xs ys where "sys_run xs s = Some s1" "sys_run ys s1 = Some s2" by (auto simp: runs_to_def)
  then show ?thesis unfolding runs_to_def by (intro exI [of _ "xs @ ys"]) (simp add: sys_run_append)
qed

lemma runs_to_step: "sys_step ev s = Some s' \<Longrightarrow> runs_to s s'"
  unfolding runs_to_def by (rule exI [of _ "[ev]"]) simp

lemma runs_to_fold:
  assumes "\<And>x s. runs_to s (s\<lparr>sy_db := f x (sy_db s)\<rparr>)"
  shows "runs_to s (s\<lparr>sy_db := fold f xs (sy_db s)\<rparr>)"
proof (induction xs arbitrary: s)
  case (Cons x xs)
  from runs_to_trans [OF assms Cons.IH, of s x] show ?case by simp
qed (simp add: runs_to_refl)

lemma scan_runs: "runs_to s (s\<lparr>sy_db := scanAllWatches readDir (sy_db s)\<rparr>)"
  unfolding scanAllWatches_def scanOneWatch_fold
  by (intro runs_to_fold) (rule runs_to_step [OF sys_step.simps(1)])

lemma reconcile_runs: "runs_to s (s\<lparr>sy_db := fst (ReconcileSiteGroups live (sy_db s))\<rparr>)"
  unfolding ReconcileSiteGroups_def fst_conv by (intro runs_to_fold) (rule runs_to_step [OF sys_step.simps(4)])

lemma upsert_runs: "runs_to s (s\<lparr>sy_db := fst (upsert_all clock k gs (sy_db s))\<rparr>)"
proof (induction gs arbitrary: k s)
  case (Cons g gs)
  show ?case
  proof (cases "UpsertSiteGroup (clock k) (from_site g) (sy_db s)")
    case (Inl err)
    with Cons.IH [of s "Suc k"] show ?thesis by simp
  next
    case (Inr x)
    obtain d' u g' where x: "x = (d', u, g')" by (cases x)
    have "runs_to s (s\<lparr>sy_db := d'\<rparr>)"
      by (rule runs_to_step [of "Upserted (clock k) (from_site g)"]) (simp add: Inr x)
    from runs_to_trans [OF this Cons.IH [of _ "Suc k"]] show ?thesis by (simp add: fst_upsert_all Inr x del: upsert_all.simps)
  qed
qed (simp add: runs_to_refl)

lemma sync_runs: "runs_to s (s\<lparr>sy_db := snd (runOnce clock resp st (sy_db s))\<rparr>)"
proof (cases resp)
  case (Some r)
  note u = upsert_runs [of s clock 0 "resp_Groups r"]
  from runs_to_trans [OF u reconcile_runs, of "g_Name ` set (resp_Groups r)"] u Some show ?thesis
    by (simp add: runOnce_def Let_def)
qed (simp add: runOnce_def runs_to_refl)

lemma phases_advance:
  assumes "db_wf d" "phases_only i d d'"
  shows "\<exists>p x. d' = UpdateJobPhase i p x d"
proof -
  from assms(2) obtain h where gw: "groups d' = groups d" "watches d' = watches d"
    and h: "\<forall>j. \<exists>p x. h j = j\<lparr>j_Phase := p, j_Progress := x\<rparr>"
    and t: "jobs_tbl d' = (jobs_tbl d)\<lparr>rows := map (\<lambda>j. if j_ID j = i then h j else j) (rows (jobs_tbl d))\<rparr>"
    unfolding phases_only_def by blast
  have eq: "d' = upd_jobs (\<lambda>j. j_ID j = i) h d"
    by (rule db.equality) (simp_all add: upd_jobs_def gw t)
  have wf: "tbl_wf j_ID j_SourcePath (jobs_tbl d)" using assms(1) by (simp add: db_wf_def)
  show ?thesis
  proof (cases "\<exists>j\<in>set (rows (jobs_tbl d)). j_ID j = i")
    case True
    then obtain j0 where j0: "j0 \<in> set (rows (jobs_tbl d))" "j_ID j0 = i" by blast
    from h obtain p x where px: "h j0 = j0\<lparr>j_Phase := p, j_Progress := x\<rparr>" by blast
    have "h j = j\<lparr>j_Phase := p, j_Progress := x\<rparr>" if "j \<in> set (rows (jobs_tbl d))" "j_ID j = i" for j
      using jt.id_unique [OF wf that(1) j0(1)] that(2) j0(2) px by simp
    then have "d' = UpdateJobPhase i p x d" by (simp add: eq UpdateJobPhase_def upd_jobs_def)
    then show ?thesis by blast
  next
    case False
    then have "d' = UpdateJobPhase i [] 0 d" by (auto simp: eq UpdateJobPhase_def upd_jobs_def)
    then show ?thesis by blast
  qed
qed

lemma turn_runs_system:
  assumes "sys_inv \<lparr>sy_db = os_db st, sy_worker = None\<rparr>" "processor_turn clk e st = (st', res)" "res \<noteq> Some Pending"
  shows "runs_to \<lparr>sy_db = os_db st, sy_worker = None\<rparr> \<lparr>sy_db = os_db st', sy_worker = None\<rparr>"
proof (cases "oldest_queued (os_db st)")
  case None
  with assms(2) show ?thesis by (simp add: turn_idle runs_to_refl)
next
  case (Some q)
  let ?s = "\<lparr>sy_db = os_db st, sy_worker = None\<rparr>"
  have wf: "db_wf (os_db st)" using assms(1) by (simp add: sys_inv_def)
  have idle: "\<forall>j\<in>set (rows (jobs_tbl (os_db st))). j_Status j \<noteq> Processing"
    using idle_none_processing [OF assms(1)] by simp
  define d1 where "d1 = upd_jobs (\<lambda>j. j_ID j = j_ID q) (claim_row clk) (os_db st)"
  note c = claim_facts [OF wf idle Some, of clk, folded d1_def]
  have id: "j_ID (claim_row clk q) = j_ID q" by (simp add: claim_row_def)
  have wf1: "db_wf d1" using job_updates_wf(1) [OF wf, of clk] by (simp add: c)
  obtain st1 r where p: "processOfflineJob e (claim_row clk q) (st\<lparr>os_db := d1\<rparr>) = (st1, r)" by fastforce
  from processOfflineJob_well [OF p] have "phases_only (j_ID q) d1 (os_db st1)" by (simp add: id)
  from phases_advance [OF wf1 this] obtain ph x where adv: "os_db st1 = UpdateJobPhase (j_ID q) ph x d1" by blast
  define out where "out = (case r of Released nzb pw \<Rightarrow> Inr (nzb, pw) | Broke err \<Rightarrow> Inl (off_text err) | Pending \<Rightarrow> Inl [])"
  have end': "os_db st' = end_job (oe_now e) out (j_ID q) (os_db st1)" if "r \<noteq> Pending"
    using assms(2) that by (cases r) (auto simp: processor_turn_def c runOneOfflineJob_def p id end_job_def out_def)
  have "res = Some r" using assms(2) by (cases r) (auto simp: processor_turn_def c runOneOfflineJob_def p)
  with assms(3) end' have fin: "os_db st' = end_job (oe_now e) out (j_ID q) (os_db st1)" by blast
  have "sys_run [Claimed clk, Advanced ph x, Ended (oe_now e) out] ?s = Some \<lparr>sy_db = os_db st', sy_worker = None\<rparr>"
    by (simp add: c id fin adv)
  then show ?thesis unfolding runs_to_def by blast
qed

text \<open>
  C12. One job at a time, and none is stranded. In every state the offline side can reach from an empty
  database, whatever is requested, scanned, synced or crashed: the database is well-formed, a job
  in processing is the one the processor is at, and no job is ever cancelled. Whenever the
  processor is idle, so also after a crash, claiming answers with the oldest queued job and
  changes its row only, or finds that none is queued.
\<close>

theorem single_worker:
  assumes "sys_run evs start_sys = Some s"
  shows "db_wf (sy_db s) \<and>
    (\<forall>j\<in>set (rows (jobs_tbl (sy_db s))). j_Status j = Processing \<longrightarrow> sy_worker s = Some (j_ID j)) \<and>
    (\<forall>j\<in>set (rows (jobs_tbl (sy_db s))). j_Status j \<noteq> CancelledJob) \<and>
    (sy_worker s = None \<longrightarrow> (\<forall>clk. case ClaimNextJob clk (sy_db s) of
        (d', None) \<Rightarrow> d' = sy_db s \<and> (\<forall>j\<in>set (rows (jobs_tbl (sy_db s))). j_Status j \<noteq> Queued)
      | (d', Some job) \<Rightarrow>
          (\<exists>q\<in>set (rows (jobs_tbl (sy_db s))). j_Status q = Queued \<and> job = claim_row clk q \<and>
             (\<forall>x\<in>set (rows (jobs_tbl (sy_db s))). j_Status x = Queued \<longrightarrow> j_CreatedAt q \<le> j_CreatedAt x) \<and>
             rows (jobs_tbl d') = map (\<lambda>x. if x = q then job else x) (rows (jobs_tbl (sy_db s))))))"
proof -
  have inv: "sys_inv s" by (rule offline.inv_reach [OF sys_run_moves [OF assms] start_sys_inv])
  have wf: "db_wf (sy_db s)" using inv by (simp add: sys_inv_def)
  have "case ClaimNextJob clk (sy_db s) of
        (d', None) \<Rightarrow> d' = sy_db s \<and> (\<forall>j\<in>set (rows (jobs_tbl (sy_db s))). j_Status j \<noteq> Queued)
      | (d', Some job) \<Rightarrow>
          (\<exists>q\<in>set (rows (jobs_tbl (sy_db s))). j_Status q = Queued \<and> job = claim_row clk q \<and>
             (\<forall>x\<in>set (rows (jobs_tbl (sy_db s))). j_Status x = Queued \<longrightarrow> j_CreatedAt q \<le> j_CreatedAt x) \<and>
             rows (jobs_tbl d') = map (\<lambda>x. if x = q then job else x) (rows (jobs_tbl (sy_db s))))"
    if "sy_worker s = None" for clk
  proof -
    obtain d' r where c: "ClaimNextJob clk (sy_db s) = (d', r)" by fastforce
    from ClaimNextJob_contract [OF wf c] idle_none_processing [OF inv that] c show ?thesis
      by (auto split: option.splits)
  qed
  with wf row_inv [OF inv] show ?thesis by (intro conjI ballI allI impI) simp_all
qed


subsection \<open>A run\<close>

definition loose_watch :: watch_folder where
  "loose_watch = anime_watch\<lparr>w_GroupID := None\<rparr>"

definition demo_events :: "sys_event list" where
  "demo_events = [Scanned loose_watch [] dropped_file, Claimed 9, Advanced ''par2'' 40, Ended 10 (Inr (''/out/b.nzb'', ''pw''))]"

definition demo_sys :: offline_sys where
  "demo_sys = (case sys_run demo_events start_sys of Some s \<Rightarrow> s | None \<Rightarrow> start_sys)"

lemma demo_runs: "sys_run demo_events start_sys = Some demo_sys \<and>
  list_all (\<lambda>j. j_Status j = Completed \<and> j_NzbPath j = Some ''/out/b.nzb'') (rows (jobs_tbl (sy_db demo_sys))) \<and>
  rows (jobs_tbl (sy_db demo_sys)) \<noteq> [] \<and> sy_worker demo_sys = None \<and>
  sys_run [Restarted, Claimed 11] demo_sys \<noteq> None"
  by code_simp

theorem offline_refines_board_witness:
  "board_step\<^sup>*\<^sup>* (board_of start_sys) (board_of demo_sys) \<and> sys_inv demo_sys"
  using offline_refines_board [OF start_sys_inv, of demo_events demo_sys] demo_runs by blast

theorem single_worker_witness: "snd (ClaimNextJob 11 (sy_db demo_sys)) = None"
proof -
  have s: "sys_run demo_events start_sys = Some demo_sys" using demo_runs by blast
  have w: "sy_worker demo_sys = None" using demo_runs by blast
  have ends: "\<forall>j\<in>set (rows (jobs_tbl (sy_db demo_sys))). j_Status j = Completed" using demo_runs by (simp add: list_all_iff)
  obtain d' r where c: "ClaimNextJob 11 (sy_db demo_sys) = (d', r)" by fastforce
  note claim = single_worker [OF s, THEN conjunct2, THEN conjunct2, THEN conjunct2, THEN mp, OF w, THEN spec, of 11]
  show ?thesis
  proof (cases r)
    case (Some job)
    then have "\<exists>q\<in>set (rows (jobs_tbl (sy_db demo_sys))). j_Status q = Queued" using claim c by auto
    with ends show ?thesis by auto
  qed (simp add: c)
qed

theorem settled_job_stays_witness:
  "\<exists>s'. sys_run [Restarted, Claimed 11] demo_sys = Some s' \<and>
     (\<exists>j\<in>set (rows (jobs_tbl (sy_db s'))). j_Status j = Completed \<and> j_NzbPath j = Some ''/out/b.nzb'')"
proof -
  obtain s' where s': "sys_run [Restarted, Claimed 11] demo_sys = Some s'" using demo_runs by blast
  have inv: "sys_inv demo_sys" using offline.inv_reach [OF sys_run_moves start_sys_inv] demo_runs by blast
  from demo_runs obtain j where j: "j \<in> set (rows (jobs_tbl (sy_db demo_sys)))" "j_Status j = Completed" "j_NzbPath j = Some ''/out/b.nzb''"
    by (cases "rows (jobs_tbl (sy_db demo_sys))") auto
  have "\<forall>ev\<in>set [Restarted, Claimed 11]. \<not> touches (j_ID j) ev" by (simp add: touches_def)
  from settled_job_stays [OF inv s' this j(1)] j(2)
  obtain g where "j\<lparr>j_GroupID := g\<rparr> \<in> set (rows (jobs_tbl (sy_db s')))" by blast
  moreover have "j_Status (j\<lparr>j_GroupID := g\<rparr>) = Completed" "j_NzbPath (j\<lparr>j_GroupID := g\<rparr>) = Some ''/out/b.nzb''"
    using j by simp_all
  ultimately show ?thesis using s' by blast
qed

text \<open>
  A retry of the job that is being processed is lost: the end of the run settles the row it put back in the queue.
\<close>

lemma retry_while_running_lost:
  "case sys_run [Scanned loose_watch [] dropped_file, Claimed 9, Requested demo_ui demo_ue (rq ''POST'' ''/jobs/retry'' [(''id'', ''1'')]), Ended 10 (Inl ''x'')] start_sys of
     Some s \<Rightarrow> map j_Status (rows (jobs_tbl (sy_db s))) = [Failed] | None \<Rightarrow> False"
  by code_simp

end
