(* ===== verification/State_File.thy ===== *)
theory State_File
  imports Disk_Reserve Go_Json Go_Utf8 "HOL-Library.List_Lexorder" "HOL-Library.Char_ord"
begin

text \<open>
  The file behind the job states: \<open>SaveState\<close> and \<open>LoadState\<close> of \<open>src/storage/storage.go\<close>. A file is the
  JSON value its text parses to, or \<open>None\<close> if it is missing, unreadable or not JSON. A map keyed by
  strings is encoded in the order of its keys; bytes of a string that are no UTF-8 become U+FFFD; a
  \<open>float64\<close> is printed so that it parses back to itself.
\<close>

subsection \<open>Encoding\<close>

definition json_str :: "go_string \<Rightarrow> json" where
  "json_str s = JStr (to_valid_utf8 s)"

text \<open>A field marked \<open>omitempty\<close>.\<close>

definition omit_empty :: "go_string \<Rightarrow> go_string \<Rightarrow> (go_string \<times> json) list" where
  "omit_empty k s = (if s = [] then [] else [(k, json_str s)])"

definition job_json :: "job_state \<Rightarrow> json" where
  "job_json j =
     JObj ([(''name'', json_str (js_Name j)), (''phase'', json_str (js_Phase j)), (''details'', json_str (js_Details j)),
            (''progress'', JFloat (js_Progress j)), (''updated_at'', json_str (js_UpdatedAt j))] @
           omit_empty ''downloaded_path'' (js_DownloadedPath j) @ omit_empty ''password'' (js_Password j) @
           omit_empty ''zip_name'' (js_ZipName j))"

definition jobs_json :: "jobs_map \<Rightarrow> json" where
  "jobs_json js = JObj (map (\<lambda>(n, j). (to_valid_utf8 n, job_json j)) (sort_key fst js))"

text \<open>
  \<open>SaveState\<close>, with the path, how the write ends, and the file before it. A write that is cut short
  leaves a proper prefix of the text of an object, which is not JSON: \<open>MarshalIndent\<close> ends with the
  closing brace. Two saves that run at the same time leave the text of one of them, or that text
  followed by the end of a longer one, which is not JSON either.
\<close>

definition SaveState :: "go_string \<Rightarrow> write_outcome \<Rightarrow> jobs_map \<Rightarrow> json option \<Rightarrow> json option" where
  "SaveState path w js old =
     (if path = [] then old
      else case w of Wrote \<Rightarrow> Some (jobs_json js) | NotOpened err \<Rightarrow> old | CutShort err n \<Rightarrow> None)"

subsection \<open>Decoding\<close>

text \<open>
  What \<open>LoadState\<close> leaves in \<open>GlobalState.Jobs\<close>: \<open>None\<close> is the nil map, an entry \<open>None\<close> a nil pointer;
  both come of \<open>null\<close> in the file.
\<close>

type_synonym loaded_jobs = "(go_string \<times> job_state option) list option"

definition dec_progress :: "json \<Rightarrow> float64 dec" where
  "dec_progress = dec_with 0 (\<lambda>x. case x of JNum s \<Rightarrow> parse_float s | JFloat r \<Rightarrow> Some r | _ \<Rightarrow> None) ''progress''"

definition decode_job :: "json \<Rightarrow> job_state option dec" where
  "decode_job v =
     (case v of
        JNull \<Rightarrow> (None, False)
      | JObj kvs \<Rightarrow>
          (Some \<lparr>js_Name = fst (dec_str ''name'' v), js_Phase = fst (dec_str ''phase'' v), js_Details = fst (dec_str ''details'' v),
                 js_Progress = fst (dec_progress v), js_UpdatedAt = fst (dec_str ''updated_at'' v),
                 js_DownloadedPath = fst (dec_str ''downloaded_path'' v), js_Password = fst (dec_str ''password'' v),
                 js_ZipName = fst (dec_str ''zip_name'' v)\<rparr>,
           snd (dec_str ''name'' v) \<or> snd (dec_str ''phase'' v) \<or> snd (dec_str ''details'' v) \<or> snd (dec_progress v) \<or>
           snd (dec_str ''updated_at'' v) \<or> snd (dec_str ''downloaded_path'' v) \<or> snd (dec_str ''password'' v) \<or>
           snd (dec_str ''zip_name'' v))
      | _ \<Rightarrow> (Some (fresh_state []), True))"

definition decode_jobs :: "json \<Rightarrow> loaded_jobs dec" where
  "decode_jobs v =
     (case v of
        JNull \<Rightarrow> (None, False)
      | JObj kvs \<Rightarrow>
          (Some (fold (\<lambda>(k, y) js. AList.update k (fst (decode_job y)) js) kvs []), list_ex (\<lambda>(k, y). snd (decode_job y)) kvs)
      | _ \<Rightarrow> (None, True))"

definition LoadState :: "go_string \<Rightarrow> json option \<Rightarrow> loaded_jobs \<Rightarrow> loaded_jobs" where
  "LoadState path file js =
     (if path = [] then js
      else case file of
        None \<Rightarrow> js
      | Some v \<Rightarrow> (case decode_jobs v of (js', bad) \<Rightarrow> if bad then js else js'))"

text \<open>The states that can be read without a nil dereference.\<close>

definition known_jobs :: "loaded_jobs \<Rightarrow> jobs_map" where
  "known_jobs js = (case js of None \<Rightarrow> [] | Some es \<Rightarrow> List.map_filter (\<lambda>(n, x). map_option (Pair n) x) es)"

subsection \<open>What was saved is what is loaded\<close>

lemma field_lower:
  assumes "list_all (\<lambda>(k, x). to_lower k = k \<and> x \<noteq> JNull) kvs" "distinct (map fst kvs)" "to_lower n = n"
  shows "field n (JObj kvs) = map_of kvs n"
proof -
  have "filter (\<lambda>(k, x). x \<noteq> JNull) kvs = kvs" "map (\<lambda>(k, x). (to_lower k, x)) kvs = kvs"
    using assms(1) by (auto simp: list_all_iff filter_id_conv intro!: map_idI)
  moreover have "map_of (rev kvs) = map_of kvs" using assms(2) by (simp add: map_of_inject_set rev_map [symmetric])
  ultimately show ?thesis using assms(3) by (simp add: field_def)
qed

lemma job_keys_lower:
  "list_all (\<lambda>k. to_lower k = k) [''name'', ''phase'', ''details'', ''progress'', ''updated_at'', ''downloaded_path'', ''password'', ''zip_name'']"
  by code_simp

text \<open>The states whose texts JSON can carry.\<close>

definition job_utf8 :: "job_state \<Rightarrow> bool" where
  "job_utf8 j \<longleftrightarrow> list_all valid_utf8 [js_Name j, js_Phase j, js_Details j, js_UpdatedAt j, js_DownloadedPath j,
     js_Password j, js_ZipName j]"

definition saveable :: "jobs_map \<Rightarrow> bool" where
  "saveable js \<longleftrightarrow> distinct (map fst js) \<and> list_all (\<lambda>(n, j). valid_utf8 n \<and> job_utf8 j) js"

lemma json_str_valid: "valid_utf8 s \<Longrightarrow> json_str s = JStr s"
  by (simp add: json_str_def to_valid_utf8_id)

lemma decode_job_json:
  assumes "job_utf8 j"
  shows "decode_job (job_json j) = (Some j, False)"
proof -
  have valid: "valid_utf8 (js_Name j)" "valid_utf8 (js_Phase j)" "valid_utf8 (js_Details j)" "valid_utf8 (js_UpdatedAt j)"
    "valid_utf8 (js_DownloadedPath j)" "valid_utf8 (js_Password j)" "valid_utf8 (js_ZipName j)"
    using assms by (simp_all add: job_utf8_def)
  define kvs where "kvs = [(''name'', json_str (js_Name j)), (''phase'', json_str (js_Phase j)), (''details'', json_str (js_Details j)),
            (''progress'', JFloat (js_Progress j)), (''updated_at'', json_str (js_UpdatedAt j))] @
           omit_empty ''downloaded_path'' (js_DownloadedPath j) @ omit_empty ''password'' (js_Password j) @
           omit_empty ''zip_name'' (js_ZipName j)"
  have "list_all (\<lambda>(k, x). to_lower k = k \<and> x \<noteq> JNull) kvs" "distinct (map fst kvs)"
    using job_keys_lower by (simp_all add: kvs_def omit_empty_def json_str_def)
  note f = field_lower [OF this]
  have there: "dec_str k (JObj kvs) = (s, False)" if "to_lower k = k" "map_of kvs k = Some (JStr s)" for k s
    using f [OF that(1)] that(2) by (simp add: dec_str_def dec_with_def)
  have omitted: "dec_str k (JObj kvs) = (s, False)"
    if "to_lower k = k" "map_of kvs k = (if s = [] then None else Some (JStr s))" for k s
    using f [OF that(1)] that(2) by (simp add: dec_str_def dec_with_def)
  have m: "map_of kvs ''name'' = Some (JStr (js_Name j))" "map_of kvs ''phase'' = Some (JStr (js_Phase j))"
    "map_of kvs ''details'' = Some (JStr (js_Details j))" "map_of kvs ''updated_at'' = Some (JStr (js_UpdatedAt j))"
    "map_of kvs ''progress'' = Some (JFloat (js_Progress j))"
    "map_of kvs ''downloaded_path'' = (if js_DownloadedPath j = [] then None else Some (JStr (js_DownloadedPath j)))"
    "map_of kvs ''password'' = (if js_Password j = [] then None else Some (JStr (js_Password j)))"
    "map_of kvs ''zip_name'' = (if js_ZipName j = [] then None else Some (JStr (js_ZipName j)))"
    by (simp_all add: kvs_def omit_empty_def json_str_valid valid)
  have low: "to_lower ''name'' = ''name''" "to_lower ''phase'' = ''phase''" "to_lower ''details'' = ''details''"
    "to_lower ''progress'' = ''progress''" "to_lower ''updated_at'' = ''updated_at''"
    "to_lower ''downloaded_path'' = ''downloaded_path''" "to_lower ''password'' = ''password''" "to_lower ''zip_name'' = ''zip_name''"
    using job_keys_lower by simp_all
  have "dec_progress (JObj kvs) = (js_Progress j, False)"
    using f [OF low(4)] m(5) by (simp add: dec_progress_def dec_with_def)
  then show ?thesis
    unfolding job_json_def kvs_def [symmetric]
    by (simp add: decode_job_def there [OF low(1) m(1)] there [OF low(2) m(2)] there [OF low(3) m(3)] there [OF low(5) m(4)]
        omitted [OF low(6) m(6)] omitted [OF low(7) m(7)] omitted [OF low(8) m(8)])
qed

lemma fold_decode_fresh:
  "distinct (map fst kvs) \<Longrightarrow> fold (\<lambda>(k, y) m. AList.update k (g y) m) kvs [] = map (\<lambda>(k, y). (k, g y)) kvs"
proof (induction kvs rule: rev_induct)
  case (snoc kv kvs)
  obtain k y where kv: "kv = (k, y)" by (cases kv)
  have "fst ` set (map (\<lambda>(k, y). (k, g y)) kvs) = fst ` set kvs" by force
  moreover have "k \<notin> fst ` set kvs" using snoc.prems kv by auto
  ultimately show ?case using snoc by (simp add: kv update_fresh)
qed simp

lemma LoadState_saved:
  assumes "path \<noteq> []" "saveable js"
  shows "LoadState path (Some (jobs_json js)) any = Some (map (\<lambda>(n, j). (n, Some j)) (sort_key fst js))"
proof -
  define kvs where "kvs = map (\<lambda>(n, j). (n, job_json j)) (sort_key fst js)"
  have valid: "valid_utf8 n \<and> job_utf8 j" if "(n, j) \<in> set js" for n j
    using assms(2) that by (auto simp: saveable_def list_all_iff)
  then have enc: "jobs_json js = JObj kvs"
    by (auto simp: jobs_json_def kvs_def to_valid_utf8_id)
  have "distinct (map fst js)" using assms(2) by (simp add: saveable_def)
  then have "distinct (map fst (sort_key fst js))" by (simp add: distinct_map inj_on_def)
  moreover have "map fst (map (\<lambda>(n, j). (n, job_json j)) xs) = map fst xs" for xs by (induction xs) auto
  then have "map fst kvs = map fst (sort_key fst js)" unfolding kvs_def .
  ultimately have "distinct (map fst kvs)" by simp
  then have "fold (\<lambda>(k, y) m. AList.update k (fst (decode_job y)) m) kvs [] = map (\<lambda>(k, y). (k, fst (decode_job y))) kvs"
    by (rule fold_decode_fresh)
  also have "\<dots> = map (\<lambda>(n, j). (n, Some j)) (sort_key fst js)"
    using valid by (auto simp: kvs_def decode_job_json)
  finally have "fst (decode_jobs (JObj kvs)) = Some (map (\<lambda>(n, j). (n, Some j)) (sort_key fst js))" by (simp add: decode_jobs_def)
  moreover have "\<not> snd (decode_jobs (JObj kvs))"
    using valid by (auto simp: decode_jobs_def kvs_def decode_job_json list_ex_iff)
  ultimately show ?thesis
    using assms(1) by (simp add: LoadState_def enc split_beta)
qed

lemma known_loaded: "known_jobs (Some (map (\<lambda>(n, j). (n, Some j)) js)) = js"
  by (induction js) (auto simp: known_jobs_def List.map_filter_simps)

text \<open>
  The states that a save leaves for the next start: its own, those of the last complete save, or
  none when it was cut short.
\<close>

definition left_states :: "write_outcome \<Rightarrow> jobs_map \<Rightarrow> jobs_map option \<Rightarrow> jobs_map" where
  "left_states w js before =
     (case w of Wrote \<Rightarrow> js | NotOpened err \<Rightarrow> (case before of None \<Rightarrow> [] | Some m \<Rightarrow> m) | CutShort err n \<Rightarrow> [])"

lemma known_after_save:
  assumes "path \<noteq> []" "saveable js" "\<forall>m. before = Some m \<longrightarrow> saveable m"
  shows "set (known_jobs (LoadState path (SaveState path w js (map_option jobs_json before)) (Some []))) =
    set (left_states w js before)"
proof -
  have none: "LoadState path None (Some []) = Some []" by (simp add: LoadState_def)
  have "known_jobs (Some []) = []" by (simp add: known_jobs_def List.map_filter_simps)
  then show ?thesis
    using assms by (cases before) (simp_all add: SaveState_def left_states_def LoadState_saved known_loaded none split: write_outcome.split)
qed

lemma kept_dirs_perm: "set js = set js' \<Longrightarrow> kept_dirs js = kept_dirs js'"
  by (auto simp: kept_dirs_def)

end
