(* ===== verification/Agent_Start.thy ===== *)
theory Agent_Start
  imports Poll_Loop Offline_System Secrets_Store State_File
begin

text \<open>
  The start of the agent: \<open>main\<close> in \<open>src/main.go\<close> up to the loop. What the previous run left behind is
  read back by the components that wrote it: the job states, the local database, the cooldown of
  oversized requests, the secrets; leftovers of downloads nobody can resume are removed.
\<close>

subsection \<open>Before the loop\<close>

definition secretsPath :: "environ \<Rightarrow> go_string" where
  "secretsPath ev =
     (let path = (case ev ''SECRETS_YML'' of Some p \<Rightarrow> p | None \<Rightarrow> []);
          dir = (case ev ''CONFIG_DIR'' of Some d \<Rightarrow> d | None \<Rightarrow> [])
      in if path \<noteq> [] then path else path_join [if dir = [] then ''.'' else dir, ''secrets.yml''])"

text \<open>
  The files a start finds, by path: their text for the settings and the secrets, the state file as JSON, the
  cooldown file, the database (\<open>None\<close>: it cannot be opened), and the names in the temporary
  directory (\<open>None\<close>: it cannot be listed).
\<close>

record left_behind =
  lb_config :: "go_string option"
  lb_secrets :: "go_string option"
  lb_state :: "json option"
  lb_skips :: "(int \<times> time) list option"
  lb_db :: "db option"
  lb_temp :: "go_string list option"

record start_env =
  se_now :: time
  se_environ :: environ
  se_open :: open_result
  se_create :: bool
  se_mkdir :: "go_string option"
  se_net :: network

record started =
  st_loop :: loop_state
  st_jobs :: loaded_jobs
  st_db :: "db option"
  st_requeued :: nat
  st_skips :: skip_guard
  st_removed :: "go_string list"
  st_secrets :: secrets
  st_ui :: "ui option"
  st_site :: site_client

text \<open>The database: opened, and the jobs a crash left in processing put back in the queue.\<close>

definition open_local_db :: "db option \<Rightarrow> db option \<times> nat" where
  "open_local_db opened =
     (case opened of None \<Rightarrow> (None, 0) | Some d \<Rightarrow> (case RequeueStuckJobs d of (d', n) \<Rightarrow> (Some d', n)))"

definition start_agent :: "start_env \<Rightarrow> left_behind \<Rightarrow> agent_config \<Rightarrow> layered \<Rightarrow> started" where
  "start_agent e f cfg l =
     (let jobs = LoadState (path_join [TempDir cfg, ''state.json'']) (lb_state f) (Some []);
          (d, n) = open_local_db (lb_db f);
          skips = loadOversizeSkip (se_now e) \<lparr>oversizeSkip = [], oversizeSkipFile = False, skip_file = lb_skips f\<rparr>;
          removed = (case lb_temp f of None \<Rightarrow> [] | Some names \<Rightarrow> SweepOrphanDownloads (known_jobs jobs) names);
          secrets = LoadSecrets (lb_secrets f);
          site = New (SiteURL cfg) (AgentToken cfg) (se_now e);
          ui = map_option (SetSite site) (StartLocalUI (se_environ e) cfg l secrets d)
      in \<lparr>st_loop = \<lparr>lp_cfg = cfg, lp_layered = l, lp_maxDL = initial_maxDL cfg, lp_cap = InitDiskLimit (MaxDiskUsageGB cfg),
             lp_lastReason = [], lp_active = [], lp_aborts = no_aborts, lp_ledger = no_reservations\<rparr>,
           st_jobs = jobs, st_db = d, st_requeued = n, st_skips = skips, st_removed = removed, st_secrets = secrets,
           st_ui = ui, st_site = snd (ClearMyLocks (se_net e) (se_now e) site)\<rparr>)"

text \<open>\<open>log.Fatal\<close> ends the process with its text.\<close>

definition agent_main :: "start_env \<Rightarrow> left_behind \<Rightarrow> go_string + started" where
  "agent_main e f =
     (let l = NewLayered (lb_config f) (se_environ e) (se_open e) (se_create e);
          cfg = newConfigFromLayered (se_environ e) l
      in if SiteURL cfg = [] \<or> AgentToken cfg = [] then Inl ''SITE_URL and AGENT_TOKEN must be set''
         else case se_mkdir e of
                Some err \<Rightarrow> Inl (''Failed to create directory '' @ TempDir cfg @ '': '' @ err)
              | None \<Rightarrow> Inr (start_agent e f cfg l))"

subsection \<open>What survives\<close>

lemma state_path_not_empty: "path_join [p, ''state.json''] \<noteq> []"
proof -
  have "plain_name ''state.json''" by code_simp
  from path_join_last [OF this, of p] show ?thesis by auto
qed

lemma start_agent_parts:
  "st_jobs (start_agent e f cfg l) = LoadState (path_join [TempDir cfg, ''state.json'']) (lb_state f) (Some [])"
  "st_db (start_agent e f cfg l) = fst (open_local_db (lb_db f))" "st_requeued (start_agent e f cfg l) = snd (open_local_db (lb_db f))"
  "st_removed (start_agent e f cfg l) = (case lb_temp f of None \<Rightarrow> [] | Some names \<Rightarrow>
     SweepOrphanDownloads (known_jobs (st_jobs (start_agent e f cfg l))) names)"
  "lp_active (st_loop (start_agent e f cfg l)) = []" "lp_ledger (st_loop (start_agent e f cfg l)) = no_reservations"
  "lp_maxDL (st_loop (start_agent e f cfg l)) = initial_maxDL cfg"
  by (simp_all add: start_agent_def split_beta Let_def cong: option.case_cong)

lemma start_jobs:
  assumes "lb_state f = SaveState p w js (map_option jobs_json before)" "p \<noteq> []" "saveable js"
    and "\<forall>m. before = Some m \<longrightarrow> saveable m"
  shows "set (known_jobs (st_jobs (start_agent e f cfg l))) = set (left_states w js before)"
proof -
  have "lb_state f = SaveState (path_join [TempDir cfg, ''state.json'']) w js (map_option jobs_json before)"
    using assms(1,2) state_path_not_empty by (simp add: SaveState_def)
  then show ?thesis
    by (simp only: start_agent_parts known_after_save [OF state_path_not_empty assms(3,4)])
qed

lemma start_sweeps:
  assumes "set (known_jobs (st_jobs (start_agent e f cfg l))) = set js"
  shows "name \<in> set (st_removed (start_agent e f cfg l)) \<longleftrightarrow>
    (\<exists>names. lb_temp f = Some names \<and> name \<in> set names) \<and> has_prefix name ''dl-'' \<and>
    \<not> (\<exists>(n, j)\<in>set js. js_DownloadedPath j \<noteq> [] \<and> name = path_base (path_dir (js_DownloadedPath j)))"
proof (cases "lb_temp f")
  case (Some names)
  with assms show ?thesis by (auto simp: start_agent_parts(4) SweepOrphanDownloads_exact)
qed (simp add: start_agent_parts(4))

lemma agent_main_Inr:
  assumes "agent_main e f = Inr st"
  obtains cfg l where "st = start_agent e f cfg l" "SiteURL cfg \<noteq> []" "AgentToken cfg \<noteq> []"
  using assms by (auto simp: agent_main_def Let_def split: if_splits option.splits)

text \<open>
  C15. A restart picks up where the last run stopped. Let the agent have been stopped at any point of
  the offline work and at any point of its last save of the job states, which was complete, could
  not open the file, or was cut short; before it, the file held an earlier save or nothing that
  parses. The texts of the states are valid UTF-8. If the new start gets past its checks, then no
  offline job is stuck in processing, the finished ones are untouched and the offline side starts
  in a legal state. The job states are those of the last complete save, unless a later save was cut
  short, which loses all of them. Of the temporary directory exactly those \<open>dl-\<close> entries go that no
  such state can still resume. The loop begins with no task, no reservation and room for at least one
  download.
\<close>

theorem restart_recovers:
  assumes "agent_main e f = Inr st"
    and "lb_state f = SaveState p w js (map_option jobs_json before)" "p \<noteq> []" "saveable js"
    and "\<forall>m. before = Some m \<longrightarrow> saveable m"
    and "lb_db f = Some (sy_db s)" "sys_inv s"
  shows "(\<exists>d. st_db st = Some d \<and> sys_inv \<lparr>sy_db = d, sy_worker = None\<rparr> \<and>
      (\<forall>j\<in>set (rows (jobs_tbl d)). j_Status j \<noteq> Processing) \<and>
      (\<forall>j\<in>set (rows (jobs_tbl (sy_db s))). j_Status j \<noteq> Processing \<longrightarrow> j \<in> set (rows (jobs_tbl d)))) \<and>
    set (known_jobs (st_jobs st)) =
      set (case w of Wrote \<Rightarrow> js | NotOpened err \<Rightarrow> (case before of None \<Rightarrow> [] | Some m \<Rightarrow> m) | CutShort err n \<Rightarrow> []) \<and>
    (\<forall>name. name \<in> set (st_removed st) \<longleftrightarrow>
      (\<exists>names. lb_temp f = Some names \<and> name \<in> set names) \<and> has_prefix name ''dl-'' \<and>
      \<not> (\<exists>(n, j)\<in>set (known_jobs (st_jobs st)).
           js_DownloadedPath j \<noteq> [] \<and> name = path_base (path_dir (js_DownloadedPath j)))) \<and>
    lp_active (st_loop st) = [] \<and> lp_ledger (st_loop st) = no_reservations \<and> 1 \<le> lp_maxDL (st_loop st)"
proof -
  obtain cfg l where st: "st = start_agent e f cfg l" using agent_main_Inr [OF assms(1)] by blast
  let ?d = "fst (RequeueStuckJobs (sy_db s))"
  have step: "sys_step Restarted s = Some \<lparr>sy_db = ?d, sy_worker = None\<rparr>" by simp
  have inv: "sys_inv \<lparr>sy_db = ?d, sy_worker = None\<rparr>" by (rule sys_step_inv [OF assms(7) step])
  have "st_db st = Some ?d" using assms(6) by (simp add: st start_agent_parts open_local_db_def split_beta)
  moreover have "\<forall>j\<in>set (rows (jobs_tbl ?d)). j_Status j \<noteq> Processing" using idle_none_processing [OF inv] by simp
  moreover have "\<forall>j\<in>set (rows (jobs_tbl (sy_db s))). j_Status j \<noteq> Processing \<longrightarrow> j \<in> set (rows (jobs_tbl ?d))"
    by (auto simp: RequeueStuckJobs_def upd_jobs_def image_iff intro: bexI)
  moreover have "set (known_jobs (st_jobs st)) = set (left_states w js before)"
    unfolding st by (rule start_jobs [OF assms(2-5)])
  moreover have "\<forall>name. name \<in> set (st_removed st) \<longleftrightarrow>
      (\<exists>names. lb_temp f = Some names \<and> name \<in> set names) \<and> has_prefix name ''dl-'' \<and>
      \<not> (\<exists>(n, j)\<in>set (known_jobs (st_jobs st)).
           js_DownloadedPath j \<noteq> [] \<and> name = path_base (path_dir (js_DownloadedPath j)))"
    unfolding st using start_sweeps [OF refl] by blast
  moreover have "lp_active (st_loop st) = []" "lp_ledger (st_loop st) = no_reservations" "1 \<le> lp_maxDL (st_loop st)"
    by (simp_all add: st start_agent_parts initial_maxDL_def)
  ultimately show ?thesis using inv unfolding left_states_def by blast
qed

text \<open>
  What the cut-short save costs: the next start removes every \<open>dl-\<close> directory, those of downloads that
  could have been resumed included.
\<close>

lemma torn_state_sweeps_all:
  assumes "lb_state f = SaveState p (CutShort err n) js old" "p \<noteq> []" "lb_temp f = Some names"
  shows "st_removed (start_agent e f cfg l) = filter (\<lambda>name. has_prefix name ''dl-'') names"
proof -
  have "lb_state f = None" using assms(1,2) by (simp add: SaveState_def)
  then show ?thesis
    using assms(3) by (simp add: start_agent_parts LoadState_def known_jobs_def kept_dirs_def SweepOrphanDownloads_def
        List.map_filter_simps)
qed

definition resumable_jobs :: jobs_map where
  "resumable_jobs = [(''request-7'', (fresh_state ''request-7'')\<lparr>js_DownloadedPath := ''/tmp/dl-request-7/Show''\<rparr>)]"

definition demo_left :: left_behind where
  "demo_left = \<lparr>lb_config = None, lb_secrets = None, lb_state = Some (jobs_json resumable_jobs), lb_skips = None,
     lb_db = Some (sy_db demo_sys), lb_temp = Some [''dl-request-7'', ''dl-request-8'', ''state.json'']\<rparr>"

definition demo_start :: start_env where
  "demo_start = \<lparr>se_now = 0, se_environ = (\<lambda>k. if k = ''SITE_URL'' then Some ''https://s'' else if k = ''AGENT_TOKEN'' then Some ''t'' else None),
     se_open = Opened, se_create = False, se_mkdir = None, se_net = (\<lambda>r. NetErr ''down'')\<rparr>"

lemma demo_start_config:
  "SiteURL (newConfigFromLayered (se_environ demo_start) l) = ''https://s''"
  "AgentToken (newConfigFromLayered (se_environ demo_start) l) = ''t''"
  by (simp_all add: newConfigFromLayered_def getEnv_def demo_start_def)

theorem restart_recovers_witness:
  "\<exists>st. agent_main demo_start demo_left = Inr st \<and> ''dl-request-7'' \<notin> set (st_removed st) \<and>
     known_jobs (st_jobs st) \<noteq> []"
proof -
  have "agent_main demo_start demo_left =
      Inr (start_agent demo_start demo_left (newConfigFromLayered (se_environ demo_start)
        (NewLayered None (se_environ demo_start) Opened False)) (NewLayered None (se_environ demo_start) Opened False))"
    by (simp add: agent_main_def Let_def demo_start_config) (simp add: demo_start_def demo_left_def)
  then obtain st where st: "agent_main demo_start demo_left = Inr st" by blast
  have f: "lb_state demo_left = SaveState ''s'' Wrote resumable_jobs (map_option jobs_json None)"
    "lb_db demo_left = Some (sy_db demo_sys)"
    by (simp_all add: demo_left_def SaveState_def)
  have sv: "saveable resumable_jobs" by code_simp
  have inv: "sys_inv demo_sys" using offline.inv_reach [OF sys_run_moves start_sys_inv] demo_runs by blast
  note r = restart_recovers [OF st f(1) _ sv _ f(2) inv]
  have "path_base (path_dir ''/tmp/dl-request-7/Show'') = ''dl-request-7''" by code_simp
  with r have "''dl-request-7'' \<notin> set (st_removed st)" by (auto simp: resumable_jobs_def)
  moreover have "known_jobs (st_jobs st) \<noteq> []" using r by (auto simp: resumable_jobs_def)
  ultimately show ?thesis using st by blast
qed

text \<open>
  A state file that holds \<open>null\<close> is accepted and leaves a nil map, into which the next \<open>UpdateState\<close>
  cannot write.
\<close>

lemma null_state_accepted: "path \<noteq> [] \<Longrightarrow> LoadState path (Some JNull) (Some js) = None"
  by (simp add: LoadState_def decode_jobs_def)

end
