(* ===== verification/Online_System.thy ===== *)
theory Online_System
  imports Poll_Loop
begin

text \<open>
  The online side of the agent as one system: the poll loop of \<open>main\<close> and the tasks it starts, side by
  side on the set of active requests and the disk ledger. A task is a goroutine that may reserve
  disk space once its size is known, runs its deferred calls, and is then released; any order of
  these events between tasks is a run.
\<close>

subsection \<open>The system\<close>

text \<open>
  How far a task is: started, holding a reservation, or past the deferred \<open>ReleaseDisk\<close>. A task that
  ends before its deferred calls are registered (the cooldown) goes from the start to the end.
\<close>

datatype stage = Launched | Holding | Cleaned

datatype live_event = Iterated loop_input | Sized int int | CleanedUp int | Released_task int

record live =
  lv_loop :: loop_state
  lv_tasks :: "(int \<times> stage) list"

definition request_job :: "int \<Rightarrow> go_string" where
  "request_job i = ''request-'' @ int_str i"

definition with_ledger :: "(ledger \<Rightarrow> ledger) \<Rightarrow> live \<Rightarrow> live" where
  "with_ledger f s = s\<lparr>lv_loop := (lv_loop s)\<lparr>lp_ledger := f (lp_ledger (lv_loop s))\<rparr>\<rparr>"

definition launch :: "loop_result \<Rightarrow> (int \<times> stage) list \<Rightarrow> (int \<times> stage) list" where
  "launch res ts = (case res of Dispatch task rc \<Rightarrow> ts @ [(RequestID task, Launched)] | _ \<Rightarrow> ts)"

text \<open>One event; \<open>None\<close> if it cannot happen. \<open>Sized i n\<close> is the admission of a torrent of \<open>n\<close> bytes.\<close>

fun live_step :: "duration \<Rightarrow> live_event \<Rightarrow> live \<Rightarrow> live option" where
  "live_step interval (Iterated i) s =
     (case loop_body interval i (lv_loop s) of
        (st', res) \<Rightarrow> Some \<lparr>lv_loop = st', lv_tasks = launch res (lv_tasks s)\<rparr>)"
| "live_step interval (Sized i n) s =
     (if map_of (lv_tasks s) i = Some Launched
      then Some ((with_ledger (ReserveDisk (request_job i) n) s)\<lparr>lv_tasks := AList.update i Holding (lv_tasks s)\<rparr>)
      else None)"
| "live_step interval (CleanedUp i) s =
     (if map_of (lv_tasks s) i \<in> {Some Launched, Some Holding}
      then Some ((with_ledger (ReleaseDisk (request_job i)) s)\<lparr>lv_tasks := AList.update i Cleaned (lv_tasks s)\<rparr>)
      else None)"
| "live_step interval (Released_task i) s =
     (if map_of (lv_tasks s) i \<in> {Some Launched, Some Cleaned}
      then Some \<lparr>lv_loop = (lv_loop s)\<lparr>lp_active := releaseTask i (lp_active (lv_loop s))\<rparr>,
                 lv_tasks = AList.delete i (lv_tasks s)\<rparr>
      else None)"

fun live_run :: "duration \<Rightarrow> live_event list \<Rightarrow> live \<Rightarrow> live option" where
  "live_run interval [] s = Some s"
| "live_run interval (ev # evs) s = (case live_step interval ev s of None \<Rightarrow> None | Some s' \<Rightarrow> live_run interval evs s')"

text \<open>The limit the site may set.\<close>

definition bounded_event :: "int \<Rightarrow> live_event \<Rightarrow> bool" where
  "bounded_event M ev \<longleftrightarrow>
     (case ev of Iterated i \<Rightarrow> (case li_config i of Inr rc \<Rightarrow> MaxConcurrent rc \<le> M | Inl err \<Rightarrow> True) | _ \<Rightarrow> True)"

text \<open>What the events stand for: the name and the ledger of a run of \<open>processTask\<close>.\<close>

lemma request_job_name: "request_job (RequestID task) = job_name task"
  by (simp add: request_job_def job_name_def)

lemma task_ledger_event:
  "snd (fetch_payload e task led) \<in> {led, ReserveDisk (request_job (RequestID task)) (t_length (te_world e)) led}"
  using fetch_payload_ledger [of e task led] by (auto simp: request_job_name)

subsection \<open>The loop leaves the ledger alone\<close>

lemma fold_directives_ledger:
  "lp_ledger (fold (\<lambda>d s. case f d (lp_layered s) (lp_cfg s) of
        (ack, l, cfg) \<Rightarrow> s\<lparr>lp_layered := l, lp_cfg := cfg\<rparr>) ds st) = lp_ledger st"
proof (induction ds arbitrary: st)
  case (Cons d ds)
  then show ?case by (simp split: prod.splits)
qed simp

lemma loop_body_ledger: "lp_ledger (fst (loop_body interval i st)) = lp_ledger st"
proof -
  have d: "lp_ledger (apply_directives i s) = lp_ledger s" for s
    unfolding apply_directives_def Let_def by (auto simp: fold_directives_ledger split: sum.splits)
  have r: "lp_ledger (apply_remote i s) = lp_ledger s" for s
    unfolding apply_remote_def Let_def by (auto split: sum.splits option.splits)
  have f: "lp_ledger (fst (poll_failed t err s)) = lp_ledger s" for t err s
    by (auto simp: poll_failed_def split: option.splits)
  have p: "lp_ledger (fst (poll_succeeded t rc pr s)) = lp_ledger s" for t rc pr s
    unfolding poll_succeeded_def Let_def by (auto split: option.splits prod.splits bool.splits)
  show ?thesis
    unfolding loop_body_def Let_def by (auto simp: f p d r split: sum.splits)
qed

subsection \<open>The invariant\<close>

lemma int_str_inject [simp]: "int_str i = int_str j \<longleftrightarrow> i = j"
proof -
  have "nat_str n \<noteq> CHR ''-'' # s" for n s using nat_str_head [of n] by (metis list.inject)
  moreover have "CHR ''-'' # s \<noteq> nat_str n" for n s using nat_str_head [of n] by (metis list.inject)
  ultimately show ?thesis by (auto simp: int_str_def)
qed

lemma request_job_inject [simp]: "request_job i = request_job j \<longleftrightarrow> i = j"
  by (simp add: request_job_def)

definition holders :: "(int \<times> stage) list \<Rightarrow> go_string set" where
  "holders ts = request_job ` {i. map_of ts i = Some Holding}"

definition live_inv :: "int \<Rightarrow> live \<Rightarrow> bool" where
  "live_inv M s \<longleftrightarrow>
     loop_inv M (lv_loop s) \<and> map fst (lv_tasks s) = lp_active (lv_loop s) \<and> ledger_inv (lp_ledger (lv_loop s)) \<and>
     fst ` set (reservations (lp_ledger (lv_loop s))) = holders (lv_tasks s)"

lemma reserved_names_release:
  "fst ` set (reservations (ReleaseDisk j l)) = fst ` set (reservations l) - {j}"
proof (cases "map_of (reservations l) j")
  case None
  then have "j \<notin> fst ` set (reservations l)" by (simp add: map_of_eq_None_iff)
  with None show ?thesis by (simp add: ReleaseDisk_def)
next
  case (Some n)
  then show ?thesis by (auto simp: ReleaseDisk_def dom_map_of_conv_image_fst [symmetric] delete_conv')
qed

lemma reserved_names_reserve:
  "fst ` set (reservations (ReserveDisk j n l)) = insert j (fst ` set (reservations l))"
  by (simp add: ReserveDisk_def Let_def dom_map_of_conv_image_fst [symmetric] update_conv')

lemma holders_update:
  "holders (AList.update i Holding ts) = insert (request_job i) (holders ts)"
  "st \<noteq> Holding \<Longrightarrow> holders (AList.update i st ts) = holders ts - {request_job i}"
  by (auto simp: holders_def update_conv')

lemma map_fst_update_known: "k \<in> fst ` set xs \<Longrightarrow> map fst (AList.update k v xs) = map fst xs"
  by (induction xs) auto

lemma live_step_inv:
  assumes "live_inv M s" "live_step interval ev s = Some s'" "bounded_event M ev"
  shows "live_inv M s'"
proof (cases ev)
  case (Iterated i)
  obtain st' res where l: "loop_body interval i (lv_loop s) = (st', res)" by fastforce
  have s': "s' = \<lparr>lv_loop = st', lv_tasks = launch res (lv_tasks s)\<rparr>" using assms(2) Iterated l by simp
  have "agent_step M interval (lv_loop s) st'"
    using assms(3) Iterated by (intro agent_step.iterate [OF l]) (auto simp: bounded_event_def)
  then have inv: "loop_inv M st'" using assms(1) agent_step_inv by (auto simp: live_inv_def)
  have led: "lp_ledger st' = lp_ledger (lv_loop s)" using loop_body_ledger [of interval i "lv_loop s"] l by simp
  have fresh: "i \<notin> fst ` set (lv_tasks s)" if "i \<notin> set (lp_active (lv_loop s))" for i
    using that assms(1) by (metis list.set_map live_inv_def)
  have "map fst (launch res (lv_tasks s)) = lp_active st' \<and> holders (launch res (lv_tasks s)) = holders (lv_tasks s)"
  proof (cases res)
    case (Dispatch task rc)
    with loop_body_cases [OF l] have a: "RequestID task \<notin> set (lp_active (lv_loop s))"
      "lp_active st' = lp_active (lv_loop s) @ [RequestID task]" by simp_all
    have "holders (AList.update (RequestID task) Launched (lv_tasks s)) = holders (lv_tasks s) - {request_job (RequestID task)}"
      by (rule holders_update) simp
    moreover have "request_job (RequestID task) \<notin> holders (lv_tasks s)"
      using fresh [OF a(1)] by (auto simp: holders_def dest: map_of_SomeD intro: rev_image_eqI)
    ultimately show ?thesis
      using a assms(1) fresh [OF a(1)] by (simp add: Dispatch launch_def update_fresh live_inv_def)
  qed (use loop_body_cases [OF l] assms(1) in \<open>simp_all add: launch_def live_inv_def\<close>)
  with inv led assms(1) show ?thesis by (simp add: s' live_inv_def)
next
  case (Sized i n)
  then have st: "map_of (lv_tasks s) i = Some Launched"
    and s': "s' = (with_ledger (ReserveDisk (request_job i) n) s)\<lparr>lv_tasks := AList.update i Holding (lv_tasks s)\<rparr>"
    using assms(2) by (simp_all split: if_splits)
  have "i \<in> fst ` set (lv_tasks s)" using st by (metis map_of_eq_None_iff option.distinct(1))
  then have keys: "map fst (AList.update i Holding (lv_tasks s)) = map fst (lv_tasks s)" by (rule map_fst_update_known)
  have "request_job i \<notin> fst ` set (reservations (lp_ledger (lv_loop s)))"
    using assms(1) st by (auto simp: live_inv_def holders_def)
  then have "ledger_inv (ReserveDisk (request_job i) n (lp_ledger (lv_loop s)))"
    using assms(1) by (intro ReserveDisk_inv) (auto simp: live_inv_def)
  with assms(1) keys show ?thesis
    by (simp add: s' live_inv_def loop_inv_def with_ledger_def reserved_names_reserve holders_update)
next
  case (CleanedUp i)
  then have st: "map_of (lv_tasks s) i \<noteq> None"
    and s': "s' = (with_ledger (ReleaseDisk (request_job i)) s)\<lparr>lv_tasks := AList.update i Cleaned (lv_tasks s)\<rparr>"
    using assms(2) by (auto split: if_splits)
  have "i \<in> fst ` set (lv_tasks s)" using st by (metis map_of_eq_None_iff)
  then have keys: "map fst (AList.update i Cleaned (lv_tasks s)) = map fst (lv_tasks s)" by (rule map_fst_update_known)
  have "ledger_inv (ReleaseDisk (request_job i) (lp_ledger (lv_loop s)))"
    using assms(1) by (intro ReleaseDisk_inv) (simp add: live_inv_def)
  with assms(1) keys show ?thesis
    by (simp add: s' live_inv_def loop_inv_def with_ledger_def reserved_names_release holders_update)
next
  case (Released_task i)
  then have st: "map_of (lv_tasks s) i \<noteq> Some Holding"
    and s': "s' = \<lparr>lv_loop = (lv_loop s)\<lparr>lp_active := releaseTask i (lp_active (lv_loop s))\<rparr>, lv_tasks = AList.delete i (lv_tasks s)\<rparr>"
    using assms(2) by (auto split: if_splits)
  have "agent_step M interval (lv_loop s) (lv_loop s')" unfolding s' by (simp add: agent_step.finish)
  then have "loop_inv M (lv_loop s')" using assms(1) agent_step_inv by (auto simp: live_inv_def)
  moreover have "map fst (AList.delete i ts) = releaseTask i (map fst ts)" for ts :: "(int \<times> stage) list"
    by (induction ts) (auto simp: releaseTask_def AList.delete_eq)
  moreover have "holders (AList.delete i (lv_tasks s)) = holders (lv_tasks s)"
    using st by (auto simp: holders_def AList.delete_conv)
  ultimately show ?thesis using assms(1) by (simp add: s' live_inv_def)
qed


definition live_moves :: "int \<Rightarrow> duration \<Rightarrow> live \<Rightarrow> live \<Rightarrow> bool" where
  "live_moves M interval s s' \<longleftrightarrow> (\<exists>ev. bounded_event M ev \<and> live_step interval ev s = Some s')"

lemma live_step_agent:
  assumes "bounded_event M ev" "live_step interval ev s = Some s'"
  shows "agent_step M interval (lv_loop s) (lv_loop s')"
proof (cases ev)
  case (Iterated i)
  obtain st' res where l: "loop_body interval i (lv_loop s) = (st', res)" by fastforce
  moreover have "agent_step M interval (lv_loop s) st'"
    using assms(1) Iterated by (intro agent_step.iterate [OF l]) (auto simp: bounded_event_def)
  ultimately show ?thesis using assms(2) Iterated by auto
next
  case (Released_task i)
  with assms show ?thesis by (auto simp: agent_step.finish split: if_splits)
next
  case (Sized i n)
  with assms agent_step.running [where M = M and interval = interval and st = "lv_loop s" and g = "lp_aborts (lv_loop s)"] show ?thesis
    by (auto simp: with_ledger_def split: if_splits)
next
  case (CleanedUp i)
  with assms agent_step.running [where M = M and interval = interval and st = "lv_loop s" and g = "lp_aborts (lv_loop s)"] show ?thesis
    by (auto simp: with_ledger_def split: if_splits)
qed

interpretation online: step_simulation "live_moves M interval" "live_inv M" "agent_step M interval" lv_loop for M interval
  by unfold_locales (auto simp: live_moves_def intro: live_step_inv live_step_agent)

lemma live_run_moves:
  "live_run interval evs s = Some s' \<Longrightarrow> \<forall>ev\<in>set evs. bounded_event M ev \<Longrightarrow> (live_moves M interval)\<^sup>*\<^sup>* s s'"
proof (induction evs arbitrary: s)
  case (Cons ev evs)
  then obtain s1 where "live_step interval ev s = Some s1" "live_run interval evs s1 = Some s'" by (auto split: option.splits)
  with Cons show ?case by (auto simp: live_moves_def intro: converse_rtranclp_into_rtranclp)
qed simp

definition idle_live :: "int \<Rightarrow> live \<Rightarrow> bool" where
  "idle_live M s \<longleftrightarrow> lv_tasks s = [] \<and> lp_active (lv_loop s) = [] \<and> lp_ledger (lv_loop s) = no_reservations \<and>
     lp_maxDL (lv_loop s) \<le> M \<and> 0 \<le> M"

lemma idle_live_inv: "idle_live M s \<Longrightarrow> live_inv M s"
  by (auto simp: idle_live_def live_inv_def loop_inv_def activeTaskCount_def ledger_inv_def no_reservations_def held_bytes_def holders_def)

lemma live_inv_reservations:
  assumes "live_inv M s"
  defines "led \<equiv> lp_ledger (lv_loop s)" and "act \<equiv> lp_active (lv_loop s)"
  shows "fst ` set (reservations led) \<subseteq> request_job ` set act" "int (length (reservations led)) \<le> M"
proof -
  have act: "set act = fst ` set (lv_tasks s)" using assms by (metis list.set_map live_inv_def)
  have "holders (lv_tasks s) \<subseteq> request_job ` fst ` set (lv_tasks s)"
    by (auto simp: holders_def dest!: map_of_SomeD intro!: imageI) (metis fst_conv imageI)
  then show sub: "fst ` set (reservations led) \<subseteq> request_job ` set act" using assms(1) by (simp add: act led_def live_inv_def)
  have "distinct (map fst (reservations led))" using assms(1) by (simp add: led_def live_inv_def ledger_inv_def)
  then have "length (reservations led) = card (fst ` set (reservations led))" by (metis distinct_card length_map list.set_map)
  also have "\<dots> \<le> card (request_job ` set act)" using sub by (intro card_mono) simp_all
  also have "\<dots> \<le> length act" using card_image_le [of "set act" request_job] card_length [of act] by simp
  finally show "int (length (reservations led)) \<le> M"
    using assms(1) by (simp add: act_def live_inv_def loop_inv_def activeTaskCount_def)
qed

text \<open>
  C16. Disk space is held by running tasks only. Start the agent without tasks and let the loop and the
  tasks run in any order, whatever the site answers: every reservation belongs to a request that
  is active, there are never more of them than tasks may run, the counter is at every moment
  their sum, and it is zero whenever no task is active. So no task that ended, however it ended,
  keeps later ones from being admitted.
\<close>

theorem reservations_of_running:
  assumes "idle_live M s0" "live_run interval evs s0 = Some s" "\<forall>ev\<in>set evs. bounded_event M ev"
  shows "(\<forall>name\<in>fst ` set (reservations (lp_ledger (lv_loop s))). \<exists>i\<in>set (lp_active (lv_loop s)). name = request_job i) \<and>
    int (length (reservations (lp_ledger (lv_loop s)))) \<le> M \<and>
    diskReserved (lp_ledger (lv_loop s)) = word_of_int (held_bytes (lp_ledger (lv_loop s))) \<and>
    (lp_active (lv_loop s) = [] \<longrightarrow> diskReserved (lp_ledger (lv_loop s)) = 0)"
proof -
  have inv: "live_inv M s" by (rule online.inv_reach [OF live_run_moves [OF assms(2,3)] idle_live_inv [OF assms(1)]])
  note r = live_inv_reservations [OF inv]
  have sum: "diskReserved (lp_ledger (lv_loop s)) = word_of_int (held_bytes (lp_ledger (lv_loop s)))"
    using inv by (simp add: live_inv_def ledger_inv_def)
  moreover have "diskReserved (lp_ledger (lv_loop s)) = 0" if "lp_active (lv_loop s) = []"
    using r(1) that sum by (simp add: held_bytes_def)
  ultimately show ?thesis using r by blast
qed

lemma demo_dispatched:
  "\<exists>rc. loop_body second demo_input idle_loop = (idle_loop\<lparr>lp_active := [7]\<rparr>, Dispatch demo_task rc)"
proof -
  obtain st res where l: "loop_body second demo_input idle_loop = (st, res)" by fastforce
  have st: "st = idle_loop\<lparr>lp_active := [7]\<rparr>" using demo_dispatch l by simp
  have "res \<noteq> Shutdown" "\<nexists>d. res = Sleep d"
    using loop_body_cases [OF l] by (auto simp: st idle_loop_def)
  then obtain task rc where res: "res = Dispatch task rc" by (cases res) auto
  with loop_body_cases [OF l] have "task = demo_task" by (simp add: demo_input_def)
  with l st res show ?thesis by blast
qed

definition idle_live_loop :: live where
  "idle_live_loop = \<lparr>lv_loop = idle_loop, lv_tasks = []\<rparr>"

theorem reservations_of_running_witness:
  "\<exists>s. live_run second [Iterated demo_input, Sized 7 1000, CleanedUp 7, Released_task 7] idle_live_loop = Some s \<and>
     diskReserved (lp_ledger (lv_loop s)) = 0"
proof -
  let ?evs = "[Iterated demo_input, Sized 7 1000, CleanedUp 7, Released_task 7]"
  obtain rc where b: "loop_body second demo_input idle_loop = (idle_loop\<lparr>lp_active := [7]\<rparr>, Dispatch demo_task rc)"
    using demo_dispatched by blast
  have id: "RequestID demo_task = 7" by (simp add: demo_task_def)
  have run: "\<exists>s. live_run second ?evs idle_live_loop = Some s \<and> lp_active (lv_loop s) = []"
    by (simp add: idle_live_loop_def b launch_def id with_ledger_def releaseTask_def)
  then obtain s where s: "live_run second ?evs idle_live_loop = Some s" "lp_active (lv_loop s) = []" by blast
  have "idle_live 1 idle_live_loop" by (simp add: idle_live_def idle_live_loop_def idle_loop_def)
  moreover have "\<forall>ev\<in>set ?evs. bounded_event 1 ev" by (simp add: bounded_event_def demo_input_def)
  ultimately show ?thesis using reservations_of_running [OF _ s(1)] s by blast
qed

end
