(* ===== verification/Row_Columns.thy ===== *)
theory Row_Columns
  imports Local_Ui
begin

text \<open>
  How rows are stored: the columns the statements of \<open>src/storage\<close> write and the scans that read them
  back (\<open>scanGroup\<close>, \<open>scanJob\<close>, the loops of \<open>ListWatches\<close>). A column holds one SQLite value; a
  \<open>CJson\<close> is a text column with the text \<open>encoding/json\<close> writes for that value.
\<close>

datatype cell = CNull | CInt int | CReal rat | CText go_string | CTime time | CJson json

subsection \<open>Single columns\<close>

definition nullInt :: "int option \<Rightarrow> cell" where
  "nullInt p = (case p of None \<Rightarrow> CNull | Some i \<Rightarrow> CInt i)"

text \<open>A Go \<open>bool\<close> is stored as 0 or 1.\<close>

definition boolToInt :: "bool \<Rightarrow> int" where
  "boolToInt b = (if b then 1 else 0)"

definition nullBool :: "bool option \<Rightarrow> cell" where
  "nullBool p = (case p of None \<Rightarrow> CNull | Some b \<Rightarrow> CInt (boolToInt b))"

definition nullTime :: "time option \<Rightarrow> cell" where
  "nullTime p = (case p of None \<Rightarrow> CNull | Some t \<Rightarrow> CTime t)"

definition nullText :: "go_string option \<Rightarrow> cell" where
  "nullText p = (case p of None \<Rightarrow> CNull | Some s \<Rightarrow> CText s)"

text \<open>What \<open>Scan\<close> makes of a column; \<open>None\<close> is its error.\<close>

fun scan_int :: "cell \<Rightarrow> int option" where
  "scan_int (CInt i) = Some i" | "scan_int _ = None"

fun scan_text :: "cell \<Rightarrow> go_string option" where
  "scan_text (CText s) = Some s" | "scan_text _ = None"

fun scan_real :: "cell \<Rightarrow> rat option" where
  "scan_real (CReal r) = Some r" | "scan_real _ = None"

fun scan_time :: "cell \<Rightarrow> time option" where
  "scan_time (CTime t) = Some t" | "scan_time _ = None"

fun scan_null_int :: "cell \<Rightarrow> int option option" where
  "scan_null_int CNull = Some None" | "scan_null_int (CInt i) = Some (Some i)" | "scan_null_int _ = None"

fun scan_null_bool :: "cell \<Rightarrow> bool option option" where
  "scan_null_bool CNull = Some None"
| "scan_null_bool (CInt i) = (if i = 0 then Some (Some False) else if i = 1 then Some (Some True) else None)"
| "scan_null_bool _ = None"

fun scan_null_time :: "cell \<Rightarrow> time option option" where
  "scan_null_time CNull = Some None" | "scan_null_time (CTime t) = Some (Some t)" | "scan_null_time _ = None"

text \<open>\<open>COALESCE(c, '')\<close>\<close>

fun coalesce :: "cell \<Rightarrow> cell" where
  "coalesce CNull = CText []" | "coalesce c = c"

text \<open>A JSON column into a \<open>[]string\<close>: errors are ignored, what is no string becomes the empty one.\<close>

definition str_elem :: "json \<Rightarrow> go_string" where
  "str_elem x = (case x of JStr s \<Rightarrow> s | _ \<Rightarrow> [])"

fun scan_strings :: "cell \<Rightarrow> go_string list option" where
  "scan_strings (CJson (JArr xs)) = Some (map str_elem xs)"
| "scan_strings (CJson v) = Some []"
| "scan_strings (CText s) = Some []"
| "scan_strings _ = None"

subsection \<open>Rows\<close>

definition group_cells :: "group \<Rightarrow> cell list" where
  "group_cells g =
     [CInt (g_ID g), CText (g_Name g), CText (g_Type g), CJson (JArr (map JStr (g_Newsgroups g))),
      CJson (JArr (map JStr (g_BannedExtensions g))), nullInt (g_Screenshots g), nullInt (g_SampleSeconds g),
      nullInt (g_Par2Redundancy g), nullBool (g_Obfuscate g), CText (g_WatermarkText g), CText (g_Source g),
      CInt (g_Version g), CTime (g_CreatedAt g), CTime (g_UpdatedAt g)]"

definition scanGroup :: "cell list \<Rightarrow> group option" where
  "scanGroup cs =
     (case cs of
        [c1, c2, c3, c4, c5, c6, c7, c8, c9, c10, c11, c12, c13, c14] \<Rightarrow>
          (case (scan_int c1, scan_text c2, scan_text c3, scan_strings c4, scan_strings c5, scan_null_int c6, scan_null_int c7) of
             (Some i, Some n, Some ty, Some ngs, Some bans, Some ss, Some ssec) \<Rightarrow>
               (case (scan_null_int c8, scan_null_bool c9, scan_text c10, scan_text c11, scan_int c12, scan_time c13, scan_time c14) of
                  (Some p2, Some ob, Some wm, Some src, Some v, Some ca, Some ua) \<Rightarrow>
                    Some \<lparr>g_ID = i, g_Name = n, g_Type = ty, g_Newsgroups = ngs, g_Screenshots = ss, g_SampleSeconds = ssec,
                      g_Par2Redundancy = p2, g_Obfuscate = ob, g_WatermarkText = wm, g_BannedExtensions = bans, g_Source = src,
                      g_Version = v, g_CreatedAt = ca, g_UpdatedAt = ua\<rparr>
                | _ \<Rightarrow> None)
           | _ \<Rightarrow> None)
      | _ \<Rightarrow> None)"

definition watch_cells :: "watch_folder \<Rightarrow> cell list" where
  "watch_cells w =
     [CInt (w_ID w), CText (w_Path w), nullInt (w_GroupID w), CInt (boolToInt (w_Enabled w)), CTime (w_CreatedAt w),
      CTime (w_UpdatedAt w)]"

definition scan_watch :: "cell list \<Rightarrow> watch_folder option" where
  "scan_watch cs =
     (case cs of
        [c1, c2, c3, c4, c5, c6] \<Rightarrow>
          (case (scan_int c1, scan_text c2, scan_null_int c3, scan_int c4, scan_time c5, scan_time c6) of
             (Some i, Some p, Some gid, Some en, Some ca, Some ua) \<Rightarrow>
               Some \<lparr>w_ID = i, w_Path = p, w_GroupID = gid, w_Enabled = (en \<noteq> 0), w_CreatedAt = ca, w_UpdatedAt = ua\<rparr>
           | _ \<Rightarrow> None)
      | _ \<Rightarrow> None)"

definition read_status :: "go_string \<Rightarrow> job_status option" where
  "read_status s = find (\<lambda>st. status_text st = s) [Queued, Processing, Completed, Failed, CancelledJob]"

definition job_cells :: "offline_job \<Rightarrow> cell list" where
  "job_cells j =
     [CInt (j_ID j), CText (j_SourcePath j), CText (j_Title j), nullInt (j_GroupID j), CText (j_GroupName j),
      CText (status_text (j_Status j)), CText (j_Phase j), CReal (j_Progress j), nullText (j_Error j), nullText (j_NzbPath j),
      nullText (j_Password j), CTime (j_CreatedAt j), nullTime (j_StartedAt j), nullTime (j_CompletedAt j)]"

definition scanJob :: "cell list \<Rightarrow> offline_job option" where
  "scanJob cs =
     (case cs of
        [c1, c2, c3, c4, c5, c6, c7, c8, c9, c10, c11, c12, c13, c14] \<Rightarrow>
          (case (scan_int c1, scan_text c2, scan_text c3, scan_null_int c4, scan_text c5, Option.bind (scan_text c6) read_status, scan_text c7) of
             (Some i, Some p, Some ti, Some gid, Some gn, Some st, Some ph) \<Rightarrow>
               (case (scan_real c8, scan_text (coalesce c9), scan_text (coalesce c10), scan_text (coalesce c11), scan_time c12,
                      scan_null_time c13, scan_null_time c14) of
                  (Some pr, Some er, Some nzb, Some pw, Some ca, Some sa, Some co) \<Rightarrow>
                    Some \<lparr>j_ID = i, j_SourcePath = p, j_Title = ti, j_GroupID = gid, j_GroupName = gn, j_Status = st, j_Phase = ph,
                      j_Progress = pr, j_Error = Some er, j_NzbPath = Some nzb, j_Password = Some pw, j_CreatedAt = ca,
                      j_StartedAt = sa, j_CompletedAt = co\<rparr>
                | _ \<Rightarrow> None)
           | _ \<Rightarrow> None)
      | _ \<Rightarrow> None)"

subsection \<open>What is stored is read back\<close>

lemma scan_null [simp]:
  "scan_null_int (nullInt p) = Some p" "scan_null_bool (nullBool b) = Some b" "scan_null_time (nullTime t) = Some t"
  "scan_text (coalesce (nullText s)) = Some (case s of None \<Rightarrow> [] | Some x \<Rightarrow> x)"
  by (simp_all add: nullInt_def nullBool_def nullTime_def nullText_def boolToInt_def split: option.split)

lemma read_status_text [simp]: "read_status (status_text st) = Some st"
  by (cases st) (simp_all add: read_status_def status_text_def)

lemma map_str_elem [simp]: "map str_elem (map JStr xs) = xs"
  by (simp add: str_elem_def comp_def)

text \<open>
  Rows survive storage. A group and a watch folder are read back exactly as they were stored, lists,
  inherited settings and all; a job too, except that a column that was never written reads as
  the empty text.
\<close>

theorem rows_roundtrip:
  "scanGroup (group_cells g) = Some g \<and> scan_watch (watch_cells w) = Some w \<and>
   scanJob (job_cells j) =
     Some (j\<lparr>j_Error := Some (case j_Error j of None \<Rightarrow> [] | Some s \<Rightarrow> s),
             j_NzbPath := Some (case j_NzbPath j of None \<Rightarrow> [] | Some s \<Rightarrow> s),
             j_Password := Some (case j_Password j of None \<Rightarrow> [] | Some s \<Rightarrow> s)\<rparr>)"
  by (simp add: scanGroup_def group_cells_def scan_watch_def watch_cells_def scanJob_def job_cells_def boolToInt_def
      del: map_map)

subsection \<open>Helpers of the pages\<close>

definition derefBool :: "bool option \<Rightarrow> bool" where
  "derefBool b = (case b of None \<Rightarrow> False | Some x \<Rightarrow> x)"

definition statusClass :: "go_string \<Rightarrow> go_string" where
  "statusClass s =
     (if s = ''completed'' then ''ok'' else if s = ''failed'' then ''err'' else if s = ''processing'' then ''yml''
      else if s = ''cancelled'' then ''default'' else ''env'')"

definition isGroup :: "int option \<Rightarrow> int \<Rightarrow> bool" where
  "isGroup sel i \<longleftrightarrow> (case sel of None \<Rightarrow> False | Some s \<Rightarrow> s = i)"

text \<open>The colour tells the statuses apart.\<close>

lemma statusClass_inj: "statusClass (status_text a) = statusClass (status_text b) \<longleftrightarrow> a = b"
  by (cases a; cases b) (simp_all add: statusClass_def status_text_def)

end
