(* ===== verification/Host_Probes.thy ===== *)
theory Host_Probes
  imports Par2_Tool Agent_Guards
begin

text \<open>
  What the agent asks of its host: the monitor of the network connection (\<open>src/services/network.go\<close>), the
  load of the processor (\<open>cpu_linux.go\<close>), the size of the disk (\<open>disk_linux.go\<close>), and the call of
  \<open>7z\<close> (\<open>archive.go\<close>). The stubs for other platforms are constants.
\<close>

subsection \<open>The network\<close>

text \<open>The answer of the address service: no answer, an answer that could not be read, or its text.\<close>

datatype ip_answer = NoAnswer | Unreadable | Address go_string

record net_state =
  n_VPNStatus :: go_string
  n_PublicIP :: go_string
  n_lastStatus :: go_string

text \<open>One turn of \<open>MonitorNetworkConnection\<close>; \<open>n_lastStatus\<close> is the status last logged.\<close>

definition network_check :: "ip_answer \<Rightarrow> net_state \<Rightarrow> net_state" where
  "network_check a s =
     (case a of
        NoAnswer \<Rightarrow> s\<lparr>n_VPNStatus := ''Disconnected'', n_PublicIP := ''Unknown'', n_lastStatus := ''Disconnected''\<rparr>
      | Unreadable \<Rightarrow> s
      | Address ip \<Rightarrow> s\<lparr>n_VPNStatus := ''Connected'', n_PublicIP := ip, n_lastStatus := ''Connected''\<rparr>)"

definition network_log :: "ip_answer \<Rightarrow> net_state \<Rightarrow> go_string option" where
  "network_log a s =
     (case a of
        NoAnswer \<Rightarrow> if n_lastStatus s \<noteq> ''Disconnected'' then Some ''Network check failed'' else None
      | Unreadable \<Rightarrow> None
      | Address ip \<Rightarrow> if n_lastStatus s \<noteq> ''Connected'' then Some (''VPN Connected. Current Public IP: '' @ ip) else None)"

definition MonitorNetworkConnection :: "ip_answer list \<Rightarrow> net_state \<Rightarrow> net_state" where
  "MonitorNetworkConnection = fold network_check"

text \<open>The state shown is the one of the last check that could be read.\<close>

lemma monitor_shows_last:
  "MonitorNetworkConnection as s =
     (case filter (\<lambda>a. a \<noteq> Unreadable) as of [] \<Rightarrow> s | bs \<Rightarrow> network_check (last bs) s)"
proof (induction as arbitrary: s)
  case (Cons a as)
  have twice: "network_check b (network_check a s) = network_check b s" if "b \<noteq> Unreadable" for b
    using that by (cases b; cases a) (simp_all add: network_check_def)
  have "last bs \<noteq> Unreadable" if "bs = filter (\<lambda>a. a \<noteq> Unreadable) as" "bs \<noteq> []" for bs
    using that last_in_set [of bs] by auto
  with Cons twice show ?case
    by (cases "a = Unreadable")
      (auto simp: MonitorNetworkConnection_def network_check_def [of Unreadable] split: list.split)
qed (simp add: MonitorNetworkConnection_def)

subsection \<open>Processor and disk\<close>

text \<open>\<open>loadavg\<close> is what reading the file gave.\<close>

definition CPUUsagePercent :: "go_string + go_string \<Rightarrow> int \<Rightarrow> go_string + float64" where
  "CPUUsagePercent loadavg numCPU =
     (case loadavg of
        Inl err \<Rightarrow> Inl err
      | Inr text \<Rightarrow>
          (case fields_func is_space text of
             [] \<Rightarrow> Inr 0
           | f # fs \<Rightarrow>
               (case parse_float f of
                  None \<Rightarrow> Inl (''strconv.ParseFloat: parsing '' @ go_quote f @ '': invalid syntax'')
                | Some load \<Rightarrow>
                    (let cpuCount = (if numCPU < 1 then 1 else numCPU);
                         pct = fmul (fdiv load (float_of_int cpuCount)) 100
                     in Inr (if 100 < pct then 100 else pct)))))"

lemma CPUUsagePercent_bound: "CPUUsagePercent loadavg n = Inr p \<Longrightarrow> p \<le> 100"
  by (auto simp: CPUUsagePercent_def Let_def split: sum.splits list.splits option.splits if_splits)

text \<open>\<open>Statfs\<close>: blocks available, blocks, and the block size.\<close>

record statfs =
  Bavail :: u64
  Blocks :: u64
  Bsize :: "64 word"

definition FreeDiskSpace :: "go_string + statfs \<Rightarrow> go_string + u64" where
  "FreeDiskSpace st = (case st of Inl err \<Rightarrow> Inl err | Inr s \<Rightarrow> Inr (Bavail s * Bsize s))"

definition TotalDiskSpace :: "go_string + statfs \<Rightarrow> go_string + u64" where
  "TotalDiskSpace st = (case st of Inl err \<Rightarrow> Inl err | Inr s \<Rightarrow> Inr (Blocks s * Bsize s))"

text \<open>The product is exact, and free space is at most the total, when the size of the disk fits 64 bits.\<close>

lemma disk_space_exact:
  assumes "uint (Blocks s) * uint (Bsize s) < 2 ^ 64" "uint (Bavail s) \<le> uint (Blocks s)"
    and "FreeDiskSpace (Inr s) = Inr f" "TotalDiskSpace (Inr s) = Inr t"
  shows "uint f = uint (Bavail s) * uint (Bsize s) \<and> uint t = uint (Blocks s) * uint (Bsize s) \<and> f \<le> t"
proof -
  have le: "uint (Bavail s) * uint (Bsize s) \<le> uint (Blocks s) * uint (Bsize s)"
    using assms(2) by (intro mult_right_mono) simp_all
  have "uint (Bavail s * Bsize s) = uint (Bavail s) * uint (Bsize s)" "uint (Blocks s * Bsize s) = uint (Blocks s) * uint (Bsize s)"
    using assms(1) le by (simp_all add: uint_word_ariths)
  with assms(3,4) le show ?thesis by (simp add: FreeDiskSpace_def TotalDiskSpace_def word_le_def)
qed

subsection \<open>Encryption\<close>

definition seven_zip :: "go_string \<Rightarrow> go_string \<Rightarrow> go_string \<Rightarrow> command" where
  "seven_zip srcDir destPath password =
     \<lparr>cmd_Name = ''7z'',
      cmd_Args = [''a'', ''-p'' @ password, ''-mhe=on'', ''-mx=0'', ''-mmt=on'', destPath, path_join [srcDir, ''*'']],
      cmd_Dir = srcDir\<rparr>"

text \<open>\<open>run\<close> is the tool: the error and the output on failure.\<close>

definition EncryptWith7z ::
  "(command \<Rightarrow> (go_string \<times> go_string) option) \<Rightarrow> go_string \<Rightarrow> go_string \<Rightarrow> go_string \<Rightarrow> go_string option" where
  "EncryptWith7z run srcDir destPath password =
     map_option (\<lambda>(err, out). ''7z: '' @ err @ '': '' @ out) (run (seven_zip srcDir destPath password))"

end
