(* ===== verification/Spec2Isabelle.thy ===== *)
theory Spec2Isabelle
  imports Upload_Progress Agent_Start Online_System Row_Columns Host_Probes
begin

text \<open>
  \<^bold>\<open>usenet-pipeline: a model of the agent and its properties.\<close>

  The program under \<open>src/\<close> is an agent that posts files to Usenet. It has two pipelines. The online
  pipeline (\<open>src/main.go\<close>) polls an indexer site for requests, downloads a torrent, stages, protects
  and optionally encrypts the files, uploads them as yEnc articles and reports the NZB back. The
  offline pipeline (\<open>src/services/offline_watcher.go\<close>, \<open>offline_processor.go\<close>) watches folders of the
  operator, queues what appears there in a local database and runs the same stages, with the
  NZB written to an output directory. Both share the uploader, the torrent client, the disk
  ledger and the upload slot. A local web interface edits configuration, secrets, groups, watch
  folders and jobs. Every theory below models one part; a definition has the name of the Go
  function it translates, or a name of its own where it is a step of a longer function.

  \<^bold>\<open>How Go is modelled.\<close>
  Strings are lists of bytes (\<open>go_string\<close>). A struct is a record, a \<open>(value, error)\<close> result a sum or an
  option, a mutation an explicit state that is returned. Go integers are \<open>int\<close> where the code
  cannot reach the limits and words of their width where wrap-around matters (checksums, the disk
  ledger, disk sizes). \<open>float64\<close> is a rational with the IEEE rounding written out (\<open>Go_Float\<close>); the
  values the code can meet are finite. Time is a number of nanoseconds with the saturating \<open>Sub\<close>
  of the standard library. A write of a whole file (\<open>os.WriteFile\<close>) has three outcomes: written, not
  opened, or cut short, which leaves the first bytes (\<open>WriteFile\<close>). A deferred call is a scope around the rest of the function. What the
  operating system, the network, SQLite, the torrent library, \<open>ffmpeg\<close>, \<open>ffprobe\<close>, \<open>par2\<close> and \<open>7z\<close>
  answer is a parameter: a field of an environment record, or the list of events a loop meets.
  No fuel is used: a loop runs over the list of its events, attempts or turns, and where the
  code waits for ever the result says so (\<open>Fetching\<close>, \<open>Pending\<close>, \<open>StillRunning\<close>).

  \<^bold>\<open>The theories.\<close>

  \<^item> \<open>Agent_Prelude\<close>, \<open>Go_Strings\<close>, \<open>Go_Float\<close>, \<open>Go_Format\<close>, \<open>Go_Json\<close>: what the source uses of the
    standard library (\<open>strings\<close>, \<open>path/filepath\<close>, \<open>strconv\<close>, \<open>fmt\<close>, \<open>time\<close>, \<open>encoding/json\<close>), with its
    laws: trimming, cleaning of paths and their elements, numbers printed and parsed, rounding.
    \<open>Go_Utf8\<close> decodes runes as a range over a string does, for the encoders that replace invalid
    bytes (\<open>encoding/xml\<close>, \<open>encoding/json\<close>).
    \<open>Agent_Prelude\<close> also holds the locales \<open>step_invariant\<close> and \<open>step_simulation\<close>, interpreted for the
    disk ledger, the poll loop, the database, the online and the offline system.

  \<^item> \<open>Flat_Store\<close>, \<open>Layered_Config\<close>, \<open>Secrets_Store\<close>: the line formats of \<open>config.yml\<close> and the secrets file
    (the locale \<open>flat_format\<close>, interpreted for both), the three tiers of \<open>src/config\<close>, and
    \<open>src/services/secrets.go\<close>. What is written is what a restart
    reads, for values that need no escape.

  \<^item> \<open>Sql_Table\<close>, \<open>Local_Db\<close>, \<open>Group_Store\<close>, \<open>Watch_Store\<close>, \<open>Job_Store\<close>, \<open>Site_Sync\<close>: \<open>src/storage\<close> and
    \<open>site_groups_sync.go\<close>. The locale \<open>sql_table\<close> states what a table with an id and a unique column
    promises; it is interpreted for the three tables. The database stays well-formed under every
    operation; claiming takes the oldest queued job; a sync keeps the operator's groups.
    \<open>Row_Columns\<close> models how the rows are stored in columns and read back.

  \<^item> \<open>Site_Client\<close>, \<open>Site_Reports\<close>: \<open>src/client\<close>: requests, retries on maintenance and upgrade
    answers, and the reports, with how each answer is classified and what a completion sends; the
    size of a screenshot and its bytes are separate answers of the file system.

  \<^item> \<open>Disk_Reserve\<close>, \<open>Torrent_Rules\<close>: the disk ledger of \<open>disk_reserve.go\<close> and the downloads of \<open>torrent.go\<close>. The
    locale \<open>countdown_rule\<close> is the contract of a skip rule; it is interpreted for the slow and the
    low-peers rule. The ledger is exact; the check of the free space and the reservation are
    two steps on two states of the ledger, and what can be over-committed is what others
    reserved in between. A rejection is justified, and a stalled download ends.

  \<^item> \<open>Agent_Guards\<close>, \<open>Online_Task\<close>, \<open>Poll_Loop\<close>: \<open>main.go\<close>: cooldowns, self-pause, live status, watchdog;
    one task from dispatch to report; the poll loop interleaved with tasks. Every task reports
    once and releases what it held; uploaded work is accepted or, if its backup can be
    written, saved; no request runs twice at the same time.
    \<open>Online_System\<close> runs the loop and the tasks side by side on the disk ledger: reservations
    belong to running tasks only.

  \<^item> \<open>Yenc\<close>, \<open>Nntp_Session\<close>, \<open>Nntp_Upload\<close>: \<open>usenet.go\<close>: the encoder with its CRC (the locale \<open>article_codec\<close>
    is what the session needs of it), login and retries against any sequence of network events,
    and the pool of dispatcher, workers and collector as an inductive step relation. A successful
    upload posts every chunk once and the articles decode to the file; no interleaving is stuck,
    and every run is bounded. \<open>Upload_Progress\<close> adds the reports of the collector: no percentage
    passes 100.

  \<^item> \<open>File_Staging\<close>, \<open>Nzb_File\<close>, \<open>Media_Samples\<close>, \<open>Media_Info\<close>, \<open>Par2_Tool\<close>: \<open>blocklist.go\<close>, \<open>obfuscate.go\<close>,
    \<open>archive.go\<close>, \<open>nzb.go\<close>, \<open>video_scan.go\<close>, \<open>screenshots.go\<close>, \<open>manga_screenshots.go\<close>, \<open>audio_samples.go\<close>,
    \<open>mediainfo.go\<close>, \<open>par2.go\<close>. What is removed, staged and protected, under which names; the NZB
    text is read back as what was written, where XML can carry it; samples lie inside the file; the line splitter does
    not depend on how the output arrives.

  \<^item> \<open>Offline_Watcher\<close>, \<open>Offline_Pipeline\<close>, \<open>Offline_Jobs\<close>: the offline pipeline, and what it guarantees: a
    scan queues exactly the settled new entries; a turn of the processor settles the oldest queued
    job and writes only inside its release; the queue drains; a release is written inside the output
    directory, unless a name is a dot or dot-dot; which temporaries can stay behind.

  \<^item> \<open>Local_Ui\<close>, \<open>Ui_Facts\<close>: the handlers of \<open>localui.go\<close>, the routes and the event stream: reading changes
    nothing, no answer depends on a passkey, no form can break the database, and what saving the
    configuration does.

  \<^item> \<open>Offline_System\<close>: the offline side as one system. Its events are single operations of the watcher,
    the interface, the sync and the processor on the shared database, and a crash with the start
    that follows; any order of events is a run. The scan, the sync and a turn of the processor
    are runs of it (\<open>scan_runs\<close>, \<open>sync_runs\<close>, \<open>turn_runs_system\<close>). It refines a board of job cards, only
    the processor's job is ever in processing, and a settled job changes on request only.

  \<^item> \<open>State_File\<close>, \<open>Agent_Start\<close>: the state file of \<open>storage.go\<close> and the start of \<open>main\<close>: what the last run
    saved completely is read back, no job is stranded, and nothing those states can resume is
    swept away; a save that was cut short loses them all (\<open>torn_state_sweeps_all\<close>).

  \<^item> \<open>Host_Probes\<close>: the network monitor, processor load, disk sizes and the call of \<open>7z\<close>.

  \<^bold>\<open>Interaction.\<close>
  The online task composes \<open>Torrent_Rules\<close>, \<open>Disk_Reserve\<close>, \<open>Site_Reports\<close> and the guards; the poll loop
  composes the tasks. The offline processor composes the job store, the downloads, the blocklist,
  the samples, staging, recovery files, the directory upload and the NZB writer, in the order
  of the code, and its theorems are about that composition. The interface composes the stores,
  the layered configuration, the secrets and the site client.

  \<^bold>\<open>Not modelled.\<close>
  The HTML of the page templates and the stylesheets (presentation only); the stubs for other
  platforms; logging; the pooling of buffers; the text of JSON (values are built and decoded,
  not parsed), gzip and TLS; the standard HTTP server beyond the dispatch by path; races on the
  few fields the code reads without its lock; the 64 KiB limit of the scanner that reads the output
  of \<open>par2\<close>; symbolic links in a staged tree; the redirect of the HTTP router for paths that are not
  clean. The chunks of an upload are full reads (\<open>short_read_truncates\<close> shows what a short one
  does). In the offline environment the walk of the
  upload directory is a function of what was staged, and the results of the per-file uploads
  are given; their own correctness is the subject of \<open>Nntp_Upload\<close>.
\<close>

end
